(* ===== verification/Text.thy ===== *)
theory Text
  imports Prelude
begin

text \<open>
  Python text and bytes as the code uses them. Bytes are \<open>char\<close> lists (a \<open>char\<close> is a byte), text is a
  list of code points. UTF-8 encoding is strict: a lone surrogate cannot be encoded. A decoded JSON
  document is a value of the datatype \<open>json\<close>; an object keeps its members in order.
\<close>

type_synonym py_bytes = string
type_synonym py_text = "nat list"

definition ascii_text :: "string \<Rightarrow> py_text" where
  "ascii_text s = map of_char s"

definition utf8_char :: "nat \<Rightarrow> py_bytes option" where
  "utf8_char c =
     (if c < 0x80 then Some [char_of c]
      else if c < 0x800 then Some [char_of (0xC0 + c div 64), char_of (0x80 + c mod 64)]
      else if 0xD800 \<le> c \<and> c \<le> 0xDFFF then None
      else if c < 0x10000
      then Some [char_of (0xE0 + c div 4096), char_of (0x80 + c div 64 mod 64),
             char_of (0x80 + c mod 64)]
      else if c < 0x110000
      then Some [char_of (0xF0 + c div 262144), char_of (0x80 + c div 4096 mod 64),
             char_of (0x80 + c div 64 mod 64), char_of (0x80 + c mod 64)]
      else None)"

fun utf8_encode :: "py_text \<Rightarrow> py_bytes option" where
  "utf8_encode [] = Some []"
| "utf8_encode (c # cs) =
     Option.bind (utf8_char c) (\<lambda>b. Option.bind (utf8_encode cs) (\<lambda>bs. Some (b @ bs)))"

lemma utf8_encode_append:
  "utf8_encode (xs @ ys) =
     Option.bind (utf8_encode xs) (\<lambda>a. Option.bind (utf8_encode ys) (\<lambda>b. Some (a @ b)))"
  by (induction xs) (simp_all add: bind_assoc [symmetric] split: bind_split)

lemma ascii_text_inject [simp]: "ascii_text s = ascii_text t \<longleftrightarrow> s = t"
proof -
  have "inj (of_char :: char \<Rightarrow> nat)" by (rule injI) simp
  then show ?thesis by (simp add: ascii_text_def inj_map_eq_map)
qed

lemma utf8_encode_ascii: "\<forall>c \<in> set s. (of_char c :: nat) < 128 \<Longrightarrow> utf8_encode (ascii_text s) = Some s"
  by (induction s) (simp_all add: ascii_text_def utf8_char_def)

text \<open>\<open>str.partition\<close>: what precedes the first occurrence, whether it occurs, what follows it.\<close>

fun partition_text :: "py_text \<Rightarrow> py_text \<Rightarrow> py_text \<times> bool \<times> py_text" where
  "partition_text sep [] = (if sep = [] then ([], True, []) else ([], False, []))"
| "partition_text sep (c # cs) =
     (if take (length sep) (c # cs) = sep then ([], True, drop (length sep) (c # cs))
      else (case partition_text sep cs of (before, found, after) \<Rightarrow> (c # before, found, after)))"

lemma partition_text_join:
  "partition_text sep s = (before, found, after) \<Longrightarrow>
     s = before @ (if found then sep @ after else []) \<and> (\<not> found \<longrightarrow> after = [])"
proof (induction s arbitrary: before)
  case Nil
  then show ?case by (auto split: if_splits)
next
  case (Cons c cs)
  show ?case
  proof (cases "take (length sep) (c # cs) = sep")
    case True
    with Cons.prems show ?thesis
      using append_take_drop_id [of "length sep" "c # cs"] by auto
  next
    case False
    then obtain b where "partition_text sep cs = (b, found, after)" "before = c # b"
      using Cons.prems by (auto split: prod.splits)
    then show ?thesis using Cons.IH by simp
  qed
qed

datatype json =
    JNull
  | JBool bool
  | JInt int
  | JFloat string
  | JStr py_text
  | JArr "json list"
  | JObj "(py_text \<times> json) list"

text \<open>\<open>dict.get\<close>: keys of a decoded object are distinct.\<close>

definition json_get :: "(py_text \<times> json) list \<Rightarrow> string \<Rightarrow> json option" where
  "json_get members key = map_of members (ascii_text key)"

section \<open>Strict UTF-8 decoding\<close>

text \<open>
  The number of bytes a leading byte announces, the code point the bytes spell, and the check that the
  code point is encoded by exactly these bytes; it refuses overlong forms, surrogates and stray
  continuation bytes.
\<close>

definition utf8_width :: "char \<Rightarrow> nat" where
  "utf8_width b =
     (let n = of_char b :: nat
      in if n < 0x80 then 1 else if n < 0xE0 then 2 else if n < 0xF0 then 3 else 4)"

definition utf8_value :: "py_bytes \<Rightarrow> nat" where
  "utf8_value s =
     (case map of_char s of
        [a] \<Rightarrow> a
      | [a, b] \<Rightarrow> 64 * (a - 0xC0) + (b - 0x80)
      | [a, b, c] \<Rightarrow> 4096 * (a - 0xE0) + 64 * (b - 0x80) + (c - 0x80)
      | [a, b, c, d] \<Rightarrow> 262144 * (a - 0xF0) + 4096 * (b - 0x80) + 64 * (c - 0x80) + (d - 0x80)
      | _ \<Rightarrow> 0)"

function utf8_decode :: "py_bytes \<Rightarrow> py_text option" where
  "utf8_decode [] = Some []"
| "utf8_decode (b # bs) =
     (let k = utf8_width b; s = take k (b # bs); c = utf8_value s
      in if utf8_char c = Some s
         then Option.bind (utf8_decode (drop (k - 1) bs)) (\<lambda>t. Some (c # t))
         else None)"
  by pat_completeness auto
termination by (relation "measure length") auto

lemma base_64_2: "64 * (c div 64) + c mod 64 = (c :: nat)"
  by simp

lemma base_64_3: "4096 * (c div 4096) + 64 * (c div 64 mod 64) + c mod 64 = (c :: nat)"
proof -
  have "c div 4096 = c div 64 div 64" by (simp add: div_mult2_eq [symmetric])
  with base_64_2 [of c] base_64_2 [of "c div 64"] show ?thesis by linarith
qed

lemma base_64_4:
  "262144 * (c div 262144) + 4096 * (c div 4096 mod 64) + 64 * (c div 64 mod 64) + c mod 64 = (c :: nat)"
proof -
  have "c div 262144 = c div 4096 div 64" by (simp add: div_mult2_eq [symmetric])
  with base_64_3 [of c] base_64_2 [of "c div 4096"] show ?thesis by linarith
qed

lemma utf8_char_decode:
  assumes "utf8_char c = Some s"
  shows "\<exists>b bs. s = b # bs \<and> utf8_width b = length s \<and> utf8_value s = c"
proof -
  consider (1) "c < 0x80" | (2) "0x80 \<le> c" "c < 0x800" | (3) "0x800 \<le> c" "c < 0x10000"
    | (4) "0x10000 \<le> c" "c < 0x110000" | (5) "0x110000 \<le> c" by linarith
  then show ?thesis
  proof cases
    case 1
    then show ?thesis using assms by (auto simp: utf8_char_def utf8_width_def utf8_value_def Let_def)
  next
    case 2
    have "c div 64 < 32" using 2 by (simp add: div_less_iff_less_mult)
    then show ?thesis using assms 2 by (auto simp: utf8_char_def utf8_width_def utf8_value_def Let_def)
  next
    case 3
    define x y z where "x = c div 4096" and "y = c div 64 mod 64" and "z = c mod 64"
    have "x < 16" using 3 by (simp add: x_def div_less_iff_less_mult)
    moreover have "y < 64" "z < 64" by (simp_all add: y_def z_def)
    moreover have "4096 * x + 64 * y + z = c" unfolding x_def y_def z_def by (rule base_64_3)
    moreover have "s = [char_of (0xE0 + x), char_of (0x80 + y), char_of (0x80 + z)]"
      using assms 3 unfolding utf8_char_def x_def [symmetric] y_def [symmetric] z_def [symmetric]
      by (auto split: if_splits)
    ultimately show ?thesis by (auto simp: utf8_width_def utf8_value_def Let_def)
  next
    case 4
    define w x y z where "w = c div 262144" and "x = c div 4096 mod 64" and "y = c div 64 mod 64"
      and "z = c mod 64"
    have "w < 8" using 4 by (simp add: w_def div_less_iff_less_mult)
    moreover have "x < 64" "y < 64" "z < 64" by (simp_all add: x_def y_def z_def)
    moreover have "262144 * w + 4096 * x + 64 * y + z = c"
      unfolding w_def x_def y_def z_def by (rule base_64_4)
    moreover have "s = [char_of (0xF0 + w), char_of (0x80 + x), char_of (0x80 + y), char_of (0x80 + z)]"
      using assms 4
      unfolding utf8_char_def w_def [symmetric] x_def [symmetric] y_def [symmetric] z_def [symmetric]
      by (auto split: if_splits)
    ultimately show ?thesis by (auto simp: utf8_width_def utf8_value_def Let_def)
  next
    case 5
    then show ?thesis using assms by (auto simp: utf8_char_def split: if_splits)
  qed
qed

lemma utf8_decode_encode: "utf8_encode t = Some s \<Longrightarrow> utf8_decode s = Some t"
proof (induction t arbitrary: s)
  case Nil
  then show ?case by simp
next
  case (Cons c t)
  then obtain x y where x: "utf8_char c = Some x" and y: "utf8_encode t = Some y" and s: "s = x @ y"
    by (auto split: bind_splits)
  from utf8_char_decode [OF x] obtain b bs where b: "x = b # bs" "utf8_width b = length x" "utf8_value x = c"
    by blast
  then show ?case using x Cons.IH [OF y] by (simp add: s Let_def)
qed

end
