(* ===== verification/Affinity.thy ===== *)
theory Affinity
  imports Text
begin

text \<open>
  The document-affinity hints of \<open>vllm_affinity.py\<close>: the digest of a chat payload's document prefix,
  the bounded history with least-recently-used eviction, and the routing choice. The history's
  \<open>OrderedDict\<close> is the association list of its items, oldest first. SHA-256 is a parameter. A replica
  is the integer 0 or 1, a pair indexed by it a pair.
\<close>

section \<open>Operations\<close>

datatype router_policy = ROUND_ROBIN | LEAST_BUSY | CACHE_ONLY | CACHE_PLUS_LOAD | CACHE_SATURATION

datatype route_reason =
    R_ROUND_ROBIN | R_LEAST_BUSY | R_OVERLOAD_ESCAPE | R_SATURATED_ESCAPE | R_ESTIMATED_AFFINITY
  | R_AFFINITY_TIE

definition history_keys :: nat where
  "history_keys = 4096"

definition history_ttl_ns :: int where
  "history_ttl_ns = 60000000000"

definition escape_busy_delta :: int where
  "escape_busy_delta = 2"

definition document_separator :: py_text where
  "document_separator = ascii_text ([CHR 0x0A, CHR 0x0A] @ ''Question:'' @ [CHR 0x0A])"

definition recent :: "int option \<Rightarrow> int \<Rightarrow> int" where
  "recent value now =
     (case value of
        None \<Rightarrow> 0
      | Some v \<Rightarrow> if 0 \<le> now - v \<and> now - v \<le> history_ttl_ns then 1 else 0)"

definition document_digest :: "(py_bytes \<Rightarrow> string) \<Rightarrow> json \<Rightarrow> string option" where
  "document_digest sha256_hex payload =
     (case payload of
        JObj members \<Rightarrow>
          (case json_get members ''messages'' of
             Some (JArr [JObj message]) \<Rightarrow>
               if json_get message ''role'' \<noteq> Some (JStr (ascii_text ''user'')) then None
               else (case json_get message ''content'' of
                   Some (JStr content) \<Rightarrow>
                     (case partition_text document_separator content of
                        (document, found, suffix) \<Rightarrow>
                          (case utf8_encode document of
                             None \<Rightarrow> None
                           | Some document_bytes \<Rightarrow>
                               if \<not> found \<or> suffix = [] \<or> length document_bytes < 64 then None
                               else Some (sha256_hex document_bytes)))
                 | _ \<Rightarrow> None)
           | _ \<Rightarrow> None)
      | _ \<Rightarrow> None)"

type_synonym timestamps = "int option \<times> int option"
type_synonym history = "(string \<times> timestamps) list"

definition drop_key :: "string \<Rightarrow> history \<Rightarrow> history" where
  "drop_key d h = filter (\<lambda>e. fst e \<noteq> d) h"

definition scores :: "string option \<Rightarrow> int \<Rightarrow> history \<Rightarrow> history \<times> (int \<times> int)" where
  "scores digest now h =
     (case digest of
        None \<Rightarrow> (h, (0, 0))
      | Some d \<Rightarrow>
          (case map_of h d of
             None \<Rightarrow> (h, (0, 0))
           | Some (a, b) \<Rightarrow> (drop_key d h @ [(d, (a, b))], (recent a now, recent b now))))"

definition record_use :: "string option \<Rightarrow> int \<Rightarrow> int \<Rightarrow> history \<Rightarrow> history" where
  "record_use digest replica now h =
     (case digest of
        None \<Rightarrow> h
      | Some d \<Rightarrow>
          let previous = (case map_of h d of None \<Rightarrow> (None, None) | Some t \<Rightarrow> t);
              updated = (if replica = 0 then (Some now, snd previous) else (fst previous, Some now));
              h' = drop_key d h @ [(d, updated)]
          in if history_keys < length h' then tl h' else h')"

record affinity_decision =
  ad_replica :: int
  ad_reason :: route_reason
  ad_estimated_affinity :: "int \<times> int"
  ad_busy_at_decision :: "int \<times> int"
  ad_preferred_replica :: "int option"
  ad_saturation_active :: "int option"
  ad_saturation_reached :: "bool option"
  ad_relative_imbalance_reached :: "bool option"

datatype choose_error = ThresholdUnbounded

definition pick :: "int \<times> int \<Rightarrow> int \<Rightarrow> int" where
  "pick p i = (if i = 0 then fst p else snd p)"

definition basic_decision :: "int \<Rightarrow> route_reason \<Rightarrow> int \<times> int \<Rightarrow> int \<times> int \<Rightarrow> affinity_decision" where
  "basic_decision replica reason affinity busy =
     \<lparr>ad_replica = replica, ad_reason = reason, ad_estimated_affinity = affinity,
      ad_busy_at_decision = busy, ad_preferred_replica = None, ad_saturation_active = None,
      ad_saturation_reached = None, ad_relative_imbalance_reached = None\<rparr>"

text \<open>\<open>min((0, 1), key=lambda i: (busy[i], (i - ring) % 2))\<close>.\<close>

definition least_busy_choice :: "int \<times> int \<Rightarrow> int \<Rightarrow> int" where
  "least_busy_choice busy ring =
     (if fst busy < snd busy \<or> (fst busy = snd busy \<and> (0 - ring) mod 2 \<le> (1 - ring) mod 2)
      then 0 else 1)"

definition choose_route ::
  "router_policy \<Rightarrow> int \<times> int \<Rightarrow> int \<Rightarrow> int \<times> int \<Rightarrow> int option
     \<Rightarrow> (choose_error, affinity_decision) res" where
  "choose_route policy busy turn affinity saturation_active =
     (if policy = CACHE_SATURATION
         \<and> (case saturation_active of None \<Rightarrow> True | Some s \<Rightarrow> \<not> (1 \<le> s \<and> s \<le> 512))
      then Inl ThresholdUnbounded
      else
        let ring = turn mod 2 in
        if policy = ROUND_ROBIN then Inr (basic_decision ring R_ROUND_ROBIN affinity busy)
        else if policy = LEAST_BUSY
        then Inr (basic_decision (least_busy_choice busy ring) R_LEAST_BUSY affinity busy)
        else
          let preferred = (if fst affinity = snd affinity then ring
                           else if snd affinity < fst affinity then 0 else 1);
              imbalance = (pick busy (1 - preferred) + escape_busy_delta \<le> pick busy preferred);
              saturated = map_option (\<lambda>s. s \<le> pick busy preferred) saturation_active;
              decision = (\<lambda>replica reason.
                \<lparr>ad_replica = replica, ad_reason = reason, ad_estimated_affinity = affinity,
                 ad_busy_at_decision = busy, ad_preferred_replica = Some preferred,
                 ad_saturation_active = saturation_active, ad_saturation_reached = saturated,
                 ad_relative_imbalance_reached = Some imbalance\<rparr>)
          in if imbalance
                \<and> (policy = CACHE_PLUS_LOAD \<or> (policy = CACHE_SATURATION \<and> saturated = Some True))
             then Inr (decision (1 - preferred)
                    (if policy = CACHE_PLUS_LOAD then R_OVERLOAD_ESCAPE else R_SATURATED_ESCAPE))
             else Inr (decision preferred
                    (if fst affinity \<noteq> snd affinity then R_ESTIMATED_AFFINITY else R_AFFINITY_TIE)))"

section \<open>What a choice guarantees\<close>

definition is_replica :: "int \<Rightarrow> bool" where
  "is_replica i \<longleftrightarrow> i = 0 \<or> i = 1"

lemma mod_two_replica: "is_replica (t mod 2)"
  by (simp add: is_replica_def) presburger

lemma choose_replica: "choose_route policy busy turn affinity sat = Inr d \<Longrightarrow> is_replica (ad_replica d)"
  using mod_two_replica [of turn]
  by (auto simp: choose_route_def Let_def basic_decision_def least_busy_choice_def is_replica_def
      split: if_splits)

lemma least_busy_choice_min:
  "pick busy (least_busy_choice busy ring) \<le> pick busy (1 - least_busy_choice busy ring)"
  by (auto simp: least_busy_choice_def pick_def)

lemma least_busy_choice_tie:
  "fst busy = snd busy \<Longrightarrow> least_busy_choice busy (turn mod 2) = turn mod 2"
proof -
  assume eq: "fst busy = snd busy"
  have "turn mod 2 = 0 \<or> turn mod 2 = 1" by presburger
  then show ?thesis using eq by (auto simp: least_busy_choice_def)
qed

text \<open>
  The choice is load aware exactly as each policy promises. Least-busy never picks the busier
  replica; the cache policies leave the replica the affinity prefers only to escape to one at least
  two requests less busy, cache-only never does, and the saturation policy only once the preferred
  replica has reached the threshold.
\<close>

theorem choose_escapes_only_to_less_busy:
  assumes "choose_route policy busy turn affinity sat = Inr d"
  shows "is_replica (ad_replica d)
    \<and> (policy = LEAST_BUSY \<longrightarrow> pick busy (ad_replica d) \<le> pick busy (1 - ad_replica d))
    \<and> (case ad_preferred_replica d of
        None \<Rightarrow> policy = ROUND_ROBIN \<or> policy = LEAST_BUSY
      | Some p \<Rightarrow> is_replica p \<and> pick affinity (1 - p) \<le> pick affinity p
          \<and> (ad_replica d \<noteq> p \<longrightarrow>
               ad_replica d = 1 - p \<and> policy \<noteq> CACHE_ONLY
               \<and> pick busy (ad_replica d) + 2 \<le> pick busy p
               \<and> (policy = CACHE_SATURATION \<longrightarrow> (\<exists>s. sat = Some s \<and> s \<le> pick busy p))))"
proof (cases "policy = ROUND_ROBIN \<or> policy = LEAST_BUSY")
  case True
  then show ?thesis
    using assms choose_replica [OF assms] least_busy_choice_min [of busy "turn mod 2"]
    by (auto simp: choose_route_def Let_def basic_decision_def)
next
  case False
  define p where "p = (if fst affinity = snd affinity then turn mod 2
    else if snd affinity < fst affinity then 0 else (1 :: int))"
  have p: "is_replica p" "pick affinity (1 - p) \<le> pick affinity p"
    using mod_two_replica [of turn] by (auto simp: p_def is_replica_def pick_def)
  have "ad_preferred_replica d = Some p
    \<and> (ad_replica d = p \<or> ad_replica d = 1 - p \<and> policy \<noteq> CACHE_ONLY
        \<and> pick busy (1 - p) + 2 \<le> pick busy p
        \<and> (policy = CACHE_SATURATION \<longrightarrow> (\<exists>s. sat = Some s \<and> s \<le> pick busy p)))"
    using assms False unfolding choose_route_def Let_def p_def [symmetric] escape_busy_delta_def
    by (auto split: if_splits)
  then show ?thesis using False p choose_replica [OF assms] by auto
qed

theorem choose_escapes_only_to_less_busy_witness:
  "is_replica 1 \<and> pick (3, 1) 1 + 2 \<le> pick (3, 1) 0"
  using choose_escapes_only_to_less_busy [of CACHE_PLUS_LOAD "(3, 1)" 4 "(1, 0)" None
      "\<lparr>ad_replica = 1, ad_reason = R_OVERLOAD_ESCAPE, ad_estimated_affinity = (1, 0),
        ad_busy_at_decision = (3, 1), ad_preferred_replica = Some 0, ad_saturation_active = None,
        ad_saturation_reached = None, ad_relative_imbalance_reached = Some True\<rparr>"]
  by (simp add: choose_route_def Let_def pick_def escape_busy_delta_def)

section \<open>The history against its specification\<close>

text \<open>
  The order of last uses: \<open>remdups\<close> keeps the last occurrence of each document, so the specification of
  a history after some uses is the last elements of it.
\<close>

definition last_n :: "nat \<Rightarrow> 'a list \<Rightarrow> 'a list" where
  "last_n n xs = drop (length xs - n) xs"

lemma remdups_snoc: "remdups (xs @ [x]) = filter (\<lambda>y. y \<noteq> x) (remdups xs) @ [x]"
  by (induction xs) auto

lemma filter_neq_distinct:
  "distinct xs \<Longrightarrow> length (filter (\<lambda>y. y \<noteq> x) xs) = length xs - (if x \<in> set xs then 1 else 0)"
  by (induction xs) (auto dest: length_pos_if_in_set)

lemma tl_last_n: "length ks \<le> Suc n \<Longrightarrow> (if n < length ks then tl ks else ks) = last_n n ks"
proof (cases "n < length ks")
  case True
  moreover assume "length ks \<le> Suc n"
  ultimately have "length ks - n = Suc 0" by simp
  then show ?thesis using True by (simp add: last_n_def drop_Suc)
qed (simp add: last_n_def)

lemma last_n_idem: "length xs \<le> n \<Longrightarrow> last_n n xs = xs"
  by (simp add: last_n_def)

lemma keys_drop_key: "map fst (drop_key d h) = filter (\<lambda>k. k \<noteq> d) (map fst h)"
  by (simp add: drop_key_def filter_map comp_def)

lemma keys_scores:
  "map fst (fst (scores digest now h)) =
     (case digest of
        None \<Rightarrow> map fst h
      | Some d \<Rightarrow> if d \<in> set (map fst h) then filter (\<lambda>k. k \<noteq> d) (map fst h) @ [d] else map fst h)"
proof (cases digest)
  case None
  then show ?thesis by (simp add: scores_def)
next
  case (Some d)
  show ?thesis
  proof (cases "map_of h d")
    case None
    then have "d \<notin> set (map fst h)" by (simp add: map_of_eq_None_iff)
    then show ?thesis by (simp add: \<open>digest = Some d\<close> scores_def None)
  next
    case (Some t)
    then have "d \<in> set (map fst h)" by (metis map_of_eq_None_iff list.set_map option.distinct(1))
    then show ?thesis using Some \<open>digest = Some d\<close>
      by (cases t) (simp add: scores_def keys_drop_key)
  qed
qed

lemma keys_record:
  "map fst (record_use digest replica now h) =
     (case digest of
        None \<Rightarrow> map fst h
      | Some d \<Rightarrow>
          let ks = filter (\<lambda>k. k \<noteq> d) (map fst h) @ [d]
          in if history_keys < length ks then tl ks else ks)"
proof (cases digest)
  case None
  then show ?thesis by (simp add: record_use_def)
next
  case (Some d)
  have "length (drop_key d h) = length (filter (\<lambda>k. k \<noteq> d) (map fst h))"
    by (metis keys_drop_key length_map)
  then show ?thesis by (simp add: Some record_use_def Let_def keys_drop_key map_tl)
qed

lemma last_n_snoc: "length b = n \<Longrightarrow> 0 < n \<Longrightarrow> last_n n (a @ b @ [d]) = tl b @ [d]"
  by (cases b) (auto simp: last_n_def)

lemma last_n_step:
  assumes "distinct xs" "0 < n"
  shows "(let ks = filter (\<lambda>k. k \<noteq> d) (last_n n xs) @ [d] in if n < length ks then tl ks else ks)
    = last_n n (filter (\<lambda>k. k \<noteq> d) xs @ [d])"
proof (cases "length xs \<le> n")
  case True
  note len = filter_neq_distinct [OF assms(1), of d]
  have "length (filter (\<lambda>k. k \<noteq> d) xs) \<le> n" using True length_filter_le [of _ xs] le_trans by blast
  then have "length (filter (\<lambda>k. k \<noteq> d) xs @ [d]) \<le> Suc n" by simp
  from tl_last_n [OF this] show ?thesis using True by (simp only: last_n_idem Let_def)
next
  case False
  define a b where "a = take (length xs - n) xs" and "b = last_n n xs"
  have xs: "xs = a @ b" by (simp add: a_def b_def last_n_def)
  have len: "length b = n" using False by (simp add: b_def last_n_def)
  have dist: "distinct b" "d \<in> set a \<Longrightarrow> d \<notin> set b" using assms(1) xs by auto
  show ?thesis
  proof (cases "d \<in> set b")
    case True
    then have "d \<notin> set a" using dist(2) by blast
    then have "filter (\<lambda>k. k \<noteq> d) a = a" by (auto simp: filter_id_conv)
    moreover have "length (filter (\<lambda>k. k \<noteq> d) b) = n - 1"
      using filter_neq_distinct [OF dist(1), of d] True len by simp
    ultimately show ?thesis
      using assms(2) by (simp add: xs [symmetric] b_def [symmetric] Let_def) (simp add: xs last_n_def)
  next
    case False
    then have b: "filter (\<lambda>k. k \<noteq> d) b = b" by (auto simp: filter_id_conv)
    have "filter (\<lambda>k. k \<noteq> d) xs @ [d] = filter (\<lambda>k. k \<noteq> d) a @ b @ [d]" by (simp add: xs b)
    then have "last_n n (filter (\<lambda>k. k \<noteq> d) xs @ [d]) = tl b @ [d]"
      using last_n_snoc [OF len assms(2)] by simp
    moreover have "tl (b @ [d]) = tl b @ [d]" using len assms(2) by (cases b) auto
    ultimately show ?thesis using len unfolding b_def [symmetric] b Let_def by simp
  qed
qed

text \<open>
  The contract of a bounded recency cache: a touch moves its key to the end and evicts the oldest key
  when the capacity is exceeded. It determines the keys after any sequence of touches.
\<close>

locale lru_cache =
  fixes capacity :: nat
    and empty :: 's
    and keys :: "'s \<Rightarrow> 'k list"
    and touch :: "'k \<times> 'u \<Rightarrow> 's \<Rightarrow> 's"
  assumes capacity_pos: "0 < capacity"
    and keys_empty: "keys empty = []"
    and keys_touch: "keys (touch (k, u) s) =
      (let ks = filter (\<lambda>x. x \<noteq> k) (keys s) @ [k] in if capacity < length ks then tl ks else ks)"
begin

lemma keys_after: "keys (fold touch us empty) = last_n capacity (remdups (map fst us))"
proof (induction us rule: rev_induct)
  case Nil
  then show ?case by (simp add: keys_empty last_n_def)
next
  case (snoc x us)
  obtain k u where "x = (k, u)" by (cases x)
  then show ?case
    using last_n_step [of "remdups (map fst us)" capacity k] capacity_pos snoc.IH
    by (simp add: keys_touch remdups_snoc del: remdups.simps)
qed

lemma size_after: "length (keys (fold touch us empty)) \<le> capacity"
  by (simp add: keys_after last_n_def)

end

text \<open>A router's use of the history: scores, then record of the same document.\<close>

definition use_document :: "string \<times> int \<times> int \<Rightarrow> history \<Rightarrow> history" where
  "use_document u h =
     (case u of (d, replica, now) \<Rightarrow> record_use (Some d) replica now (fst (scores (Some d) now h)))"

lemma keys_use:
  "map fst (use_document (d, replica, now) h) =
     (let ks = filter (\<lambda>k. k \<noteq> d) (map fst h) @ [d] in if history_keys < length ks then tl ks else ks)"
  by (auto simp: use_document_def keys_record keys_scores Let_def)

lemma no_digest_no_change: "record_use None replica now (fst (scores None now h)) = h"
  by (simp add: record_use_def scores_def)

interpretation affinity_history: lru_cache history_keys "[] :: history" "map fst" use_document
  by unfold_locales (auto simp: history_keys_def keys_use [simplified Let_def, unfolded history_keys_def])

text \<open>
  C37: the history implements least-recently-used eviction. After any sequence of uses it holds
  exactly the most recent 4096 distinct documents, in the order of their last use.
\<close>

theorem history_is_lru:
  "map fst (fold use_document us []) = last_n 4096 (remdups (map fst us))
    \<and> length (fold use_document us []) \<le> 4096"
  using affinity_history.keys_after [of us]
    affinity_history.size_after [of us, unfolded length_map]
  unfolding history_keys_def by blast

end
