(* ===== verification/Parsing.thy ===== *)
theory Parsing
  imports Text
begin

text \<open>
  The lexical limits of \<open>parsing.py\<close>, applied before JSON or YAML objects are built. A text is a list
  of code points and the scanners recurse on what is left of it. The Unicode classes \<open>isspace\<close>,
  \<open>isdigit\<close>, \<open>isalpha\<close> and \<open>isalnum\<close> are an argument, with the ASCII instance below; PyYAML's
  scanner and Python's \<open>float\<close> are arguments too. What the limits mean for a serialised document is
  stated against \<open>render\<close>, compact JSON.
\<close>

section \<open>Limits and number tokens\<close>

datatype parse_error =
    TokenCountExceeded
  | DepthExceeded
  | IntegerDigitsExceeded
  | NumberDigitsExceeded
  | JsonIntegerInvalid
  | JsonNumberInvalid
  | JsonNumberNotFinite
  | ArrayItemsExceeded
  | YamlTokenCountExceeded
  | YamlAliasUnsupported
  | YamlDepthExceeded
  | YamlScannerRejected
  | ArrayLimitArguments

record structured_limits =
  max_depth :: int
  max_tokens :: int
  max_integer_digits :: int

datatype limits_error = LimitsNotPositive

definition check_limits :: "structured_limits \<Rightarrow> (limits_error, structured_limits) res" where
  "check_limits l =
     (if max_depth l \<le> 0 \<or> max_tokens l \<le> 0 \<or> max_integer_digits l \<le> 0 then Inl LimitsNotPositive
      else Inr l)"

definition default_limits :: structured_limits where
  "default_limits = \<lparr>max_depth = 64, max_tokens = 1000000, max_integer_digits = 256\<rparr>"

record char_classes =
  is_space :: "nat \<Rightarrow> bool"
  is_digit :: "nat \<Rightarrow> bool"
  is_alpha :: "nat \<Rightarrow> bool"
  is_alnum :: "nat \<Rightarrow> bool"

definition ch :: "char \<Rightarrow> nat" where
  "ch c = of_char c"

definition number_characters :: "nat list" where
  "number_characters = ascii_text ''0123456789.eE+-''"

definition remove_prefix :: "py_text \<Rightarrow> py_text \<Rightarrow> py_text" where
  "remove_prefix p s = (if take (length p) s = p then drop (length p) s else s)"

text \<open>\<open>token.split(c, 1)[0]\<close>.\<close>

definition before :: "char \<Rightarrow> py_text \<Rightarrow> py_text" where
  "before c s = takeWhile (\<lambda>x. x \<noteq> ch c) s"

definition unsigned :: "py_text \<Rightarrow> py_text" where
  "unsigned token = remove_prefix (ascii_text ''+'') (remove_prefix (ascii_text ''-'') token)"

definition integer_part :: "py_text \<Rightarrow> py_text" where
  "integer_part token = before (CHR ''E'') (before (CHR ''e'') (before (CHR ''.'') (unsigned token)))"

definition raise_if_too_many_integer_digits ::
  "char_classes \<Rightarrow> structured_limits \<Rightarrow> py_text \<Rightarrow> (parse_error, unit) res" where
  "raise_if_too_many_integer_digits u l token =
     raise_if (max_integer_digits l < int (length (filter (is_digit u) (integer_part token))))
       IntegerDigitsExceeded"

definition raise_if_too_many_yaml_integer_digits ::
  "char_classes \<Rightarrow> structured_limits \<Rightarrow> py_text \<Rightarrow> (parse_error, unit) res" where
  "raise_if_too_many_yaml_integer_digits u l token =
     (let s = unsigned token;
          digits = (if take 2 s = ascii_text ''0b'' \<or> take 2 s = ascii_text ''0x'' then drop 2 s else s)
      in raise_if (max_integer_digits l < int (length (filter (is_alnum u) digits)))
           IntegerDigitsExceeded)"

text \<open>Python's \<open>int\<close> on a JSON integer token: an optional minus and ASCII digits.\<close>

definition ascii_digit :: "nat \<Rightarrow> bool" where
  "ascii_digit c \<longleftrightarrow> ch (CHR ''0'') \<le> c \<and> c \<le> ch (CHR ''9'')"

definition digits_value :: "py_text \<Rightarrow> int" where
  "digits_value s = foldl (\<lambda>v c. 10 * v + int (c - ch (CHR ''0''))) 0 s"

definition py_int :: "py_text \<Rightarrow> int option" where
  "py_int token =
     (let s = remove_prefix (ascii_text ''-'') token
      in if s = [] \<or> \<not> list_all ascii_digit s then None
         else Some (if s = token then digits_value s else - digits_value s))"

definition bounded_json_int ::
  "char_classes \<Rightarrow> structured_limits \<Rightarrow> py_text \<Rightarrow> (parse_error, int) res" where
  "bounded_json_int u l token =
     rbind (raise_if_too_many_integer_digits u l token) (\<lambda>_.
       case py_int token of None \<Rightarrow> Inl JsonIntegerInvalid | Some i \<Rightarrow> Inr i)"

definition bounded_json_float ::
  "char_classes \<Rightarrow> (py_text \<Rightarrow> 'f option) \<Rightarrow> ('f \<Rightarrow> bool) \<Rightarrow> structured_limits \<Rightarrow> py_text
     \<Rightarrow> (parse_error, 'f) res" where
  "bounded_json_float u py_float isfinite l token =
     (let mantissa = before (CHR ''E'') (before (CHR ''e'') token)
      in if max_integer_digits l < int (length (filter (is_digit u) mantissa))
         then Inl NumberDigitsExceeded
         else (case py_float token of
             None \<Rightarrow> Inl JsonNumberInvalid
           | Some v \<Rightarrow> if isfinite v then Inr v else Inl JsonNumberNotFinite))"

section \<open>The JSON scanner\<close>

text \<open>What is left after the closing quote of a string; the argument starts after the opening one.\<close>

fun skip_string :: "py_text \<Rightarrow> py_text" where
  "skip_string [] = []"
| "skip_string (c # cs) =
     (if c = 92 then skip_string (drop 1 cs)
      else if c = 34 then cs
      else skip_string cs)"

lemma skip_string_length [termination_simp]: "length (skip_string cs) \<le> length cs"
  by (induction cs rule: skip_string.induct) (auto simp: le_SucI)

lemma drop_while_length [termination_simp]: "length (dropWhile P xs) < Suc (length xs)"
  using length_dropWhile_le [of P xs] by simp

definition is_open :: "nat \<Rightarrow> bool" where
  "is_open c \<longleftrightarrow> c = ch (CHR ''['') \<or> c = ch (CHR ''{'')"

definition is_close :: "nat \<Rightarrow> bool" where
  "is_close c \<longleftrightarrow> c = ch (CHR '']'') \<or> c = ch (CHR ''}'')"

definition is_number_char :: "nat \<Rightarrow> bool" where
  "is_number_char c \<longleftrightarrow> c \<in> set number_characters"

function scan_json ::
  "char_classes \<Rightarrow> structured_limits \<Rightarrow> int \<Rightarrow> int \<Rightarrow> py_text \<Rightarrow> (parse_error, unit) res" where
  "scan_json u l depth tokens [] = Inr ()"
| "scan_json u l depth tokens (c # cs) =
     (if is_space u c then scan_json u l depth tokens cs
      else if max_tokens l < tokens + 1 then Inl TokenCountExceeded
      else if c = 34 then scan_json u l depth (tokens + 1) (skip_string cs)
      else if is_open c
      then (if max_depth l < depth + 1 then Inl DepthExceeded
            else scan_json u l (depth + 1) (tokens + 1) cs)
      else if is_close c then scan_json u l (max 0 (depth - 1)) (tokens + 1) cs
      else if c = ch (CHR ''-'') \<or> is_digit u c
      then rbind (raise_if_too_many_integer_digits u l (c # takeWhile is_number_char cs)) (\<lambda>_.
             scan_json u l depth (tokens + 1) (dropWhile is_number_char cs))
      else if is_alpha u c then scan_json u l depth (tokens + 1) (dropWhile (is_alpha u) cs)
      else scan_json u l depth (tokens + 1) cs)"
  by pat_completeness auto
termination
  by (relation "measure (\<lambda>(u, l, d, n, s). length s)")
    (auto simp: termination_simp le_imp_less_Suc skip_string_length)

definition validate_json_structure ::
  "char_classes \<Rightarrow> structured_limits \<Rightarrow> py_text \<Rightarrow> (parse_error, unit) res" where
  "validate_json_structure u l s = scan_json u l 0 0 s"

section \<open>Array item limits\<close>

text \<open>The text after the array's opening bracket.\<close>

function array_items ::
  "char_classes \<Rightarrow> int \<Rightarrow> int \<Rightarrow> int \<Rightarrow> bool \<Rightarrow> py_text \<Rightarrow> (parse_error, unit) res" where
  "array_items u max_items depth items expecting [] = Inr ()"
| "array_items u max_items depth items expecting (c # cs) =
     (let first = (depth = 1 \<and> expecting);
          items' = (if first then items + 1 else items)
      in if is_space u c then array_items u max_items depth items expecting cs
         else if c = 34
         then (if max_items < items' then Inl ArrayItemsExceeded
               else array_items u max_items depth items' (expecting \<and> \<not> first) (skip_string cs))
         else if is_open c
         then (if first \<and> max_items < items' then Inl ArrayItemsExceeded
               else array_items u max_items (depth + 1) items' (expecting \<and> \<not> first) cs)
         else if is_close c
         then (if depth - 1 = 0 then Inr ()
               else array_items u max_items (depth - 1) items expecting cs)
         else if c = ch (CHR '','') \<and> depth = 1
         then array_items u max_items depth items True cs
         else if first \<and> max_items < items' then Inl ArrayItemsExceeded
         else array_items u max_items depth items' (expecting \<and> \<not> first) cs)"
  by pat_completeness auto
termination
  by (relation "measure (\<lambda>(u, m, d, n, e, s). length s)")
    (auto simp: termination_simp le_imp_less_Suc skip_string_length)

definition validate_array_item_limit ::
  "char_classes \<Rightarrow> int \<Rightarrow> py_text \<Rightarrow> (parse_error, unit) res" where
  "validate_array_item_limit u max_items s = array_items u max_items 1 0 True (drop 1 s)"

datatype previous = Start | Value | Punct nat

text \<open>
  \<open>loads_string\<close> is \<open>json.loads\<close> on a string token, its failure the value None; \<open>key_hit\<close> is what
  the scan does after a member name: the array check when the value is an array.
\<close>

definition skip_space :: "char_classes \<Rightarrow> py_text \<Rightarrow> py_text" where
  "skip_space u s = dropWhile (is_space u) s"

definition key_hit :: "char_classes \<Rightarrow> int \<Rightarrow> py_text \<Rightarrow> (parse_error, unit) res" where
  "key_hit u max_items rest =
     (case skip_space u rest of
        [] \<Rightarrow> Inr ()
      | c # cs \<Rightarrow>
          if c \<noteq> ch (CHR '':'') then Inr ()
          else (case skip_space u cs of
              [] \<Rightarrow> Inr ()
            | b # bs \<Rightarrow>
                if b = ch (CHR ''['') then validate_array_item_limit u max_items (b # bs)
                else Inr ()))"

definition string_token :: "py_text \<Rightarrow> py_text" where
  "string_token cs = 34 # take (length cs - length (skip_string cs)) cs"

function scan_members ::
  "char_classes \<Rightarrow> (py_text \<Rightarrow> py_text option) \<Rightarrow> py_text \<Rightarrow> int \<Rightarrow> int \<Rightarrow> previous \<Rightarrow> py_text
     \<Rightarrow> (parse_error, unit) res" where
  "scan_members u loads_string key max_items depth previous [] = Inr ()"
| "scan_members u loads_string key max_items depth previous (c # cs) =
     (if is_space u c then scan_members u loads_string key max_items depth previous cs
      else if c = 34
      then rbind
             (if depth = 1 \<and> (previous = Punct (ch (CHR ''{'')) \<or> previous = Punct (ch (CHR '','')))
                 \<and> loads_string (string_token cs) = Some key
              then key_hit u max_items (skip_string cs) else Inr ())
             (\<lambda>_. scan_members u loads_string key max_items depth Value (skip_string cs))
      else scan_members u loads_string key max_items
             (if is_open c then depth + 1 else if is_close c then max 0 (depth - 1) else depth)
             (Punct c) cs)"
  by pat_completeness auto
termination
  by (relation "measure (\<lambda>(u, ld, k, m, d, p, s). length s)")
    (auto simp: termination_simp le_imp_less_Suc skip_string_length)

definition validate_top_level_json_array_limit ::
  "char_classes \<Rightarrow> (py_text \<Rightarrow> py_text option) \<Rightarrow> structured_limits \<Rightarrow> py_text \<Rightarrow> int \<Rightarrow> py_text
     \<Rightarrow> (parse_error, unit) res" where
  "validate_top_level_json_array_limit u loads_string l key max_items s =
     (if key = [] \<or> max_items < 0 then Inl ArrayLimitArguments
      else rbind (validate_json_structure u l s) (\<lambda>_.
        scan_members u loads_string key max_items 0 Start s))"

section \<open>YAML\<close>

text \<open>
  PyYAML's scanner is an argument: the tokens it yields, and whether it then fails. A scalar token
  carries its value and whether its style is plain.
\<close>

datatype yaml_token = YAlias | YStart | YEnd | YScalar bool py_text | YOther

definition bit_char :: "nat \<Rightarrow> bool" where
  "bit_char c \<longleftrightarrow> c \<in> set (ascii_text ''01_'')"

definition octal_char :: "nat \<Rightarrow> bool" where
  "octal_char c \<longleftrightarrow> c \<in> set (ascii_text ''01234567_'')"

definition decimal_char :: "nat \<Rightarrow> bool" where
  "decimal_char c \<longleftrightarrow> ascii_digit c \<or> c = ch (CHR ''_'')"

definition hex_char :: "nat \<Rightarrow> bool" where
  "hex_char c \<longleftrightarrow> c \<in> set (ascii_text ''0123456789abcdefABCDEF_'')"

definition positive_decimal :: "py_text \<Rightarrow> bool" where
  "positive_decimal s =
     (case s of
        [] \<Rightarrow> False
      | c # cs \<Rightarrow> ascii_digit c \<and> c \<noteq> ch (CHR ''0'') \<and> list_all decimal_char cs)"

definition base_sixty_digit :: "py_text \<Rightarrow> bool" where
  "base_sixty_digit s =
     (case s of
        [d] \<Rightarrow> ascii_digit d
      | [t, d] \<Rightarrow> ch (CHR ''0'') \<le> t \<and> t \<le> ch (CHR ''5'') \<and> ascii_digit d
      | _ \<Rightarrow> False)"

fun split_colon :: "py_text \<Rightarrow> py_text list" where
  "split_colon [] = [[]]"
| "split_colon (c # cs) =
     (if c = ch (CHR '':'') then [] # split_colon cs
      else (case split_colon cs of [] \<Rightarrow> [[c]] | p # ps \<Rightarrow> (c # p) # ps))"

definition yaml_integer :: "py_text \<Rightarrow> bool" where
  "yaml_integer token =
     (let s = (case token of
                 [] \<Rightarrow> []
               | c # cs \<Rightarrow> if c = ch (CHR ''+'') \<or> c = ch (CHR ''-'') then cs else token)
      in (take 2 s = ascii_text ''0b'' \<and> drop 2 s \<noteq> [] \<and> list_all bit_char (drop 2 s))
       \<or> (take 1 s = ascii_text ''0'' \<and> drop 1 s \<noteq> [] \<and> list_all octal_char (drop 1 s))
       \<or> s = ascii_text ''0'' \<or> positive_decimal s
       \<or> (take 2 s = ascii_text ''0x'' \<and> drop 2 s \<noteq> [] \<and> list_all hex_char (drop 2 s))
       \<or> (case split_colon s of
            [] \<Rightarrow> False
          | p # ps \<Rightarrow> ps \<noteq> [] \<and> positive_decimal p \<and> list_all base_sixty_digit ps))"

fun scan_yaml ::
  "char_classes \<Rightarrow> structured_limits \<Rightarrow> int \<Rightarrow> int \<Rightarrow> yaml_token list \<Rightarrow> (parse_error, unit) res" where
  "scan_yaml u l depth n [] = Inr ()"
| "scan_yaml u l depth n (t # ts) =
     (if max_tokens l < n + 1 then Inl YamlTokenCountExceeded
      else (case t of
          YAlias \<Rightarrow> Inl YamlAliasUnsupported
        | YStart \<Rightarrow>
            if max_depth l < depth + 1 then Inl YamlDepthExceeded
            else scan_yaml u l (depth + 1) (n + 1) ts
        | YEnd \<Rightarrow> scan_yaml u l (max 0 (depth - 1)) (n + 1) ts
        | YScalar plain v \<Rightarrow>
            if plain \<and> yaml_integer v
            then rbind (raise_if_too_many_yaml_integer_digits u l v) (\<lambda>_. scan_yaml u l depth (n + 1) ts)
            else scan_yaml u l depth (n + 1) ts
        | YOther \<Rightarrow> scan_yaml u l depth (n + 1) ts))"

definition validate_yaml_structure ::
  "char_classes \<Rightarrow> (py_text \<Rightarrow> yaml_token list \<times> bool) \<Rightarrow> structured_limits \<Rightarrow> py_text
     \<Rightarrow> (parse_error, unit) res" where
  "validate_yaml_structure u yaml_scan l s =
     (case yaml_scan s of
        (tokens, scanner_fails) \<Rightarrow>
          rbind (scan_yaml u l 0 0 tokens) (\<lambda>_. raise_if scanner_fails YamlScannerRejected))"

section \<open>What the limits mean for a serialised document\<close>

text \<open>
  The assumptions on the character classes: JSON's punctuation is not white space, digits are
  digits, and the letters of the literals are letters.
\<close>

definition json_classes :: "char_classes \<Rightarrow> bool" where
  "json_classes u \<longleftrightarrow>
     list_all (\<lambda>c. \<not> is_space u (ch c)) ''\"[]{},:-0123456789truefalsenull''
     \<and> list_all (\<lambda>c. is_digit u (ch c)) ''0123456789''
     \<and> list_all (\<lambda>c. is_alpha u (ch c)) ''truefalsenull''
     \<and> list_all (\<lambda>c. \<not> is_alpha u (ch c)) ''\"[]{},:''
     \<and> list_all (\<lambda>c. \<not> is_digit u (ch c)) '',:-truefalsenull''"

definition ascii_classes :: char_classes where
  "ascii_classes = \<lparr>
     is_space = (\<lambda>c. c = 32 \<or> (9 \<le> c \<and> c \<le> 13) \<or> (28 \<le> c \<and> c \<le> 31)),
     is_digit = ascii_digit,
     is_alpha = (\<lambda>c. (65 \<le> c \<and> c \<le> 90) \<or> (97 \<le> c \<and> c \<le> 122)),
     is_alnum = (\<lambda>c. ascii_digit c \<or> (65 \<le> c \<and> c \<le> 90) \<or> (97 \<le> c \<and> c \<le> 122))\<rparr>"

lemma ascii_json_classes: "json_classes ascii_classes"
  by (simp add: json_classes_def ascii_classes_def ascii_digit_def ch_def)

fun escape :: "py_text \<Rightarrow> py_text" where
  "escape [] = []"
| "escape (c # cs) =
     (if c = 34 \<or> c = 92 then [92, c]
      else if c < 16 then ascii_text (CHR 0x5C # ''u000'') @ [if c < 10 then 48 + c else 87 + c]
      else if c < 32 then ascii_text (CHR 0x5C # ''u001'') @ [if c < 26 then 32 + c else 71 + c]
      else [c]) @ escape cs"

definition quoted :: "py_text \<Rightarrow> py_text" where
  "quoted s = 34 # escape s @ [34]"

definition int_token :: "int \<Rightarrow> py_text" where
  "int_token i = ascii_text ((if i < 0 then ''-'' else []) @ dec (nat \<bar>i\<bar>))"

fun render :: "json \<Rightarrow> py_text"
  and render_items :: "json list \<Rightarrow> py_text"
  and render_members :: "(py_text \<times> json) list \<Rightarrow> py_text" where
  "render JNull = ascii_text ''null''"
| "render (JBool b) = ascii_text (if b then ''true'' else ''false'')"
| "render (JInt i) = int_token i"
| "render (JFloat t) = ascii_text t"
| "render (JStr s) = quoted s"
| "render (JArr js) = ch (CHR ''['') # render_items js @ [ch (CHR '']'')]"
| "render (JObj ms) = ch (CHR ''{'') # render_members ms @ [ch (CHR ''}'')]"
| "render_items [] = []"
| "render_items [j] = render j"
| "render_items (j # k # js) = render j @ ch (CHR '','') # render_items (k # js)"
| "render_members [] = []"
| "render_members [(s, j)] = quoted s @ ch (CHR '':'') # render j"
| "render_members ((s, j) # m # ms) =
     quoted s @ ch (CHR '':'') # render j @ ch (CHR '','') # render_members (m # ms)"

text \<open>The value's own measures: nesting depth, significant tokens, and the digits of its integers.\<close>

fun json_depth :: "json \<Rightarrow> int"
  and items_depth :: "json list \<Rightarrow> int"
  and members_depth :: "(py_text \<times> json) list \<Rightarrow> int" where
  "json_depth (JArr js) = 1 + items_depth js"
| "json_depth (JObj ms) = 1 + members_depth ms"
| "json_depth _ = 0"
| "items_depth [] = 0"
| "items_depth (j # js) = max (json_depth j) (items_depth js)"
| "members_depth [] = 0"
| "members_depth ((s, j) # ms) = max (json_depth j) (members_depth ms)"

fun json_tokens :: "json \<Rightarrow> int"
  and items_tokens :: "json list \<Rightarrow> int"
  and members_tokens :: "(py_text \<times> json) list \<Rightarrow> int" where
  "json_tokens (JArr js) = 2 + items_tokens js"
| "json_tokens (JObj ms) = 2 + members_tokens ms"
| "json_tokens _ = 1"
| "items_tokens [] = 0"
| "items_tokens [j] = json_tokens j"
| "items_tokens (j # k # js) = json_tokens j + 1 + items_tokens (k # js)"
| "members_tokens [] = 0"
| "members_tokens [(s, j)] = 2 + json_tokens j"
| "members_tokens ((s, j) # m # ms) = 3 + json_tokens j + members_tokens (m # ms)"

definition float_token :: "string \<Rightarrow> bool" where
  "float_token t \<longleftrightarrow>
     t \<noteq> [] \<and> (hd t = CHR ''-'' \<or> ascii_digit (ch (hd t)))
     \<and> list_all (\<lambda>c. is_number_char (ch c)) t"

fun numbers_ok :: "char_classes \<Rightarrow> structured_limits \<Rightarrow> json \<Rightarrow> bool" where
  "numbers_ok u l (JInt i) = (int (length (dec (nat \<bar>i\<bar>))) \<le> max_integer_digits l)"
| "numbers_ok u l (JFloat t) \<longleftrightarrow>
     int (length (filter (is_digit u) (integer_part (ascii_text t)))) \<le> max_integer_digits l"
| "numbers_ok u l (JArr js) \<longleftrightarrow> list_all (numbers_ok u l) js"
| "numbers_ok u l (JObj ms) \<longleftrightarrow> list_all (\<lambda>m. numbers_ok u l (snd m)) ms"
| "numbers_ok u l _ = True"

fun wf_json :: "json \<Rightarrow> bool" where
  "wf_json (JFloat t) = float_token t"
| "wf_json (JArr js) \<longleftrightarrow> list_all wf_json js"
| "wf_json (JObj ms) \<longleftrightarrow> list_all (\<lambda>m. wf_json (snd m)) ms"
| "wf_json _ = True"

lemma skip_string_escape: "skip_string (escape s @ 34 # rest) = rest"
proof (induction s)
  case Nil
  then show ?case by simp
next
  case (Cons c cs)
  consider "c = 34 \<or> c = 92" | "c \<noteq> 34" "c \<noteq> 92" "c < 16" | "c \<noteq> 34" "c \<noteq> 92" "16 \<le> c" "c < 32"
    | "c \<noteq> 34" "c \<noteq> 92" "32 \<le> c"
    by linarith
  then show ?case using Cons.IH by cases (auto simp: ascii_text_def)
qed

lemma ch_eq_iff [simp]: "ch a = ch b \<longleftrightarrow> a = b"
  by (simp add: ch_def of_char_eq_iff)

lemma digit_char_digit: "d < 10 \<Longrightarrow> ascii_digit (ch (digit_char d))"
  by (simp add: ascii_digit_def ch_def digit_char_def)

lemma dec_digits: "list_all (\<lambda>c. ascii_digit (ch c)) (dec n)"
proof (induction n rule: dec.induct)
  case (1 n)
  then show ?case by (subst dec.simps) (auto simp: digit_char_digit)
qed

definition terminated :: "py_text \<Rightarrow> bool" where
  "terminated rest \<longleftrightarrow> rest = [] \<or> hd rest \<in> {ch (CHR '',''), ch (CHR '']''), ch (CHR ''}'')}"

lemma terminated_simps [simp]:
  "terminated []"
  "terminated (c # cs) \<longleftrightarrow> c \<in> {ch (CHR '',''), ch (CHR '']''), ch (CHR ''}'')}"
  by (simp_all add: terminated_def)

lemma take_while_stop:
  assumes "list_all P t" "rest = [] \<or> \<not> P (hd rest)"
  shows "takeWhile P (t @ rest) = t" "dropWhile P (t @ rest) = rest"
  using assms by (induction t) (cases rest; auto)+

lemma terminated_number: "terminated rest \<Longrightarrow> rest = [] \<or> \<not> is_number_char (hd rest)"
  by (auto simp: terminated_def is_number_char_def number_characters_def ascii_text_def ch_def)

lemma json_classes_facts:
  assumes "json_classes u"
  shows "\<And>c. c \<in> set ''\"[]{},:-0123456789truefalsenull'' \<Longrightarrow> \<not> is_space u (ch c)"
    and "\<And>c. c \<in> set ''0123456789'' \<Longrightarrow> is_digit u (ch c)"
    and "\<And>c. c \<in> set ''truefalsenull'' \<Longrightarrow> is_alpha u (ch c)"
    and "\<And>c. c \<in> set ''\"[]{},:'' \<Longrightarrow> \<not> is_alpha u (ch c)"
    and "\<And>c. c \<in> set '',:-truefalsenull'' \<Longrightarrow> \<not> is_digit u (ch c)"
  using assms unfolding json_classes_def list_all_iff by blast+

lemma ascii_digit_cases: "ascii_digit x \<Longrightarrow> \<exists>c \<in> set ''0123456789''. x = ch c"
proof -
  assume "ascii_digit x"
  then have "48 \<le> x \<and> x \<le> 57" by (simp add: ascii_digit_def ch_def)
  then have "x = 48 \<or> x = 49 \<or> x = 50 \<or> x = 51 \<or> x = 52 \<or> x = 53 \<or> x = 54 \<or> x = 55 \<or> x = 56 \<or> x = 57"
    by presburger
  then show ?thesis by (auto simp: ch_def)
qed

lemma json_classes_digit: "json_classes u \<Longrightarrow> ascii_digit x \<Longrightarrow> is_digit u x"
proof -
  assume u: "json_classes u" and "ascii_digit x"
  from ascii_digit_cases [OF this(2)] obtain c where c: "c \<in> set ''0123456789''" "x = ch c" by (elim bexE)
  show ?thesis unfolding c(2) by (rule json_classes_facts(2) [OF u c(1)])
qed

lemma ascii_digit_number: "ascii_digit x \<Longrightarrow> is_number_char x"
  by (drule ascii_digit_cases) (auto simp: is_number_char_def number_characters_def ascii_text_def ch_def)

lemma scan_number:
  assumes u: "json_classes u"
    and "t \<noteq> []" "hd t = ch (CHR ''-'') \<or> ascii_digit (hd t)" "list_all is_number_char t" "terminated rest"
  shows "scan_json u l d n (t @ rest) =
    (if max_tokens l < n + 1 then Inl TokenCountExceeded
     else rbind (raise_if_too_many_integer_digits u l t) (\<lambda>_. scan_json u l d (n + 1) rest))"
proof -
  obtain c cs where t: "t = c # cs" using assms(2) by (cases t) auto
  have split: "takeWhile is_number_char (cs @ rest) = cs" "dropWhile is_number_char (cs @ rest) = rest"
    using assms(4) take_while_stop [of is_number_char cs rest] terminated_number [OF assms(5)]
    by (auto simp: t)
  have c: "c = ch (CHR ''-'') \<or> is_digit u c" "\<not> is_space u c"
    using assms(3) ascii_digit_cases [of c] json_classes_facts(1,2) [OF u] by (auto simp: t)
  have "c \<noteq> 34 \<and> \<not> is_open c \<and> \<not> is_close c"
    using assms(3) by (auto simp: t ascii_digit_def is_open_def is_close_def ch_def)
  then show ?thesis using c unfolding t append_Cons scan_json.simps(2) split by simp
qed

lemma scan_word:
  assumes u: "json_classes u"
    and w: "w \<noteq> []" "set w \<subseteq> set ''truefalsenull''" and "terminated rest"
  shows "scan_json u l d n (ascii_text w @ rest) =
    (if max_tokens l < n + 1 then Inl TokenCountExceeded else scan_json u l d (n + 1) rest)"
proof -
  obtain c cs where c: "w = c # cs" using w(1) by (cases w) auto
  have "\<not> is_alpha u (ch (CHR '',''))" "\<not> is_alpha u (ch (CHR '']''))" "\<not> is_alpha u (ch (CHR ''}''))"
    by (rule json_classes_facts(4) [OF u], simp)+
  then have "rest = [] \<or> \<not> is_alpha u (hd rest)"
    using assms(4) unfolding terminated_def by fastforce
  moreover have "list_all (is_alpha u) (ascii_text cs)"
    unfolding list_all_iff
  proof
    fix x assume "x \<in> set (ascii_text cs)"
    then obtain y where "y \<in> set cs" "x = ch y" by (auto simp: ascii_text_def ch_def)
    then have "y \<in> set w" unfolding c by (intro list.set_intros(2))
    from json_classes_facts(3) [OF u subsetD [OF w(2) this]] show "is_alpha u x"
      unfolding \<open>x = ch y\<close> .
  qed
  ultimately have "dropWhile (is_alpha u) (ascii_text cs @ rest) = rest" by (simp add: take_while_stop)
  moreover have "\<not> is_space u (ch c)" "\<not> is_digit u (ch c)" "is_alpha u (ch c)"
  proof -
    have "c \<in> set w" unfolding c by (rule list.set_intros(1))
    note mem = subsetD [OF w(2) this]
    show "\<not> is_space u (ch c)" by (rule json_classes_facts(1) [OF u]) (use mem in auto)
    show "\<not> is_digit u (ch c)" by (rule json_classes_facts(5) [OF u]) (use mem in auto)
    show "is_alpha u (ch c)" by (rule json_classes_facts(3) [OF u mem])
  qed
  moreover have "ch c \<noteq> 34 \<and> \<not> is_open (ch c) \<and> \<not> is_close (ch c) \<and> ch c \<noteq> ch (CHR ''-'')"
    using w(2) by (auto simp: c is_open_def is_close_def ch_def)
  ultimately show ?thesis by (simp add: c ascii_text_def ch_def)
qed

lemma json_classes_punctuation:
  assumes "json_classes u"
  shows "\<not> is_space u 34" "\<not> is_space u 91" "\<not> is_space u 93" "\<not> is_space u 123"
    "\<not> is_space u 125" "\<not> is_space u 44" "\<not> is_space u 58"
    "\<not> is_alpha u 44" "\<not> is_alpha u 58" "\<not> is_digit u 44" "\<not> is_digit u 58"
  using assms by (simp_all add: json_classes_def ch_def)

lemma scan_quoted:
  assumes "json_classes u"
  shows "scan_json u l d n (quoted s @ rest) =
    (if max_tokens l < n + 1 then Inl TokenCountExceeded else scan_json u l d (n + 1) rest)"
  by (simp add: quoted_def skip_string_escape json_classes_punctuation [OF assms])

lemma scan_open:
  assumes "json_classes u" "c = CHR ''['' \<or> c = CHR ''{''"
  shows "scan_json u l d n (ch c # rest) =
    (if max_tokens l < n + 1 then Inl TokenCountExceeded
     else if max_depth l < d + 1 then Inl DepthExceeded
     else scan_json u l (d + 1) (n + 1) rest)"
  using assms(2)
  by (elim disjE) (simp_all add: is_open_def ch_def json_classes_punctuation [OF assms(1)])

lemma scan_close:
  assumes "json_classes u" "c = CHR '']'' \<or> c = CHR ''}''"
  shows "scan_json u l d n (ch c # rest) =
    (if max_tokens l < n + 1 then Inl TokenCountExceeded
     else scan_json u l (max 0 (d - 1)) (n + 1) rest)"
  using assms(2)
  by (elim disjE)
    (simp_all add: is_open_def is_close_def ch_def json_classes_punctuation [OF assms(1)])

lemma scan_separator:
  assumes "json_classes u" "c = CHR '','' \<or> c = CHR '':''"
  shows "scan_json u l d n (ch c # rest) =
    (if max_tokens l < n + 1 then Inl TokenCountExceeded else scan_json u l d (n + 1) rest)"
  using assms(2)
  by (elim disjE)
    (simp_all add: is_open_def is_close_def ch_def json_classes_punctuation [OF assms(1)])

lemma int_token_shape:
  "int_token i \<noteq> []" "hd (int_token i) = ch (CHR ''-'') \<or> ascii_digit (hd (int_token i))"
  "list_all is_number_char (int_token i)"
proof -
  have digits: "list_all ascii_digit (ascii_text (dec n))" for n
    using dec_digits [of n] by (simp add: list_all_iff ascii_text_def ch_def)
  have ne: "ascii_text (dec n) \<noteq> []" for n using dec_not_Nil [of n] by (simp add: ascii_text_def)
  have minus: "ascii_text (CHR ''-'' # t) = ch (CHR ''-'') # ascii_text t" for t
    by (simp add: ascii_text_def ch_def)
  have numbers: "list_all is_number_char (ascii_text (dec n))" for n
    using digits [of n] by (auto simp: list_all_iff intro: ascii_digit_number)
  have "is_number_char (ch (CHR ''-''))"
    by (simp add: is_number_char_def number_characters_def ascii_text_def ch_def)
  then show "list_all is_number_char (int_token i)"
    using numbers by (simp add: int_token_def minus del: ch_eq_iff)
  show "int_token i \<noteq> []" using ne by (simp add: int_token_def minus)
  have "ascii_digit (hd (ascii_text (dec n)))" for n
    using digits [of n] ne [of n] by (cases "ascii_text (dec n)") auto
  then show "hd (int_token i) = ch (CHR ''-'') \<or> ascii_digit (hd (int_token i))"
    by (simp add: int_token_def minus)
qed

lemma before_digits: "list_all ascii_digit t \<Longrightarrow> \<not> ascii_digit (ch c) \<Longrightarrow> before c t = t"
  unfolding before_def by (rule takeWhile_eq_all_conv [THEN iffD2]) (auto simp: list_all_iff)

lemma remove_prefix_single: "remove_prefix [p] s = (case s of [] \<Rightarrow> [] | c # cs \<Rightarrow> if c = p then cs else s)"
  by (cases s) (auto simp: remove_prefix_def)

lemma int_token_digits:
  assumes u: "json_classes u"
  shows "length (filter (is_digit u) (integer_part (int_token i))) = length (dec (nat \<bar>i\<bar>))"
proof -
  let ?t = "ascii_text (dec (nat \<bar>i\<bar>))"
  have digits: "list_all ascii_digit ?t"
    using dec_digits [of "nat \<bar>i\<bar>"] by (simp add: list_all_iff ascii_text_def ch_def)
  then have hd: "?t = c # cs \<Longrightarrow> c \<noteq> 45 \<and> c \<noteq> 43" for c cs
    by (auto simp: ascii_digit_def ch_def)
  have keep: "remove_prefix [45] ?t = ?t" "remove_prefix [43] ?t = ?t"
    using hd by (auto simp: remove_prefix_single split: list.splits)
  have drop: "remove_prefix [45] (45 # ?t) = ?t" by (simp add: remove_prefix_single)
  have token: "int_token i = (if i < 0 then 45 # ?t else ?t)" by (simp add: int_token_def ascii_text_def)
  have signs: "ascii_text ''-'' = [45]" "ascii_text ''+'' = [43]" by (simp_all add: ascii_text_def)
  have "unsigned (int_token i) = ?t"
    unfolding unsigned_def token signs by (cases "i < 0") (simp_all only: if_True if_False keep drop)
  then have "integer_part (int_token i) = ?t"
    using digits by (simp add: integer_part_def before_digits ascii_digit_def ch_def)
  moreover have "filter (is_digit u) ?t = ?t"
    using digits json_classes_digit [OF u] by (simp add: filter_id_conv list_all_iff)
  ultimately show ?thesis by (simp add: ascii_text_def)
qed

lemma float_token_shape:
  "float_token t \<Longrightarrow> ascii_text t \<noteq> []"
  "float_token t \<Longrightarrow> hd (ascii_text t) = ch (CHR ''-'') \<or> ascii_digit (hd (ascii_text t))"
  "float_token t \<Longrightarrow> list_all is_number_char (ascii_text t)"
  by (cases t; auto simp: float_token_def ascii_text_def ch_def list_all_iff)+

lemma depth_nonneg: "0 \<le> json_depth j" "0 \<le> items_depth js" "0 \<le> members_depth ms"
  by (induction j and js and ms rule: json_depth_items_depth_members_depth.induct) auto

lemma tokens_nonneg: "1 \<le> json_tokens j" "0 \<le> items_tokens js" "0 \<le> members_tokens ms"
  by (induction j and js and ms rule: json_tokens_items_tokens_members_tokens.induct) auto

text \<open>
  Scanning a rendered value succeeds exactly when the value fits what is left of the limits and the
  rest of the text is accepted from the advanced token count.
\<close>

definition fits ::
  "char_classes \<Rightarrow> structured_limits \<Rightarrow> int \<Rightarrow> int \<Rightarrow> int \<Rightarrow> int \<Rightarrow> bool \<Rightarrow> py_text \<Rightarrow> bool" where
  "fits u l d n depth toks numbers rest \<longleftrightarrow>
     d + depth \<le> max_depth l \<and> n + toks \<le> max_tokens l \<and> numbers
     \<and> scan_json u l d (n + toks) rest = Inr ()"

lemma scan_render:
  assumes u: "json_classes u"
  shows "wf_json j \<Longrightarrow> terminated rest \<Longrightarrow> 0 \<le> d \<Longrightarrow> d \<le> max_depth l \<Longrightarrow> n \<le> max_tokens l \<Longrightarrow>
      scan_json u l d n (render j @ rest) = Inr () \<longleftrightarrow>
      fits u l d n (json_depth j) (json_tokens j) (numbers_ok u l j) rest"
    and "list_all wf_json js \<Longrightarrow> terminated rest \<Longrightarrow> 0 \<le> d \<Longrightarrow> d \<le> max_depth l \<Longrightarrow> n \<le> max_tokens l \<Longrightarrow>
      scan_json u l d n (render_items js @ rest) = Inr () \<longleftrightarrow>
      fits u l d n (items_depth js) (items_tokens js) (list_all (numbers_ok u l) js) rest"
    and "list_all (\<lambda>m. wf_json (snd m)) ms \<Longrightarrow> terminated rest \<Longrightarrow> 0 \<le> d \<Longrightarrow> d \<le> max_depth l \<Longrightarrow>
      n \<le> max_tokens l \<Longrightarrow>
      scan_json u l d n (render_members ms @ rest) = Inr () \<longleftrightarrow>
      fits u l d n (members_depth ms) (members_tokens ms) (list_all (\<lambda>m. numbers_ok u l (snd m)) ms) rest"
proof (induction j and js and ms arbitrary: rest d n and rest d n and rest d n
    rule: render_render_items_render_members.induct)
  case (3 i)
  then show ?case
    using scan_number [OF u int_token_shape, of rest l d n i]
    by (auto simp: fits_def result_simps raise_if_too_many_integer_digits_def int_token_digits [OF u])
next
  case (4 t)
  then show ?case
    using scan_number [OF u float_token_shape, of t rest l d n]
    by (auto simp: fits_def result_simps raise_if_too_many_integer_digits_def)
next
  case (6 js)
  have close: "terminated (ch (CHR '']'') # rest)" by simp
  show ?case
    using 6 depth_nonneg(2) [of js] tokens_nonneg(2) [of js]
    by (auto simp: scan_open [OF u] scan_close [OF u] fits_def ac_simps simp del: scan_json.simps(2))
next
  case (7 ms)
  show ?case
    using 7 depth_nonneg(3) [of ms] tokens_nonneg(3) [of ms]
    by (auto simp: scan_open [OF u] scan_close [OF u] fits_def ac_simps simp del: scan_json.simps(2))
next
  case (9 j)
  then show ?case using depth_nonneg(1) [of j] by (auto simp: fits_def)
next
  case (10 j k js)
  have depth: "items_depth (j # k # js) = max (json_depth j) (items_depth (k # js))" by simp
  show ?case
    using 10 depth depth_nonneg(1) [of j] depth_nonneg(2) [of "k # js"] tokens_nonneg(1) [of j]
      tokens_nonneg(2) [of "k # js"]
    by (auto simp: scan_separator [OF u] fits_def ac_simps
        simp del: scan_json.simps(2) items_depth.simps)
next
  case (12 s j)
  then show ?case
    using depth_nonneg(1) [of j] tokens_nonneg(1) [of j]
    by (auto simp: scan_separator [OF u] scan_quoted [OF u] fits_def ac_simps
        simp del: scan_json.simps(2))
next
  case (13 s j m ms)
  have depth: "members_depth ((s, j) # m # ms) = max (json_depth j) (members_depth (m # ms))" by simp
  show ?case
    using 13 depth depth_nonneg(1) [of j] depth_nonneg(3) [of "m # ms"] tokens_nonneg(1) [of j]
      tokens_nonneg(3) [of "m # ms"]
    by (auto simp: scan_separator [OF u] scan_quoted [OF u] fits_def ac_simps
        simp del: scan_json.simps(2) members_depth.simps)
qed (simp_all add: fits_def scan_word [OF u] ac_simps scan_quoted [OF u] scan_separator [OF u] del: scan_json.simps(2))

lemma tokens_ge_digits: "check_limits l = Inr l' \<Longrightarrow> 0 < max_depth l \<and> 0 < max_tokens l \<and> l' = l"
  by (auto simp: check_limits_def split: if_splits)

text \<open>
  C39: the lexical limits are limits on the document. A serialised JSON value passes the scan exactly
  when its nesting depth, its number of significant tokens and the digits of each of its numbers
  are within the configured ceilings, so a value that is decoded afterwards is never deeper than the
  recursion the limits allow.
\<close>

theorem rendered_json_accepted_iff:
  assumes "json_classes u" and "check_limits l = Inr l" and "wf_json j"
  shows "validate_json_structure u l (render j) = Inr () \<longleftrightarrow>
    json_depth j \<le> max_depth l \<and> json_tokens j \<le> max_tokens l \<and> numbers_ok u l j"
  using scan_render(1) [OF assms(1,3), of "[]" 0 l 0] tokens_ge_digits [OF assms(2)]
  by (auto simp: validate_json_structure_def fits_def)

theorem rendered_json_accepted_iff_witness:
  "validate_json_structure ascii_classes default_limits
      (render (JObj [(ascii_text ''a'', JArr [JInt (-12), JBool True])])) = Inr ()"
proof -
  have "length (dec (nat 12)) \<le> 2" by (rule length_dec_le) auto
  then show ?thesis
    using rendered_json_accepted_iff [of ascii_classes default_limits
        "JObj [(ascii_text ''a'', JArr [JInt (-12), JBool True])]"]
    by (simp add: ascii_json_classes check_limits_def default_limits_def)
qed

section \<open>What the array limit means\<close>

definition plain_char :: "nat \<Rightarrow> bool" where
  "plain_char c \<longleftrightarrow> c \<noteq> 34 \<and> \<not> is_open c \<and> \<not> is_close c \<and> c \<noteq> ch (CHR '','')"

lemma number_plain: "is_number_char c \<Longrightarrow> plain_char c"
  by (auto simp: plain_char_def is_number_char_def number_characters_def ascii_text_def is_open_def
      is_close_def ch_def)

lemma array_items_plain:
  "list_all plain_char t \<Longrightarrow> 2 \<le> d \<or> \<not> e \<Longrightarrow> array_items u m d n e (t @ rest) = array_items u m d n e rest"
  by (induction t) (auto simp: plain_char_def Let_def)

text \<open>A leaf's text: a first character that is not white space, and plain characters.\<close>

definition leaf :: "char_classes \<Rightarrow> py_text \<Rightarrow> bool" where
  "leaf u t \<longleftrightarrow> t \<noteq> [] \<and> \<not> is_space u (hd t) \<and> list_all plain_char t"

lemma json_classes_leaf:
  assumes "json_classes u"
  shows "\<not> is_space u 45" "\<not> is_space u 110" "\<not> is_space u 116" "\<not> is_space u 102"
  using assms by (simp_all add: json_classes_def ch_def)

lemma leaf_number:
  assumes "json_classes u" "t \<noteq> []" "hd t = ch (CHR ''-'') \<or> ascii_digit (hd t)" "list_all is_number_char t"
  shows "leaf u t"
proof -
  have "\<not> is_space u (hd t)"
    using assms(3)
  proof
    assume "hd t = ch (CHR ''-'')"
    then show ?thesis using json_classes_leaf(1) [OF assms(1)] by (simp add: ch_def)
  next
    assume "ascii_digit (hd t)"
    from ascii_digit_cases [OF this] obtain c where c: "c \<in> set ''0123456789''" "hd t = ch c" by (elim bexE)
    show ?thesis unfolding c(2)
      by (rule json_classes_facts(1) [OF assms(1)]) (rule subsetD [OF _ c(1)], simp)
  qed
  moreover have "list_all plain_char t" using assms(4) by (auto simp: list_all_iff intro: number_plain)
  ultimately show ?thesis using assms(2) by (simp add: leaf_def)
qed

lemma leaf_word:
  assumes u: "json_classes u" and "w \<in> {''null'', ''true'', ''false''}"
  shows "leaf u (ascii_text w)"
  using assms(2) json_classes_leaf [OF u]
  by (elim insertE emptyE)
    (simp_all add: leaf_def ascii_text_def plain_char_def is_open_def is_close_def ch_def)

lemma leaf_item:
  assumes "leaf u t" "n \<le> m"
  shows "array_items u m 1 n True (t @ rest) =
    (if m < n + 1 then Inl ArrayItemsExceeded else array_items u m 1 (n + 1) False rest)"
proof -
  obtain c cs where "t = c # cs" using assms(1) by (cases t) (auto simp: leaf_def)
  then show ?thesis using assms by (auto simp: leaf_def plain_char_def Let_def array_items_plain)
qed

lemma leaf_deep: "leaf u t \<Longrightarrow> 2 \<le> d \<Longrightarrow> array_items u m d n e (t @ rest) = array_items u m d n e rest"
  by (simp add: leaf_def array_items_plain)

lemma array_items_quoted:
  assumes "json_classes u" "n \<le> m"
  shows "array_items u m d n e (quoted s @ rest) =
    (if d = 1 \<and> e then (if m < n + 1 then Inl ArrayItemsExceeded else array_items u m d (n + 1) False rest)
     else array_items u m d n e rest)"
  using assms by (auto simp: quoted_def skip_string_escape json_classes_punctuation [OF assms(1)] Let_def)

lemma array_items_open:
  assumes "json_classes u" "n \<le> m" "c = CHR ''['' \<or> c = CHR ''{''"
  shows "array_items u m d n e (ch c # rest) =
    (if d = 1 \<and> e then (if m < n + 1 then Inl ArrayItemsExceeded else array_items u m 2 (n + 1) False rest)
     else array_items u m (d + 1) n e rest)"
  using assms(3) assms(2)
  by (elim disjE) (auto simp: is_open_def ch_def json_classes_punctuation [OF assms(1)] Let_def)

lemma array_items_close:
  assumes "json_classes u" "c = CHR '']'' \<or> c = CHR ''}''"
  shows "array_items u m d n e (ch c # rest) = (if d = 1 then Inr () else array_items u m (d - 1) n e rest)"
  using assms(2)
  by (elim disjE) (auto simp: is_open_def is_close_def ch_def json_classes_punctuation [OF assms(1)] Let_def)

lemma array_items_comma:
  assumes "json_classes u"
  shows "array_items u m d n e (ch (CHR '','') # rest) =
    array_items u m d n (if d = 1 then True else e) rest"
  by (auto simp: is_open_def is_close_def ch_def json_classes_punctuation [OF assms(1)] Let_def)

lemma array_items_colon:
  assumes "json_classes u" "d \<noteq> 1"
  shows "array_items u m d n e (ch (CHR '':'') # rest) = array_items u m d n e rest"
  using assms(2)
  by (auto simp: is_open_def is_close_def ch_def json_classes_punctuation [OF assms(1)] Let_def)

lemma render_leaf:
  assumes "json_classes u" "wf_json j" "\<nexists>js. j = JArr js" "\<nexists>ms. j = JObj ms" "\<nexists>s. j = JStr s"
  shows "leaf u (render j)"
  using assms
  by (cases j) (auto intro: leaf_word leaf_number [OF assms(1) int_token_shape]
      leaf_number [OF assms(1) float_token_shape])

text \<open>Deeper than the array itself nothing is counted.\<close>

lemma array_items_deep:
  assumes u: "json_classes u" and "n \<le> m"
  shows "wf_json j \<Longrightarrow> 2 \<le> d \<Longrightarrow>
      array_items u m d n e (render j @ rest) = array_items u m d n e rest"
    and "list_all wf_json js \<Longrightarrow> 2 \<le> d \<Longrightarrow>
      array_items u m d n e (render_items js @ rest) = array_items u m d n e rest"
    and "list_all (\<lambda>m. wf_json (snd m)) ms \<Longrightarrow> 2 \<le> d \<Longrightarrow>
      array_items u m d n e (render_members ms @ rest) = array_items u m d n e rest"
proof (induction j and js and ms arbitrary: d rest and d rest and d rest
    rule: render_render_items_render_members.induct)
  case 1
  then show ?case using leaf_deep [OF render_leaf [OF u, of JNull]] by simp
next
  case (2 b)
  then show ?case using leaf_deep [OF render_leaf [OF u, of "JBool b"]] by simp
next
  case (3 i)
  then show ?case using leaf_deep [OF render_leaf [OF u, of "JInt i"]] by simp
next
  case (4 t)
  then show ?case using leaf_deep [OF render_leaf [OF u, of "JFloat t"]] by simp
qed (simp_all add: array_items_quoted [OF u assms(2)] array_items_open [OF u assms(2)]
    array_items_close [OF u] array_items_comma [OF u] array_items_colon [OF u] del: array_items.simps(2))

lemma array_item:
  assumes u: "json_classes u" and "n \<le> m" "wf_json j"
  shows "array_items u m 1 n True (render j @ rest) =
    (if m < n + 1 then Inl ArrayItemsExceeded else array_items u m 1 (n + 1) False rest)"
proof (cases "m < n + 1")
  case True
  show ?thesis
  proof (cases j)
    case (JArr js)
    then show ?thesis using True by (simp add: array_items_open [OF u assms(2)] del: array_items.simps(2))
  next
    case (JObj ms)
    then show ?thesis using True by (simp add: array_items_open [OF u assms(2)] del: array_items.simps(2))
  next
    case (JStr s)
    then show ?thesis by (simp add: array_items_quoted [OF u assms(2)] del: array_items.simps(2))
  qed (use leaf_item [OF render_leaf [OF u assms(3)] assms(2)] in auto)
next
  case False
  then have n: "n + 1 \<le> m" by simp
  show ?thesis
  proof (cases j)
    case (JArr js)
    then show ?thesis using False assms(3)
      by (simp add: array_items_open [OF u assms(2)] array_items_deep [OF u n] array_items_close [OF u]
          del: array_items.simps(2))
  next
    case (JObj ms)
    then show ?thesis using False assms(3)
      by (simp add: array_items_open [OF u assms(2)] array_items_deep [OF u n] array_items_close [OF u]
          del: array_items.simps(2))
  next
    case (JStr s)
    then show ?thesis by (simp add: array_items_quoted [OF u assms(2)] del: array_items.simps(2))
  qed (use leaf_item [OF render_leaf [OF u assms(3)] assms(2)] in auto)
qed

lemma array_items_render:
  assumes u: "json_classes u"
  shows "list_all wf_json js \<Longrightarrow> n \<le> m \<Longrightarrow>
    array_items u m 1 n True (render_items js @ ch (CHR '']'') # rest) =
    (if n + int (length js) \<le> m then Inr () else Inl ArrayItemsExceeded)"
proof (induction js arbitrary: n rule: induct_list012)
  case 1
  then show ?case by (simp add: array_items_close [OF u] del: array_items.simps(2))
next
  case (2 j)
  then show ?case
    by (simp add: array_item [OF u] array_items_close [OF u] del: array_items.simps(2))
next
  case (3 j k js)
  have "n + 1 \<le> m \<Longrightarrow>
    array_items u m 1 (n + 1) True (render_items (k # js) @ ch (CHR '']'') # rest) =
    (if (n + 1) + int (length (k # js)) \<le> m then Inr () else Inl ArrayItemsExceeded)"
    by (rule 3) (use 3 in auto)
  then show ?case using 3(3,4)
    by (simp add: array_item [OF u] array_items_comma [OF u] del: array_items.simps(2))
qed

lemma array_limit_render:
  assumes "json_classes u" "list_all wf_json js" "0 \<le> m"
  shows "validate_array_item_limit u m (render (JArr js) @ rest) =
    (if int (length js) \<le> m then Inr () else Inl ArrayItemsExceeded)"
  using array_items_render [OF assms(1,2), of 0 m rest] assms(3)
  by (simp add: validate_array_item_limit_def)

text \<open>
  Member names are recognised at depth one after an opening brace or a comma. Scanning a value that is
  not in such a position changes nothing but what was seen last.
\<close>

definition passes ::
  "char_classes \<Rightarrow> (py_text \<Rightarrow> py_text option) \<Rightarrow> py_text \<Rightarrow> int \<Rightarrow> int \<Rightarrow> previous \<Rightarrow> py_text \<Rightarrow> py_text \<Rightarrow> bool" where
  "passes u ld key m d p t rest \<longleftrightarrow>
     (\<exists>p'. scan_members u ld key m d p (t @ rest) = scan_members u ld key m d p' rest)"

definition no_name :: "int \<Rightarrow> previous \<Rightarrow> bool" where
  "no_name d p \<longleftrightarrow> 2 \<le> d \<or> (d = 1 \<and> p = Punct (ch (CHR '':'')))"

lemma passes_plain: "list_all plain_char t \<Longrightarrow> passes u ld key m d p t rest"
proof (induction t arbitrary: p)
  case Nil
  then show ?case by (auto simp: passes_def)
next
  case (Cons c cs)
  then show ?case
    by (cases "is_space u c") (auto simp: passes_def plain_char_def)
qed

lemma members_quoted:
  assumes "json_classes u" "no_name d p"
  shows "scan_members u ld key m d p (quoted s @ rest) = scan_members u ld key m d Value rest"
  using assms(2)
  by (auto simp: quoted_def skip_string_escape no_name_def json_classes_punctuation [OF assms(1)] ch_def)

lemma members_punctuation:
  assumes "json_classes u" "c \<in> {CHR ''['', CHR ''{'', CHR '']'', CHR ''}'', CHR '','', CHR '':''}"
  shows "scan_members u ld key m d p (ch c # rest) =
    scan_members u ld key m
      (if c = CHR ''['' \<or> c = CHR ''{'' then d + 1
       else if c = CHR '']'' \<or> c = CHR ''}'' then max 0 (d - 1) else d)
      (Punct (ch c)) rest"
  using assms(2)
  by (elim insertE emptyE)
    (simp_all add: is_open_def is_close_def ch_def json_classes_punctuation [OF assms(1)])

lemma passes_append:
  assumes "passes u ld key m d p t (t' @ rest)" "\<forall>q. passes u ld key m d q t' rest"
  shows "passes u ld key m d p (t @ t') rest"
  using assms by (auto simp: passes_def)

lemma passes_separator:
  "json_classes u \<Longrightarrow> c = CHR '','' \<or> c = CHR '':'' \<Longrightarrow> passes u ld key m d p [ch c] rest"
  using members_punctuation [of u "CHR '',''"] members_punctuation [of u "CHR '':''"]
  unfolding passes_def by (elim disjE) (simp_all del: scan_members.simps(2), blast+)

lemma passes_quoted: "json_classes u \<Longrightarrow> no_name d p \<Longrightarrow> passes u ld key m d p (quoted s) rest"
  by (auto simp: passes_def members_quoted)

lemma members_value:
  assumes u: "json_classes u"
  shows "wf_json j \<Longrightarrow> no_name d p \<Longrightarrow> passes u ld key m d p (render j) rest"
    and "list_all wf_json js \<Longrightarrow> 2 \<le> d \<Longrightarrow> passes u ld key m d p (render_items js) rest"
    and "list_all (\<lambda>m. wf_json (snd m)) ms \<Longrightarrow> 2 \<le> d \<Longrightarrow> passes u ld key m d p (render_members ms) rest"
proof (induction j and js and ms arbitrary: d p rest and d p rest and d p rest
    rule: render_render_items_render_members.induct)
  case 1
  then show ?case using render_leaf [OF u, of JNull] by (simp add: passes_plain leaf_def)
next
  case (2 b)
  then show ?case using render_leaf [OF u, of "JBool b"] by (simp add: passes_plain leaf_def)
next
  case (3 i)
  then show ?case using render_leaf [OF u, of "JInt i"] by (simp add: passes_plain leaf_def)
next
  case (4 t)
  then show ?case using render_leaf [OF u, of "JFloat t"] by (simp add: passes_plain leaf_def)
next
  case (5 s)
  then show ?case by (auto simp: passes_def members_quoted [OF u])
next
  case (6 js d p rest)
  then have d: "2 \<le> d + 1" "max 0 (d + 1 - 1) = d" by (auto simp: no_name_def)
  have "passes u ld key m (d + 1) (Punct (ch (CHR ''[''))) (render_items js) (ch (CHR '']'') # rest)"
    by (rule 6(1)) (use 6(2) d in auto)
  then show ?case
    using d by (auto simp: passes_def members_punctuation [OF u] simp del: scan_members.simps(2))
next
  case (7 ms d p rest)
  then have d: "2 \<le> d + 1" "max 0 (d + 1 - 1) = d" by (auto simp: no_name_def)
  have "passes u ld key m (d + 1) (Punct (ch (CHR ''{''))) (render_members ms) (ch (CHR ''}'') # rest)"
    by (rule 7(1)) (use 7(2) d in auto)
  then show ?case
    using d by (auto simp: passes_def members_punctuation [OF u] simp del: scan_members.simps(2))
next
  case (10 j k js d p rest)
  then have name: "no_name d q" for q by (simp add: no_name_def)
  have "passes u ld key m d p (render j @ [ch (CHR '','')] @ render_items (k # js)) rest"
    by (intro passes_append allI passes_separator [OF u] 10(1) 10(2)) (use 10 name in auto)
  then show ?case by simp
next
  case (12 s j d p rest)
  then have name: "no_name d q" for q by (simp add: no_name_def)
  have "passes u ld key m d p (quoted s @ [ch (CHR '':'')] @ render j) rest"
    by (intro passes_append allI passes_separator [OF u] passes_quoted [OF u] 12(1)) (use 12 name in auto)
  then show ?case by simp
next
  case (13 s j k ms d p rest)
  then have name: "no_name d q" for q by (simp add: no_name_def)
  have "passes u ld key m d p
      (quoted s @ [ch (CHR '':'')] @ render j @ [ch (CHR '','')] @ render_members (k # ms)) rest"
    by (intro passes_append allI passes_separator [OF u] passes_quoted [OF u] 13(1) 13(2))
      (use 13 name in auto)
  then show ?case by simp
qed (auto simp: passes_def no_name_def)

lemma string_token_quoted: "string_token (escape s @ 34 # rest) = quoted s"
proof -
  have "take (length (escape s @ 34 # rest) - length rest) (escape s @ 34 # rest) = escape s @ [34]"
    by simp
  then show ?thesis unfolding string_token_def skip_string_escape quoted_def by simp
qed

lemma first_char_not_open:
  assumes "json_classes u" "wf_json j" "\<nexists>js. j = JArr js"
  shows "\<exists>c cs. render j = c # cs \<and> \<not> is_space u c \<and> c \<noteq> ch (CHR ''['')"
proof -
  note punctuation = json_classes_punctuation [OF assms(1)]
  show ?thesis
  proof (cases "leaf u (render j)")
    case True
    then show ?thesis by (cases "render j") (auto simp: leaf_def plain_char_def is_open_def)
  next
    case False
    then consider s where "j = JStr s" | ms where "j = JObj ms"
      using render_leaf [OF assms(1,2)] assms(3) by blast
    then show ?thesis by cases (simp_all add: quoted_def ch_def punctuation)
  qed
qed

definition within :: "int \<Rightarrow> json \<Rightarrow> bool" where
  "within m j = (case j of JArr js \<Rightarrow> int (length js) \<le> m | _ \<Rightarrow> True)"

lemma key_hit_render:
  assumes u: "json_classes u" and "wf_json j" "0 \<le> m"
  shows "key_hit u m (ch (CHR '':'') # render j @ rest) =
    (if within m j then Inr () else Inl ArrayItemsExceeded)"
proof (cases "\<exists>js. j = JArr js")
  case True
  then obtain js where j: "j = JArr js" by blast
  have "skip_space u (render j @ rest) = render j @ rest"
    by (simp add: j skip_space_def ch_def json_classes_punctuation [OF u])
  moreover have "skip_space u (ch (CHR '':'') # render j @ rest) = ch (CHR '':'') # render j @ rest"
    by (simp add: skip_space_def ch_def json_classes_punctuation [OF u])
  ultimately show ?thesis
    using array_limit_render [OF u, of js m rest] assms
    by (simp add: key_hit_def j within_def)
next
  case False
  then obtain c cs where c: "render j = c # cs" "\<not> is_space u c" "c \<noteq> ch (CHR ''['')"
    using first_char_not_open [OF u assms(2)] by blast
  moreover have "within m j" using False by (cases j) (auto simp: within_def)
  ultimately show ?thesis
    by (simp add: key_hit_def skip_space_def ch_def json_classes_punctuation [OF u])
qed

definition name_position :: "previous \<Rightarrow> bool" where
  "name_position p \<longleftrightarrow> p = Punct (ch (CHR ''{'')) \<or> p = Punct (ch (CHR '',''))"

lemma members_name:
  assumes u: "json_classes u" and ld: "\<forall>t. loads_string (quoted t) = Some t"
    and "name_position p" "wf_json j" "0 \<le> m"
  shows "scan_members u loads_string key m 1 p (quoted s @ ch (CHR '':'') # render j @ rest) = Inr () \<longleftrightarrow>
    (s = key \<longrightarrow> within m j)
    \<and> scan_members u loads_string key m 1 (Punct (ch (CHR '':''))) (render j @ rest) = Inr ()"
proof -
  have "scan_members u loads_string key m 1 p (quoted s @ ch (CHR '':'') # render j @ rest) =
    rbind (if s = key then key_hit u m (ch (CHR '':'') # render j @ rest) else Inr ())
      (\<lambda>_. scan_members u loads_string key m 1 Value (ch (CHR '':'') # render j @ rest))"
    (is "scan_members _ _ _ _ _ _ (_ @ ?t) = _")
  proof -
    have q: "quoted s @ ?t = 34 # (escape s @ 34 # ?t)" by (simp add: quoted_def)
    have name: "1 = (1 :: int) \<and> (p = Punct (ch (CHR ''{'')) \<or> p = Punct (ch (CHR '','')))
        \<and> loads_string (quoted s) = Some key \<longleftrightarrow> s = key"
      using assms(3) ld by (auto simp: name_position_def)
    show ?thesis
      unfolding q scan_members.simps(2) skip_string_escape string_token_quoted name
      by (simp only: json_classes_punctuation(1) [OF u] if_False refl if_True)
  qed
  then show ?thesis
    using key_hit_render [OF u assms(4,5), of rest] members_punctuation [OF u, of "CHR '':''"]
    by (auto simp: result_simps simp del: scan_members.simps(2))
qed

lemma members_value_after_colon:
  assumes "json_classes u" "wf_json j"
  shows "\<exists>p'. scan_members u ld key m 1 (Punct (ch (CHR '':''))) (render j @ t) =
    scan_members u ld key m 1 p' t"
  using members_value(1) [OF assms] unfolding passes_def no_name_def by blast

lemma members_render:
  assumes u: "json_classes u" and ld: "\<forall>t. loads_string (quoted t) = Some t" and "0 \<le> m"
  shows "list_all (\<lambda>m. wf_json (snd m)) ms \<Longrightarrow> name_position p \<Longrightarrow>
    scan_members u loads_string key m 1 p (render_members ms @ [ch (CHR ''}'')]) = Inr () \<longleftrightarrow>
    list_all (\<lambda>e. fst e = key \<longrightarrow> within m (snd e)) ms"
proof (induction ms arbitrary: p rule: induct_list012)
  case 1
  then show ?case by (simp add: members_punctuation [OF u] del: scan_members.simps(2))
next
  case (2 e)
  obtain s j where e: "e = (s, j)" by (cases e)
  have wf: "wf_json j" using 2(1) e by simp
  from members_value_after_colon [OF u wf, of loads_string key m "[ch (CHR ''}'')]"]
  obtain p' where pass: "scan_members u loads_string key m 1 (Punct (ch (CHR '':''))) (render j @ [ch (CHR ''}'')])
      = scan_members u loads_string key m 1 p' [ch (CHR ''}'')]" by (elim exE)
  have "scan_members u loads_string key m 1 p' [ch (CHR ''}'')] = Inr ()"
    by (simp add: members_punctuation [OF u] del: scan_members.simps(2))
  then show ?case
    using members_name [OF u ld 2(2) wf assms(3), of key s "[ch (CHR ''}'')]"] pass
    by (simp add: e del: scan_members.simps(2))
next
  case (3 e k ms)
  obtain s j where e: "e = (s, j)" by (cases e)
  let ?t = "ch (CHR '','') # render_members (k # ms) @ [ch (CHR ''}'')]"
  have wf: "wf_json j" using 3(3) e by simp
  from members_value_after_colon [OF u wf, of loads_string key m ?t]
  obtain p' where pass: "scan_members u loads_string key m 1 (Punct (ch (CHR '':''))) (render j @ ?t)
      = scan_members u loads_string key m 1 p' ?t" by (elim exE)
  have "scan_members u loads_string key m 1 p' ?t = Inr () \<longleftrightarrow>
      list_all (\<lambda>e. fst e = key \<longrightarrow> within m (snd e)) (k # ms)"
    using 3(2) [of "Punct (ch (CHR '',''))"] 3(3)
    by (simp add: members_punctuation [OF u] name_position_def del: scan_members.simps(2) render_members.simps)
  moreover have "render_members (e # k # ms) @ [ch (CHR ''}'')] =
      quoted s @ ch (CHR '':'') # render j @ ?t" by (simp add: e)
  ultimately show ?case
    unfolding list.pred_inject(2) [of _ e]
    by (simp only: members_name [OF u ld 3(4) wf assms(3)] pass e fst_conv snd_conv)
qed

text \<open>
  The array limit finds every direct member of that name. For a serialised object the check
  succeeds exactly when the document is within the structural limits and every member called \<open>key\<close>
  whose value is an array, duplicates included, has at most \<open>max_items\<close> items; arrays of the same name
  deeper in the document are not limited.
\<close>

theorem top_level_array_limit_iff:
  assumes "json_classes u" and "\<forall>t. loads_string (quoted t) = Some t"
    and "key \<noteq> []" and "0 \<le> max_items" and "list_all (\<lambda>m. wf_json (snd m)) ms"
  shows "validate_top_level_json_array_limit u loads_string l key max_items (render (JObj ms)) = Inr () \<longleftrightarrow>
    validate_json_structure u l (render (JObj ms)) = Inr ()
    \<and> list_all (\<lambda>e. fst e = key \<longrightarrow> within max_items (snd e)) ms"
proof -
  have "scan_members u loads_string key max_items 0 Start (render (JObj ms)) =
    scan_members u loads_string key max_items 1 (Punct (ch (CHR ''{''))) (render_members ms @ [ch (CHR ''}'')])"
    by (simp add: members_punctuation [OF assms(1)] del: scan_members.simps(2))
  then show ?thesis
    using assms members_render [OF assms(1,2,4,5), of "Punct (ch (CHR ''{''))" key]
    by (simp add: validate_top_level_json_array_limit_def name_position_def result_simps)
qed

fun unescape :: "py_text \<Rightarrow> py_text" where
  "unescape [] = []"
| "unescape [c] = [c]"
| "unescape (c # d # s) =
     (if c \<noteq> 92 then c # unescape (d # s)
      else if d \<noteq> 117 then d # unescape s
      else (case s of
          _ # _ # a # b # s' \<Rightarrow>
            (16 * (a - 48) + (if b < 58 then b - 48 else b - 87)) # unescape s'
        | _ \<Rightarrow> []))"

lemma unescape_escape: "unescape (escape s @ rest) = s @ unescape rest"
proof (induction s)
  case Nil
  then show ?case by simp
next
  case (Cons c cs)
  consider "c = 34 \<or> c = 92" | "c \<noteq> 34" "c \<noteq> 92" "c < 10" | "c \<noteq> 34" "c \<noteq> 92" "10 \<le> c" "c < 16"
    | "c \<noteq> 34" "c \<noteq> 92" "16 \<le> c" "c < 26" | "c \<noteq> 34" "c \<noteq> 92" "26 \<le> c" "c < 32"
    | "c \<noteq> 34" "c \<noteq> 92" "32 \<le> c"
    by linarith
  then show ?case
  proof cases
    case 6
    then show ?thesis using Cons.IH by (cases "escape cs @ rest") (auto simp: ascii_text_def)
  qed (use Cons.IH in \<open>auto simp: ascii_text_def\<close>)
qed

definition read_string :: "py_text \<Rightarrow> py_text option" where
  "read_string t = Some (unescape (butlast (tl t)))"

lemma read_string_quoted: "read_string (quoted s) = Some s"
  using unescape_escape [of s "[]"] by (simp add: read_string_def quoted_def)

theorem top_level_array_limit_iff_witness:
  "validate_top_level_json_array_limit ascii_classes read_string default_limits (ascii_text ''a'') 1
      (render (JObj [(ascii_text ''a'', JArr [JNull, JNull])])) \<noteq> Inr ()"
  using top_level_array_limit_iff [of ascii_classes read_string "ascii_text ''a''" 1
      "[(ascii_text ''a'', JArr [JNull, JNull])]" default_limits]
  by (simp add: ascii_json_classes read_string_quoted within_def ascii_text_def
      del: render.simps)

section \<open>What the YAML limits mean\<close>

fun yaml_depth :: "yaml_token list \<Rightarrow> int \<Rightarrow> int" where
  "yaml_depth [] d = d"
| "yaml_depth (t # ts) d =
     (case t of YStart \<Rightarrow> max d (yaml_depth ts (d + 1))
      | YEnd \<Rightarrow> max d (yaml_depth ts (max 0 (d - 1)))
      | _ \<Rightarrow> max d (yaml_depth ts d))"

definition yaml_digits_ok :: "char_classes \<Rightarrow> structured_limits \<Rightarrow> yaml_token \<Rightarrow> bool" where
  "yaml_digits_ok u l t =
     (case t of
        YScalar plain v \<Rightarrow>
          \<not> plain \<or> \<not> yaml_integer v \<or> raise_if_too_many_yaml_integer_digits u l v = Inr ()
      | _ \<Rightarrow> True)"

lemma yaml_depth_ge: "d \<le> yaml_depth ts d"
  by (cases ts) (auto split: yaml_token.splits)

lemma scan_yaml_iff:
  "d \<le> max_depth l \<Longrightarrow> n \<le> max_tokens l \<Longrightarrow> 0 \<le> d \<Longrightarrow>
    scan_yaml u l d n ts = Inr () \<longleftrightarrow>
      n + int (length ts) \<le> max_tokens l \<and> YAlias \<notin> set ts \<and> yaml_depth ts d \<le> max_depth l
      \<and> list_all (yaml_digits_ok u l) ts"
proof (induction ts arbitrary: d n)
  case Nil
  then show ?case by simp
next
  case (Cons t ts)
  have ge: "d' \<le> yaml_depth ts d'" for d' by (rule yaml_depth_ge)
  show ?case
  proof (cases t)
    case YStart
    then show ?thesis using Cons ge [of "d + 1"] by (auto simp: yaml_digits_ok_def)
  next
    case YEnd
    then show ?thesis using Cons ge [of "max 0 (d - 1)"] by (auto simp: yaml_digits_ok_def)
  qed (use Cons ge [of d] in \<open>auto simp: yaml_digits_ok_def result_simps\<close>)
qed

text \<open>
  The YAML gate accepts exactly the texts whose scanner tokens stay within the token and depth
  ceilings, contain no alias, and whose plain integers respect the digit ceiling, and on which the
  scanner does not fail.
\<close>

theorem yaml_accepted_iff:
  assumes "check_limits l = Inr l" and "yaml_scan s = (ts, fails)"
  shows "validate_yaml_structure u yaml_scan l s = Inr () \<longleftrightarrow>
    \<not> fails \<and> int (length ts) \<le> max_tokens l \<and> YAlias \<notin> set ts \<and> yaml_depth ts 0 \<le> max_depth l
    \<and> list_all (yaml_digits_ok u l) ts"
  using scan_yaml_iff [of 0 l 0 u ts] tokens_ge_digits [OF assms(1)] assms(2)
  by (auto simp: validate_yaml_structure_def result_simps)

theorem yaml_accepted_iff_witness:
  "validate_yaml_structure ascii_classes (\<lambda>s. ([YStart, YScalar True s, YEnd], False)) default_limits
     (ascii_text ''12'') = Inr ()"
  using yaml_accepted_iff [of default_limits "\<lambda>s. ([YStart, YScalar True s, YEnd], False)"
      "ascii_text ''12''" "[YStart, YScalar True (ascii_text ''12''), YEnd]" False ascii_classes]
  by (simp add: check_limits_def default_limits_def yaml_digits_ok_def
      raise_if_too_many_yaml_integer_digits_def unsigned_def remove_prefix_def ascii_text_def
      ascii_classes_def ascii_digit_def ch_def)

end
