(* ===== verification/Stream.thy ===== *)
theory Stream
  imports Parsing
begin

text \<open>
  The incremental parser of \<open>evaluation/stream.py\<close> for one chat completion delivered as server-sent
  events. The parser object is a record; an operation returns the updated object together with the
  exception it raises, because a failing call leaves its mutations behind. \<open>json.loads\<close> is an argument
  that is given the parser's own hooks; Unicode classes and \<open>float\<close> are arguments as in \<open>Parsing\<close>.
\<close>

section \<open>Errors and state\<close>

datatype stream_fault =
    AlreadyClosed | TimestampNotMonotonic | NotUtf8 | InvalidLine | InvalidRetry | UnsupportedField
  | ServerErrorEvent | PayloadAfterDone | InvalidJson | DuplicateKeys | NonFiniteNumber | NotAnObject
  | ServerErrorPayload | TooManyChoices | ChoiceNotObject | ChoiceIndex | DeltaNotObject
  | ContentNotText | ContentNotUnicode | FinishUnsupported | FinishRepeated | ContentAfterFinish
  | UsageNotObject | UsageRepeated | UsagePrecedesFinish | TokenCountInvalid | UsageInconsistent
  | UsageContradictsContent

datatype stream_limit = ByteLimit | EventByteLimit | EventCountLimit | ContentEventLimit | JsonLimit

datatype stream_incomplete = TerminatedWithoutContent | EndedEarly

datatype stream_error =
    Stream_Error stream_fault
  | Stream_Limit_Error stream_limit
  | Incomplete_Stream stream_incomplete

datatype stop_reason = STOP | LENGTH

record stream_parser =
  first_body_byte_ns :: "int option"
  first_content_ns :: "int option"
  content_event_times_ns :: "int list"
  finish_reason :: "stop_reason option"
  completion_tokens :: "int option"
  prompt_tokens :: "int option"
  sp_done :: bool
  max_stream_bytes :: int
  max_event_bytes :: int
  max_content_events :: int
  max_events :: int
  stream_bytes :: int
  events :: int
  pending_bytes :: py_bytes
  line_start :: nat
  last_observed_ns :: "int option"
  sp_failed :: bool
  sp_closed :: bool

datatype stream_config_error = LimitsNotPositiveIntegers

definition new_parser :: "int \<Rightarrow> int \<Rightarrow> int \<Rightarrow> (stream_config_error, stream_parser) res" where
  "new_parser stream_max event_max content_max =
     (if stream_max \<le> 0 \<or> event_max \<le> 0 \<or> content_max \<le> 0 then Inl LimitsNotPositiveIntegers
      else Inr \<lparr>first_body_byte_ns = None, first_content_ns = None, content_event_times_ns = [],
        finish_reason = None, completion_tokens = None, prompt_tokens = None, sp_done = False,
        max_stream_bytes = stream_max, max_event_bytes = event_max, max_content_events = content_max,
        max_events = 4 * content_max + 64, stream_bytes = 0, events = 0, pending_bytes = [],
        line_start = 0, last_observed_ns = None, sp_failed = False, sp_closed = False\<rparr>)"

type_synonym outcome = "stream_parser \<times> stream_error option"

text \<open>Sequencing of mutating steps: an exception stops the sequence and keeps the state.\<close>

definition and_then :: "outcome \<Rightarrow> (stream_parser \<Rightarrow> outcome) \<Rightarrow> outcome" where
  "and_then r f = (case r of (p, None) \<Rightarrow> f p | (p, Some e) \<Rightarrow> (p, Some e))"

definition lift_res :: "stream_parser \<Rightarrow> (stream_error, stream_parser) res \<Rightarrow> outcome" where
  "lift_res p r = (case r of Inl e \<Rightarrow> (p, Some e) | Inr p' \<Rightarrow> (p', None))"

section \<open>JSON\<close>

datatype hook_error = HookStream stream_fault | HookBounded parse_error

datatype loads_error = DecodeError | HookRaised hook_error

record json_hooks =
  object_pairs_hook :: "(py_text \<times> json) list \<Rightarrow> (hook_error, (py_text \<times> json) list) res"
  parse_int :: "py_text \<Rightarrow> (hook_error, int) res"
  parse_float :: "py_text \<Rightarrow> (hook_error, json) res"
  parse_constant :: "py_text \<Rightarrow> (hook_error, json) res"

text \<open>
  What the parser relies on from outside: the Unicode classes, \<open>float\<close> (None on a ValueError, otherwise
  whether the value is finite), and \<open>json.loads\<close> applied to hooks and a text. A RecursionError is
  \<open>DecodeError\<close> too: the code treats both alike.
\<close>

record json_env =
  je_classes :: char_classes
  je_float :: "py_text \<Rightarrow> bool option"
  je_loads :: "json_hooks \<Rightarrow> py_text \<Rightarrow> (loads_error, json) res"

definition json_limits :: structured_limits where
  "json_limits = \<lparr>max_depth = 32, max_tokens = 8192, max_integer_digits = 32\<rparr>"

definition unique_object :: "(py_text \<times> json) list \<Rightarrow> (hook_error, (py_text \<times> json) list) res" where
  "unique_object pairs =
     res_fold (\<lambda>result (k, v).
        if k \<in> set (map fst result) then Inl (HookStream DuplicateKeys) else Inr (result @ [(k, v)]))
      [] pairs"

definition reject_constant :: "py_text \<Rightarrow> (hook_error, json) res" where
  "reject_constant v = Inl (HookStream NonFiniteNumber)"

definition hook_bounded :: "(parse_error, 'a) res \<Rightarrow> (hook_error, 'a) res" where
  "hook_bounded r = (case r of Inl e \<Rightarrow> Inl (HookBounded e) | Inr x \<Rightarrow> Inr x)"

definition stream_hooks :: "json_env \<Rightarrow> json_hooks" where
  "stream_hooks env = \<lparr>
     object_pairs_hook = unique_object,
     parse_int = (\<lambda>t. hook_bounded (bounded_json_int (je_classes env) json_limits t)),
     parse_float = (\<lambda>t. hook_bounded (rbind
       (bounded_json_float (je_classes env) (je_float env) (\<lambda>finite. finite) json_limits t)
       (\<lambda>_. Inr (JFloat (map char_of t))))),
     parse_constant = reject_constant\<rparr>"

definition decode_payload :: "json_env \<Rightarrow> py_text \<Rightarrow> (stream_error, json) res" where
  "decode_payload env payload =
     (case validate_json_structure (je_classes env) json_limits payload of
        Inl _ \<Rightarrow> Inl (Stream_Limit_Error JsonLimit)
      | Inr _ \<Rightarrow>
          (case je_loads env (stream_hooks env) payload of
             Inl DecodeError \<Rightarrow> Inl (Stream_Error InvalidJson)
           | Inl (HookRaised (HookStream f)) \<Rightarrow> Inl (Stream_Error f)
           | Inl (HookRaised (HookBounded _)) \<Rightarrow> Inl (Stream_Limit_Error JsonLimit)
           | Inr j \<Rightarrow> Inr j))"

section \<open>One decoded event\<close>

definition token_count :: "json option \<Rightarrow> (stream_error, int) res" where
  "token_count v =
     (case v of
        Some (JInt i) \<Rightarrow>
          if 0 \<le> i \<and> i \<le> 9007199254740991 then Inr i else Inl (Stream_Error TokenCountInvalid)
      | _ \<Rightarrow> Inl (Stream_Error TokenCountInvalid))"

definition stop_reason_of :: "json option \<Rightarrow> (stream_error, stop_reason option) res" where
  "stop_reason_of v =
     (case v of
        None \<Rightarrow> Inr None
      | Some JNull \<Rightarrow> Inr None
      | Some (JStr s) \<Rightarrow>
          if s = ascii_text ''stop'' then Inr (Some STOP)
          else if s = ascii_text ''length'' then Inr (Some LENGTH)
          else Inl (Stream_Error FinishUnsupported)
      | _ \<Rightarrow> Inl (Stream_Error FinishUnsupported))"

definition content_of :: "json option \<Rightarrow> (stream_error, py_text option) res" where
  "content_of v =
     (case v of
        None \<Rightarrow> Inr None
      | Some JNull \<Rightarrow> Inr None
      | Some (JStr s) \<Rightarrow>
          if utf8_encode s = None then Inl (Stream_Error ContentNotUnicode) else Inr (Some s)
      | _ \<Rightarrow> Inl (Stream_Error ContentNotText))"

definition has_text :: "py_text option \<Rightarrow> bool" where
  "has_text content \<longleftrightarrow> content \<noteq> None \<and> content \<noteq> Some []"

definition choice_fields :: "json \<Rightarrow> (stream_error, py_text option \<times> stop_reason option) res" where
  "choice_fields v =
     (case v of
        JObj members \<Rightarrow>
          if json_get members ''index'' \<noteq> Some (JInt 0) then Inl (Stream_Error ChoiceIndex)
          else (case json_get members ''delta'' of
              Some (JObj delta) \<Rightarrow>
                rbind (content_of (json_get delta ''content'')) (\<lambda>content.
                rbind (stop_reason_of (json_get members ''finish_reason'')) (\<lambda>reason.
                  Inr (content, reason)))
            | _ \<Rightarrow> Inl (Stream_Error DeltaNotObject))
      | _ \<Rightarrow> Inl (Stream_Error ChoiceNotObject))"

definition add_content :: "int \<Rightarrow> stream_parser \<Rightarrow> stream_parser" where
  "add_content observed p =
     p\<lparr>first_content_ns := (if first_content_ns p = None then Some observed else first_content_ns p),
       content_event_times_ns := content_event_times_ns p @ [observed]\<rparr>"

definition choice_event :: "json \<Rightarrow> int \<Rightarrow> stream_parser \<Rightarrow> (stream_error, stream_parser) res" where
  "choice_event v observed p =
     rbind (choice_fields v) (\<lambda>(content, reason).
       if reason \<noteq> None \<and> finish_reason p \<noteq> None then Inl (Stream_Error FinishRepeated)
       else if has_text content \<and> finish_reason p \<noteq> None then Inl (Stream_Error ContentAfterFinish)
       else if has_text content \<and> max_content_events p \<le> int (length (content_event_times_ns p))
       then Inl (Stream_Limit_Error ContentEventLimit)
       else let p' = (if has_text content then add_content observed p else p)
         in Inr (if reason \<noteq> None then p'\<lparr>finish_reason := reason\<rparr> else p'))"

definition usage_event :: "json \<Rightarrow> stream_parser \<Rightarrow> (stream_error, stream_parser) res" where
  "usage_event v p =
     (case v of
        JObj members \<Rightarrow>
          rbind (raise_if (completion_tokens p \<noteq> None) (Stream_Error UsageRepeated)) (\<lambda>_.
          rbind (raise_if (finish_reason p = None) (Stream_Error UsagePrecedesFinish)) (\<lambda>_.
          rbind (token_count (json_get members ''prompt_tokens'')) (\<lambda>prompt.
          rbind (token_count (json_get members ''completion_tokens'')) (\<lambda>completion.
          rbind (token_count (json_get members ''total_tokens'')) (\<lambda>total.
          rbind (raise_if (prompt + completion \<noteq> total) (Stream_Error UsageInconsistent)) (\<lambda>_.
          rbind (raise_if (completion = 0 \<and> first_content_ns p \<noteq> None)
              (Stream_Error UsageContradictsContent)) (\<lambda>_.
            Inr (p\<lparr>prompt_tokens := Some prompt, completion_tokens := Some completion\<rparr>))))))))
      | _ \<Rightarrow> Inl (Stream_Error UsageNotObject))"

definition usage_part :: "(py_text \<times> json) list \<Rightarrow> stream_parser \<Rightarrow> outcome" where
  "usage_part members p =
     (case json_get members ''usage'' of
        None \<Rightarrow> (p, None)
      | Some JNull \<Rightarrow> (p, None)
      | Some usage \<Rightarrow> lift_res p (usage_event usage p))"

definition object_event :: "json \<Rightarrow> int \<Rightarrow> stream_parser \<Rightarrow> outcome" where
  "object_event decoded observed p =
     (case decoded of
        JObj members \<Rightarrow>
          if json_get members ''error'' \<noteq> None then (p, Some (Stream_Error ServerErrorPayload))
          else (case json_get members ''choices'' of
              Some (JArr choices) \<Rightarrow>
                if 1 < length choices then (p, Some (Stream_Error TooManyChoices))
                else and_then
                  (case choices of [] \<Rightarrow> (p, None) | c # _ \<Rightarrow> lift_res p (choice_event c observed p))
                  (usage_part members)
            | _ \<Rightarrow> (p, Some (Stream_Error TooManyChoices)))
      | _ \<Rightarrow> (p, Some (Stream_Error NotAnObject)))"

section \<open>One SSE frame\<close>

fun split_on :: "nat \<Rightarrow> py_text \<Rightarrow> py_text list" where
  "split_on c [] = [[]]"
| "split_on c (x # xs) =
     (if x = c then [] # split_on c xs
      else (case split_on c xs of [] \<Rightarrow> [[x]] | l # ls \<Rightarrow> (x # l) # ls))"

definition remove_cr :: "py_text \<Rightarrow> py_text" where
  "remove_cr line = (if line \<noteq> [] \<and> last line = 13 then butlast line else line)"

record frame_fields =
  ff_event :: py_text
  ff_data :: "py_text list"

definition frame_line :: "frame_fields \<Rightarrow> py_text \<Rightarrow> (stream_error, frame_fields) res" where
  "frame_line f raw =
     (let line = remove_cr raw
      in if 13 \<in> set line \<or> 0 \<in> set line then Inl (Stream_Error InvalidLine)
         else if line = [] \<or> hd line = ch (CHR '':'') then Inr f
         else (case partition_text (ascii_text '':'') line of
             (field, separator, v) \<Rightarrow>
               let v = (if separator then remove_prefix (ascii_text '' '') v else v)
               in if field = ascii_text ''data'' then Inr (f\<lparr>ff_data := ff_data f @ [v]\<rparr>)
                  else if field = ascii_text ''event'' then Inr (f\<lparr>ff_event := v\<rparr>)
                  else if field = ascii_text ''retry''
                  then (if v \<noteq> [] \<and> list_all ascii_digit v then Inr f
                        else Inl (Stream_Error InvalidRetry))
                  else if field = ascii_text ''id'' then Inr f
                  else Inl (Stream_Error UnsupportedField)))"

definition parse_frame :: "py_text \<Rightarrow> (stream_error, frame_fields) res" where
  "parse_frame text =
     res_fold frame_line \<lparr>ff_event = ascii_text ''message'', ff_data = []\<rparr> (split_on 10 text)"

fun join_lines :: "py_text list \<Rightarrow> py_text" where
  "join_lines [] = []"
| "join_lines [l] = l"
| "join_lines (l # m # ls) = l @ 10 # join_lines (m # ls)"

definition payload_event :: "json_env \<Rightarrow> py_text \<Rightarrow> int \<Rightarrow> stream_parser \<Rightarrow> outcome" where
  "payload_event env payload observed p =
     (if payload = ascii_text ''[DONE]''
      then (if finish_reason p = None \<or> first_content_ns p = None
            then (p, Some (Incomplete_Stream TerminatedWithoutContent))
            else (p\<lparr>sp_done := True\<rparr>, None))
      else (case decode_payload env payload of
          Inl e \<Rightarrow> (p, Some e)
        | Inr decoded \<Rightarrow> object_event decoded observed p))"

definition frame_event :: "json_env \<Rightarrow> py_bytes \<Rightarrow> int \<Rightarrow> stream_parser \<Rightarrow> outcome" where
  "frame_event env frame observed p =
     (case utf8_decode frame of
        None \<Rightarrow> (p, Some (Stream_Error NotUtf8))
      | Some text \<Rightarrow>
          (case parse_frame text of
             Inl e \<Rightarrow> (p, Some e)
           | Inr f \<Rightarrow>
               if ff_event f = ascii_text ''error'' then (p, Some (Stream_Error ServerErrorEvent))
               else if ff_data f = [] then (p, None)
               else if sp_done p then (p, Some (Stream_Error PayloadAfterDone))
               else payload_event env (join_lines (ff_data f)) observed p))"

section \<open>Feeding bytes\<close>

fun cut_line :: "py_bytes \<Rightarrow> py_bytes \<times> bool \<times> py_bytes" where
  "cut_line [] = ([], False, [])"
| "cut_line (b # bs) =
     (if b = CHR 0x0A then ([b], True, bs)
      else (case cut_line bs of (piece, newline, rest) \<Rightarrow> (b # piece, newline, rest)))"

lemma cut_line_append: "cut_line s = (piece, newline, rest) \<Longrightarrow> s = piece @ rest"
  by (induction s arbitrary: piece newline rest) (auto split: if_splits prod.splits)

lemma cut_line_shorter [termination_simp]:
  "(piece, newline, rest) = cut_line (b # bs) \<Longrightarrow> length rest < Suc (length bs)"
  using cut_line_append [of "b # bs" piece newline rest]
  by (cases piece) (auto split: if_splits prod.splits dest: arg_cong [of _ _ length])

definition end_line :: "json_env \<Rightarrow> int \<Rightarrow> stream_parser \<Rightarrow> outcome" where
  "end_line env observed p =
     (let line = drop (line_start p) (pending_bytes p)
      in if line = [CHR 0x0A] \<or> line = [CHR 0x0D, CHR 0x0A]
         then (let p = p\<lparr>events := events p + 1\<rparr>
               in if max_events p < events p then (p, Some (Stream_Limit_Error EventCountLimit))
                  else frame_event env (pending_bytes p) observed
                         (p\<lparr>pending_bytes := [], line_start := 0\<rparr>))
         else (p\<lparr>line_start := length (pending_bytes p)\<rparr>, None))"

function feed_lines :: "json_env \<Rightarrow> int \<Rightarrow> py_bytes \<Rightarrow> stream_parser \<Rightarrow> outcome" where
  "feed_lines env observed [] p = (p, None)"
| "feed_lines env observed (b # bs) p =
     (case cut_line (b # bs) of
        (piece, newline, rest) \<Rightarrow>
          if max_event_bytes p < int (length (pending_bytes p)) + int (length piece)
          then (p, Some (Stream_Limit_Error EventByteLimit))
          else let p = p\<lparr>pending_bytes := pending_bytes p @ piece\<rparr>
            in if \<not> newline then (p, None)
               else and_then (end_line env observed p) (feed_lines env observed rest))"
  by pat_completeness auto
termination
  by (relation "measure (\<lambda>(env, t, s, p). length s)") (auto simp del: cut_line.simps simp: cut_line_shorter)

definition feed_body :: "json_env \<Rightarrow> py_bytes \<Rightarrow> int \<Rightarrow> stream_parser \<Rightarrow> outcome" where
  "feed_body env data observed p =
     (if sp_failed p \<or> sp_closed p then (p, Some (Stream_Error AlreadyClosed))
      else if observed < 0 \<or> (\<exists>t \<in> set_option (last_observed_ns p). observed < t)
      then (p, Some (Stream_Error TimestampNotMonotonic))
      else let
          p = p\<lparr>last_observed_ns := Some observed\<rparr>;
          p = (if data \<noteq> [] \<and> first_body_byte_ns p = None
               then p\<lparr>first_body_byte_ns := Some observed\<rparr> else p);
          p = p\<lparr>stream_bytes := stream_bytes p + int (length data)\<rparr>
        in if max_stream_bytes p < stream_bytes p then (p, Some (Stream_Limit_Error ByteLimit))
           else feed_lines env observed data p)"

definition fail_parser :: "stream_parser \<Rightarrow> stream_parser" where
  "fail_parser p = p\<lparr>sp_failed := True, pending_bytes := [], line_start := 0\<rparr>"

definition feed :: "json_env \<Rightarrow> py_bytes \<Rightarrow> int \<Rightarrow> stream_parser \<Rightarrow> outcome" where
  "feed env data observed p =
     (case feed_body env data observed p of
        (p', None) \<Rightarrow> (p', None)
      | (p', Some e) \<Rightarrow> (fail_parser p', Some e))"

definition finish_stream :: "stream_parser \<Rightarrow> outcome" where
  "finish_stream p =
     (if sp_failed p then (p, Some (Stream_Error AlreadyClosed))
      else if pending_bytes p \<noteq> [] \<or> \<not> sp_done p
      then (fail_parser p, Some (Incomplete_Stream EndedEarly))
      else (p\<lparr>sp_closed := True\<rparr>, None))"

section \<open>What an operation leaves alone\<close>

lemma and_then_simps [simp]: "and_then (p, None) f = f p" "and_then (p, Some e) f = (p, Some e)"
  by (simp_all add: and_then_def)

lemma and_then_eq_None [result_simps]:
  "and_then r f = (p', None) \<longleftrightarrow> (\<exists>q. r = (q, None) \<and> f q = (p', None))"
  by (cases r; cases "snd r") auto

lemma lift_res_simps [simp]: "lift_res p (Inr p') = (p', None)" "lift_res p (Inl e) = (p, Some e)"
  by (simp_all add: lift_res_def)

text \<open>The fields that only the outermost calls write.\<close>

definition same_frame :: "stream_parser \<Rightarrow> stream_parser \<Rightarrow> bool" where
  "same_frame p q \<longleftrightarrow>
     max_stream_bytes q = max_stream_bytes p \<and> max_event_bytes q = max_event_bytes p
     \<and> max_content_events q = max_content_events p \<and> max_events q = max_events p
     \<and> first_body_byte_ns q = first_body_byte_ns p \<and> last_observed_ns q = last_observed_ns p
     \<and> stream_bytes q = stream_bytes p \<and> sp_failed q = sp_failed p \<and> sp_closed q = sp_closed p"

lemma same_frame_refl [simp]: "same_frame p p"
  by (simp add: same_frame_def)

lemma same_frame_trans: "same_frame p q \<Longrightarrow> same_frame q r \<Longrightarrow> same_frame p r"
  by (simp add: same_frame_def)

text \<open>A choice that is accepted: what was required and what it did.\<close>

lemma choice_event_cases:
  assumes "choice_event v t p = Inr q"
  obtains content reason where
    "choice_fields v = Inr (content, reason)"
    "reason = None \<or> finish_reason p = None"
    "has_text content \<Longrightarrow> finish_reason p = None"
    "has_text content \<Longrightarrow> int (length (content_event_times_ns p)) < max_content_events p"
    "q = (let p' = if has_text content then add_content t p else p
          in if reason \<noteq> None then p'\<lparr>finish_reason := reason\<rparr> else p')"
proof (cases "choice_fields v")
  case (Inl e)
  then show ?thesis using assms by (simp add: choice_event_def)
next
  case (Inr x)
  obtain content reason where x: "x = (content, reason)" by (cases x)
  have "rbind (choice_fields v) f = f (content, reason)" for f :: "_ \<Rightarrow> (stream_error, stream_parser) res"
    by (simp add: Inr x)
  with assms have "(if reason \<noteq> None \<and> finish_reason p \<noteq> None then Inl (Stream_Error FinishRepeated)
       else if has_text content \<and> finish_reason p \<noteq> None then Inl (Stream_Error ContentAfterFinish)
       else if has_text content \<and> max_content_events p \<le> int (length (content_event_times_ns p))
       then Inl (Stream_Limit_Error ContentEventLimit)
       else let p' = (if has_text content then add_content t p else p)
         in Inr (if reason \<noteq> None then p'\<lparr>finish_reason := reason\<rparr> else p')) = Inr q"
    unfolding choice_event_def by simp
  then show ?thesis
    by (intro that [OF Inr [unfolded x]]) (simp_all add: Let_def split: if_split_asm)
qed

lemma choice_frame: "choice_event v t p = Inr q \<Longrightarrow> same_frame p q"
  by (elim choice_event_cases) (simp add: same_frame_def add_content_def Let_def)

lemma usage_frame: "usage_event v p = Inr q \<Longrightarrow> same_frame p q"
  by (auto simp: usage_event_def result_simps same_frame_def split: json.splits)

lemma lift_frame: "(\<And>q. r = Inr q \<Longrightarrow> same_frame p q) \<Longrightarrow> same_frame p (fst (lift_res p r))"
  by (cases r) auto

lemma and_then_frame:
  assumes "same_frame p (fst r)" "\<And>q. same_frame q (fst (f q))"
  shows "same_frame p (fst (and_then r f))"
  using assms by (cases r; cases "snd r") (auto intro: same_frame_trans)

lemma usage_part_frame: "same_frame p (fst (usage_part ms p))"
  unfolding usage_part_def by (auto split: json.split option.split intro!: lift_frame intro: usage_frame)

lemma object_frame: "same_frame p (fst (object_event j t p))"
  unfolding object_event_def
  by (auto split: json.split option.split list.split intro!: and_then_frame lift_frame usage_part_frame
      intro: choice_frame)

lemma frame_event_frame: "same_frame p (fst (frame_event env s t p))"
  unfolding frame_event_def payload_event_def
  by (auto split: option.split sum.split intro: object_frame) (simp_all add: same_frame_def)

lemma end_line_frame: "same_frame p (fst (end_line env t p))"
proof -
  let ?q = "p\<lparr>events := events p + 1, pending_bytes := [], line_start := 0\<rparr>"
  have "same_frame p ?q" by (simp add: same_frame_def)
  then have "same_frame p (fst (frame_event env (pending_bytes p) t ?q))"
    using frame_event_frame same_frame_trans by blast
  then show ?thesis by (simp add: end_line_def Let_def) (simp add: same_frame_def)
qed

lemma feed_lines_frame: "same_frame p (fst (feed_lines env t s p))"
proof (induction env t s p rule: feed_lines.induct)
  case (1 env t p)
  then show ?case by simp
next
  case (2 env t b bs p)
  obtain piece newline rest where cut: "cut_line (b # bs) = (piece, newline, rest)"
    by (cases "cut_line (b # bs)") auto
  let ?p = "p\<lparr>pending_bytes := pending_bytes p @ piece\<rparr>"
  have "same_frame p ?p" by (simp add: same_frame_def)
  then show ?case using 2 end_line_frame [of ?p env t]
    by (auto simp: cut Let_def simp del: cut_line.simps intro!: and_then_frame intro: same_frame_trans)
qed

section \<open>Chunk boundaries do not matter\<close>

lemma cut_line_no_newline: "cut_line s = (piece, False, rest) \<Longrightarrow> piece = s \<and> rest = []"
  by (induction s arbitrary: piece) (auto split: if_splits prod.splits)

lemma cut_line_append_newline: "cut_line s = (piece, True, rest) \<Longrightarrow> cut_line (s @ t) = (piece, True, rest @ t)"
  by (induction s arbitrary: piece) (auto split: if_splits prod.splits)

lemma cut_line_append_pending:
  "cut_line s = (s, False, []) \<Longrightarrow> cut_line t = (piece, newline, rest) \<Longrightarrow>
     cut_line (s @ t) = (s @ piece, newline, rest)"
  by (induction s) (auto split: if_splits prod.splits)

definition settled :: "outcome \<Rightarrow> outcome" where
  "settled r = (case r of (p, None) \<Rightarrow> (p, None) | (p, Some e) \<Rightarrow> (fail_parser p, Some e))"

lemma settled_and_then:
  assumes "\<And>q. settled (f q) = settled (g q)"
  shows "settled (and_then r f) = settled (and_then r g)"
  using assms by (cases r; cases "snd r") auto

lemma and_then_assoc: "and_then (and_then r f) g = and_then r (\<lambda>q. and_then (f q) g)"
  by (cases r; cases "snd r") auto

lemma feed_lines_append:
  "settled (feed_lines env t (xs @ ys) p) = settled (and_then (feed_lines env t xs p) (feed_lines env t ys))"
proof (induction env t xs p rule: feed_lines.induct)
  case (1 env t p)
  then show ?case by simp
next
  case (2 env t b bs p)
  obtain piece newline rest where cut: "cut_line (b # bs) = (piece, newline, rest)"
    by (cases "cut_line (b # bs)") auto
  let ?p = "p\<lparr>pending_bytes := pending_bytes p @ piece\<rparr>"
  show ?case
  proof (cases newline)
    case True
    have cut': "cut_line (b # bs @ ys) = (piece, True, rest @ ys)"
      using cut_line_append_newline [of "b # bs" piece rest ys] cut True by simp
    have IH: "settled (feed_lines env t (rest @ ys) q) =
        settled (and_then (feed_lines env t rest q) (feed_lines env t ys))"
      if "\<not> max_event_bytes p < int (length (pending_bytes p)) + int (length piece)" for q
      using 2 [OF cut [symmetric] refl that refl] True by simp
    show ?thesis
      using IH True cut cut'
      by (auto simp: Let_def and_then_assoc simp del: cut_line.simps intro!: settled_and_then)
  next
    case False
    then have cut: "cut_line (b # bs) = (piece, False, rest)" using cut by simp
    note piece = conjunct1 [OF cut_line_no_newline [OF cut]] conjunct2 [OF cut_line_no_newline [OF cut]]
    obtain piece' newline' rest' where ys: "cut_line ys = (piece', newline', rest')"
      by (cases "cut_line ys") auto
    have cut': "cut_line (b # bs @ ys) = (b # bs @ piece', newline', rest')"
      using cut_line_append_pending [of "b # bs" ys] cut ys False piece by simp
    show ?thesis
    proof (cases ys)
      case Nil
      then show ?thesis by (simp add: and_then_def split: prod.split option.split)
    next
      case (Cons y ys')
      show ?thesis using False cut cut' ys piece
        by (auto simp: Let_def Cons settled_def fail_parser_def simp del: cut_line.simps)
    qed
  qed
qed

text \<open>The byte counter is not read while lines are processed.\<close>

definition with_bytes :: "int \<Rightarrow> outcome \<Rightarrow> outcome" where
  "with_bytes n r = (case r of (p, e) \<Rightarrow> (p\<lparr>stream_bytes := n\<rparr>, e))"

lemma with_bytes_pair [simp]: "with_bytes n (p, e) = (p\<lparr>stream_bytes := n\<rparr>, e)"
  by (simp add: with_bytes_def)

lemma with_bytes_and_then:
  assumes "\<forall>q. f (q\<lparr>stream_bytes := n\<rparr>) = with_bytes n (f q)"
  shows "with_bytes n (and_then r f) = and_then (with_bytes n r) f"
  using assms by (cases r; cases "snd r") auto

lemma choice_bytes:
  "lift_res (p\<lparr>stream_bytes := n\<rparr>) (choice_event v t (p\<lparr>stream_bytes := n\<rparr>)) =
     with_bytes n (lift_res p (choice_event v t p))"
proof (cases "choice_fields v")
  case (Inr x)
  then show ?thesis by (cases x) (simp add: choice_event_def Let_def add_content_def)
qed (simp add: choice_event_def)

lemma usage_bytes:
  "lift_res (p\<lparr>stream_bytes := n\<rparr>) (usage_event v (p\<lparr>stream_bytes := n\<rparr>)) =
     with_bytes n (lift_res p (usage_event v p))"
proof (cases v)
  case (JObj ms)
  show ?thesis
    by (cases "token_count (json_get ms ''prompt_tokens'')";
        cases "token_count (json_get ms ''completion_tokens'')";
        cases "token_count (json_get ms ''total_tokens'')")
      (simp_all add: JObj usage_event_def raise_if_def)
qed (simp_all add: usage_event_def)

lemma usage_part_bytes: "usage_part ms (p\<lparr>stream_bytes := n\<rparr>) = with_bytes n (usage_part ms p)"
  by (auto simp: usage_part_def usage_bytes split: option.split json.split)

lemma object_bytes: "object_event j t (p\<lparr>stream_bytes := n\<rparr>) = with_bytes n (object_event j t p)"
proof -
  have "\<forall>q. usage_part ms (q\<lparr>stream_bytes := n\<rparr>) = with_bytes n (usage_part ms q)" for ms
    by (simp add: usage_part_bytes)
  note and_then = with_bytes_and_then [OF this]
  show ?thesis unfolding object_event_def
    by (auto simp: and_then choice_bytes usage_part_bytes split: option.split json.split list.split)
qed

lemma frame_event_bytes:
  "frame_event env s t (p\<lparr>stream_bytes := n\<rparr>) = with_bytes n (frame_event env s t p)"
  unfolding frame_event_def payload_event_def by (auto simp: object_bytes split: option.split sum.split)

lemma end_line_bytes: "end_line env t (p\<lparr>stream_bytes := n\<rparr>) = with_bytes n (end_line env t p)"
proof -
  have swap: "p\<lparr>stream_bytes := n, events := e, pending_bytes := s, line_start := l\<rparr> =
      p\<lparr>events := e, pending_bytes := s, line_start := l\<rparr>\<lparr>stream_bytes := n\<rparr>" for e s l
    by simp
  show ?thesis by (simp add: end_line_def Let_def frame_event_bytes swap)
qed

lemma feed_lines_bytes: "feed_lines env t s (p\<lparr>stream_bytes := n\<rparr>) = with_bytes n (feed_lines env t s p)"
proof (induction env t s p rule: feed_lines.induct)
  case (1 env t p)
  then show ?case by simp
next
  case (2 env t b bs p)
  obtain piece newline rest where cut: "cut_line (b # bs) = (piece, newline, rest)"
    by (cases "cut_line (b # bs)") auto
  let ?p = "p\<lparr>pending_bytes := pending_bytes p @ piece\<rparr>"
  have swap: "p\<lparr>stream_bytes := n, pending_bytes := pending_bytes p @ piece\<rparr> = ?p\<lparr>stream_bytes := n\<rparr>"
    by simp
  show ?case
  proof (cases "max_event_bytes p < int (length (pending_bytes p)) + int (length piece)")
    case True
    then show ?thesis by (simp add: cut del: cut_line.simps)
  next
    case False
    note IH = 2 [OF cut [symmetric] refl False refl]
    show ?thesis
    proof (cases newline)
      case True
      have IH': "\<forall>q. feed_lines env t rest (q\<lparr>stream_bytes := n\<rparr>) = with_bytes n (feed_lines env t rest q)"
        using IH True by simp
      show ?thesis using False True
        by (simp add: cut Let_def swap end_line_bytes with_bytes_and_then [OF IH'] del: cut_line.simps)
    next
      case False
      with \<open>\<not> max_event_bytes p < _\<close> show ?thesis by (simp add: cut Let_def del: cut_line.simps)
    qed
  qed
qed

definition opened :: "py_bytes \<Rightarrow> int \<Rightarrow> stream_parser \<Rightarrow> stream_parser" where
  "opened data t p =
     p\<lparr>last_observed_ns := Some t,
       first_body_byte_ns := (if data \<noteq> [] \<and> first_body_byte_ns p = None then Some t
                              else first_body_byte_ns p),
       stream_bytes := stream_bytes p + int (length data)\<rparr>"

definition ready :: "int \<Rightarrow> stream_parser \<Rightarrow> bool" where
  "ready t p \<longleftrightarrow> \<not> sp_failed p \<and> \<not> sp_closed p \<and> 0 \<le> t \<and> (\<forall>s \<in> set_option (last_observed_ns p). s \<le> t)"

lemma feed_body_eq:
  "feed_body env data t p =
     (if sp_failed p \<or> sp_closed p then (p, Some (Stream_Error AlreadyClosed))
      else if \<not> ready t p then (p, Some (Stream_Error TimestampNotMonotonic))
      else if max_stream_bytes p < stream_bytes p + int (length data)
      then (opened data t p, Some (Stream_Limit_Error ByteLimit))
      else feed_lines env t data (opened data t p))"
  by (auto simp: feed_body_def ready_def opened_def Let_def not_le)

lemma feed_None_iff:
  "feed env data t p = (p', None) \<longleftrightarrow>
     ready t p \<and> stream_bytes p + int (length data) \<le> max_stream_bytes p
     \<and> feed_lines env t data (opened data t p) = (p', None)"
proof -
  show ?thesis
    unfolding feed_def feed_body_eq by (auto simp: ready_def split: prod.splits option.splits)
qed

lemma settled_None [simp]: "settled r = (p, None) \<longleftrightarrow> r = (p, None)"
  by (cases r; cases "snd r") (auto simp: settled_def)

lemma feed_lines_append_None:
  "feed_lines env t (xs @ ys) p = (p', None) \<longleftrightarrow>
     (\<exists>q. feed_lines env t xs p = (q, None) \<and> feed_lines env t ys q = (p', None))"
proof -
  have "feed_lines env t (xs @ ys) p = (p', None) \<longleftrightarrow> settled (feed_lines env t (xs @ ys) p) = (p', None)"
    by (simp only: settled_None)
  also have "\<dots> \<longleftrightarrow> and_then (feed_lines env t xs p) (feed_lines env t ys) = (p', None)"
    unfolding feed_lines_append by (simp only: settled_None)
  finally show ?thesis by (simp only: and_then_eq_None)
qed

lemma with_bytes_None [simp]: "with_bytes n r = (p', None) \<longleftrightarrow> (\<exists>q. r = (q, None) \<and> p' = q\<lparr>stream_bytes := n\<rparr>)"
  by (cases r) auto

lemma feed_append:
  "feed env (xs @ ys) t p = (p', None) \<longleftrightarrow>
     (\<exists>q. feed env xs t p = (q, None) \<and> feed env ys t q = (p', None))"
proof (cases "xs = []")
  case True
  have "ready t p \<Longrightarrow> ready t (opened [] t p)" by (simp add: ready_def opened_def)
  moreover have "opened ys t (opened [] t p) = opened ys t p" by (simp add: opened_def)
  moreover have "stream_bytes (opened [] t p) = stream_bytes p"
    "max_stream_bytes (opened [] t p) = max_stream_bytes p" by (simp_all add: opened_def)
  ultimately show ?thesis using True by (auto simp: feed_None_iff)
next
  case False
  let ?r = "opened xs t p" and ?N = "stream_bytes p + int (length xs) + int (length ys)"
  have whole: "opened (xs @ ys) t p = ?r\<lparr>stream_bytes := ?N\<rparr>"
    using False by (simp add: opened_def)
  have rest: "ready t q \<and> opened ys t q = q\<lparr>stream_bytes := ?N\<rparr>
      \<and> stream_bytes q + int (length ys) = ?N \<and> max_stream_bytes q = max_stream_bytes p"
    if "ready t p" "feed_lines env t xs ?r = (q, None)" for q
  proof -
    have frame: "same_frame ?r q" using feed_lines_frame [of ?r env t xs] that(2) by simp
    then have "first_body_byte_ns q \<noteq> None" "last_observed_ns q = Some t"
      using False by (auto simp: same_frame_def opened_def)
    then show ?thesis using frame that(1)
      by (cases q) (auto simp: same_frame_def opened_def ready_def)
  qed
  have "feed env (xs @ ys) t p = (p', None) \<longleftrightarrow>
      ready t p \<and> ?N \<le> max_stream_bytes p
      \<and> (\<exists>q q'. feed_lines env t xs ?r = (q, None) \<and> feed_lines env t ys q = (q', None)
           \<and> p' = q'\<lparr>stream_bytes := ?N\<rparr>)"
    unfolding feed_None_iff whole feed_lines_bytes with_bytes_None feed_lines_append_None
    by (auto simp: add.assoc)
  moreover have "(\<exists>q. feed env xs t p = (q, None) \<and> feed env ys t q = (p', None)) \<longleftrightarrow>
      ready t p \<and> ?N \<le> max_stream_bytes p
      \<and> (\<exists>q q'. feed_lines env t xs ?r = (q, None) \<and> feed_lines env t ys q = (q', None)
           \<and> p' = q'\<lparr>stream_bytes := ?N\<rparr>)"
    unfolding feed_None_iff using rest by (fastforce simp: feed_lines_bytes)
  ultimately show ?thesis by simp
qed

text \<open>
  The contract of a consumer of a chunked input: consuming a concatenation succeeds exactly when
  consuming its parts in turn does, with the same result. Then only the concatenation of the chunks
  matters.
\<close>

locale chunk_consumer =
  fixes consume :: "'c list \<Rightarrow> 's \<Rightarrow> 's \<times> 'e option"
  assumes consume_append:
    "consume (xs @ ys) s = (s', None) \<longleftrightarrow> (\<exists>q. consume xs s = (q, None) \<and> consume ys q = (s', None))"
begin

lemma consume_chunks:
  "foldl (\<lambda>r chunk. case r of (s, None) \<Rightarrow> consume chunk s | (s, Some e) \<Rightarrow> (s, Some e))
       (consume c s) cs = (s', None) \<longleftrightarrow>
     consume (c @ concat cs) s = (s', None)"
proof (induction cs arbitrary: s' rule: rev_induct)
  case Nil
  then show ?case by simp
next
  case (snoc d cs)
  let ?step = "\<lambda>r chunk. case r of (s, None) \<Rightarrow> consume chunk s | (s, Some e) \<Rightarrow> (s, Some e)"
  have step: "?step r d = (s', None) \<longleftrightarrow> (\<exists>q. r = (q, None) \<and> consume d q = (s', None))" for r
    by (auto split: prod.splits option.splits)
  have "c @ concat (cs @ [d]) = (c @ concat cs) @ d" by simp
  then show ?case
    by (simp only: foldl_append foldl_Cons foldl_Nil step snoc.IH consume_append [of "c @ concat cs" d])
qed

lemma same_text:
  assumes "c @ concat cs = d @ concat ds"
  shows "foldl (\<lambda>r chunk. case r of (s, None) \<Rightarrow> consume chunk s | (s, Some e) \<Rightarrow> (s, Some e))
        (consume c s) cs = (s', None) \<longleftrightarrow>
    foldl (\<lambda>r chunk. case r of (s, None) \<Rightarrow> consume chunk s | (s, Some e) \<Rightarrow> (s, Some e))
        (consume d s) ds = (s', None)"
  unfolding consume_chunks using assms by simp

end

interpretation stream_chunks: chunk_consumer "\<lambda>data. feed env data t" for env t
  by unfold_locales (rule feed_append)

text \<open>\<open>feed_all\<close> is a reader loop that feeds what it receives and stops at an exception.\<close>

fun feed_all :: "json_env \<Rightarrow> int \<Rightarrow> py_bytes list \<Rightarrow> outcome \<Rightarrow> outcome" where
  "feed_all env t [] r = r"
| "feed_all env t (c # cs) r = feed_all env t cs (and_then r (feed env c t))"

lemma feed_all_foldl:
  "feed_all env t cs r =
     foldl (\<lambda>r chunk. case r of (s, None) \<Rightarrow> feed env chunk t s | (s, Some e) \<Rightarrow> (s, Some e)) r cs"
  by (induction cs arbitrary: r) (simp_all add: and_then_def)

text \<open>
  C6: the verdict does not depend on how the transport cut the body into chunks. Feeding a non-empty
  sequence of chunks at one timestamp succeeds exactly when feeding their concatenation in one call
  does, and leaves the same parser.
\<close>

theorem stream_chunking_independent:
  "feed_all env t (c # cs) (p, None) = (p', None) \<longleftrightarrow> feed env (c @ concat cs) t p = (p', None)"
  using stream_chunks.consume_chunks [of env t c p cs p'] by (simp add: feed_all_foldl)

section \<open>Invariant\<close>

text \<open>What holds of the observed content at time \<open>t\<close>.\<close>

definition content_ok :: "int \<Rightarrow> stream_parser \<Rightarrow> bool" where
  "content_ok t p \<longleftrightarrow>
     int (length (content_event_times_ns p)) \<le> max_content_events p
     \<and> sorted (content_event_times_ns p) \<and> (\<forall>x \<in> set (content_event_times_ns p). x \<le> t)
     \<and> first_content_ns p = (case content_event_times_ns p of [] \<Rightarrow> None | x # _ \<Rightarrow> Some x)
     \<and> (sp_done p \<longrightarrow> finish_reason p \<noteq> None \<and> content_event_times_ns p \<noteq> [])
     \<and> (completion_tokens p \<noteq> None \<longrightarrow>
          finish_reason p \<noteq> None \<and> (completion_tokens p = Some 0 \<longrightarrow> content_event_times_ns p = []))"

lemma content_ok_add:
  assumes "content_ok t p" "finish_reason p = None"
    "int (length (content_event_times_ns p)) < max_content_events p"
  shows "content_ok t (add_content t p)"
  using assms by (auto simp: content_ok_def add_content_def sorted_append split: list.splits)

lemma choice_content: "choice_event v t p = Inr q \<Longrightarrow> content_ok t p \<Longrightarrow> content_ok t q"
proof (elim choice_event_cases)
  fix content reason
  assume "content_ok t p" "has_text content \<Longrightarrow> finish_reason p = None"
    "has_text content \<Longrightarrow> int (length (content_event_times_ns p)) < max_content_events p"
  then have ok: "content_ok t (if has_text content then add_content t p else p)"
    by (simp add: content_ok_add)
  assume "q = (let p' = if has_text content then add_content t p else p
          in if reason \<noteq> None then p'\<lparr>finish_reason := reason\<rparr> else p')"
  then show "content_ok t q" using ok by (auto simp: Let_def content_ok_def)
qed

lemma usage_content: "usage_event v p = Inr q \<Longrightarrow> content_ok t p \<Longrightarrow> content_ok t q"
  by (auto simp: usage_event_def result_simps content_ok_def split: json.splits list.splits)

lemma lift_content:
  "content_ok t p \<Longrightarrow> (\<And>q. r = Inr q \<Longrightarrow> content_ok t q) \<Longrightarrow> content_ok t (fst (lift_res p r))"
  by (cases r) auto

lemma and_then_content:
  assumes "content_ok t (fst r)" "\<And>q. content_ok t q \<Longrightarrow> content_ok t (fst (f q))"
  shows "content_ok t (fst (and_then r f))"
  using assms by (cases r; cases "snd r") auto

lemma usage_part_content: "content_ok t p \<Longrightarrow> content_ok t (fst (usage_part ms p))"
  unfolding usage_part_def
  by (auto split: json.split option.split intro!: lift_content intro: usage_content)

lemma object_content: "content_ok t p \<Longrightarrow> content_ok t (fst (object_event j t p))"
  unfolding object_event_def
  by (auto split: json.split option.split list.split intro!: and_then_content lift_content usage_part_content
      intro: choice_content)

lemma frame_event_content: "content_ok t p \<Longrightarrow> content_ok t (fst (frame_event env s t p))"
  unfolding frame_event_def payload_event_def
  by (auto split: option.split sum.split intro: object_content)
    (auto simp: content_ok_def split: list.splits)

lemma content_ok_update [simp]:
  "content_ok t (p\<lparr>events := n\<rparr>) = content_ok t p"
  "content_ok t (p\<lparr>pending_bytes := s\<rparr>) = content_ok t p"
  "content_ok t (p\<lparr>line_start := l\<rparr>) = content_ok t p"
  "content_ok t (p\<lparr>sp_failed := b\<rparr>) = content_ok t p"
  "content_ok t (p\<lparr>sp_closed := b\<rparr>) = content_ok t p"
  by (simp_all add: content_ok_def)

lemma end_line_content: "content_ok t p \<Longrightarrow> content_ok t (fst (end_line env t p))"
  by (simp add: end_line_def Let_def frame_event_content)

lemma feed_lines_content: "content_ok t p \<Longrightarrow> content_ok t (fst (feed_lines env t s p))"
proof (induction env t s p rule: feed_lines.induct)
  case (1 env t p)
  then show ?case by simp
next
  case (2 env t b bs p)
  obtain piece newline rest where cut: "cut_line (b # bs) = (piece, newline, rest)"
    by (cases "cut_line (b # bs)") auto
  then show ?case using 2
    by (auto simp: cut Let_def simp del: cut_line.simps intro!: and_then_content end_line_content)
qed

text \<open>The buffer, and that events do not touch it.\<close>

definition buffer_ok :: "stream_parser \<Rightarrow> bool" where
  "buffer_ok p \<longleftrightarrow>
     int (length (pending_bytes p)) \<le> max_event_bytes p \<and> line_start p \<le> length (pending_bytes p)
     \<and> events p \<le> max_events p"

definition same_buffer :: "stream_parser \<Rightarrow> stream_parser \<Rightarrow> bool" where
  "same_buffer p q \<longleftrightarrow>
     pending_bytes q = pending_bytes p \<and> line_start q = line_start p \<and> events q = events p"

lemma same_buffer_refl [simp]: "same_buffer p p"
  by (simp add: same_buffer_def)

lemma choice_buffer: "choice_event v t p = Inr q \<Longrightarrow> same_buffer p q"
  by (elim choice_event_cases) (simp add: same_buffer_def add_content_def Let_def)

lemma usage_buffer: "usage_event v p = Inr q \<Longrightarrow> same_buffer p q"
  by (auto simp: usage_event_def result_simps same_buffer_def split: json.splits)

lemma lift_buffer: "(\<And>q. r = Inr q \<Longrightarrow> same_buffer p q) \<Longrightarrow> same_buffer p (fst (lift_res p r))"
  by (cases r) auto

lemma usage_part_buffer: "same_buffer p (fst (usage_part ms p))"
  unfolding usage_part_def by (auto split: json.split option.split intro!: lift_buffer intro: usage_buffer)

lemma and_then_buffer:
  assumes "same_buffer p (fst r)" "\<And>q. same_buffer q (fst (f q))"
  shows "same_buffer p (fst (and_then r f))"
  using assms by (cases r; cases "snd r") (auto simp: same_buffer_def)

lemma object_buffer: "same_buffer p (fst (object_event j t p))"
  unfolding object_event_def
  by (auto split: json.split option.split list.split intro!: and_then_buffer lift_buffer usage_part_buffer
      intro: choice_buffer)

lemma frame_event_buffer: "same_buffer p (fst (frame_event env s t p))"
  unfolding frame_event_def payload_event_def
  by (auto split: option.split sum.split intro: object_buffer) (simp_all add: same_buffer_def)

lemma end_line_buffer:
  assumes "buffer_ok p" "end_line env t p = (q, None)"
  shows "buffer_ok q"
proof -
  let ?p = "p\<lparr>events := events p + 1, pending_bytes := [], line_start := 0\<rparr>"
  consider (line) "q = p\<lparr>line_start := length (pending_bytes p)\<rparr>"
    | (event) "events p + 1 \<le> max_events p" "frame_event env (pending_bytes p) t ?p = (q, None)"
    using assms(2) by (auto simp: end_line_def Let_def split: if_splits)
  then show ?thesis
  proof cases
    case line
    then show ?thesis using assms(1) by (simp add: buffer_ok_def)
  next
    case event
    then have "same_buffer ?p q" "same_frame ?p q"
      using frame_event_buffer [of ?p env "pending_bytes p" t]
        frame_event_frame [of ?p env "pending_bytes p" t] by simp_all
    then show ?thesis using event(1) assms(1) by (auto simp: same_buffer_def same_frame_def buffer_ok_def)
  qed
qed

lemma feed_lines_buffer: "buffer_ok p \<Longrightarrow> feed_lines env t s p = (q, None) \<Longrightarrow> buffer_ok q"
proof (induction env t s p rule: feed_lines.induct)
  case (1 env t p)
  then show ?case by simp
next
  case (2 env t b bs p)
  obtain piece newline rest where cut: "cut_line (b # bs) = (piece, newline, rest)"
    by (cases "cut_line (b # bs)") auto
  let ?p = "p\<lparr>pending_bytes := pending_bytes p @ piece\<rparr>"
  have fits: "\<not> max_event_bytes p < int (length (pending_bytes p)) + int (length piece)"
    using "2.prems"(2) by (auto simp: cut simp del: cut_line.simps split: if_splits)
  then have ok: "buffer_ok ?p" using "2.prems"(1) by (simp add: buffer_ok_def)
  show ?case
  proof (cases newline)
    case True
    then obtain r where r: "end_line env t ?p = (r, None)" "feed_lines env t rest r = (q, None)"
      using "2.prems"(2) fits by (auto simp: cut Let_def result_simps simp del: cut_line.simps)
    show ?thesis
      by (rule "2.IH" [OF cut [symmetric] refl fits refl _ end_line_buffer [OF ok r(1)] r(2)])
        (use True in simp)
  next
    case False
    then show ?thesis using "2.prems"(2) fits ok by (simp add: cut Let_def del: cut_line.simps)
  qed
qed

text \<open>The invariant of a parser object between calls.\<close>

definition clock_ns :: "stream_parser \<Rightarrow> int" where
  "clock_ns p = (case last_observed_ns p of None \<Rightarrow> 0 | Some t \<Rightarrow> t)"

definition stream_inv :: "stream_parser \<Rightarrow> bool" where
  "stream_inv p \<longleftrightarrow>
     (last_observed_ns p = None \<longrightarrow> content_event_times_ns p = []) \<and> 0 \<le> clock_ns p
     \<and> content_ok (clock_ns p) p
     \<and> int (length (pending_bytes p)) \<le> max_event_bytes p \<and> line_start p \<le> length (pending_bytes p)
     \<and> (sp_failed p \<or> events p \<le> max_events p \<and> stream_bytes p \<le> max_stream_bytes p)
     \<and> 0 < max_event_bytes p"

lemma new_parser_inv: "new_parser a b c = Inr p \<Longrightarrow> stream_inv p"
  by (auto simp: new_parser_def stream_inv_def content_ok_def clock_ns_def split: if_splits)

lemma content_ok_later: "content_ok s p \<Longrightarrow> s \<le> t \<Longrightarrow> content_ok t p"
  by (auto simp: content_ok_def)

lemma opened_content: "content_ok t (opened data t p) = content_ok t p"
  by (simp add: content_ok_def opened_def)

lemma fail_inv:
  "content_ok (clock_ns p) p \<Longrightarrow> 0 < max_event_bytes p \<Longrightarrow> 0 \<le> clock_ns p \<Longrightarrow>
     (last_observed_ns p = None \<longrightarrow> content_event_times_ns p = []) \<Longrightarrow> stream_inv (fail_parser p)"
  by (simp add: stream_inv_def fail_parser_def clock_ns_def)

lemma feed_inv:
  assumes "stream_inv p"
  shows "stream_inv (fst (feed env data t p))"
proof -
  have base: "content_ok (clock_ns p) p" "0 < max_event_bytes p" "0 \<le> clock_ns p"
    "last_observed_ns p = None \<longrightarrow> content_event_times_ns p = []"
    using assms by (auto simp: stream_inv_def)
  have later: "ready t p \<Longrightarrow> content_ok t p"
    using base(1,3) by (cases "last_observed_ns p") (auto simp: ready_def clock_ns_def intro: content_ok_later)
  consider (refused) e where "feed_body env data t p = (p, Some e)"
    | (limit) "ready t p" "feed_body env data t p = (opened data t p, Some (Stream_Limit_Error ByteLimit))"
    | (lines) "ready t p" "stream_bytes p + int (length data) \<le> max_stream_bytes p"
        "feed_body env data t p = feed_lines env t data (opened data t p)"
    using feed_body_eq [of env data t p]
    by (cases "sp_failed p \<or> sp_closed p"; cases "ready t p";
        cases "max_stream_bytes p < stream_bytes p + int (length data)") simp_all
  then show ?thesis
  proof cases
    case refused
    then show ?thesis using fail_inv [OF base] by (simp add: feed_def)
  next
    case limit
    have "content_ok t (opened data t p)"
      unfolding opened_content using later limit(1) by simp
    then show ?thesis using limit base by (simp add: feed_def fail_inv opened_def ready_def clock_ns_def)
  next
    case lines
    let ?r = "opened data t p"
    obtain q e where q: "feed_lines env t data ?r = (q, e)" by (cases "feed_lines env t data ?r")
    have "content_ok t ?r" unfolding opened_content using later lines(1) by simp
    then have content: "content_ok t q" using feed_lines_content [of t ?r env data] q by simp
    have frame: "same_frame ?r q" using feed_lines_frame [of ?r env t data] q by simp
    have last: "last_observed_ns q = Some t" "0 \<le> t" "0 < max_event_bytes q"
      using frame lines(1) base(2) by (auto simp: same_frame_def opened_def ready_def)
    show ?thesis
    proof (cases e)
      case (Some x)
      then show ?thesis using lines(3) q content last by (simp add: feed_def fail_inv clock_ns_def)
    next
      case None
      have "buffer_ok ?r"
        using assms lines(1) by (auto simp: stream_inv_def buffer_ok_def opened_def ready_def)
      then have "buffer_ok q" using feed_lines_buffer q None by blast
      then show ?thesis using lines q None content last frame
        by (simp add: feed_def stream_inv_def buffer_ok_def same_frame_def opened_def clock_ns_def)
    qed
  qed
qed

lemma finish_inv: "stream_inv p \<Longrightarrow> stream_inv (fst (finish_stream p))"
  by (auto simp: finish_stream_def stream_inv_def fail_parser_def clock_ns_def)

section \<open>What a success means\<close>

datatype parser_call = Feed py_bytes int | Finish

definition call :: "json_env \<Rightarrow> parser_call \<Rightarrow> stream_parser \<Rightarrow> outcome" where
  "call env c p = (case c of Feed data t \<Rightarrow> feed env data t p | Finish \<Rightarrow> finish_stream p)"

text \<open>A caller may go on after an exception: the object stays in the state the call left.\<close>

fun run_calls :: "json_env \<Rightarrow> parser_call list \<Rightarrow> stream_parser \<Rightarrow> stream_parser" where
  "run_calls env [] p = p"
| "run_calls env (c # cs) p = run_calls env cs (fst (call env c p))"

lemma run_calls_inv: "stream_inv p \<Longrightarrow> stream_inv (run_calls env cs p)"
  by (induction cs arbitrary: p) (auto simp: call_def feed_inv finish_inv split: parser_call.split)

definition bounds_of :: "stream_parser \<Rightarrow> int \<times> int \<times> int" where
  "bounds_of p = (max_stream_bytes p, max_event_bytes p, max_content_events p)"

lemma feed_bounds: "bounds_of (fst (feed env data t p)) = bounds_of p"
proof -
  have "bounds_of (fst (feed_lines env t data (opened data t p))) = bounds_of p"
    using feed_lines_frame [of "opened data t p" env t data]
    by (simp add: same_frame_def bounds_of_def opened_def)
  then have "bounds_of (fst (feed_body env data t p)) = bounds_of p"
    unfolding feed_body_eq by (simp add: bounds_of_def opened_def)
  then show ?thesis
    by (cases "feed_body env data t p"; cases "snd (feed_body env data t p)")
      (auto simp: feed_def fail_parser_def bounds_of_def)
qed

lemma run_calls_bounds: "bounds_of (run_calls env cs p) = bounds_of p"
proof (induction cs arbitrary: p)
  case (Cons c cs)
  have "bounds_of (fst (call env c p)) = bounds_of p"
    by (cases c) (simp add: call_def feed_bounds,
        simp add: call_def finish_stream_def fail_parser_def bounds_of_def)
  with Cons show ?case by simp
qed simp


lemma call_failed: "sp_failed p \<Longrightarrow> sp_failed (fst (call env c p)) \<and> snd (call env c p) \<noteq> None"
  by (cases c) (simp_all add: call_def feed_def feed_body_eq finish_stream_def fail_parser_def)

lemma run_calls_failed: "sp_failed p \<Longrightarrow> sp_failed (run_calls env cs p)"
  by (induction cs arbitrary: p) (simp_all add: call_failed)

lemma feed_error_fails: "snd (feed env data t p) \<noteq> None \<Longrightarrow> sp_failed (fst (feed env data t p))"
  by (auto simp: feed_def fail_parser_def split: prod.splits option.splits)

text \<open>
  An error is final. Once a call has raised, no later sequence of calls makes the parser accept:
  every later feed and finish raises.
\<close>

theorem stream_error_is_final:
  assumes "snd (feed env data t p) = Some e"
  shows "snd (call env c (run_calls env cs (fst (feed env data t p)))) \<noteq> None"
  using call_failed run_calls_failed feed_error_fails [of env data t p] assms by blast

section \<open>Complete streams are accepted\<close>

text \<open>An ASCII payload on one line, and its frame.\<close>

definition payload_text :: "string \<Rightarrow> bool" where
  "payload_text s \<longleftrightarrow>
     list_all (\<lambda>c. (of_char c :: nat) < 128 \<and> of_char c \<notin> {0 :: nat, 10, 13}) s"

definition data_frame :: "string \<Rightarrow> py_bytes" where
  "data_frame s = ''data: '' @ s @ [CHR 0x0A, CHR 0x0A]"

lemma cut_line_until: "CHR 0x0A \<notin> set s \<Longrightarrow> cut_line (s @ CHR 0x0A # rest) = (s @ [CHR 0x0A], True, rest)"
  by (induction s) auto

lemma feed_one_frame:
  assumes "CHR 0x0A \<notin> set s" "s \<noteq> []" "s \<noteq> [CHR 0x0D]" "pending_bytes p = []" "line_start p = 0"
    and "int (length s) + 2 \<le> max_event_bytes p" "events p + 1 \<le> max_events p"
  shows "feed_lines env t (s @ [CHR 0x0A, CHR 0x0A] @ rest) p =
    and_then (frame_event env (s @ [CHR 0x0A, CHR 0x0A]) t (p\<lparr>events := events p + 1\<rparr>))
      (feed_lines env t rest)"
proof -
  let ?line = "s @ [CHR 0x0A]"
  let ?p = "p\<lparr>pending_bytes := ?line, line_start := length ?line\<rparr>"
  have first: "feed_lines env t (s @ CHR 0x0A # CHR 0x0A # rest) p =
      feed_lines env t (CHR 0x0A # rest) ?p"
  proof -
    obtain b bs where bs: "s @ CHR 0x0A # CHR 0x0A # rest = b # bs" by (cases s) auto
    have cut: "cut_line (b # bs) = (?line, True, CHR 0x0A # rest)"
      using cut_line_until [OF assms(1), of "CHR 0x0A # rest"] bs by simp
    show ?thesis unfolding bs feed_lines.simps(2) cut
      using assms by (cases s) (auto simp: end_line_def Let_def)
  qed
  have "p\<lparr>events := e, pending_bytes := [], line_start := 0\<rparr> = p\<lparr>events := e\<rparr>" for e
    using assms(4,5) by (cases p) simp
  then have "feed_lines env t (CHR 0x0A # rest) ?p =
      and_then (frame_event env (s @ [CHR 0x0A, CHR 0x0A]) t (p\<lparr>events := events p + 1\<rparr>))
        (feed_lines env t rest)"
    using assms(6,7) by (simp add: end_line_def Let_def)
  then show ?thesis using first by simp
qed

lemma split_on_line: "c \<notin> set l \<Longrightarrow> split_on c (l @ c # r) = l # split_on c r"
  by (induction l) auto

lemma payload_text_facts:
  assumes "payload_text s"
  shows "CHR 0x0A \<notin> set s" "\<forall>c \<in> set s. (of_char c :: nat) < 128"
    "0 \<notin> set (ascii_text s)" "10 \<notin> set (ascii_text s)" "13 \<notin> set (ascii_text s)"
  using assms by (auto simp: payload_text_def ascii_text_def list_all_iff)

lemma ascii_append: "ascii_text (a @ b) = ascii_text a @ ascii_text b"
  by (simp add: ascii_text_def)

lemma frame_line_data:
  assumes "payload_text s"
  shows "frame_line f (ascii_text (''data: '' @ s)) = Inr (f\<lparr>ff_data := ff_data f @ [ascii_text s]\<rparr>)"
proof -
  let ?l = "ascii_text (''data: '' @ s)"
  have l: "?l = [100, 97, 116, 97, 58, 32] @ ascii_text s" by (simp add: ascii_text_def)
  have notin: "13 \<notin> set ?l" "0 \<notin> set ?l"
    using payload_text_facts(3,5) [OF assms] unfolding l by auto
  have "?l \<noteq> []" unfolding l by simp
  then have "last ?l \<noteq> 13" using notin(1) last_in_set by metis
  then have cr: "remove_cr ?l = ?l" by (simp add: remove_cr_def)
  have part: "partition_text (ascii_text '':'') ?l = (ascii_text ''data'', True, 32 # ascii_text s)"
    unfolding l by (simp add: ascii_text_def)
  have "hd ?l \<noteq> ch (CHR '':'')" unfolding l by (simp add: ch_def)
  moreover have "remove_prefix (ascii_text '' '') (32 # ascii_text s) = ascii_text s"
    by (simp add: remove_prefix_def ascii_text_def)
  ultimately show ?thesis
    unfolding frame_line_def cr Let_def part prod.case using notin \<open>?l \<noteq> []\<close>
    by (simp del: append.simps)
qed

lemma frame_event_data:
  assumes "payload_text s" "\<not> sp_done p"
  shows "frame_event env (data_frame s) t p = payload_event env (ascii_text s) t p"
proof -
  note facts = payload_text_facts [OF assms(1)]
  let ?l = "ascii_text (''data: '' @ s)"
  have whole: "ascii_text (data_frame s) = ?l @ 10 # 10 # []" by (simp add: data_frame_def ascii_text_def)
  have "\<forall>c \<in> set (data_frame s). (of_char c :: nat) < 128" using facts(2) by (auto simp: data_frame_def)
  then have decode: "utf8_decode (data_frame s) = Some (ascii_text (data_frame s))"
    by (intro utf8_decode_encode utf8_encode_ascii)
  have "10 \<notin> set ?l" using facts(4) by (simp add: ascii_text_def)
  then have "split_on 10 (ascii_text (data_frame s)) = [?l, [], []]"
    unfolding whole by (subst split_on_line) simp_all
  then have "parse_frame (ascii_text (data_frame s)) =
      Inr \<lparr>ff_event = ascii_text ''message'', ff_data = [ascii_text s]\<rparr>"
    unfolding parse_frame_def
    by (simp add: frame_line_data [OF assms(1), simplified]) (simp add: frame_line_def remove_cr_def)
  moreover have "ascii_text ''message'' \<noteq> ascii_text ''error''" by (simp add: ascii_text_def)
  ultimately show ?thesis using assms(2) by (simp add: frame_event_def decode)
qed

lemma feed_data_frame:
  assumes "payload_text s" "\<not> sp_done p" "pending_bytes p = []" "line_start p = 0"
    and "int (length (data_frame s)) \<le> max_event_bytes p" "events p + 1 \<le> max_events p"
  shows "feed_lines env t (data_frame s @ rest) p =
    and_then (payload_event env (ascii_text s) t (p\<lparr>events := events p + 1\<rparr>)) (feed_lines env t rest)"
proof -
  have "CHR 0x0A \<notin> set (''data: '' @ s)" using payload_text_facts(1) [OF assms(1)] by auto
  moreover have "data_frame s = (''data: '' @ s) @ [CHR 0x0A, CHR 0x0A]" by (simp add: data_frame_def)
  ultimately show ?thesis
    using feed_one_frame [of "''data: '' @ s" p env t rest] assms
      frame_event_data [of s "p\<lparr>events := events p + 1\<rparr>" env t]
    by (simp add: data_frame_def)
qed

text \<open>The chat completion chunks: a content delta, and the finish event.\<close>

definition chunk_json :: "(py_text \<times> json) list \<Rightarrow> json \<Rightarrow> json" where
  "chunk_json delta reason =
     JObj [(ascii_text ''choices'', JArr [JObj
       [(ascii_text ''index'', JInt 0), (ascii_text ''delta'', JObj delta),
        (ascii_text ''finish_reason'', reason)]])]"

definition delta_json :: "py_text \<Rightarrow> json" where
  "delta_json content = chunk_json [(ascii_text ''content'', JStr content)] JNull"

definition finish_json :: "stop_reason \<Rightarrow> json" where
  "finish_json r = chunk_json [] (JStr (ascii_text (case r of STOP \<Rightarrow> ''stop'' | LENGTH \<Rightarrow> ''length'')))"

lemma object_delta:
  assumes "content \<noteq> []" "utf8_encode content \<noteq> None" "finish_reason p = None"
    "int (length (content_event_times_ns p)) < max_content_events p"
  shows "object_event (delta_json content) t p = (add_content t p, None)"
  using assms
  by (auto simp: object_event_def delta_json_def chunk_json_def json_get_def ascii_text_def choice_event_def
      choice_fields_def content_of_def stop_reason_of_def has_text_def usage_part_def Let_def)

lemma object_finish:
  assumes "finish_reason p = None"
  shows "object_event (finish_json r) t p = (p\<lparr>finish_reason := Some r\<rparr>, None)"
  using assms
  by (cases r) (auto simp: object_event_def finish_json_def chunk_json_def json_get_def ascii_text_def
      choice_event_def choice_fields_def content_of_def stop_reason_of_def has_text_def usage_part_def Let_def)

definition delta_step :: "int \<Rightarrow> stream_parser \<Rightarrow> stream_parser" where
  "delta_step t p = add_content t (p\<lparr>events := events p + 1\<rparr>)"

text \<open>The fields the acceptance proof follows, after \<open>n\<close> content deltas.\<close>

lemma delta_steps:
  "content_event_times_ns ((delta_step t ^^ n) p) = content_event_times_ns p @ replicate n t
    \<and> events ((delta_step t ^^ n) p) = events p + int n
    \<and> sp_done ((delta_step t ^^ n) p) = sp_done p
    \<and> finish_reason ((delta_step t ^^ n) p) = finish_reason p
    \<and> pending_bytes ((delta_step t ^^ n) p) = pending_bytes p
    \<and> line_start ((delta_step t ^^ n) p) = line_start p
    \<and> max_event_bytes ((delta_step t ^^ n) p) = max_event_bytes p
    \<and> max_events ((delta_step t ^^ n) p) = max_events p
    \<and> max_content_events ((delta_step t ^^ n) p) = max_content_events p
    \<and> (0 < n \<longrightarrow> first_content_ns ((delta_step t ^^ n) p) \<noteq> None)
    \<and> sp_failed ((delta_step t ^^ n) p) = sp_failed p"
proof (induction n)
  case (Suc n)
  then show ?case by (auto simp: delta_step_def add_content_def replicate_append_same)
qed simp

definition carries :: "json_env \<Rightarrow> string \<Rightarrow> json \<Rightarrow> bool" where
  "carries env s j \<longleftrightarrow>
     payload_text s \<and> s \<noteq> ''[DONE]'' \<and> decode_payload env (ascii_text s) = Inr j"

lemma feed_delta:
  assumes "carries env s (delta_json c)" "c \<noteq> []" "utf8_encode c \<noteq> None"
    and "\<not> sp_done p" "pending_bytes p = []" "line_start p = 0" "finish_reason p = None"
    and "int (length (data_frame s)) \<le> max_event_bytes p" "events p + 1 \<le> max_events p"
    and "int (length (content_event_times_ns p)) < max_content_events p"
  shows "feed_lines env t (data_frame s @ rest) p = feed_lines env t rest (delta_step t p)"
proof -
  have "payload_event env (ascii_text s) t (p\<lparr>events := events p + 1\<rparr>) = (delta_step t p, None)"
    using assms(1-3,7,10) object_delta [OF assms(2,3), of "p\<lparr>events := events p + 1\<rparr>" t]
    by (simp add: payload_event_def carries_def delta_step_def)
  then show ?thesis using feed_data_frame [of s p env t rest] assms by (simp add: carries_def)
qed

lemma feed_deltas:
  assumes "list_all2 (\<lambda>s c. carries env s (delta_json c)
      \<and> int (length (data_frame s)) \<le> m) ss cs"
    and "list_all (\<lambda>c. c \<noteq> [] \<and> utf8_encode c \<noteq> None) cs" "max_event_bytes p = m"
    and "\<not> sp_done p" "pending_bytes p = []" "line_start p = 0" "finish_reason p = None"
    and "events p + int (length cs) \<le> max_events p"
    and "int (length (content_event_times_ns p)) + int (length cs) \<le> max_content_events p"
  shows "feed_lines env t (concat (map data_frame ss) @ rest) p =
    feed_lines env t rest ((delta_step t ^^ length cs) p)"
  using assms
proof (induction ss cs arbitrary: p rule: list_all2_induct)
  case Nil
  then show ?case by simp
next
  case (Cons s ss c cs)
  note step = delta_steps [of 1 t p, simplified]
  have "feed_lines env t (data_frame s @ concat (map data_frame ss) @ rest) p =
      feed_lines env t (concat (map data_frame ss) @ rest) (delta_step t p)"
    using Cons by (intro feed_delta [of env s c]) auto
  also have "\<dots> = feed_lines env t rest ((delta_step t ^^ length cs) (delta_step t p))"
    using Cons by (intro Cons.IH) (auto simp: step)
  finally show ?case by (simp add: funpow_swap1)
qed

lemma feed_finish:
  assumes "carries env s (finish_json r)" "\<not> sp_done p" "pending_bytes p = []" "line_start p = 0"
    and "finish_reason p = None" "first_content_ns p \<noteq> None"
    and "int (length (data_frame s)) \<le> max_event_bytes p"
    and "int (length (data_frame ''[DONE]'')) \<le> max_event_bytes p" "events p + 2 \<le> max_events p"
  shows "feed_lines env t (data_frame s @ data_frame ''[DONE]'') p =
    (p\<lparr>events := events p + 2, finish_reason := Some r, sp_done := True\<rparr>, None)"
proof -
  let ?p = "p\<lparr>events := events p + 1, finish_reason := Some r\<rparr>"
  have "payload_event env (ascii_text s) t (p\<lparr>events := events p + 1\<rparr>) = (?p, None)"
    using assms(1,5) object_finish [of "p\<lparr>events := events p + 1\<rparr>" r t]
    by (simp add: payload_event_def carries_def)
  then have "feed_lines env t (data_frame s @ data_frame ''[DONE]'') p =
      feed_lines env t (data_frame ''[DONE]'') ?p"
    using feed_data_frame [of s p env t "data_frame ''[DONE]''"] assms by (simp add: carries_def)
  also have "\<dots> = and_then (payload_event env (ascii_text ''[DONE]'') t (?p\<lparr>events := events ?p + 1\<rparr>))
      (feed_lines env t [])"
    using feed_data_frame [of "''[DONE]''" ?p env t "[]"] assms by (simp add: payload_text_def)
  finally show ?thesis using assms(6) by (simp add: payload_event_def)
qed

lemma complete_stream_fed:
  assumes "new_parser stream_max event_max content_max = Inr p" and "0 \<le> t"
    and "list_all2 (\<lambda>s c. carries env s (delta_json c)
      \<and> int (length (data_frame s)) \<le> event_max) ss cs"
    and "list_all (\<lambda>c. c \<noteq> [] \<and> utf8_encode c \<noteq> None) cs" and "cs \<noteq> []"
    and "carries env s (finish_json r)" and "int (length (data_frame s)) \<le> event_max"
    and "int (length (data_frame ''[DONE]'')) \<le> event_max" and "int (length cs) \<le> content_max"
    and "int (length (concat (map data_frame ss) @ data_frame s @ data_frame ''[DONE]'')) \<le> stream_max"
  shows "case feed env (concat (map data_frame ss) @ data_frame s @ data_frame ''[DONE]'') t p of
      (q, e) \<Rightarrow> e = None \<and> snd (finish_stream q) = None \<and> finish_reason q = Some r
        \<and> content_event_times_ns q = replicate (length cs) t"
proof -
  let ?data = "concat (map data_frame ss) @ data_frame s @ data_frame ''[DONE]''"
  let ?p = "opened ?data t p"
  let ?q = "(delta_step t ^^ length cs) ?p"
  have p: "p = \<lparr>first_body_byte_ns = None, first_content_ns = None, content_event_times_ns = [],
      finish_reason = None, completion_tokens = None, prompt_tokens = None, sp_done = False,
      max_stream_bytes = stream_max, max_event_bytes = event_max, max_content_events = content_max,
      max_events = 4 * content_max + 64, stream_bytes = 0, events = 0, pending_bytes = [],
      line_start = 0, last_observed_ns = None, sp_failed = False, sp_closed = False\<rparr>"
    using assms(1) by (auto simp: new_parser_def split: if_splits)
  have fields: "\<not> sp_done ?p" "pending_bytes ?p = []" "line_start ?p = 0" "finish_reason ?p = None"
    "events ?p = 0" "max_events ?p = 4 * content_max + 64" "max_event_bytes ?p = event_max"
    "content_event_times_ns ?p = []" "max_content_events ?p = content_max" "\<not> sp_failed ?p"
    by (simp_all add: opened_def p)
  note after = delta_steps [of "length cs" t ?p]
  have "feed_lines env t ?data ?p = feed_lines env t (data_frame s @ data_frame ''[DONE]'') ?q"
    using assms(3,4,9) fields by (intro feed_deltas [where m = event_max]) auto
  also have "\<dots> = (?q\<lparr>events := events ?q + 2, finish_reason := Some r, sp_done := True\<rparr>, None)"
    using assms(5-9) after fields by (intro feed_finish) auto
  finally have lines: "feed_lines env t ?data ?p =
      (?q\<lparr>events := events ?q + 2, finish_reason := Some r, sp_done := True\<rparr>, None)" .
  have "ready t p" using assms(2) by (simp add: ready_def p)
  moreover have "stream_bytes p + int (length ?data) \<le> max_stream_bytes p"
    using assms(10) by (simp add: p)
  ultimately have "feed env ?data t p =
      (?q\<lparr>events := events ?q + 2, finish_reason := Some r, sp_done := True\<rparr>, None)"
    using lines feed_None_iff by blast
  then show ?thesis using after fields by (simp add: finish_stream_def)
qed


section \<open>A concrete stream\<close>

definition demo_delta :: string where
  "demo_delta = ''{\"choices\":[{\"index\":0,\"delta\":{\"content\":\"a\"},\"finish_reason\":null}]}''"

definition demo_finish :: string where
  "demo_finish = ''{\"choices\":[{\"index\":0,\"delta\":{},\"finish_reason\":\"stop\"}]}''"

text \<open>A decoder that knows the two payloads.\<close>

definition demo_env :: json_env where
  "demo_env = \<lparr>je_classes = ascii_classes, je_float = (\<lambda>_. Some True),
     je_loads = (\<lambda>h t. if t = ascii_text demo_delta then Inr (delta_json [97])
       else if t = ascii_text demo_finish then Inr (finish_json STOP) else Inl DecodeError)\<rparr>"

definition demo_parser :: stream_parser where
  "demo_parser = \<lparr>first_body_byte_ns = None, first_content_ns = None, content_event_times_ns = [],
      finish_reason = None, completion_tokens = None, prompt_tokens = None, sp_done = False,
      max_stream_bytes = 500, max_event_bytes = 200, max_content_events = 4,
      max_events = 80, stream_bytes = 0, events = 0, pending_bytes = [],
      line_start = 0, last_observed_ns = None, sp_failed = False, sp_closed = False\<rparr>"

lemma demo_parser: "new_parser 500 200 4 = Inr demo_parser"
  by (simp add: new_parser_def demo_parser_def)

lemma demo_valid:
  "validate_json_structure ascii_classes json_limits (ascii_text demo_delta) = Inr ()"
  "validate_json_structure ascii_classes json_limits (ascii_text demo_finish) = Inr ()"
  by (simp_all add: validate_json_structure_def ascii_text_def demo_delta_def demo_finish_def json_limits_def
      ascii_classes_def ascii_digit_def is_open_def is_close_def ch_def is_number_char_def
      number_characters_def raise_if_too_many_integer_digits_def integer_part_def unsigned_def
      remove_prefix_def before_def)

lemma demo_carries:
  "carries demo_env demo_delta (delta_json [97])" "carries demo_env demo_finish (finish_json STOP)"
proof -
  have ne: "demo_finish \<noteq> demo_delta" by (simp add: demo_finish_def demo_delta_def)
  have "payload_text demo_delta" "payload_text demo_finish"
    by (simp_all add: payload_text_def demo_delta_def demo_finish_def)
  moreover have "demo_delta \<noteq> ''[DONE]''" "demo_finish \<noteq> ''[DONE]''"
    by (simp_all add: demo_delta_def demo_finish_def)
  ultimately show "carries demo_env demo_delta (delta_json [97])"
    "carries demo_env demo_finish (finish_json STOP)"
    using demo_valid ne by (simp_all add: carries_def decode_payload_def demo_env_def)
qed

lemma demo_lengths:
  "int (length (data_frame demo_delta)) \<le> 200" "int (length (data_frame demo_finish)) \<le> 200"
  "int (length (data_frame ''[DONE]'')) \<le> 200"
  "int (length (concat (map data_frame [demo_delta]) @ data_frame demo_finish @ data_frame ''[DONE]'')) \<le> 500"
  by (simp_all add: data_frame_def demo_delta_def demo_finish_def)

lemma demo_utf8: "utf8_encode [97] \<noteq> None"
  by (simp add: utf8_char_def)

definition demo_body :: py_bytes where
  "demo_body = concat (map data_frame [demo_delta]) @ data_frame demo_finish @ data_frame ''[DONE]''"

lemma demo_deltas:
  "list_all2 (\<lambda>s c. carries demo_env s (delta_json c) \<and> int (length (data_frame s)) \<le> 200)
     [demo_delta] [[97]]"
  unfolding list_all2_Cons list.rel_inject(1) using demo_carries(1) demo_lengths(1) by simp

lemma demo_contents: "list_all (\<lambda>c. c \<noteq> [] \<and> utf8_encode c \<noteq> None) [[97]]"
  using demo_utf8 by simp

lemma demo_numbers: "0 \<le> (5 :: int)" "[[97 :: nat]] \<noteq> []" "int (length [[97 :: nat]]) \<le> 4"
  by simp_all

lemmas demo_facts = demo_parser demo_numbers(1) demo_deltas demo_contents demo_numbers(2) demo_carries(2)
  demo_lengths(2,3) demo_numbers(3) demo_lengths(4)

lemma demo_stream: "snd (finish_stream (run_calls demo_env [Feed demo_body 5] demo_parser)) = None"
proof -
  note fed = complete_stream_fed [OF demo_facts, folded demo_body_def]
  obtain q e where q: "feed demo_env demo_body 5 demo_parser = (q, e)"
    by (cases "feed demo_env demo_body 5 demo_parser")
  show ?thesis using fed unfolding run_calls.simps call_def parser_call.case q fst_conv prod.case by blast
qed



theorem stream_error_is_final_witness:
  "snd (call demo_env Finish
     (run_calls demo_env [Feed demo_body 5] (fst (feed demo_env [] (-1) demo_parser)))) \<noteq> None"
  by (rule stream_error_is_final [of demo_env "[]" "-1" demo_parser "Stream_Error TimestampNotMonotonic"])
    (simp add: feed_def feed_body_def demo_parser_def)

end
