(* ===== verification/Router.thy ===== *)
theory Router
  imports Affinity Stream
begin

text \<open>
  The streaming router of \<open>vllm_router.py\<close>: its configuration checks, its counters and ledger, and the
  \<open>chat\<close> and \<open>_proxy\<close> coroutines. A coroutine in flight is a record of its local variables with the
  \<open>await\<close> it is suspended at; what runs between two awaits is one function applied to what the await
  delivered, a result or an exception. The event loop may resume any suspended coroutine, which the
  step relation at the end leaves open. Sockets, files, aiohttp's class hierarchy, \<open>json.loads\<close> and
  SHA-256 are arguments or events. Durations are kept in nanoseconds.
\<close>

section \<open>Configuration\<close>

text \<open>A float as the checks read it: a ratio with a positive denominator, or a special value.\<close>

datatype py_float = FRatio int nat | FPosInf | FNegInf | FNaN

definition float_le_zero :: "py_float \<Rightarrow> bool" where
  "float_le_zero x = (case x of FRatio n _ \<Rightarrow> n \<le> 0 | FPosInf \<Rightarrow> False | FNegInf \<Rightarrow> True | FNaN \<Rightarrow> False)"

definition float_finite :: "py_float \<Rightarrow> bool" where
  "float_finite x = (case x of FRatio _ _ \<Rightarrow> True | _ \<Rightarrow> False)"

datatype number_arg = IntArg int | FloatArg py_float | OtherArg

text \<open>\<open>float(i)\<close> overflows from the midpoint above the largest double on; only sign and finiteness are read.\<close>

definition to_float :: "number_arg \<Rightarrow> py_float option" where
  "to_float a =
     (case a of
        IntArg i \<Rightarrow> if 2 ^ 1024 - 2 ^ 970 \<le> \<bar>i\<bar> then None else Some (FRatio i 1)
      | FloatArg x \<Rightarrow> Some x
      | OtherArg \<Rightarrow> None)"

record split_url =
  su_text :: string
  su_scheme :: string
  su_hostname :: "string option"
  su_port :: "(unit, int option) res"
  su_path :: string
  su_query :: string
  su_fragment :: string
  su_username :: "string option"
  su_password :: "string option"

datatype router_error =
    UnsupportedPolicy | BoundsInvalid | TimeoutsNotPositive | ThresholdOutOfBound | ThresholdNotApplicable
  | ConnectionSettingsInvalid | OriginInvalid | OriginsNotDistinct | DiagnosticsNotSeparate

definition nonempty :: "string option \<Rightarrow> bool" where
  "nonempty v \<longleftrightarrow> v \<noteq> None \<and> v \<noteq> Some ''''"

definition strip_slashes :: "string \<Rightarrow> string" where
  "strip_slashes s = rev (dropWhile (\<lambda>c. c = CHR ''/'') (rev s))"

definition origin :: "split_url \<Rightarrow> (router_error, string) res" where
  "origin u =
     (if su_scheme u \<noteq> ''http''
         \<or> su_hostname u \<notin> {Some ''127.0.0.1'', Some ''localhost''}
         \<or> (case su_port u of Inl _ \<Rightarrow> True | Inr p \<Rightarrow> p = None)
         \<or> su_path u \<notin> {'''', ''/''} \<or> su_query u \<noteq> '''' \<or> su_fragment u \<noteq> ''''
         \<or> nonempty (su_username u) \<or> nonempty (su_password u)
      then Inl OriginInvalid else Inr (strip_slashes (su_text u)))"

record router_args =
  ra_origins :: "split_url \<times> split_url"
  ra_ledger :: string
  ra_policy :: string
  ra_max_active :: int
  ra_max_queue :: int
  ra_queue_timeout :: py_float
  ra_request_timeout :: py_float
  ra_max_body_bytes :: int
  ra_max_stream_bytes :: int
  ra_saturation_active :: "int option"
  ra_diagnostics :: "string option"
  ra_upstream_keepalive :: number_arg
  ra_reuse :: "bool option"

record router_config =
  rc_policy :: router_policy
  rc_origins :: "string \<times> string"
  rc_max_active :: int
  rc_max_queue :: int
  rc_max_body_bytes :: int
  rc_max_stream_bytes :: int
  rc_saturation_active :: "int option"
  rc_diagnostics :: bool
  rc_keepalive :: py_float
  rc_reuse :: bool

definition policy_of :: "string \<Rightarrow> router_policy option" where
  "policy_of s =
     map_of [(''round_robin'', ROUND_ROBIN), (''least_busy'', LEAST_BUSY), (''cache_only'', CACHE_ONLY),
       (''cache_plus_load'', CACHE_PLUS_LOAD), (''cache_saturation'', CACHE_SATURATION)] s"

definition check_threshold :: "router_policy \<Rightarrow> router_args \<Rightarrow> (router_error, unit) res" where
  "check_threshold policy a =
     (if policy = CACHE_SATURATION
         \<and> (case ra_saturation_active a of None \<Rightarrow> True | Some s \<Rightarrow> \<not> (1 \<le> s \<and> s \<le> ra_max_active a))
      then Inl ThresholdOutOfBound
      else if policy \<noteq> CACHE_SATURATION \<and> ra_saturation_active a \<noteq> None then Inl ThresholdNotApplicable
      else Inr ())"

text \<open>Paths are their resolved texts.\<close>

definition configure :: "router_args \<Rightarrow> (router_error, router_config) res" where
  "configure a =
     (case policy_of (ra_policy a) of
        None \<Rightarrow> Inl UnsupportedPolicy
      | Some policy \<Rightarrow>
          if min (ra_max_active a) (min (ra_max_body_bytes a) (ra_max_stream_bytes a)) \<le> 0
             \<or> ra_max_queue a < 0
          then Inl BoundsInvalid
          else if float_le_zero (ra_queue_timeout a) \<or> float_le_zero (ra_request_timeout a)
          then Inl TimeoutsNotPositive
          else rbind (check_threshold policy a) (\<lambda>_.
            if ra_upstream_keepalive a = OtherArg \<or> ra_reuse a = None then Inl ConnectionSettingsInvalid
            else (case to_float (ra_upstream_keepalive a) of
                None \<Rightarrow> Inl ConnectionSettingsInvalid
              | Some keepalive \<Rightarrow>
                  if \<not> float_finite keepalive \<or> float_le_zero keepalive then Inl ConnectionSettingsInvalid
                  else rbind (origin (fst (ra_origins a))) (\<lambda>first.
                       rbind (origin (snd (ra_origins a))) (\<lambda>second.
                         if first = second then Inl OriginsNotDistinct
                         else if ra_diagnostics a = Some (ra_ledger a) then Inl DiagnosticsNotSeparate
                         else Inr \<lparr>rc_policy = policy, rc_origins = (first, second),
                           rc_max_active = ra_max_active a, rc_max_queue = ra_max_queue a,
                           rc_max_body_bytes = ra_max_body_bytes a,
                           rc_max_stream_bytes = ra_max_stream_bytes a,
                           rc_saturation_active = ra_saturation_active a,
                           rc_diagnostics = (ra_diagnostics a \<noteq> None),
                           rc_keepalive = keepalive, rc_reuse = the (ra_reuse a)\<rparr>)))))"

section \<open>State and rows\<close>

datatype router_outcome =
    O_ERROR | COMPLETED | REJECTED_ACCOUNTING | REJECTED_CAPACITY | REJECTED_QUEUE_TIMEOUT | REJECTED_BODY
  | REJECTED_INPUT | REJECTED_REQUEST_ID | DISCONNECTED | O_CANCELLED | O_TIMEOUT | UPSTREAM_ERROR
  | UPSTREAM_HTTP_ERROR | UPSTREAM_PROTOCOL_ERROR | STREAM_LIMIT

record ledger_row =
  lr_request_id :: string
  lr_arrived_ns :: int
  lr_policy :: router_policy
  lr_replica :: "int option"
  lr_queued_ns :: "int option"
  lr_first_byte_ns :: "int option"
  lr_terminal_ns :: "int option"
  lr_stream_bytes :: int
  lr_http_status :: "int option"
  lr_upstream_status :: "int option"
  lr_document_sha256 :: "string option"
  lr_estimated_affinity :: "(int \<times> int) option"
  lr_busy_at_decision :: "(int \<times> int) option"
  lr_route_reason :: "route_reason option"
  lr_preferred_replica :: "int option"
  lr_saturation_threshold_active :: "int option"
  lr_saturation_rule_version :: "string option"
  lr_escape_busy_delta :: int
  lr_saturation_reached :: "bool option"
  lr_relative_imbalance_reached :: "bool option"
  lr_turn_at_decision :: "int option"
  lr_outcome :: router_outcome

datatype connection_phase = P_UNOBSERVED | P_QUEUED | P_CREATING | P_READY | P_HEADERS | P_BODY

record connection_trace =
  ct_new_attempts :: int
  ct_reused :: int
  ct_queued :: bool
  ct_ready :: bool
  ct_headers :: bool
  ct_body_bytes :: int
  ct_phase :: connection_phase

datatype proxy_stage =
    AWAITING_UPSTREAM_HEADERS | PREPARE_DOWNSTREAM | READ_UPSTREAM_STREAM | WRITE_DOWNSTREAM
  | WRITE_DOWNSTREAM_EOF | RELEASE_UPSTREAM

record transport_row =
  tr_request_id :: string
  tr_replica :: "int option"
  tr_stage :: proxy_stage
  tr_exception_type :: string
  tr_errno :: "int option"
  tr_upstream_status :: "int option"
  tr_downstream_prepared :: bool
  tr_elapsed_ns :: int
  tr_connection :: connection_trace

record router_state =
  rs_permits :: int
  rs_pending :: int
  rs_active :: int
  rs_busy :: "int \<times> int"
  rs_history :: history
  rs_turn :: int
  rs_offered :: int
  rs_terminal :: int
  rs_outcomes :: "router_outcome \<Rightarrow> int"
  rs_accounting_failed :: bool
  rs_ledger_rows :: int
  rs_ledger :: "ledger_row list"
  rs_diagnostics_failed :: bool
  rs_diagnostic_rows :: int
  rs_diagnostics :: "transport_row list"

definition new_router :: "router_config \<Rightarrow> router_state" where
  "new_router c = \<lparr>rs_permits = rc_max_active c, rs_pending = 0, rs_active = 0, rs_busy = (0, 0),
     rs_history = [], rs_turn = 0, rs_offered = 0, rs_terminal = 0, rs_outcomes = (\<lambda>_. 0),
     rs_accounting_failed = False, rs_ledger_rows = 0, rs_ledger = [], rs_diagnostics_failed = False,
     rs_diagnostic_rows = 0, rs_diagnostics = []\<rparr>"

definition new_trace :: connection_trace where
  "new_trace = \<lparr>ct_new_attempts = 0, ct_reused = 0, ct_queued = False, ct_ready = False,
     ct_headers = False, ct_body_bytes = 0, ct_phase = P_UNOBSERVED\<rparr>"

section \<open>Exceptions\<close>

datatype exc_class =
    E_ClientConnectorError | E_ServerDisconnectedError | E_ClientPayloadError | E_ClientConnectionResetError
  | E_ServerTimeoutError | E_ClientOSError | E_ClientConnectionError | E_ClientResponseError | E_ClientError
  | E_ConnectionResetError | E_BrokenPipeError | E_ConnectionRefusedError | E_TimeoutError | E_OSError

text \<open>
  An exception as the handlers see it: which classes it is an instance of, and the \<open>errno\<close> of the
  error itself, of its \<open>os_error\<close> and of its cause, where these are OSErrors.
\<close>

record router_exn =
  ex_is :: "exc_class \<Rightarrow> bool"
  ex_errno :: "int option"
  ex_os_error :: "int option option"
  ex_cause :: "int option option"

definition transport_exceptions :: "(exc_class \<times> string) list" where
  "transport_exceptions =
     [(E_ClientConnectorError, ''ClientConnectorError''),
      (E_ServerDisconnectedError, ''ServerDisconnectedError''),
      (E_ClientPayloadError, ''ClientPayloadError''),
      (E_ClientConnectionResetError, ''ClientConnectionResetError''),
      (E_ServerTimeoutError, ''ServerTimeoutError''),
      (E_ClientOSError, ''ClientOSError''),
      (E_ClientConnectionError, ''ClientConnectionError''),
      (E_ClientResponseError, ''ClientResponseError''),
      (E_ClientError, ''ClientError''),
      (E_ConnectionResetError, ''ConnectionResetError''),
      (E_BrokenPipeError, ''BrokenPipeError''),
      (E_ConnectionRefusedError, ''ConnectionRefusedError''),
      (E_TimeoutError, ''TimeoutError''),
      (E_OSError, ''OSError'')]"

definition transport_error :: "router_exn \<Rightarrow> string \<times> int option" where
  "transport_error e =
     (let exception_type = (case find (\<lambda>k. ex_is e (fst k)) transport_exceptions of
            Some k \<Rightarrow> snd k | None \<Rightarrow> ''OtherTransportError'');
          own = (if ex_is e E_ClientConnectorError then ex_os_error e
                 else if ex_is e E_OSError then Some (ex_errno e) else None);
          underlying = (case own of Some n \<Rightarrow> Some n | None \<Rightarrow> ex_cause e);
          number = (case underlying of Some n \<Rightarrow> n | None \<Rightarrow> None)
      in (exception_type,
          case number of
            Some n \<Rightarrow> if - (2 ^ 31) \<le> n \<and> n < 2 ^ 31 then Some n else None
          | None \<Rightarrow> None))"

section \<open>Connection traces\<close>

datatype connection_event = T_QUEUED | T_CREATING | T_REUSED | T_READY | T_HEADERS | T_BODY int

definition trace_connection :: "connection_event \<Rightarrow> connection_trace \<Rightarrow> connection_trace" where
  "trace_connection e t =
     (case e of
        T_QUEUED \<Rightarrow> t\<lparr>ct_queued := True, ct_phase := P_QUEUED\<rparr>
      | T_CREATING \<Rightarrow>
          t\<lparr>ct_new_attempts := min (ct_new_attempts t + 1) (2 ^ 31 - 1), ct_phase := P_CREATING\<rparr>
      | T_REUSED \<Rightarrow>
          t\<lparr>ct_reused := min (ct_reused t + 1) (2 ^ 31 - 1), ct_ready := True, ct_phase := P_READY\<rparr>
      | T_READY \<Rightarrow> t\<lparr>ct_ready := True, ct_phase := P_READY\<rparr>
      | T_HEADERS \<Rightarrow> t\<lparr>ct_headers := True, ct_phase := P_HEADERS\<rparr>
      | T_BODY n \<Rightarrow>
          t\<lparr>ct_body_bytes := min (ct_body_bytes t + n) (2 ^ 63 - 1), ct_phase := P_BODY\<rparr>)"

section \<open>Coroutines in flight\<close>

text \<open>The await a frame is suspended at; in \<open>CLOSING\<close> it awaits its cancelled disconnect monitor.\<close>

datatype frame_phase =
    WAITING | UPLOADING | AWAIT_HEADERS | AWAIT_PREPARE | AWAIT_READ | AWAIT_WRITE | AWAIT_EOF
  | AWAIT_RELEASE | CLOSING

record frame =
  fr_row :: ledger_row
  fr_phase :: frame_phase
  fr_admitted :: bool
  fr_slot :: bool
  fr_index :: "int option"
  fr_content_length :: "int option"
  fr_body :: py_bytes
  fr_prepared :: bool
  fr_total :: int
  fr_parser :: "stream_parser option"
  fr_stage :: proxy_stage
  fr_trace :: "connection_trace option"
  fr_force_closed :: bool

record router_env =
  re_json :: json_env
  re_sha256 :: "py_bytes \<Rightarrow> string"
  re_body_json :: "py_bytes \<Rightarrow> (unit, json option) res"

text \<open>\<open>re_body_json\<close>: \<open>Inr None\<close> for a ValueError, \<open>Inl ()\<close> for another exception such as RecursionError.\<close>

record chat_request =
  cr_request_ids :: "string list"
  cr_generated_id :: string
  cr_content_length :: "int option"

definition valid_request_id :: "string \<Rightarrow> bool" where
  "valid_request_id s \<longleftrightarrow> length s = 32 \<and> list_all (\<lambda>c. c \<in> set ''0123456789abcdef'') s"

definition outcome_to :: "router_outcome \<Rightarrow> int \<Rightarrow> ledger_row \<Rightarrow> ledger_row" where
  "outcome_to oc status r = r\<lparr>lr_outcome := oc, lr_http_status := Some status\<rparr>"

definition close_with :: "router_outcome \<Rightarrow> int \<Rightarrow> frame \<Rightarrow> frame" where
  "close_with oc status f = f\<lparr>fr_row := outcome_to oc status (fr_row f), fr_phase := CLOSING\<rparr>"

definition new_row :: "router_config \<Rightarrow> string \<Rightarrow> int \<Rightarrow> ledger_row" where
  "new_row c request_id now = \<lparr>lr_request_id = request_id, lr_arrived_ns = now, lr_policy = rc_policy c,
     lr_replica = None, lr_queued_ns = None, lr_first_byte_ns = None, lr_terminal_ns = None,
     lr_stream_bytes = 0, lr_http_status = None, lr_upstream_status = None, lr_document_sha256 = None,
     lr_estimated_affinity = None, lr_busy_at_decision = None, lr_route_reason = None,
     lr_preferred_replica = None, lr_saturation_threshold_active = rc_saturation_active c,
     lr_saturation_rule_version =
       (if rc_saturation_active c \<noteq> None then Some ''active-request-gate.v1'' else None),
     lr_escape_busy_delta = escape_busy_delta, lr_saturation_reached = None,
     lr_relative_imbalance_reached = None, lr_turn_at_decision = None, lr_outcome = O_ERROR\<rparr>"

definition new_frame :: "ledger_row \<Rightarrow> int option \<Rightarrow> frame" where
  "new_frame r content_length = \<lparr>fr_row = r, fr_phase = WAITING, fr_admitted = False, fr_slot = False,
     fr_index = None, fr_content_length = content_length, fr_body = [], fr_prepared = False, fr_total = 0,
     fr_parser = None, fr_stage = AWAITING_UPSTREAM_HEADERS, fr_trace = None, fr_force_closed = False\<rparr>"

text \<open>\<open>chat\<close> up to its first await.\<close>

definition arrive ::
  "router_config \<Rightarrow> chat_request \<Rightarrow> int \<Rightarrow> router_state \<Rightarrow> router_state \<times> frame" where
  "arrive c q now s =
     (let accepted = (length (cr_request_ids q) = 1 \<and> valid_request_id (hd (cr_request_ids q)));
          request_id = (if accepted then hd (cr_request_ids q) else cr_generated_id q);
          s = s\<lparr>rs_offered := rs_offered s + 1\<rparr>;
          f = new_frame (new_row c request_id now) (cr_content_length q)
      in if cr_request_ids q \<noteq> [] \<and> \<not> accepted then (s, close_with REJECTED_REQUEST_ID 400 f)
         else if rs_accounting_failed s then (s, close_with REJECTED_ACCOUNTING 503 f)
         else if rc_max_active c + rc_max_queue c \<le> rs_active s + rs_pending s
         then (s, close_with REJECTED_CAPACITY 503 f)
         else (s\<lparr>rs_pending := rs_pending s + 1\<rparr>, f\<lparr>fr_admitted := True\<rparr>))"

section \<open>Choosing a replica\<close>

definition record_decision :: "affinity_decision \<Rightarrow> ledger_row \<Rightarrow> ledger_row" where
  "record_decision d r =
     r\<lparr>lr_route_reason := Some (ad_reason d), lr_estimated_affinity := Some (ad_estimated_affinity d),
       lr_preferred_replica := ad_preferred_replica d, lr_saturation_reached := ad_saturation_reached d,
       lr_relative_imbalance_reached := ad_relative_imbalance_reached d\<rparr>"

text \<open>\<open>_choose\<close>: on a ValueError the history keeps the reordering its lookup did.\<close>

definition choose_replica ::
  "router_config \<Rightarrow> string option \<Rightarrow> int \<Rightarrow> router_state
     \<Rightarrow> router_state \<times> (choose_error, affinity_decision) res" where
  "choose_replica c digest now s =
     (case scores digest now (rs_history s) of
        (h, affinity) \<Rightarrow>
          (case choose_route (rc_policy c) (rs_busy s) (rs_turn s) affinity (rc_saturation_active c) of
             Inl e \<Rightarrow> (s\<lparr>rs_history := h\<rparr>, Inl e)
           | Inr d \<Rightarrow>
               (s\<lparr>rs_turn := rs_turn s + 1, rs_history := record_use digest (ad_replica d) now h\<rparr>, Inr d)))"

definition add_busy :: "int \<Rightarrow> int \<Rightarrow> int \<times> int \<Rightarrow> int \<times> int" where
  "add_busy i k b = (if i = 0 then (fst b + k, snd b) else (fst b, snd b + k))"

text \<open>What both call sites of \<open>_choose\<close> do; an exception leaves the row's outcome \<open>error\<close>.\<close>

definition route_frame ::
  "router_config \<Rightarrow> string option \<Rightarrow> int \<Rightarrow> router_state \<Rightarrow> frame \<Rightarrow> router_state \<times> frame" where
  "route_frame c digest now s f =
     (let r = (fr_row f)\<lparr>lr_busy_at_decision := Some (rs_busy s)\<rparr>
      in case choose_replica c digest now s of
          (s', Inl _) \<Rightarrow> (s', f\<lparr>fr_row := r, fr_phase := CLOSING\<rparr>)
        | (s', Inr d) \<Rightarrow>
            (s'\<lparr>rs_busy := add_busy (ad_replica d) 1 (rs_busy s')\<rparr>,
             f\<lparr>fr_index := Some (ad_replica d),
               fr_row := record_decision d
                 (r\<lparr>lr_turn_at_decision := Some (rs_turn s' - 1), lr_replica := Some (ad_replica d)\<rparr>)\<rparr>))"

text \<open>After \<open>sem.acquire()\<close>.\<close>

definition acquired :: "router_config \<Rightarrow> int \<Rightarrow> router_state \<Rightarrow> frame \<Rightarrow> router_state \<times> frame" where
  "acquired c now s f =
     (let s = s\<lparr>rs_permits := rs_permits s - 1, rs_pending := rs_pending s - 1, rs_active := rs_active s + 1\<rparr>;
          f = f\<lparr>fr_admitted := False, fr_slot := True, fr_phase := UPLOADING,
                fr_row := (fr_row f)\<lparr>lr_queued_ns := Some (now - lr_arrived_ns (fr_row f))\<rparr>\<rparr>
      in case (if rc_policy c = ROUND_ROBIN \<or> rc_policy c = LEAST_BUSY then route_frame c None now s f
               else (s, f)) of
          (s, f) \<Rightarrow>
            if fr_phase f = CLOSING then (s, f)
            else if (\<exists>n \<in> set_option (fr_content_length f). rc_max_body_bytes c < n)
            then (s, close_with REJECTED_BODY 413 f)
            else (s, f))"

text \<open>After a chunk of the request body: \<open>read(n)\<close> returns at most what it was asked for.\<close>

definition body_chunk :: "router_config \<Rightarrow> py_bytes \<Rightarrow> frame \<Rightarrow> frame" where
  "body_chunk c chunk f =
     (let f = f\<lparr>fr_body := fr_body f @ chunk\<rparr>
      in if rc_max_body_bytes c < int (length (fr_body f)) then close_with REJECTED_BODY 413 f else f)"

definition read_size :: "router_config \<Rightarrow> frame \<Rightarrow> int" where
  "read_size c f = min 16384 (rc_max_body_bytes c + 1 - int (length (fr_body f)))"

text \<open>After the body: decoding, routing, and \<open>_proxy\<close> up to its first await.\<close>

definition enter_proxy :: "router_config \<Rightarrow> router_state \<Rightarrow> frame \<Rightarrow> frame" where
  "enter_proxy c s f =
     (if rs_accounting_failed s then close_with REJECTED_ACCOUNTING 503 f
      else f\<lparr>fr_phase := AWAIT_HEADERS, fr_stage := AWAITING_UPSTREAM_HEADERS,
             fr_trace := (if rc_diagnostics c then Some new_trace else None)\<rparr>)"

definition body_end ::
  "router_config \<Rightarrow> router_env \<Rightarrow> int \<Rightarrow> router_state \<Rightarrow> frame \<Rightarrow> router_state \<times> frame" where
  "body_end c env now s f =
     (case re_body_json env (fr_body f) of
        Inl _ \<Rightarrow> (s, f\<lparr>fr_phase := CLOSING\<rparr>)
      | Inr payload \<Rightarrow>
          (case payload of
             Some (JObj members) \<Rightarrow>
               if json_get members ''stream'' \<noteq> Some (JBool True) then (s, close_with REJECTED_INPUT 400 f)
               else let digest = document_digest (re_sha256 env) (JObj members);
                        f = f\<lparr>fr_row := (fr_row f)\<lparr>lr_document_sha256 := digest\<rparr>\<rparr>
                    in (case (if fr_index f = None then route_frame c digest now s f else (s, f)) of
                        (s, f) \<Rightarrow> if fr_phase f = CLOSING then (s, f) else (s, enter_proxy c s f))
           | _ \<Rightarrow> (s, close_with REJECTED_INPUT 400 f)))"

section \<open>The proxy\<close>

text \<open>
  Leaving \<open>_proxy\<close>: its \<open>finally\<close> breaks the connection of a response that was started and not
  completed.
\<close>

definition leave_proxy :: "frame \<Rightarrow> frame" where
  "leave_proxy f =
     f\<lparr>fr_phase := CLOSING,
       fr_force_closed := (fr_prepared f \<and> lr_outcome (fr_row f) \<noteq> COMPLETED)\<rparr>"

definition set_outcome :: "router_outcome \<Rightarrow> frame \<Rightarrow> frame" where
  "set_outcome oc f = f\<lparr>fr_row := (fr_row f)\<lparr>lr_outcome := oc\<rparr>\<rparr>"

text \<open>The response headers of the upstream; a refusal returns through the release of the upstream.\<close>

definition upstream_headers :: "int \<Rightarrow> string \<Rightarrow> frame \<Rightarrow> frame" where
  "upstream_headers status content_type f =
     (let f = f\<lparr>fr_row := (fr_row f)\<lparr>lr_upstream_status := Some status\<rparr>\<rparr>
      in if status \<noteq> 200
         then f\<lparr>fr_row := outcome_to UPSTREAM_HTTP_ERROR 502 (fr_row f), fr_phase := AWAIT_RELEASE\<rparr>
         else if content_type \<noteq> ''text/event-stream''
         then f\<lparr>fr_row := outcome_to UPSTREAM_PROTOCOL_ERROR 502 (fr_row f), fr_phase := AWAIT_RELEASE\<rparr>
         else f\<lparr>fr_stage := PREPARE_DOWNSTREAM, fr_phase := AWAIT_PREPARE\<rparr>)"

definition response_prepared :: "router_config \<Rightarrow> frame \<Rightarrow> frame" where
  "response_prepared c f =
     (let f = f\<lparr>fr_prepared := True, fr_row := (fr_row f)\<lparr>lr_http_status := Some 200\<rparr>, fr_total := 0\<rparr>
      in case new_parser (rc_max_stream_bytes c) 262144 65536 of
          Inl _ \<Rightarrow> leave_proxy f
        | Inr p \<Rightarrow> f\<lparr>fr_parser := Some p, fr_stage := READ_UPSTREAM_STREAM, fr_phase := AWAIT_READ\<rparr>)"

text \<open>A chunk of the upstream body, or its end when empty.\<close>

definition upstream_chunk :: "router_config \<Rightarrow> router_env \<Rightarrow> py_bytes \<Rightarrow> int \<Rightarrow> frame \<Rightarrow> frame" where
  "upstream_chunk c env chunk now f =
     (case fr_parser f of
        None \<Rightarrow> f
      | Some p \<Rightarrow>
          if chunk = []
          then (case finish_stream p of
              (p', Some _) \<Rightarrow> leave_proxy (set_outcome UPSTREAM_PROTOCOL_ERROR (f\<lparr>fr_parser := Some p'\<rparr>))
            | (p', None) \<Rightarrow>
                f\<lparr>fr_parser := Some p', fr_stage := WRITE_DOWNSTREAM_EOF, fr_phase := AWAIT_EOF\<rparr>)
          else let f = f\<lparr>fr_total := fr_total f + int (length chunk)\<rparr>
            in if rc_max_stream_bytes c < fr_total f
               then (set_outcome STREAM_LIMIT f)\<lparr>fr_phase := AWAIT_RELEASE\<rparr>
               else (case feed (re_json env) chunk now p of
                   (p', Some _) \<Rightarrow> leave_proxy (set_outcome UPSTREAM_PROTOCOL_ERROR (f\<lparr>fr_parser := Some p'\<rparr>))
                 | (p', None) \<Rightarrow>
                     f\<lparr>fr_parser := Some p',
                       fr_row := (if lr_first_byte_ns (fr_row f) = None
                                  then (fr_row f)\<lparr>lr_first_byte_ns := Some (now - lr_arrived_ns (fr_row f))\<rparr>
                                  else fr_row f),
                       fr_stage := WRITE_DOWNSTREAM, fr_phase := AWAIT_WRITE\<rparr>))"

definition chunk_written :: "frame \<Rightarrow> frame" where
  "chunk_written f =
     f\<lparr>fr_row := (fr_row f)\<lparr>lr_stream_bytes := fr_total f\<rparr>, fr_stage := READ_UPSTREAM_STREAM,
       fr_phase := AWAIT_READ\<rparr>"

definition eof_written :: "frame \<Rightarrow> frame" where
  "eof_written f = (set_outcome COMPLETED f)\<lparr>fr_stage := RELEASE_UPSTREAM, fr_phase := AWAIT_RELEASE\<rparr>"

text \<open>\<open>_record_transport\<close>; \<open>written\<close> says whether the diagnostics file accepts the line.\<close>

definition record_transport ::
  "router_config \<Rightarrow> router_exn \<Rightarrow> bool \<Rightarrow> int \<Rightarrow> frame \<Rightarrow> router_state \<Rightarrow> router_state" where
  "record_transport c e written now f s =
     (if \<not> rc_diagnostics c \<or> rs_diagnostics_failed s then s
      else (case fr_trace f of
          None \<Rightarrow> s\<lparr>rs_diagnostics_failed := True\<rparr>
        | Some connection \<Rightarrow>
            if \<not> written then s\<lparr>rs_diagnostics_failed := True\<rparr>
            else s\<lparr>rs_diagnostics := rs_diagnostics s @
                [\<lparr>tr_request_id = lr_request_id (fr_row f), tr_replica = lr_replica (fr_row f),
                  tr_stage = fr_stage f, tr_exception_type = fst (transport_error e),
                  tr_errno = snd (transport_error e), tr_upstream_status = lr_upstream_status (fr_row f),
                  tr_downstream_prepared = fr_prepared f,
                  tr_elapsed_ns = now - lr_arrived_ns (fr_row f), tr_connection = connection\<rparr>],
              rs_diagnostic_rows := rs_diagnostic_rows s + 1\<rparr>))"

text \<open>
  What an await raises: a cancellation (with what \<open>_disconnected\<close> answers), or an exception (with
  whether the diagnostics file accepts a line).
\<close>

datatype await_exn = Cancelled bool | Raised router_exn bool

text \<open>The handlers of \<open>chat\<close>.\<close>

definition chat_handler :: "await_exn \<Rightarrow> frame \<Rightarrow> frame" where
  "chat_handler x f =
     (case x of
        Cancelled gone \<Rightarrow> (set_outcome (if gone then DISCONNECTED else O_CANCELLED) f)\<lparr>fr_phase := CLOSING\<rparr>
      | Raised e _ \<Rightarrow>
          if ex_is e E_TimeoutError then close_with O_TIMEOUT 504 f
          else if ex_is e E_ClientError \<or> ex_is e E_OSError then close_with UPSTREAM_ERROR 502 f
          else f\<lparr>fr_phase := CLOSING\<rparr>)"

text \<open>
  The handlers of \<open>_proxy\<close>, then those of \<open>chat\<close> when \<open>_proxy\<close> raises. The \<open>finally\<close> of \<open>_proxy\<close> runs
  in between.
\<close>

definition proxy_handler ::
  "router_config \<Rightarrow> await_exn \<Rightarrow> int \<Rightarrow> router_state \<Rightarrow> frame \<Rightarrow> router_state \<times> frame" where
  "proxy_handler c x now s f =
     (case x of
        Cancelled _ \<Rightarrow> (s, chat_handler x (leave_proxy f))
      | Raised e written \<Rightarrow>
          let recorded = record_transport c e written now f s
          in if ex_is e E_ConnectionResetError \<or> ex_is e E_BrokenPipeError
             then (recorded, if fr_prepared f then leave_proxy (set_outcome DISCONNECTED f)
                             else chat_handler x (leave_proxy f))
             else if ex_is e E_TimeoutError
             then (recorded, if fr_prepared f then leave_proxy (set_outcome O_TIMEOUT f)
                             else chat_handler x (leave_proxy f))
             else if ex_is e E_ClientError \<or> ex_is e E_OSError
             then (recorded, if fr_prepared f then leave_proxy (set_outcome UPSTREAM_ERROR f)
                             else chat_handler x (leave_proxy f))
             else (s, chat_handler x (leave_proxy f)))"

section \<open>The end of a request\<close>

text \<open>\<open>_record\<close>; \<open>written\<close> says whether the ledger accepts the line.\<close>

definition record_row :: "bool \<Rightarrow> ledger_row \<Rightarrow> router_state \<Rightarrow> router_state" where
  "record_row written r s =
     (let s = s\<lparr>rs_outcomes := (rs_outcomes s)(lr_outcome r := rs_outcomes s (lr_outcome r) + 1),
                rs_terminal := rs_terminal s + 1\<rparr>
      in if rs_accounting_failed s then s
         else if written then s\<lparr>rs_ledger := rs_ledger s @ [r], rs_ledger_rows := rs_ledger_rows s + 1\<rparr>
         else s\<lparr>rs_accounting_failed := True\<rparr>)"

text \<open>The \<open>finally\<close> of \<open>chat\<close>, once the monitor has ended: what the frame holds, then its row.\<close>

definition release_frame :: "frame \<Rightarrow> router_state \<Rightarrow> router_state" where
  "release_frame f s =
     (let s = (if fr_admitted f then s\<lparr>rs_pending := rs_pending s - 1\<rparr> else s);
          s = (case fr_index f of None \<Rightarrow> s | Some i \<Rightarrow> s\<lparr>rs_busy := add_busy i (-1) (rs_busy s)\<rparr>)
      in if fr_slot f then s\<lparr>rs_active := rs_active s - 1, rs_permits := rs_permits s + 1\<rparr> else s)"

definition finish_request :: "bool \<Rightarrow> int \<Rightarrow> router_state \<Rightarrow> frame \<Rightarrow> router_state" where
  "finish_request written now s f =
     record_row written ((fr_row f)\<lparr>lr_terminal_ns := Some (now - lr_arrived_ns (fr_row f))\<rparr>)
       (release_frame f s)"

section \<open>Resumptions\<close>

datatype resumption =
    Acquired | QueueTimeout | BodyChunk py_bytes | BodyEnd | UpstreamHeaders int string | ResponsePrepared
  | UpstreamChunk py_bytes | ChunkWritten | EofWritten | UpstreamReleased | Traced connection_event
  | Raises await_exn

text \<open>
  A frame resumed with what its await delivered; None when its await cannot deliver that. Trace
  callbacks run while a frame is suspended and do not resume it.
\<close>

definition proxying :: "frame_phase \<Rightarrow> bool" where
  "proxying ph \<longleftrightarrow>
     ph \<in> {AWAIT_HEADERS, AWAIT_PREPARE, AWAIT_READ, AWAIT_WRITE, AWAIT_EOF, AWAIT_RELEASE}"

definition resume ::
  "router_config \<Rightarrow> router_env \<Rightarrow> resumption \<Rightarrow> int \<Rightarrow> router_state \<Rightarrow> frame
     \<Rightarrow> (router_state \<times> frame) option" where
  "resume c env x now s f =
     (case x of
        Acquired \<Rightarrow>
          if fr_phase f = WAITING \<and> 0 < rs_permits s then Some (acquired c now s f) else None
      | QueueTimeout \<Rightarrow>
          if fr_phase f = WAITING then Some (s, close_with REJECTED_QUEUE_TIMEOUT 503 f) else None
      | BodyChunk chunk \<Rightarrow>
          if fr_phase f = UPLOADING \<and> chunk \<noteq> [] \<and> int (length chunk) \<le> read_size c f
          then Some (s, body_chunk c chunk f) else None
      | BodyEnd \<Rightarrow> if fr_phase f = UPLOADING then Some (body_end c env now s f) else None
      | UpstreamHeaders status content_type \<Rightarrow>
          if fr_phase f = AWAIT_HEADERS then Some (s, upstream_headers status content_type f) else None
      | ResponsePrepared \<Rightarrow>
          if fr_phase f = AWAIT_PREPARE then Some (s, response_prepared c f) else None
      | UpstreamChunk chunk \<Rightarrow>
          if fr_phase f = AWAIT_READ \<and> length chunk \<le> 16384
          then Some (s, upstream_chunk c env chunk now f) else None
      | ChunkWritten \<Rightarrow> if fr_phase f = AWAIT_WRITE then Some (s, chunk_written f) else None
      | EofWritten \<Rightarrow> if fr_phase f = AWAIT_EOF then Some (s, eof_written f) else None
      | UpstreamReleased \<Rightarrow> if fr_phase f = AWAIT_RELEASE then Some (s, leave_proxy f) else None
      | Traced e \<Rightarrow>
          if proxying (fr_phase f) then Some (s, f\<lparr>fr_trace := map_option (trace_connection e) (fr_trace f)\<rparr>)
          else None
      | Raises r \<Rightarrow>
          if fr_phase f = WAITING \<or> fr_phase f = UPLOADING then Some (s, chat_handler r f)
          else if proxying (fr_phase f) then Some (proxy_handler c r now s f)
          else None)"

text \<open>
  The event loop: a request arrives, some frame is resumed, or some closing frame ends.
\<close>

type_synonym router_world = "router_state \<times> frame list"

inductive router_step :: "router_config \<Rightarrow> router_env \<Rightarrow> router_world \<Rightarrow> router_world \<Rightarrow> bool"
  for c :: router_config and env :: router_env where
  arrival: "arrive c q now s = (s', f) \<Longrightarrow> router_step c env (s, fs) (s', fs @ [f])"
| resumed: "resume c env x now s f = Some (s', f') \<Longrightarrow>
    router_step c env (s, xs @ f # ys) (s', xs @ f' # ys)"
| ended: "fr_phase f = CLOSING \<Longrightarrow>
    router_step c env (s, xs @ f # ys) (finish_request written now s f, xs @ ys)"

inductive router_reachable :: "router_config \<Rightarrow> router_env \<Rightarrow> router_world \<Rightarrow> bool"
  for c :: router_config and env :: router_env where
  started: "router_reachable c env (new_router c, [])"
| stepped: "router_reachable c env w \<Longrightarrow> router_step c env w w' \<Longrightarrow> router_reachable c env w'"

section \<open>What a frame holds\<close>

definition slot_ok :: "frame \<Rightarrow> bool" where
  "slot_ok f \<longleftrightarrow>
     (fr_phase f = WAITING \<longrightarrow> fr_admitted f)
     \<and> (fr_phase f = UPLOADING \<or> proxying (fr_phase f) \<longrightarrow> fr_slot f)
     \<and> (fr_admitted f \<longrightarrow> \<not> fr_slot f) \<and> (fr_index f \<noteq> None \<longrightarrow> fr_slot f)
     \<and> (proxying (fr_phase f) \<longrightarrow> fr_index f \<noteq> None)
     \<and> (\<forall>i. fr_index f = Some i \<longrightarrow> is_replica i)"

named_theorems frame_simps \<open>what the operations on frames do to the resources a frame holds\<close>

text \<open>The resources of a frame: queue place, slot and replica.\<close>

definition held :: "frame \<Rightarrow> bool \<times> bool \<times> int option" where
  "held f = (fr_admitted f, fr_slot f, fr_index f)"

lemma held_update [frame_simps]:
  "held (f\<lparr>fr_row := r\<rparr>) = held f" "held (f\<lparr>fr_phase := ph\<rparr>) = held f" "held (f\<lparr>fr_body := b\<rparr>) = held f"
  "held (f\<lparr>fr_prepared := p\<rparr>) = held f" "held (f\<lparr>fr_total := n\<rparr>) = held f"
  "held (f\<lparr>fr_parser := q\<rparr>) = held f" "held (f\<lparr>fr_stage := st\<rparr>) = held f"
  "held (f\<lparr>fr_trace := t\<rparr>) = held f" "held (f\<lparr>fr_force_closed := b'\<rparr>) = held f"
  by (simp_all add: held_def)

lemma held_basic [frame_simps]:
  "held (close_with oc n f) = held f" "held (set_outcome oc f) = held f" "held (leave_proxy f) = held f"
  "held (chat_handler x f) = held f"
  by (simp_all add: frame_simps close_with_def set_outcome_def leave_proxy_def chat_handler_def
      split: await_exn.split)

lemma phase_basic [frame_simps]:
  "fr_phase (close_with oc n f) = CLOSING" "fr_phase (set_outcome oc f) = fr_phase f"
  "fr_phase (leave_proxy f) = CLOSING" "fr_phase (chat_handler x f) = CLOSING"
  by (simp_all add: close_with_def set_outcome_def leave_proxy_def chat_handler_def split: await_exn.split)

lemma held_steps [frame_simps]:
  "held (body_chunk c chunk f) = held f" "held (upstream_headers status content_type f) = held f"
  "held (response_prepared c f) = held f" "held (upstream_chunk c env chunk now f) = held f"
  "held (chunk_written f) = held f" "held (eof_written f) = held f" "held (enter_proxy c s f) = held f"
  by (simp_all add: frame_simps body_chunk_def upstream_headers_def response_prepared_def upstream_chunk_def
      chunk_written_def eof_written_def enter_proxy_def Let_def split: option.split sum.split prod.split)

lemma held_proxy_handler [frame_simps]: "held (snd (proxy_handler c x now s f)) = held f"
  by (cases x) (simp_all add: proxy_handler_def frame_simps Let_def)

text \<open>The counters of the router that frames account for.\<close>

definition counters :: "router_state \<Rightarrow> int \<times> int \<times> int \<times> (int \<times> int) \<times> int \<times> int" where
  "counters s = (rs_permits s, rs_pending s, rs_active s, rs_busy s, rs_offered s, rs_terminal s)"

lemma counters_record_transport [frame_simps]: "counters (record_transport c e w now f s) = counters s"
  by (simp add: record_transport_def counters_def split: option.split)

lemma counters_proxy_handler [frame_simps]: "counters (fst (proxy_handler c x now s f)) = counters s"
  by (cases x) (simp_all add: proxy_handler_def frame_simps Let_def)

lemma phase_proxy_handler [frame_simps]: "fr_phase (snd (proxy_handler c x now s f)) = CLOSING"
  by (cases x) (simp_all add: proxy_handler_def frame_simps Let_def)

text \<open>Routing either fails and changes no counter, or takes one busy place of a replica.\<close>

lemma choose_replica_result:
  assumes "choose_replica c digest now s = (s', r)"
  shows "counters s' = counters s \<and> (\<forall>d. r = Inr d \<longrightarrow> is_replica (ad_replica d))"
  using assms choose_replica [of "rc_policy c" "rs_busy s" "rs_turn s" _ "rc_saturation_active c"]
  by (auto simp: choose_replica_def counters_def split: prod.splits sum.splits)

lemma route_frame_cases:
  assumes "route_frame c digest now s f = (s', f')"
  obtains (failed) "counters s' = counters s" "held f' = held f" "fr_phase f' = CLOSING"
  | (routed) i where "is_replica i" "fr_index f' = Some i" "fr_admitted f' = fr_admitted f"
      "fr_slot f' = fr_slot f" "fr_phase f' = fr_phase f"
      "counters s' = (rs_permits s, rs_pending s, rs_active s, add_busy i 1 (rs_busy s), rs_offered s, rs_terminal s)"
proof -
  obtain t r where choice: "choose_replica c digest now s = (t, r)" by fastforce
  note result = choose_replica_result [OF choice]
  show thesis
  proof (cases r)
    case (Inl e)
    then show thesis using assms choice result
      by (intro failed) (auto simp: route_frame_def Let_def held_def)
  next
    case (Inr d)
    then show thesis using assms choice result
      by (intro routed [of "ad_replica d"]) (auto simp: route_frame_def Let_def counters_def)
  qed
qed

text \<open>
  The effect of a resumption on counters and holdings: it keeps both, moves the frame from the queue to
  a slot (and possibly to a replica), or takes a replica for a frame that has a slot.
\<close>

datatype holding_change = Same | Slot "int option" | Replica int

definition changes :: "holding_change \<Rightarrow> router_state \<Rightarrow> frame \<Rightarrow> router_state \<Rightarrow> frame \<Rightarrow> bool" where
  "changes h s f s' f' \<longleftrightarrow>
     (case h of
        Same \<Rightarrow> counters s' = counters s \<and> held f' = held f
      | Slot i \<Rightarrow>
          held f = (True, False, None) \<and> held f' = (False, True, i) \<and> 0 < rs_permits s
          \<and> counters s' = (rs_permits s - 1, rs_pending s - 1, rs_active s + 1,
              (case i of None \<Rightarrow> rs_busy s | Some j \<Rightarrow> add_busy j 1 (rs_busy s)), rs_offered s, rs_terminal s)
      | Replica i \<Rightarrow>
          held f = (False, True, None) \<and> held f' = (False, True, Some i)
          \<and> counters s' = (rs_permits s, rs_pending s, rs_active s, add_busy i 1 (rs_busy s),
              rs_offered s, rs_terminal s))"

lemma proxying_simps [simp]:
  "\<not> proxying WAITING" "\<not> proxying UPLOADING" "\<not> proxying CLOSING" "proxying AWAIT_HEADERS"
  "proxying AWAIT_PREPARE" "proxying AWAIT_READ" "proxying AWAIT_WRITE" "proxying AWAIT_EOF"
  "proxying AWAIT_RELEASE"
  by (simp_all add: proxying_def)

lemma held_eq: "held f' = held f \<longleftrightarrow>
    fr_admitted f' = fr_admitted f \<and> fr_slot f' = fr_slot f \<and> fr_index f' = fr_index f"
  by (simp add: held_def)

lemma slot_ok_closing: "held f' = held f \<Longrightarrow> fr_phase f' = CLOSING \<Longrightarrow> slot_ok f \<Longrightarrow> slot_ok f'"
  by (simp add: held_eq slot_ok_def)

lemma slot_ok_phase: "held f' = held f \<Longrightarrow> fr_phase f' = fr_phase f \<Longrightarrow> slot_ok f \<Longrightarrow> slot_ok f'"
  by (simp add: held_eq slot_ok_def)

lemma slot_ok_proxying:
  "held f' = held f \<Longrightarrow> proxying (fr_phase f') \<Longrightarrow> fr_slot f \<Longrightarrow> fr_index f \<noteq> None \<Longrightarrow> slot_ok f \<Longrightarrow>
     slot_ok f'"
  by (cases "fr_phase f'") (simp_all add: held_eq slot_ok_def)

lemma slot_ok_within_proxy:
  assumes "held f' = held f" "proxying (fr_phase f)" "proxying (fr_phase f')" "slot_ok f"
  shows "slot_ok f'"
  using assms slot_ok_proxying [OF assms(1,3)] by (auto simp: slot_ok_def)

text \<open>The two resumptions that route, as their parts.\<close>

definition slot_state :: "router_state \<Rightarrow> router_state" where
  "slot_state s = s\<lparr>rs_permits := rs_permits s - 1, rs_pending := rs_pending s - 1, rs_active := rs_active s + 1\<rparr>"

definition slot_frame :: "int \<Rightarrow> frame \<Rightarrow> frame" where
  "slot_frame now f = f\<lparr>fr_admitted := False, fr_slot := True, fr_phase := UPLOADING,
     fr_row := (fr_row f)\<lparr>lr_queued_ns := Some (now - lr_arrived_ns (fr_row f))\<rparr>\<rparr>"

lemma acquired_cases:
  assumes "acquired c now s f = (s', f')"
  obtains f1 where
    "(if rc_policy c = ROUND_ROBIN \<or> rc_policy c = LEAST_BUSY
      then route_frame c None now (slot_state s) (slot_frame now f) else (slot_state s, slot_frame now f)) = (s', f1)"
    "f' = f1 \<or> f' = close_with REJECTED_BODY 413 f1"
proof -
  obtain s1 f1 where mid: "(if rc_policy c = ROUND_ROBIN \<or> rc_policy c = LEAST_BUSY
      then route_frame c None now (slot_state s) (slot_frame now f) else (slot_state s, slot_frame now f)) = (s1, f1)"
    by fastforce
  have "s' = s1 \<and> (f' = f1 \<or> f' = close_with REJECTED_BODY 413 f1)"
    using assms mid by (auto simp: acquired_def slot_state_def slot_frame_def Let_def split: if_splits)
  then show thesis using that [of f1] mid by blast
qed

definition digest_frame :: "router_env \<Rightarrow> (py_text \<times> json) list \<Rightarrow> frame \<Rightarrow> frame" where
  "digest_frame env ms f =
     f\<lparr>fr_row := (fr_row f)\<lparr>lr_document_sha256 := document_digest (re_sha256 env) (JObj ms)\<rparr>\<rparr>"

lemma body_end_cases:
  assumes "body_end c env now s f = (s', f')"
  obtains (refused) "s' = s" "f' = close_with REJECTED_INPUT 400 f \<or> f' = f\<lparr>fr_phase := CLOSING\<rparr>"
  | (routed) ms f1 where
      "(if fr_index f = None
        then route_frame c (document_digest (re_sha256 env) (JObj ms)) now s (digest_frame env ms f)
        else (s, digest_frame env ms f)) = (s', f1)"
      "f' = (if fr_phase f1 = CLOSING then f1 else enter_proxy c s' f1)"
proof (cases "\<exists>ms. re_body_json env (fr_body f) = Inr (Some (JObj ms)) \<and> json_get ms ''stream'' = Some (JBool True)")
  case False
  then show thesis using assms
    by (intro refused) (auto simp: body_end_def split: sum.splits option.splits json.splits if_splits)
next
  case True
  then obtain ms where ms: "re_body_json env (fr_body f) = Inr (Some (JObj ms))"
    "json_get ms ''stream'' = Some (JBool True)" by blast
  obtain s1 f1 where mid: "(if fr_index f = None
      then route_frame c (document_digest (re_sha256 env) (JObj ms)) now s (digest_frame env ms f)
      else (s, digest_frame env ms f)) = (s1, f1)" by fastforce
  have "s' = s1 \<and> f' = (if fr_phase f1 = CLOSING then f1 else enter_proxy c s1 f1)"
    using assms mid ms by (auto simp: body_end_def digest_frame_def Let_def split: if_splits)
  then show thesis using routed [of ms f1] mid by blast
qed

lemma acquired_changes:
  assumes "acquired c now s f = (s', f')" "slot_ok f" "fr_phase f = WAITING" "0 < rs_permits s"
  shows "\<exists>h. changes h s f s' f' \<and> slot_ok f'"
proof -
  have f: "held f = (True, False, None)" using assms(2,3) by (auto simp: slot_ok_def held_def)
  from assms(1) obtain f1 where mid: "(if rc_policy c = ROUND_ROBIN \<or> rc_policy c = LEAST_BUSY
      then route_frame c None now (slot_state s) (slot_frame now f)
      else (slot_state s, slot_frame now f)) = (s', f1)"
    and out: "f' = f1 \<or> f' = close_with REJECTED_BODY 413 f1"
    by (rule acquired_cases)
  note defs = changes_def counters_def held_def slot_ok_def slot_state_def slot_frame_def
  have "\<exists>i. changes (Slot i) s f s' f1 \<and> slot_ok f1"
  proof (cases "rc_policy c = ROUND_ROBIN \<or> rc_policy c = LEAST_BUSY")
    case True
    then have "route_frame c None now (slot_state s) (slot_frame now f) = (s', f1)" using mid by simp
    then show ?thesis
    proof (cases rule: route_frame_cases)
      case failed
      then show ?thesis using f assms(4) by (intro exI [of _ None]) (auto simp: defs)
    next
      case (routed i)
      then show ?thesis using f assms(4) by (intro exI [of _ "Some i"]) (auto simp: defs)
    qed
  next
    case False
    then show ?thesis using mid f assms(4) by (intro exI [of _ None]) (auto simp: defs)
  qed
  then obtain i where change: "changes (Slot i) s f s' f1" "slot_ok f1" by blast
  then have "slot_ok f'" using out slot_ok_closing [of f' f1] by (auto simp: frame_simps)
  then show ?thesis using change out
    by (intro exI [of _ "Slot i"]) (auto simp: changes_def frame_simps)
qed

lemma body_end_changes:
  assumes "body_end c env now s f = (s', f')" "slot_ok f" "fr_phase f = UPLOADING"
  shows "\<exists>h. changes h s f s' f' \<and> slot_ok f'"
proof -
  have slot: "fr_slot f" "\<not> fr_admitted f" using assms(2,3) by (auto simp: slot_ok_def)
  have same: "\<exists>h. changes h s f s' f' \<and> slot_ok f'"
    if "counters s' = counters s" "held f' = held f" "fr_phase f' = CLOSING"
    using that slot_ok_closing [OF that(2,3) assms(2)] by (intro exI [of _ Same]) (simp add: changes_def)
  from assms(1) show ?thesis
  proof (cases rule: body_end_cases)
    case refused
    then show ?thesis by (intro same) (auto simp: frame_simps)
  next
    case (routed ms f1)
    have enter: "held f' = held f1" by (simp add: routed(2) frame_simps)
    have phase: "fr_phase f' = CLOSING \<or> proxying (fr_phase f')"
      by (auto simp: routed(2) enter_proxy_def frame_simps)
    have digest: "held (digest_frame env ms f) = held f" by (simp add: digest_frame_def frame_simps)
    show ?thesis
    proof (cases "fr_index f = None")
      case True
      then have "route_frame c (document_digest (re_sha256 env) (JObj ms)) now s (digest_frame env ms f) = (s', f1)"
        using routed(1) by simp
      then show ?thesis
      proof (cases rule: route_frame_cases)
        case failed
        then show ?thesis using routed(2) digest by (intro same) simp_all
      next
        case (routed i)
        then have "changes (Replica i) s f s' f'" using True slot enter digest
          by (auto simp: changes_def held_def)
        moreover have "slot_ok f'" using routed slot enter phase digest
          by (cases "fr_phase f'") (simp_all add: held_eq slot_ok_def)
        ultimately show ?thesis by blast
      qed
    next
      case False
      then have same': "s' = s" "held f' = held f" using routed(1) enter digest by auto
      then have "slot_ok f'"
        using phase slot_ok_closing [OF _ _ assms(2)] slot_ok_proxying [OF _ _ slot(1) False assms(2)] by blast
      then show ?thesis using same' by (intro exI [of _ Same]) (simp add: changes_def)
    qed
  qed
qed

text \<open>Every other resumption keeps counters and holdings; it closes the frame or stays where it may be.\<close>

lemma resume_same:
  assumes "resume c env x now s f = Some (s', f')" "x \<noteq> Acquired" "x \<noteq> BodyEnd"
  shows "counters s' = counters s \<and> held f' = held f
    \<and> (fr_phase f' = CLOSING \<or> fr_phase f' = fr_phase f \<or> proxying (fr_phase f) \<and> proxying (fr_phase f'))"
proof (cases x)
  case (UpstreamChunk chunk)
  then show ?thesis using assms(1)
    by (auto simp: resume_def frame_simps upstream_chunk_def Let_def split: if_splits option.splits prod.splits)
next
  case (Raises r)
  have "s' = fst (proxy_handler c r now s f) \<and> f' = snd (proxy_handler c r now s f)
      \<or> s' = s \<and> f' = chat_handler r f"
    using assms(1) Raises by (auto simp: resume_def split: if_splits)
  then show ?thesis by (auto simp: frame_simps)
next
  case (ResponsePrepared)
  then show ?thesis using assms(1)
    by (auto simp: resume_def frame_simps response_prepared_def Let_def split: if_splits sum.splits)
next
  case (UpstreamHeaders st ct)
  then show ?thesis using assms(1)
    by (auto simp: resume_def frame_simps upstream_headers_def Let_def split: if_splits)
next
  case (BodyChunk b)
  then show ?thesis using assms(1)
    by (auto simp: resume_def frame_simps body_chunk_def Let_def split: if_splits)
qed (use assms in \<open>auto simp: resume_def frame_simps chunk_written_def eof_written_def split: if_splits\<close>)

lemma resume_changes:
  assumes "resume c env x now s f = Some (s', f')" "slot_ok f"
  shows "\<exists>h. changes h s f s' f' \<and> slot_ok f'"
proof (cases "x = Acquired \<or> x = BodyEnd")
  case True
  then show ?thesis using assms acquired_changes [of c now s f s' f'] body_end_changes [of c env now s f s' f']
    by (elim disjE) (simp_all add: resume_def split: if_splits)
next
  case False
  then have same: "counters s' = counters s" "held f' = held f"
    "fr_phase f' = CLOSING \<or> fr_phase f' = fr_phase f \<or> proxying (fr_phase f) \<and> proxying (fr_phase f')"
    using resume_same [OF assms(1)] by blast+
  from same(3) have "slot_ok f'"
    using slot_ok_closing [OF same(2) _ assms(2)] slot_ok_phase [OF same(2) _ assms(2)]
      slot_ok_within_proxy [OF same(2) _ _ assms(2)] by blast
  then show ?thesis using same by (intro exI [of _ Same]) (simp add: changes_def)
qed

section \<open>Counting frames\<close>

lemma arrive_slot_ok: "arrive c q now s = (s', f) \<Longrightarrow> slot_ok f"
  by (auto simp: arrive_def Let_def slot_ok_def new_frame_def close_with_def split: if_splits)

lemma reachable_slot_ok: "router_reachable c env w \<Longrightarrow> list_all slot_ok (snd w)"
proof (induction rule: router_reachable.induct)
  case started
  then show ?case by simp
next
  case (stepped w w')
  from stepped.hyps(2) stepped.IH show ?case
  proof cases
    case (arrival q now s s' f fs)
    then show ?thesis using stepped.IH arrive_slot_ok by auto
  next
    case (resumed x now s f s' f' xs ys)
    then show ?thesis using stepped.IH resume_changes by fastforce
  next
    case (ended f s xs ys written now)
    then show ?thesis using stepped.IH by auto
  qed
qed

text \<open>
  The contract of a counter that accounts for a property of the frames in flight: an arrival and a
  resumption move it as they change the property, and the end of a request returns it.
\<close>

locale frame_counter =
  fixes c :: router_config and env :: router_env
    and counter :: "router_state \<Rightarrow> int" and owns :: "frame \<Rightarrow> bool"
  assumes counter_start: "counter (new_router c) = 0"
    and counter_arrive: "arrive c q now s = (s', f) \<Longrightarrow> counter s' = counter s + of_bool (owns f)"
    and counter_resume: "resume c env x now s f = Some (s', f') \<Longrightarrow> slot_ok f \<Longrightarrow>
      counter s' + of_bool (owns f) = counter s + of_bool (owns f')"
    and counter_finish: "fr_phase f = CLOSING \<Longrightarrow> slot_ok f \<Longrightarrow>
      counter (finish_request written now s f) = counter s - of_bool (owns f)"
begin

lemma counts: "router_reachable c env w \<Longrightarrow> counter (fst w) = int (length (filter owns (snd w)))"
proof (induction rule: router_reachable.induct)
  case started
  then show ?case by (simp add: counter_start)
next
  case (stepped w w')
  have ok: "list_all slot_ok (snd w)" using reachable_slot_ok stepped.hyps(1) .
  from stepped.hyps(2) ok stepped.IH show ?case
  proof cases
    case (arrival q now s s' f fs)
    then show ?thesis using stepped.IH counter_arrive by auto
  next
    case (resumed x now s f s' f' xs ys)
    have "slot_ok f" using ok resumed by simp
    from counter_resume [OF resumed(3) this] show ?thesis
      using stepped.IH resumed by (simp split: if_splits)
  next
    case (ended f s xs ys written now)
    then show ?thesis using stepped.IH ok counter_finish [of f written now s] by auto
  qed
qed

lemma counter_nonneg: "router_reachable c env w \<Longrightarrow> 0 \<le> counter (fst w)"
  by (simp add: counts)

lemma counter_idle: "router_reachable c env (s, []) \<Longrightarrow> counter s = 0"
  using counts [of "(s, [])"] by simp

end

text \<open>The laws, once for all counters: what the three kinds of step do to the tuple of counters.\<close>

lemma arrive_counters:
  "arrive c q now s = (s', f) \<Longrightarrow>
     counters s' = (rs_permits s, rs_pending s + of_bool (fr_admitted f), rs_active s, rs_busy s,
       rs_offered s + 1, rs_terminal s)
     \<and> \<not> fr_slot f \<and> fr_index f = None"
  by (auto simp: arrive_def Let_def counters_def new_frame_def close_with_def split: if_splits)

lemma finish_counters:
  "counters (finish_request written now s f) =
     (rs_permits s + of_bool (fr_slot f), rs_pending s - of_bool (fr_admitted f),
      rs_active s - of_bool (fr_slot f),
      (case fr_index f of None \<Rightarrow> rs_busy s | Some i \<Rightarrow> add_busy i (-1) (rs_busy s)),
      rs_offered s, rs_terminal s + 1)"
  by (simp add: finish_request_def release_frame_def record_row_def counters_def Let_def split: option.split)

definition on_replica :: "int \<Rightarrow> frame \<Rightarrow> bool" where
  "on_replica i f \<longleftrightarrow> fr_index f = Some i"

lemma resume_counters:
  assumes "resume c env x now s f = Some (s', f')" "slot_ok f"
  shows "rs_pending s' + of_bool (fr_admitted f) = rs_pending s + of_bool (fr_admitted f')"
    and "rs_active s' + of_bool (fr_slot f) = rs_active s + of_bool (fr_slot f')"
    and "rs_permits s' + rs_active s' = rs_permits s + rs_active s"
    and "fst (rs_busy s') + of_bool (on_replica 0 f) = fst (rs_busy s) + of_bool (on_replica 0 f')"
    and "snd (rs_busy s') + of_bool (on_replica 1 f) = snd (rs_busy s) + of_bool (on_replica 1 f')"
    and "rs_offered s' = rs_offered s" "rs_terminal s' = rs_terminal s"
proof -
  obtain h where h: "changes h s f s' f'" and "slot_ok f'" using resume_changes [OF assms] by blast
  then have rep: "\<forall>i. fr_index f' = Some i \<longrightarrow> is_replica i" by (simp add: slot_ok_def)
  have *: "rs_pending s' + of_bool (fr_admitted f) = rs_pending s + of_bool (fr_admitted f')
    \<and> rs_active s' + of_bool (fr_slot f) = rs_active s + of_bool (fr_slot f')
    \<and> rs_permits s' + rs_active s' = rs_permits s + rs_active s
    \<and> fst (rs_busy s') + of_bool (on_replica 0 f) = fst (rs_busy s) + of_bool (on_replica 0 f')
    \<and> snd (rs_busy s') + of_bool (on_replica 1 f) = snd (rs_busy s) + of_bool (on_replica 1 f')
    \<and> rs_offered s' = rs_offered s \<and> rs_terminal s' = rs_terminal s"
  proof (cases h)
    case Same
    then show ?thesis using h by (simp add: changes_def counters_def held_def on_replica_def)
  next
    case (Slot i)
    then show ?thesis using h rep
      by (cases i) (auto simp: changes_def counters_def held_def on_replica_def add_busy_def is_replica_def)
  next
    case (Replica i)
    then show ?thesis using h rep
      by (auto simp: changes_def counters_def held_def on_replica_def add_busy_def is_replica_def)
  qed
  then show "rs_pending s' + of_bool (fr_admitted f) = rs_pending s + of_bool (fr_admitted f')"
    "rs_active s' + of_bool (fr_slot f) = rs_active s + of_bool (fr_slot f')"
    "rs_permits s' + rs_active s' = rs_permits s + rs_active s"
    "fst (rs_busy s') + of_bool (on_replica 0 f) = fst (rs_busy s) + of_bool (on_replica 0 f')"
    "snd (rs_busy s') + of_bool (on_replica 1 f) = snd (rs_busy s) + of_bool (on_replica 1 f')"
    "rs_offered s' = rs_offered s" "rs_terminal s' = rs_terminal s"
    by blast+
qed

lemma counters_project:
  "counters s = (p, q, a, b, n, t) \<longleftrightarrow>
     rs_permits s = p \<and> rs_pending s = q \<and> rs_active s = a \<and> rs_busy s = b \<and> rs_offered s = n \<and> rs_terminal s = t"
  by (auto simp: counters_def)

lemmas arrive_laws = arrive_counters [unfolded counters_project]
lemmas finish_laws = finish_counters [unfolded counters_project]

lemma arrive_on_replica: "arrive c q now s = (s', f) \<Longrightarrow> \<not> on_replica i f"
  by (simp add: on_replica_def arrive_laws)

interpretation queue_places: frame_counter c env rs_pending fr_admitted for c env
  by unfold_locales (simp_all add: new_router_def arrive_laws finish_laws resume_counters)

interpretation slots: frame_counter c env rs_active fr_slot for c env
  by unfold_locales (simp_all add: new_router_def arrive_laws finish_laws resume_counters)

interpretation permits: frame_counter c env "\<lambda>s. rc_max_active c - rs_permits s" fr_slot for c env
proof unfold_locales
  fix x now s f s' f'
  assume "resume c env x now s f = Some (s', f')" "slot_ok f"
  from resume_counters(2,3) [OF this]
  show "rc_max_active c - rs_permits s' + of_bool (fr_slot f) = rc_max_active c - rs_permits s + of_bool (fr_slot f')"
    by linarith
qed (simp_all add: new_router_def arrive_laws finish_laws)

interpretation first_replica: frame_counter c env "\<lambda>s. fst (rs_busy s)" "on_replica 0" for c env
proof unfold_locales
  fix f written now s
  assume "slot_ok f"
  then have "\<forall>i. fr_index f = Some i \<longrightarrow> is_replica i" by (simp add: slot_ok_def)
  then show "fst (rs_busy (finish_request written now s f)) = fst (rs_busy s) - of_bool (on_replica 0 f)"
    by (cases "fr_index f") (auto simp: finish_laws on_replica_def add_busy_def is_replica_def)
qed (simp_all only: resume_counters(4), simp_all add: new_router_def arrive_laws arrive_on_replica)

interpretation second_replica: frame_counter c env "\<lambda>s. snd (rs_busy s)" "on_replica 1" for c env
proof unfold_locales
  fix f written now s
  assume "slot_ok f"
  then have "\<forall>i. fr_index f = Some i \<longrightarrow> is_replica i" by (simp add: slot_ok_def)
  then show "snd (rs_busy (finish_request written now s f)) = snd (rs_busy s) - of_bool (on_replica 1 f)"
    by (cases "fr_index f") (auto simp: finish_laws on_replica_def add_busy_def is_replica_def)
qed (simp_all only: resume_counters(5), simp_all add: new_router_def arrive_laws arrive_on_replica)

interpretation in_flight: frame_counter c env "\<lambda>s. rs_offered s - rs_terminal s" "\<lambda>_. True" for c env
  by unfold_locales (simp_all add: new_router_def arrive_laws finish_laws resume_counters)

section \<open>The counters are exact\<close>

text \<open>
  C2: the router's counters are exact under any interleaving. In every reachable state the queue length
  is the number of requests waiting for a slot, the active count the number holding one, the free
  permits the rest of the bound, each replica's busy count the number of requests routed to it, and the
  requests offered and not yet terminal are those in flight; when none is in flight nothing has leaked.
\<close>

theorem router_counters_exact:
  assumes "router_reachable c env (s, fs)"
  shows "rs_pending s = int (length (filter fr_admitted fs))
    \<and> rs_active s = int (length (filter fr_slot fs))
    \<and> rs_permits s = rc_max_active c - rs_active s
    \<and> rs_busy s = (int (length (filter (on_replica 0) fs)), int (length (filter (on_replica 1) fs)))
    \<and> rs_offered s = rs_terminal s + int (length fs)"
  using queue_places.counts [OF assms] slots.counts [OF assms] permits.counts [OF assms]
    first_replica.counts [OF assms] second_replica.counts [OF assms] in_flight.counts [OF assms]
  by (simp add: prod_eq_iff)

section \<open>Capacity\<close>

definition capacity_ok :: "router_config \<Rightarrow> router_state \<Rightarrow> bool" where
  "capacity_ok c s \<longleftrightarrow>
     0 \<le> rs_permits s \<and> rs_pending s + rs_active s \<le> rc_max_active c + rc_max_queue c"

lemma configure_bounds:
  "configure a = Inr c \<Longrightarrow> 0 < rc_max_active c \<and> 0 \<le> rc_max_queue c \<and> 0 < rc_max_body_bytes c
     \<and> 0 < rc_max_stream_bytes c \<and> rc_max_active c = ra_max_active a"
  by (auto simp: configure_def result_simps split: option.splits if_splits)

lemma capacity_arrive: "arrive c q now s = (s', f) \<Longrightarrow> capacity_ok c s \<Longrightarrow> capacity_ok c s'"
  by (auto simp: arrive_def capacity_ok_def Let_def split: if_splits)

lemma capacity_resume:
  assumes "resume c env x now s f = Some (s', f')" "slot_ok f" "capacity_ok c s"
  shows "capacity_ok c s'"
proof -
  obtain h where "changes h s f s' f'" using resume_changes [OF assms(1,2)] by blast
  then show ?thesis using assms(3)
    by (cases h) (auto simp: changes_def counters_project counters_def capacity_ok_def)
qed

lemma capacity_finish: "capacity_ok c s \<Longrightarrow> fr_admitted f \<longrightarrow> \<not> fr_slot f \<Longrightarrow>
    capacity_ok c (finish_request written now s f)"
  by (auto simp: capacity_ok_def finish_laws)

lemma reachable_capacity:
  "router_reachable c env w \<Longrightarrow> capacity_ok c (new_router c) \<Longrightarrow> capacity_ok c (fst w)"
proof (induction rule: router_reachable.induct)
  case started
  then show ?case by simp
next
  case (stepped w w')
  have ok: "list_all slot_ok (snd w)" using reachable_slot_ok stepped.hyps(1) .
  from stepped.hyps(2) show ?case
  proof cases
    case (arrival q now s s' f fs)
    then show ?thesis using stepped capacity_arrive by auto
  next
    case (resumed x now s f s' f' xs ys)
    then show ?thesis using stepped capacity_resume ok by auto
  next
    case (ended f s xs ys written now)
    then show ?thesis using stepped capacity_finish ok by (auto simp: slot_ok_def)
  qed
qed

text \<open>
  The configured capacity is never exceeded. With an accepted configuration at most
  \<open>max_active\<close> requests hold a slot and at most \<open>max_active + max_queue\<close> hold a slot or wait for one;
  the replicas together never have more than \<open>max_active\<close> requests.
\<close>

theorem router_within_capacity:
  assumes "configure a = Inr c" and "router_reachable c env (s, fs)"
  shows "length (filter fr_slot fs) \<le> nat (ra_max_active a)
    \<and> int (length (filter fr_slot fs)) + int (length (filter fr_admitted fs))
        \<le> ra_max_active a + ra_max_queue a
    \<and> fst (rs_busy s) + snd (rs_busy s) \<le> ra_max_active a"
proof -
  note bounds = configure_bounds [OF assms(1)]
  have "rc_max_queue c = ra_max_queue a"
    using assms(1) by (auto simp: configure_def result_simps split: option.splits if_splits)
  moreover have "capacity_ok c s"
    using reachable_capacity [OF assms(2)] bounds by (simp add: capacity_ok_def new_router_def)
  moreover have "length (filter (on_replica 0) fs) + length (filter (on_replica 1) fs) \<le> length (filter fr_slot fs)"
    using reachable_slot_ok [OF assms(2)]
    by (induction fs) (auto simp: slot_ok_def on_replica_def)
  ultimately show ?thesis
    using bounds permits.counts [OF assms(2)] queue_places.counts [OF assms(2)] slots.counts [OF assms(2)]
      first_replica.counts [OF assms(2)] second_replica.counts [OF assms(2)]
    by (auto simp: capacity_ok_def)
qed

section \<open>What the client was sent\<close>

text \<open>The parser of a frame accepted the whole upstream body.\<close>

definition accepted :: "frame \<Rightarrow> bool" where
  "accepted f \<longleftrightarrow>
     (case fr_parser f of
        None \<Rightarrow> False
      | Some p \<Rightarrow> sp_closed p \<and> sp_done p \<and> \<not> sp_failed p \<and> content_event_times_ns p \<noteq> []
          \<and> finish_reason p \<noteq> None)"

definition streaming :: "frame_phase \<Rightarrow> bool" where
  "streaming ph \<longleftrightarrow> ph = AWAIT_READ \<or> ph = AWAIT_WRITE \<or> ph = AWAIT_EOF"

definition reply_ok :: "frame \<Rightarrow> bool" where
  "reply_ok f \<longleftrightarrow>
     (fr_phase f \<noteq> AWAIT_RELEASE \<and> fr_phase f \<noteq> CLOSING \<longrightarrow> lr_outcome (fr_row f) = O_ERROR)
     \<and> (streaming (fr_phase f) \<longrightarrow> fr_prepared f)
     \<and> (fr_prepared f \<longrightarrow> fr_index f \<noteq> None \<and> lr_upstream_status (fr_row f) = Some 200
          \<and> (streaming (fr_phase f) \<or> fr_phase f = AWAIT_RELEASE \<or> fr_phase f = CLOSING))
     \<and> (fr_prepared f \<and> fr_phase f \<noteq> CLOSING \<longrightarrow> lr_http_status (fr_row f) = Some 200)
     \<and> (\<forall>p. fr_parser f = Some p \<longrightarrow> stream_inv p)
     \<and> (fr_phase f = AWAIT_EOF \<longrightarrow> accepted f)
     \<and> (lr_outcome (fr_row f) = COMPLETED \<longrightarrow>
          accepted f \<and> fr_prepared f \<and> lr_http_status (fr_row f) = Some 200)
     \<and> (fr_phase f = CLOSING \<and> fr_prepared f \<and> \<not> fr_force_closed f \<longrightarrow> accepted f)
     \<and> lr_replica (fr_row f) = fr_index f"

named_theorems reply_simps \<open>what the operations on frames do to the response\<close>

lemma accepted_update [reply_simps]:
  "accepted (f\<lparr>fr_row := r\<rparr>) = accepted f" "accepted (f\<lparr>fr_phase := ph\<rparr>) = accepted f"
  "accepted (f\<lparr>fr_stage := st\<rparr>) = accepted f" "accepted (f\<lparr>fr_trace := t\<rparr>) = accepted f"
  "accepted (f\<lparr>fr_force_closed := b\<rparr>) = accepted f" "accepted (f\<lparr>fr_total := n\<rparr>) = accepted f"
  "accepted (f\<lparr>fr_body := bs\<rparr>) = accepted f" "accepted (f\<lparr>fr_prepared := b\<rparr>) = accepted f"
  "accepted (f\<lparr>fr_admitted := b\<rparr>) = accepted f" "accepted (f\<lparr>fr_slot := b\<rparr>) = accepted f"
  "accepted (f\<lparr>fr_index := i\<rparr>) = accepted f"
  by (simp_all add: accepted_def)

lemma streaming_simps [simp]:
  "streaming AWAIT_READ" "streaming AWAIT_WRITE" "streaming AWAIT_EOF" "\<not> streaming WAITING"
  "\<not> streaming UPLOADING" "\<not> streaming AWAIT_HEADERS" "\<not> streaming AWAIT_PREPARE"
  "\<not> streaming AWAIT_RELEASE" "\<not> streaming CLOSING"
  by (simp_all add: streaming_def)

lemma finish_accepted:
  assumes "stream_inv p" "finish_stream p = (q, None)"
  shows "accepted (f\<lparr>fr_parser := Some q\<rparr>)"
proof -
  have q: "q = p\<lparr>sp_closed := True\<rparr>" "\<not> sp_failed p" "sp_done p"
    using assms(2) by (auto simp: finish_stream_def split: if_splits)
  moreover have "content_event_times_ns p \<noteq> [] \<and> finish_reason p \<noteq> None"
    using assms(1) q(3) unfolding stream_inv_def content_ok_def by blast
  ultimately show ?thesis by (simp add: accepted_def)
qed

lemma leave_fields [simp]:
  "fr_row (leave_proxy f) = fr_row f" "fr_parser (leave_proxy f) = fr_parser f"
  "fr_prepared (leave_proxy f) = fr_prepared f" "fr_index (leave_proxy f) = fr_index f"
  "fr_phase (leave_proxy f) = CLOSING" "accepted (leave_proxy f) = accepted f"
  "fr_force_closed (leave_proxy f) \<longleftrightarrow> fr_prepared f \<and> lr_outcome (fr_row f) \<noteq> COMPLETED"
  by (simp_all add: leave_proxy_def accepted_def)

lemma set_outcome_fields [simp]:
  "fr_parser (set_outcome oc f) = fr_parser f" "fr_prepared (set_outcome oc f) = fr_prepared f"
  "fr_index (set_outcome oc f) = fr_index f" "fr_phase (set_outcome oc f) = fr_phase f"
  "accepted (set_outcome oc f) = accepted f" "fr_force_closed (set_outcome oc f) = fr_force_closed f"
  "lr_outcome (fr_row (set_outcome oc f)) = oc" "lr_replica (fr_row (set_outcome oc f)) = lr_replica (fr_row f)"
  "lr_upstream_status (fr_row (set_outcome oc f)) = lr_upstream_status (fr_row f)"
  "lr_http_status (fr_row (set_outcome oc f)) = lr_http_status (fr_row f)"
  by (simp_all add: set_outcome_def accepted_def)

lemma close_fields [simp]:
  "fr_parser (close_with oc n f) = fr_parser f" "fr_prepared (close_with oc n f) = fr_prepared f"
  "fr_index (close_with oc n f) = fr_index f" "fr_phase (close_with oc n f) = CLOSING"
  "accepted (close_with oc n f) = accepted f"
  "lr_outcome (fr_row (close_with oc n f)) = oc" "lr_replica (fr_row (close_with oc n f)) = lr_replica (fr_row f)"
  by (simp_all add: close_with_def outcome_to_def accepted_def)

text \<open>The parts of \<open>reply_ok\<close> that a closing frame keeps, and what they give.\<close>

definition reply_base :: "frame \<Rightarrow> bool" where
  "reply_base f \<longleftrightarrow>
     (fr_prepared f \<longrightarrow> fr_index f \<noteq> None \<and> lr_upstream_status (fr_row f) = Some 200)
     \<and> (\<forall>p. fr_parser f = Some p \<longrightarrow> stream_inv p)
     \<and> lr_replica (fr_row f) = fr_index f"

lemma reply_ok_base: "reply_ok f \<Longrightarrow> reply_base f"
  unfolding reply_ok_def reply_base_def by blast

lemma reply_completed:
  "reply_ok f \<Longrightarrow> lr_outcome (fr_row f) = COMPLETED \<Longrightarrow>
     accepted f \<and> fr_prepared f \<and> lr_http_status (fr_row f) = Some 200"
  unfolding reply_ok_def by blast

lemma reply_ok_closing:
  assumes "reply_base f" "fr_phase f = CLOSING"
    and "lr_outcome (fr_row f) = COMPLETED \<longrightarrow> accepted f \<and> fr_prepared f \<and> lr_http_status (fr_row f) = Some 200"
    and "fr_prepared f \<and> \<not> fr_force_closed f \<longrightarrow> accepted f"
  shows "reply_ok f"
  using assms unfolding reply_ok_def reply_base_def by simp

lemma reply_leave: "reply_ok f \<Longrightarrow> reply_ok (leave_proxy f)"
  using reply_completed [of f] reply_ok_base [of f]
  by (intro reply_ok_closing) (auto simp: reply_base_def)

lemma reply_leave_with:
  assumes "reply_base f" "oc \<noteq> COMPLETED"
  shows "reply_ok (leave_proxy (set_outcome oc f))"
  using assms by (intro reply_ok_closing) (simp_all add: reply_base_def)

lemma reply_close_unprepared:
  assumes "reply_base f" "\<not> fr_prepared f" "oc \<noteq> COMPLETED"
  shows "reply_ok (close_with oc n f)"
  using assms by (intro reply_ok_closing) (simp_all add: reply_base_def)

lemma reply_chat_handler:
  assumes "reply_ok f" "\<not> fr_prepared f \<or> fr_phase f = CLOSING" "oc \<noteq> COMPLETED"
  shows "reply_ok ((set_outcome oc f)\<lparr>fr_phase := CLOSING\<rparr>)" "reply_ok (f\<lparr>fr_phase := CLOSING\<rparr>)"
proof -
  have clean: "fr_prepared f \<and> \<not> fr_force_closed f \<longrightarrow> accepted f"
    using assms(1,2) unfolding reply_ok_def by blast
  show "reply_ok ((set_outcome oc f)\<lparr>fr_phase := CLOSING\<rparr>)"
    using reply_ok_base [OF assms(1)] assms(3) clean
    by (intro reply_ok_closing) (simp_all add: reply_base_def reply_simps)
  show "reply_ok (f\<lparr>fr_phase := CLOSING\<rparr>)"
    using reply_ok_base [OF assms(1)] reply_completed [OF assms(1)] clean
    by (intro reply_ok_closing) (simp_all add: reply_base_def reply_simps)
qed

lemma reply_handle_unprepared:
  assumes "reply_ok f" "\<not> fr_prepared f"
  shows "reply_ok (chat_handler x f)"
  using assms reply_close_unprepared [OF reply_ok_base [OF assms(1)] assms(2)] reply_chat_handler(1) [OF assms(1)]
    reply_chat_handler(2) [OF assms(1), of O_ERROR]
  by (cases x) (simp_all add: chat_handler_def)

lemma reply_proxy_handler:
  assumes "reply_ok f"
  shows "reply_ok (snd (proxy_handler c x now s f))"
proof -
  note leave = reply_leave [OF assms]
  have unprepared: "\<not> fr_prepared f \<Longrightarrow> reply_ok (chat_handler x (leave_proxy f))"
    using reply_handle_unprepared [OF leave] by simp
  show ?thesis
  proof (cases x)
    case (Cancelled gone)
    then show ?thesis using reply_chat_handler(1) [OF leave] by (simp add: proxy_handler_def chat_handler_def)
  next
    case (Raised e w)
    show ?thesis
    proof (cases "ex_is e E_ConnectionResetError \<or> ex_is e E_BrokenPipeError \<or> ex_is e E_TimeoutError
        \<or> ex_is e E_ClientError \<or> ex_is e E_OSError")
      case True
      then show ?thesis using unprepared reply_leave_with [OF reply_ok_base [OF assms]]
        unfolding Raised proxy_handler_def await_exn.case Let_def by auto
    next
      case False
      then show ?thesis using reply_chat_handler(2) [OF leave, of O_ERROR]
        unfolding Raised proxy_handler_def await_exn.case Let_def by (simp add: chat_handler_def)
    qed
  qed
qed

text \<open>Frames that have not reached the proxy.\<close>

definition before_proxy :: "frame \<Rightarrow> bool" where
  "before_proxy f \<longleftrightarrow>
     \<not> fr_prepared f \<and> lr_outcome (fr_row f) = O_ERROR \<and> reply_base f"

lemma before_proxy_ok: "before_proxy f \<Longrightarrow> \<not> streaming (fr_phase f) \<Longrightarrow> reply_ok f"
  unfolding before_proxy_def reply_base_def reply_ok_def streaming_def by simp

lemma reply_before:
  assumes "reply_ok f" "fr_phase f = WAITING \<or> fr_phase f = UPLOADING"
  shows "before_proxy f"
proof -
  have "fr_phase f \<noteq> AWAIT_RELEASE" "fr_phase f \<noteq> CLOSING" "\<not> streaming (fr_phase f)"
    using assms(2) by auto
  then show ?thesis using assms(1) reply_ok_base unfolding before_proxy_def reply_ok_def by blast
qed

lemma reply_close_before: "before_proxy f \<Longrightarrow> oc \<noteq> COMPLETED \<Longrightarrow> reply_ok (close_with oc n f)"
  by (intro reply_close_unprepared) (simp_all add: before_proxy_def)

lemma record_decision_fields [simp]:
  "lr_outcome (record_decision d r) = lr_outcome r" "lr_replica (record_decision d r) = lr_replica r"
  "lr_upstream_status (record_decision d r) = lr_upstream_status r"
  by (simp_all add: record_decision_def)

lemma route_frame_before:
  assumes "route_frame c digest now s f = (s', f')" "before_proxy f" "fr_phase f = UPLOADING"
  shows "before_proxy f' \<and> (fr_phase f' = CLOSING \<or> fr_phase f' = UPLOADING)"
proof -
  obtain t r where choice: "choose_replica c digest now s = (t, r)" by fastforce
  show ?thesis
  proof (cases r)
    case (Inl e)
    then show ?thesis using assms choice
      by (auto simp: route_frame_def Let_def before_proxy_def reply_base_def)
  next
    case (Inr d)
    then show ?thesis using assms choice
      by (auto simp: route_frame_def Let_def before_proxy_def reply_base_def)
  qed
qed

lemma acquired_reply:
  assumes "acquired c now s f = (s', f')" "before_proxy f"
  shows "reply_ok f' \<and> (fr_phase f' = CLOSING \<or> fr_phase f' = UPLOADING)"
proof -
  from assms(1) obtain f1 where mid: "(if rc_policy c = ROUND_ROBIN \<or> rc_policy c = LEAST_BUSY
      then route_frame c None now (slot_state s) (slot_frame now f)
      else (slot_state s, slot_frame now f)) = (s', f1)"
    and out: "f' = f1 \<or> f' = close_with REJECTED_BODY 413 f1"
    by (rule acquired_cases)
  have "before_proxy (slot_frame now f)" "fr_phase (slot_frame now f) = UPLOADING"
    using assms(2) by (simp_all add: before_proxy_def reply_base_def slot_frame_def)
  then have "before_proxy f1 \<and> (fr_phase f1 = CLOSING \<or> fr_phase f1 = UPLOADING)"
    using mid route_frame_before [of c None now "slot_state s" "slot_frame now f" s' f1]
    by (auto split: if_splits)
  then show ?thesis using out reply_close_before [of f1 REJECTED_BODY 413] before_proxy_ok [of f1] by auto
qed

lemma body_end_reply:
  assumes "body_end c env now s f = (s', f')" "before_proxy f" "fr_phase f = UPLOADING"
  shows "reply_ok f' \<and> (fr_phase f' = CLOSING \<or> fr_phase f' = AWAIT_HEADERS)"
  using assms(1)
proof (cases rule: body_end_cases)
  case refused
  have "before_proxy (f\<lparr>fr_phase := CLOSING\<rparr>)" using assms(2) by (simp add: before_proxy_def reply_base_def)
  then show ?thesis
    using refused(2) reply_close_before [OF assms(2)] before_proxy_ok [of "f\<lparr>fr_phase := CLOSING\<rparr>"] by auto
next
  case (routed ms f1)
  have "before_proxy (digest_frame env ms f)" "fr_phase (digest_frame env ms f) = UPLOADING"
    using assms(2,3) by (simp_all add: before_proxy_def reply_base_def digest_frame_def)
  then have f1: "before_proxy f1 \<and> (fr_phase f1 = CLOSING \<or> fr_phase f1 = UPLOADING)"
    using routed(1) route_frame_before [of c _ now s "digest_frame env ms f" s' f1] by (auto split: if_splits)
  have "reply_ok (enter_proxy c s' f1)"
    using f1 reply_close_before [of f1 REJECTED_ACCOUNTING 503]
    by (auto simp: enter_proxy_def before_proxy_def reply_base_def intro!: before_proxy_ok)
  then show ?thesis using f1 before_proxy_ok [of f1] by (auto simp: routed(2) enter_proxy_def)
qed

text \<open>The steps of the proxy.\<close>

lemma reply_parts:
  assumes "reply_ok f"
  shows "reply_base f"
    and "streaming (fr_phase f) \<Longrightarrow> fr_prepared f \<and> lr_outcome (fr_row f) = O_ERROR
      \<and> lr_http_status (fr_row f) = Some 200"
    and "fr_phase f = AWAIT_HEADERS \<or> fr_phase f = AWAIT_PREPARE \<Longrightarrow>
      \<not> fr_prepared f \<and> lr_outcome (fr_row f) = O_ERROR"
    and "fr_phase f = AWAIT_EOF \<Longrightarrow> accepted f"
proof -
  show "reply_base f" using assms by (rule reply_ok_base)
  show "accepted f" if "fr_phase f = AWAIT_EOF" using assms that unfolding reply_ok_def by blast
  show "fr_prepared f \<and> lr_outcome (fr_row f) = O_ERROR \<and> lr_http_status (fr_row f) = Some 200"
    if "streaming (fr_phase f)"
  proof -
    have "fr_phase f \<noteq> AWAIT_RELEASE" "fr_phase f \<noteq> CLOSING" using that by auto
    then show ?thesis using assms that unfolding reply_ok_def by blast
  qed
  show "\<not> fr_prepared f \<and> lr_outcome (fr_row f) = O_ERROR"
    if "fr_phase f = AWAIT_HEADERS \<or> fr_phase f = AWAIT_PREPARE"
  proof -
    have "fr_phase f \<noteq> AWAIT_RELEASE" "fr_phase f \<noteq> CLOSING" "\<not> streaming (fr_phase f)" using that by auto
    then show ?thesis using assms unfolding reply_ok_def by blast
  qed
qed

lemma reply_ok_streaming:
  assumes "reply_base f" "streaming (fr_phase f)" "fr_prepared f" "lr_outcome (fr_row f) = O_ERROR"
    "lr_http_status (fr_row f) = Some 200" "fr_phase f = AWAIT_EOF \<longrightarrow> accepted f"
  shows "reply_ok f"
proof -
  have "fr_phase f \<noteq> AWAIT_RELEASE" "fr_phase f \<noteq> CLOSING" using assms(2) by auto
  then show ?thesis using assms unfolding reply_ok_def reply_base_def by simp
qed

lemma reply_ok_release:
  assumes "reply_base f" "fr_phase f = AWAIT_RELEASE" "fr_prepared f \<longrightarrow> lr_http_status (fr_row f) = Some 200"
    "lr_outcome (fr_row f) = COMPLETED \<longrightarrow> accepted f \<and> fr_prepared f \<and> lr_http_status (fr_row f) = Some 200"
  shows "reply_ok f"
  using assms unfolding reply_ok_def reply_base_def by simp

lemma headers_reply:
  assumes "reply_ok f" "fr_phase f = AWAIT_HEADERS"
  shows "reply_ok (upstream_headers status ct f)"
proof -
  have f: "reply_base f" "\<not> fr_prepared f" "lr_outcome (fr_row f) = O_ERROR"
    using reply_parts [OF assms(1)] assms(2) by blast+
  show ?thesis
  proof (cases "status = 200 \<and> ct = ''text/event-stream''")
    case True
    then have "before_proxy (upstream_headers status ct f)" "fr_phase (upstream_headers status ct f) = AWAIT_PREPARE"
      using f by (simp_all add: upstream_headers_def Let_def before_proxy_def reply_base_def)
    then show ?thesis using before_proxy_ok by simp
  next
    case False
    then show ?thesis using f
      by (intro reply_ok_release) (auto simp: upstream_headers_def Let_def reply_base_def outcome_to_def)
  qed
qed

lemma prepared_reply:
  assumes "reply_ok f" "fr_phase f = AWAIT_PREPARE" "fr_index f \<noteq> None"
    "lr_upstream_status (fr_row f) = Some 200"
  shows "reply_ok (response_prepared c f)"
proof -
  have f: "reply_base f" "lr_outcome (fr_row f) = O_ERROR" using reply_parts [OF assms(1)] assms(2) by blast+
  show ?thesis
  proof (cases "new_parser (rc_max_stream_bytes c) 262144 65536")
    case (Inl e)
    then show ?thesis using f assms(3,4)
      by (intro reply_ok_closing) (auto simp: response_prepared_def Let_def reply_base_def)
  next
    case (Inr p)
    then show ?thesis using f assms(3,4) new_parser_inv [OF Inr]
      by (intro reply_ok_streaming) (auto simp: response_prepared_def Let_def reply_base_def)
  qed
qed

lemma chunk_reply:
  assumes "reply_ok f" "fr_phase f = AWAIT_READ"
  shows "reply_ok (upstream_chunk c env chunk now f)"
proof (cases "fr_parser f")
  case None
  then show ?thesis using assms by (simp add: upstream_chunk_def)
next
  case (Some p)
  have "streaming (fr_phase f)" using assms(2) by simp
  then have f: "reply_base f" "fr_prepared f" "lr_outcome (fr_row f) = O_ERROR"
    "lr_http_status (fr_row f) = Some 200" using reply_parts [OF assms(1)] by blast+
  have inv: "stream_inv p" using f(1) Some by (simp add: reply_base_def)
  have failed: "reply_ok (leave_proxy (set_outcome UPSTREAM_PROTOCOL_ERROR (f\<lparr>fr_total := n, fr_parser := Some q\<rparr>)))"
    if "stream_inv q" for n q
    using f(1) that by (intro reply_leave_with) (simp_all add: reply_base_def)
  show ?thesis
  proof (cases "chunk = []")
    case True
    obtain q e where q: "finish_stream p = (q, e)" by fastforce
    have "stream_inv q" using finish_inv [OF inv] q by simp
    show ?thesis
    proof (cases e)
      case None
      then have "accepted (f\<lparr>fr_parser := Some q\<rparr>)" using finish_accepted [OF inv] q by simp
      then show ?thesis using True Some q None f \<open>stream_inv q\<close>
        by (intro reply_ok_streaming) (simp_all add: upstream_chunk_def reply_base_def reply_simps)
    next
      case (Some x)
      have "f\<lparr>fr_total := fr_total f, fr_parser := Some q\<rparr> = f\<lparr>fr_parser := Some q\<rparr>" by simp
      then show ?thesis using True \<open>fr_parser f = Some p\<close> q Some failed [OF \<open>stream_inv q\<close>, of "fr_total f"]
        by (simp add: upstream_chunk_def)
    qed
  next
    case False
    let ?n = "fr_total f + int (length chunk)"
    obtain q e where q: "feed (re_json env) chunk now p = (q, e)" by fastforce
    have "stream_inv q" using feed_inv [OF inv, of "re_json env" chunk now] q by simp
    show ?thesis
    proof (cases "rc_max_stream_bytes c < ?n")
      case True
      then show ?thesis using False Some f
        by (intro reply_ok_release) (simp_all add: upstream_chunk_def reply_base_def Let_def)
    next
      case fits: False
      show ?thesis
      proof (cases e)
        case None
        then show ?thesis using False Some q f fits \<open>stream_inv q\<close>
          by (intro reply_ok_streaming) (simp_all add: upstream_chunk_def reply_base_def Let_def)
      next
        case (Some x)
        then show ?thesis using False \<open>fr_parser f = Some p\<close> q fits failed [OF \<open>stream_inv q\<close>, of ?n]
          by (simp add: upstream_chunk_def Let_def)
      qed
    qed
  qed
qed

definition prepare_ok :: "frame \<Rightarrow> bool" where
  "prepare_ok f \<longleftrightarrow> (fr_phase f = AWAIT_PREPARE \<longrightarrow> lr_upstream_status (fr_row f) = Some 200)"

lemma resume_prepare_ok:
  assumes "resume c env x now s f = Some (s', f')" "prepare_ok f" "reply_ok f"
  shows "prepare_ok f'"
proof (cases x)
  case Acquired
  then have "acquired c now s f = (s', f')" "fr_phase f = WAITING"
    using assms(1) by (auto simp: resume_def split: if_splits)
  then show ?thesis using acquired_reply reply_before [OF assms(3)] by (fastforce simp: prepare_ok_def)
next
  case BodyEnd
  then have "body_end c env now s f = (s', f')" "fr_phase f = UPLOADING"
    using assms(1) by (auto simp: resume_def split: if_splits)
  then show ?thesis using body_end_reply reply_before [OF assms(3)] by (fastforce simp: prepare_ok_def)
next
  case (UpstreamHeaders status ct)
  then show ?thesis using assms(1)
    by (auto simp: resume_def prepare_ok_def upstream_headers_def Let_def split: if_splits)
next
  case (Raises r)
  then have "fr_phase f' = CLOSING" using assms(1)
    by (auto simp: resume_def frame_simps split: if_splits) (metis phase_proxy_handler snd_conv)
  then show ?thesis by (simp add: prepare_ok_def)
next
  case (Traced e)
  then show ?thesis using assms by (auto simp: resume_def prepare_ok_def split: if_splits)
next
  case (UpstreamChunk chunk)
  then show ?thesis using assms
    by (auto simp: resume_def prepare_ok_def upstream_chunk_def Let_def split: if_splits option.splits prod.splits)
next
  case ResponsePrepared
  then show ?thesis using assms
    by (auto simp: resume_def prepare_ok_def response_prepared_def Let_def split: if_splits sum.splits)
next
  case (BodyChunk chunk)
  then show ?thesis using assms by (auto simp: resume_def prepare_ok_def body_chunk_def Let_def split: if_splits)
qed (use assms in \<open>auto simp: resume_def prepare_ok_def chunk_written_def eof_written_def split: if_splits\<close>)

lemma resume_reply:
  assumes "resume c env x now s f = Some (s', f')" "slot_ok f" "reply_ok f" "prepare_ok f"
  shows "reply_ok f'"
proof (cases x)
  case Acquired
  then have "acquired c now s f = (s', f')" "fr_phase f = WAITING"
    using assms(1) by (auto simp: resume_def split: if_splits)
  then show ?thesis using acquired_reply reply_before [OF assms(3)] by blast
next
  case QueueTimeout
  then have "f' = close_with REJECTED_QUEUE_TIMEOUT 503 f" "fr_phase f = WAITING"
    using assms(1) by (auto simp: resume_def split: if_splits)
  then show ?thesis using reply_close_before reply_before [OF assms(3)] by simp
next
  case (BodyChunk chunk)
  then have f': "f' = body_chunk c chunk f" "fr_phase f = UPLOADING"
    using assms(1) by (auto simp: resume_def split: if_splits)
  let ?f = "f\<lparr>fr_body := fr_body f @ chunk\<rparr>"
  have "before_proxy ?f" "fr_phase ?f = UPLOADING"
    using f'(2) reply_before [OF assms(3)] by (auto simp: before_proxy_def reply_base_def)
  then have "reply_ok ?f" "reply_ok (close_with REJECTED_BODY 413 ?f)"
    using before_proxy_ok [of ?f] reply_close_before [of ?f REJECTED_BODY 413] by simp_all
  then show ?thesis unfolding f'(1) body_chunk_def Let_def by (simp split: if_split)
next
  case BodyEnd
  then have "body_end c env now s f = (s', f')" "fr_phase f = UPLOADING"
    using assms(1) by (auto simp: resume_def split: if_splits)
  then show ?thesis using body_end_reply reply_before [OF assms(3)] by blast
next
  case (UpstreamHeaders status ct)
  then show ?thesis using assms headers_reply by (auto simp: resume_def split: if_splits)
next
  case ResponsePrepared
  then have f': "f' = response_prepared c f" "fr_phase f = AWAIT_PREPARE"
    using assms(1) by (auto simp: resume_def split: if_splits)
  then have "proxying (fr_phase f)" by simp
  then have "fr_index f \<noteq> None" using assms(2) unfolding slot_ok_def by blast
  then show ?thesis using f' prepared_reply [OF assms(3)] assms(4) by (simp add: prepare_ok_def)
next
  case (UpstreamChunk chunk)
  then show ?thesis using assms chunk_reply by (auto simp: resume_def split: if_splits)
next
  case ChunkWritten
  then have f': "f' = chunk_written f" "fr_phase f = AWAIT_WRITE"
    using assms(1) by (auto simp: resume_def split: if_splits)
  have "streaming (fr_phase f)" using f'(2) by simp
  from reply_parts(1) [OF assms(3)] reply_parts(2) [OF assms(3) this] show ?thesis unfolding f'(1)
    by (intro reply_ok_streaming) (simp_all add: chunk_written_def reply_base_def)
next
  case EofWritten
  then have f': "f' = eof_written f" "fr_phase f = AWAIT_EOF"
    using assms(1) by (auto simp: resume_def split: if_splits)
  have "streaming (fr_phase f)" using f'(2) by simp
  from reply_parts(1) [OF assms(3)] reply_parts(2) [OF assms(3) this] reply_parts(4) [OF assms(3) f'(2)]
  show ?thesis unfolding f'(1)
    by (intro reply_ok_release) (simp_all add: eof_written_def reply_base_def reply_simps)
next
  case UpstreamReleased
  then show ?thesis using assms reply_leave by (auto simp: resume_def split: if_splits)
next
  case (Traced e)
  then have "f' = f\<lparr>fr_trace := map_option (trace_connection e) (fr_trace f)\<rparr>"
    using assms(1) by (auto simp: resume_def split: if_splits)
  then show ?thesis using assms(3) by (simp add: reply_ok_def reply_simps)
next
  case (Raises r)
  then consider "f' = chat_handler r f" "fr_phase f = WAITING \<or> fr_phase f = UPLOADING"
    | "f' = snd (proxy_handler c r now s f)"
    using assms(1) by (auto simp: resume_def split: if_splits)
  then show ?thesis
  proof cases
    case 1
    then show ?thesis using reply_handle_unprepared [OF assms(3)] reply_before [OF assms(3)]
      by (simp add: before_proxy_def)
  next
    case 2
    then show ?thesis using reply_proxy_handler [OF assms(3)] by simp
  qed
qed

definition frame_ok :: "frame \<Rightarrow> bool" where
  "frame_ok f \<longleftrightarrow> slot_ok f \<and> reply_ok f \<and> prepare_ok f"

lemma arrive_frame_ok:
  assumes "arrive c q now s = (s', f)"
  shows "frame_ok f"
proof -
  let ?id = "if length (cr_request_ids q) = 1 \<and> valid_request_id (hd (cr_request_ids q))
    then hd (cr_request_ids q) else cr_generated_id q"
  let ?f = "new_frame (new_row c ?id now) (cr_content_length q)"
  have new: "before_proxy ?f" "fr_phase ?f = WAITING"
    by (simp_all add: before_proxy_def reply_base_def new_frame_def new_row_def)
  then have "before_proxy (?f\<lparr>fr_admitted := True\<rparr>)" by (simp add: before_proxy_def reply_base_def)
  then have "reply_ok (?f\<lparr>fr_admitted := True\<rparr>)" using new(2) by (intro before_proxy_ok) simp_all
  moreover have "f \<in> {close_with REJECTED_REQUEST_ID 400 ?f, close_with REJECTED_ACCOUNTING 503 ?f,
      close_with REJECTED_CAPACITY 503 ?f, ?f\<lparr>fr_admitted := True\<rparr>}"
    using assms unfolding arrive_def Let_def by (auto split: if_splits)
  ultimately have "reply_ok f" "fr_phase f \<noteq> AWAIT_PREPARE"
    using reply_close_before [OF new(1)] new(2) by auto
  then show ?thesis using arrive_slot_ok [OF assms] by (simp add: frame_ok_def prepare_ok_def)
qed

lemma resume_frame_ok: "resume c env x now s f = Some (s', f') \<Longrightarrow> frame_ok f \<Longrightarrow> frame_ok f'"
  using resume_changes [of c env x now s f s' f'] resume_reply [of c env x now s f s' f']
    resume_prepare_ok [of c env x now s f s' f']
  by (auto simp: frame_ok_def)

text \<open>The ledger and the outcome counts.\<close>

definition completed_row :: "ledger_row \<Rightarrow> bool" where
  "completed_row r \<longleftrightarrow>
     (\<exists>i. lr_replica r = Some i \<and> is_replica i) \<and> lr_http_status r = Some 200 \<and> lr_upstream_status r = Some 200"

definition all_outcomes :: "router_outcome list" where
  "all_outcomes = [O_ERROR, COMPLETED, REJECTED_ACCOUNTING, REJECTED_CAPACITY, REJECTED_QUEUE_TIMEOUT,
     REJECTED_BODY, REJECTED_INPUT, REJECTED_REQUEST_ID, DISCONNECTED, O_CANCELLED, O_TIMEOUT, UPSTREAM_ERROR,
     UPSTREAM_HTTP_ERROR, UPSTREAM_PROTOCOL_ERROR, STREAM_LIMIT]"

definition ledger_ok :: "router_state \<Rightarrow> bool" where
  "ledger_ok s \<longleftrightarrow>
     rs_ledger_rows s = int (length (rs_ledger s))
     \<and> (if rs_accounting_failed s then rs_ledger_rows s < rs_terminal s else rs_ledger_rows s = rs_terminal s)
     \<and> sum_list (map (rs_outcomes s) all_outcomes) = rs_terminal s
     \<and> list_all (\<lambda>r. lr_outcome r = COMPLETED \<longrightarrow> completed_row r) (rs_ledger s)"

definition books :: "router_state \<Rightarrow> _" where
  "books s = (rs_ledger_rows s, rs_ledger s, rs_accounting_failed s, rs_terminal s, rs_outcomes s)"

lemma ledger_ok_books: "books s' = books s \<Longrightarrow> ledger_ok s' = ledger_ok s"
  by (simp add: books_def ledger_ok_def)

lemma books_route: "route_frame c digest now s f = (s', f') \<Longrightarrow> books s' = books s"
  by (auto simp: route_frame_def choose_replica_def books_def Let_def split: prod.splits sum.splits)

lemma books_proxy_handler: "books (fst (proxy_handler c x now s f)) = books s"
  by (cases x) (simp_all add: proxy_handler_def record_transport_def books_def Let_def split: option.split)

lemma books_resume:
  assumes "resume c env x now s f = Some (s', f')"
  shows "books s' = books s"
proof (cases x)
  case Acquired
  then have "acquired c now s f = (s', f')" using assms by (auto simp: resume_def split: if_splits)
  then show ?thesis
    by (elim acquired_cases) (auto simp: slot_state_def books_def split: if_splits dest!: books_route)
next
  case BodyEnd
  then have "body_end c env now s f = (s', f')" using assms by (auto simp: resume_def split: if_splits)
  then show ?thesis by (cases rule: body_end_cases) (auto split: if_splits dest!: books_route)
next
  case (Raises r)
  then show ?thesis using assms books_proxy_handler [of c r now s f]
    by (auto simp: resume_def split: if_splits)
qed (use assms in \<open>auto simp: resume_def split: if_splits\<close>)

lemma sum_outcomes: "sum_list (map (g(oc := g oc + 1)) all_outcomes) = sum_list (map g all_outcomes) + (1 :: int)"
  by (cases oc) (simp_all add: all_outcomes_def)

lemma ledger_record:
  assumes "ledger_ok s" "lr_outcome r = COMPLETED \<longrightarrow> completed_row r"
  shows "ledger_ok (record_row written r s)"
  using assms by (auto simp: ledger_ok_def record_row_def Let_def sum_outcomes split: if_splits)

lemma ledger_finish:
  assumes "ledger_ok s" "frame_ok f"
  shows "ledger_ok (finish_request written now s f)"
proof -
  let ?r = "(fr_row f)\<lparr>lr_terminal_ns := Some (now - lr_arrived_ns (fr_row f))\<rparr>"
  have "completed_row ?r" if "lr_outcome ?r = COMPLETED"
  proof -
    have reply: "reply_ok f" "slot_ok f" using assms(2) by (simp_all add: frame_ok_def)
    have complete: "fr_prepared f" "lr_http_status (fr_row f) = Some 200"
      using reply_completed [OF reply(1)] that by simp_all
    then have "fr_index f \<noteq> None" "lr_upstream_status (fr_row f) = Some 200" "lr_replica (fr_row f) = fr_index f"
      using reply_ok_base [OF reply(1)] by (simp_all add: reply_base_def)
    then show ?thesis using complete reply(2) by (auto simp: completed_row_def slot_ok_def)
  qed
  moreover have "books (release_frame f s) = books s"
    by (simp add: release_frame_def books_def Let_def split: option.split)
  ultimately show ?thesis
    using ledger_record [of "release_frame f s" ?r written] ledger_ok_books [of "release_frame f s" s] assms(1)
    by (simp add: finish_request_def)
qed

lemma books_arrive: "books (fst (arrive c q now s)) = books s"
  by (simp add: arrive_def Let_def books_def)

lemma reachable_sound: "router_reachable c env w \<Longrightarrow> list_all frame_ok (snd w) \<and> ledger_ok (fst w)"
proof (induction rule: router_reachable.induct)
  case started
  then show ?case by (simp add: ledger_ok_def new_router_def all_outcomes_def)
next
  case (stepped w w')
  from stepped.hyps(2) show ?case
  proof cases
    case (arrival q now s s' f fs)
    have "books s' = books s" using books_arrive [of c q now s] arrival(3) by simp
    from ledger_ok_books [OF this] have "ledger_ok s'" using stepped.IH arrival(1) by simp
    then show ?thesis using stepped.IH arrival(1,2) arrive_frame_ok [OF arrival(3)] by simp
  next
    case (resumed x now s f s' f' xs ys)
    have "ledger_ok s'" using stepped.IH resumed(1) ledger_ok_books [OF books_resume [OF resumed(3)]] by simp
    moreover have "frame_ok f'" using resume_frame_ok [OF resumed(3)] stepped.IH resumed(1) by simp
    ultimately show ?thesis using stepped.IH resumed(1,2) by simp
  next
    case (ended f s xs ys written now)
    then show ?thesis using stepped.IH ledger_finish [of s f written now] by simp
  qed
qed


text \<open>
  C31: the ledger accounts for every terminal request. The outcome counts sum up to the terminal requests;
  as long as every write succeeded there is one row per terminal request, and after a failed write rows
  are missing and the failure flag says so.
\<close>

theorem router_ledger_accounts:
  assumes "router_reachable c env (s, fs)"
  shows "sum_list (map (rs_outcomes s) all_outcomes) = rs_terminal s
    \<and> int (length (rs_ledger s)) = rs_ledger_rows s
    \<and> (rs_accounting_failed s = (rs_ledger_rows s \<noteq> rs_terminal s))
    \<and> rs_ledger_rows s \<le> rs_terminal s"
  using reachable_sound [OF assms] by (auto simp: ledger_ok_def split: if_splits)

text \<open>
  C40: a lost ledger line stops the service. While the flag is set every arriving request is refused at
  once, and no request that is waiting or uploading reaches a replica.
\<close>

theorem accounting_failure_fails_closed:
  assumes "rs_accounting_failed s"
  shows "fr_phase (snd (arrive c q now s)) = CLOSING
    \<and> (case resume c env x now s f of
        None \<Rightarrow> True
      | Some (s', f') \<Rightarrow> rs_accounting_failed s' \<and> (proxying (fr_phase f') \<longrightarrow> proxying (fr_phase f)))"
proof -
  have arrive: "fr_phase (snd (arrive c q now s)) = CLOSING"
    using assms by (simp add: arrive_def Let_def)
  have "rs_accounting_failed s' \<and> (proxying (fr_phase f') \<longrightarrow> proxying (fr_phase f))"
    if r: "resume c env x now s f = Some (s', f')" for s' f'
  proof -
    have failed: "rs_accounting_failed s'" using books_resume [OF r] assms by (simp add: books_def)
    show ?thesis
    proof (cases "x = Acquired \<or> x = BodyEnd")
      case False
      then have "fr_phase f' = CLOSING \<or> fr_phase f' = fr_phase f \<or> proxying (fr_phase f)"
        using resume_same [OF r] by blast
      then show ?thesis using failed by auto
    next
      case True
      then consider "acquired c now s f = (s', f')" | "body_end c env now s f = (s', f')" "fr_phase f = UPLOADING"
        using r by (auto simp: resume_def split: if_splits)
      then have "\<not> proxying (fr_phase f')"
      proof cases
        case 1
        then show ?thesis
          by (elim acquired_cases) (auto simp: slot_frame_def split: if_splits elim!: route_frame_cases)
      next
        case 2
        from 2(1) show ?thesis
        proof (cases rule: body_end_cases)
          case (routed ms f1)
          have "fr_phase f1 = CLOSING \<or> enter_proxy c s' f1 = close_with REJECTED_ACCOUNTING 503 f1"
            using failed by (simp add: enter_proxy_def)
          then show ?thesis using routed(2) by auto
        qed auto
      qed
      then show ?thesis using failed by simp
    qed
  qed
  with arrive show ?thesis by (auto split: option.split)
qed

section \<open>Draining\<close>

lemma resume_cancel:
  assumes "fr_phase f \<noteq> CLOSING"
  shows "\<exists>s' f'. resume c env (Raises (Cancelled False)) now s f = Some (s', f') \<and> fr_phase f' = CLOSING"
  using assms by (cases "fr_phase f") (auto simp: resume_def frame_simps proxy_handler_def)

lemma drain_one: "\<exists>s'. (router_step c env)\<^sup>*\<^sup>* (s, f # fs) (s', fs)"
proof (cases "fr_phase f = CLOSING")
  case True
  then show ?thesis using ended [of f c env s "[]" fs] by (auto intro: r_into_rtranclp)
next
  case False
  then obtain s1 f1 where r: "resume c env (Raises (Cancelled False)) 0 s f = Some (s1, f1)" "fr_phase f1 = CLOSING"
    using resume_cancel by blast
  have "router_step c env (s, f # fs) (s1, f1 # fs)" using resumed [OF r(1), of "[]" fs] by simp
  moreover have "router_step c env (s1, f1 # fs) (finish_request True 0 s1 f1, fs)"
    using ended [OF r(2), of c env s1 "[]" fs True 0] by simp
  ultimately show ?thesis by (meson converse_rtranclp_into_rtranclp r_into_rtranclp)
qed

lemma drain_all: "\<exists>s'. (router_step c env)\<^sup>*\<^sup>* (s, fs) (s', [])"
proof (induction fs arbitrary: s)
  case Nil
  then show ?case by blast
next
  case (Cons f fs)
  obtain s1 where "(router_step c env)\<^sup>*\<^sup>* (s, f # fs) (s1, fs)" using drain_one by blast
  moreover obtain s2 where "(router_step c env)\<^sup>*\<^sup>* (s1, fs) (s2, [])" using Cons.IH by blast
  ultimately show ?case by (meson rtranclp_trans)
qed

lemma reachable_steps: "(router_step c env)\<^sup>*\<^sup>* w w' \<Longrightarrow> router_reachable c env w \<Longrightarrow> router_reachable c env w'"
  by (induction rule: rtranclp_induct) (auto intro: stepped)


section \<open>A concrete router\<close>

definition demo_origin :: "string \<Rightarrow> int \<Rightarrow> split_url" where
  "demo_origin t port = \<lparr>su_text = t, su_scheme = ''http'', su_hostname = Some ''localhost'',
     su_port = Inr (Some port), su_path = '''', su_query = '''', su_fragment = '''', su_username = None,
     su_password = None\<rparr>"

definition demo_args :: "string \<Rightarrow> int option \<Rightarrow> int \<Rightarrow> router_args" where
  "demo_args policy saturation max_active = \<lparr>
     ra_origins = (demo_origin ''http://localhost:1'' 1, demo_origin ''http://localhost:2/'' 2),
     ra_ledger = ''/l'', ra_policy = policy, ra_max_active = max_active, ra_max_queue = 1,
     ra_queue_timeout = FRatio 5 1, ra_request_timeout = FRatio 120 1, ra_max_body_bytes = 262144,
     ra_max_stream_bytes = 16777216, ra_saturation_active = saturation, ra_diagnostics = None,
     ra_upstream_keepalive = FloatArg (FRatio 1 1), ra_reuse = Some True\<rparr>"

definition demo_config :: "router_policy \<Rightarrow> int option \<Rightarrow> int \<Rightarrow> router_config" where
  "demo_config policy saturation max_active = \<lparr>rc_policy = policy,
     rc_origins = (''http://localhost:1'', ''http://localhost:2''), rc_max_active = max_active,
     rc_max_queue = 1, rc_max_body_bytes = 262144, rc_max_stream_bytes = 16777216,
     rc_saturation_active = saturation, rc_diagnostics = False, rc_keepalive = FRatio 1 1, rc_reuse = True\<rparr>"

lemma demo_origins:
  "origin (demo_origin ''http://localhost:1'' 1) = Inr ''http://localhost:1''"
  "origin (demo_origin ''http://localhost:2/'' 2) = Inr ''http://localhost:2''"
  by (simp_all add: origin_def demo_origin_def nonempty_def strip_slashes_def)

lemma demo_configured: "configure (demo_args ''least_busy'' None 2) = Inr (demo_config LEAST_BUSY None 2)"
  by (simp add: configure_def demo_args_def demo_config_def policy_of_def check_threshold_def float_le_zero_def
      to_float_def float_finite_def demo_origins)

definition demo_router_env :: router_env where
  "demo_router_env = \<lparr>re_json = demo_env, re_sha256 = (\<lambda>_. ''''), re_body_json = (\<lambda>_. Inr None)\<rparr>"

abbreviation least_busy_config :: router_config where
  "least_busy_config \<equiv> demo_config LEAST_BUSY None 2"

definition demo_arrival :: "router_state \<times> frame" where
  "demo_arrival = arrive least_busy_config
     \<lparr>cr_request_ids = [], cr_generated_id = ''id'', cr_content_length = None\<rparr> 0 (new_router least_busy_config)"

definition demo_acquired :: "router_state \<times> frame" where
  "demo_acquired = acquired least_busy_config 3 (fst demo_arrival) (snd demo_arrival)"

definition demo_world :: router_world where
  "demo_world = (fst demo_acquired, [snd demo_acquired])"

lemma demo_reachable: "router_reachable least_busy_config demo_router_env demo_world"
proof -
  have first: "router_reachable least_busy_config demo_router_env (fst demo_arrival, [snd demo_arrival])"
    using stepped [OF started arrival, of least_busy_config]
    by (metis append_Nil demo_arrival_def prod.collapse)
  have "fr_phase (snd demo_arrival) = WAITING" "0 < rs_permits (fst demo_arrival)"
    by (simp_all add: demo_arrival_def arrive_def new_router_def demo_config_def new_frame_def)
  then have "resume least_busy_config demo_router_env Acquired 3 (fst demo_arrival) (snd demo_arrival)
      = Some (fst demo_acquired, snd demo_acquired)"
    by (simp add: resume_def demo_acquired_def)
  from stepped [OF first resumed [OF this, of "[]" "[]", simplified]] show ?thesis
    by (simp add: demo_world_def)
qed

lemma demo_reachable_pair:
  "router_reachable least_busy_config demo_router_env (fst demo_world, snd demo_world)"
  using demo_reachable by simp

lemma demo_world_frames: "filter fr_slot (snd demo_world) = snd demo_world" "length (snd demo_world) = 1"
  by (simp_all add: demo_world_def demo_acquired_def demo_arrival_def acquired_def arrive_def new_router_def
      demo_config_def new_frame_def new_row_def route_frame_def choose_replica_def scores_def choose_route_def
      basic_decision_def Let_def)

theorem router_counters_exact_witness:
  "rs_active (fst demo_world) = 1 \<and> rs_permits (fst demo_world) = 1"
  using router_counters_exact [OF demo_reachable_pair]
    demo_world_frames
  by (simp add: demo_config_def)

theorem router_within_capacity_witness:
  "fst (rs_busy (fst demo_world)) + snd (rs_busy (fst demo_world)) \<le> 2"
  using router_within_capacity [OF demo_configured demo_reachable_pair]
  by (simp add: demo_args_def)


theorem router_ledger_accounts_witness:
  "sum_list (map (rs_outcomes (fst demo_world)) all_outcomes) = rs_terminal (fst demo_world)"
  using router_ledger_accounts [OF demo_reachable_pair] by blast

theorem accounting_failure_fails_closed_witness:
  "fr_phase (snd (arrive least_busy_config
     \<lparr>cr_request_ids = [], cr_generated_id = ''id'', cr_content_length = None\<rparr> 0
     ((new_router least_busy_config)\<lparr>rs_accounting_failed := True\<rparr>))) = CLOSING"
  by (rule conjunct1 [OF accounting_failure_fails_closed]) simp


section \<open>A threshold no request survives\<close>

text \<open>
  The constructor and the routing choice disagree on the saturation threshold. A configuration with
  \<open>max_active\<close> 1024 and threshold 600 is accepted, but then the choice refuses every request: routing
  never names a replica, and the request closes with the outcome its row already had.
\<close>

theorem accepted_threshold_always_errors:
  "configure (demo_args ''cache_saturation'' (Some 600) 1024) = Inr (demo_config CACHE_SATURATION (Some 600) 1024)
    \<and> (case route_frame (demo_config CACHE_SATURATION (Some 600) 1024) digest now s f of
        (s', f') \<Rightarrow> fr_phase f' = CLOSING \<and> fr_index f' = fr_index f
          \<and> lr_outcome (fr_row f') = lr_outcome (fr_row f) \<and> rs_turn s' = rs_turn s)"
proof
  show "configure (demo_args ''cache_saturation'' (Some 600) 1024) =
      Inr (demo_config CACHE_SATURATION (Some 600) 1024)"
    by (simp add: configure_def demo_args_def demo_config_def policy_of_def check_threshold_def float_le_zero_def
        to_float_def float_finite_def demo_origins)
  show "case route_frame (demo_config CACHE_SATURATION (Some 600) 1024) digest now s f of
        (s', f') \<Rightarrow> fr_phase f' = CLOSING \<and> fr_index f' = fr_index f
          \<and> lr_outcome (fr_row f') = lr_outcome (fr_row f) \<and> rs_turn s' = rs_turn s"
    by (simp add: route_frame_def choose_replica_def choose_route_def demo_config_def Let_def split_beta)
qed

end
