(* ===== verification/Quantiles.thy ===== *)
theory Quantiles
  imports Prelude
begin

text \<open>
  The exact numeric primitives of \<open>metrics/quantiles.py\<close>: the 1-indexed nearest-rank percentile
  and the division rendered as decimal text with six places.

  Python's \<open>Decimal\<close> division is correctly rounded to the context precision and \<open>quantize\<close>
  rounds a second time. A non-negative decimal is a pair of its coefficient and its scale,
  \<open>(c, s)\<close> standing for \<open>c / 10 ^ s\<close>. Both roundings are in the model; the lemmas show that
  the precision the code chooses makes the double rounding harmless, so the text is the exactly
  rounded quotient.
\<close>

datatype reduction_error =
    EmptyPopulation | PercentileRange | NegativeNumerator | NonPositiveDenominator
  | DecimalInvalidOperation

section \<open>Nearest rank\<close>

definition nearest_rank :: "int list \<Rightarrow> int \<Rightarrow> (reduction_error, int) res" where
  "nearest_rank values percentile =
     (if values = [] then Inl EmptyPopulation
      else if \<not> (1 \<le> percentile \<and> percentile \<le> 100) then Inl PercentileRange
      else let ordered = sort values;
               rank = (percentile * int (length ordered) + 99) div 100
           in Inr (ordered ! nat (rank - 1)))"

lemma rank_bounds:
  fixes p n :: int
  assumes "1 \<le> p" "p \<le> 100" "1 \<le> n"
  shows "1 \<le> (p * n + 99) div 100" "(p * n + 99) div 100 \<le> n"
    "p * n \<le> 100 * ((p * n + 99) div 100)" "100 * ((p * n + 99) div 100 - 1) < p * n"
proof -
  have "1 * 1 \<le> p * n" using assms by (intro mult_mono) auto
  moreover have "p * n \<le> 100 * n" using assms by (intro mult_right_mono) auto
  moreover define x q where "x = p * n" and "q = (x + 99) div 100"
  moreover have "100 * q \<le> x + 99" "x + 99 < 100 * q + 100" unfolding q_def by simp_all
  ultimately have "1 \<le> q \<and> q \<le> n \<and> x \<le> 100 * q \<and> 100 * (q - 1) < x" by simp
  then show "1 \<le> (p * n + 99) div 100" "(p * n + 99) div 100 \<le> n"
    "p * n \<le> 100 * ((p * n + 99) div 100)" "100 * ((p * n + 99) div 100 - 1) < p * n"
    unfolding x_def q_def by simp_all
qed

lemma sorted_filter_le_count:
  fixes xs :: "int list"
  assumes "sorted xs" "k < length xs"
  shows "Suc k \<le> length (filter (\<lambda>x. x \<le> xs ! k) xs)"
proof -
  have "\<forall>x \<in> set (take (Suc k) xs). x \<le> xs ! k"
    using assms by (auto simp: in_set_conv_nth less_Suc_eq_le intro!: sorted_nth_mono)
  then have "length (filter (\<lambda>x. x \<le> xs ! k) (take (Suc k) xs)) = Suc k"
    using assms by (simp add: filter_id_conv [THEN iffD2])
  moreover have "length (filter P (take m xs)) \<le> length (filter P xs)" for P m
    by (subst append_take_drop_id [of m xs, symmetric]) (simp only: filter_append length_append le_add1)
  ultimately show ?thesis by metis
qed

lemma sorted_filter_less_count:
  fixes xs :: "int list"
  assumes "sorted xs" "k < length xs"
  shows "length (filter (\<lambda>x. x < xs ! k) xs) \<le> k"
proof -
  have "filter (\<lambda>x. x < xs ! k) (drop k xs) = []"
    using assms
    by (auto simp: filter_empty_conv in_set_conv_nth not_less intro!: sorted_nth_mono)
  then have "filter (\<lambda>x. x < xs ! k) xs = filter (\<lambda>x. x < xs ! k) (take k xs)"
    by (metis append_take_drop_id filter_append append_Nil2)
  then show ?thesis
    by (metis length_filter_le length_take min.cobounded2 order.trans)
qed

lemma length_filter_sort: "length (filter P (sort xs)) = length (filter P xs)"
  for xs :: "int list"
  by (metis mset_filter mset_sort size_mset)

section \<open>Rounding half to even\<close>

text \<open>\<open>rhe n d\<close> is \<open>n / d\<close> rounded to an integer with \<open>ROUND_HALF_EVEN\<close>.\<close>

definition rhe :: "nat \<Rightarrow> nat \<Rightarrow> nat" where
  "rhe n d =
     (let q = n div d; r = n mod d in
      if 2 * r < d then q
      else if d < 2 * r then q + 1
      else if even q then q else q + 1)"

lemma rhe_error:
  assumes "0 < d"
  shows "2 * (rhe n d * d) \<le> 2 * n + d" "2 * n \<le> 2 * (rhe n d * d) + d"
proof -
  define q r where "q = n div d" and "r = n mod d"
  have r: "r < d" and n: "n = q * d + r" using assms by (simp_all add: q_def r_def)
  have "rhe n d = (if 2 * r < d then q else if d < 2 * r then q + 1
    else if even q then q else q + 1)"
    by (simp add: rhe_def Let_def q_def r_def)
  moreover have "(q + 1) * d = q * d + d" by simp
  ultimately have "2 * (rhe n d * d) \<le> 2 * n + d \<and> 2 * n \<le> 2 * (rhe n d * d) + d"
    using r unfolding n by (cases "2 * r" d rule: linorder_cases) (simp_all split: if_splits)
  then show "2 * (rhe n d * d) \<le> 2 * n + d" "2 * n \<le> 2 * (rhe n d * d) + d"
    by simp_all
qed

lemma rhe_cancel: "0 < c \<Longrightarrow> rhe (n * c) (d * c) = rhe n d"
  by (simp add: rhe_def Let_def mult.assoc [symmetric])

lemma rhe_exact: "0 < d \<Longrightarrow> rhe (q * d) d = q"
  by (simp add: rhe_def)

lemma rhe_add_even: "0 < d \<Longrightarrow> even a \<Longrightarrow> rhe (a * d + x) d = a + rhe x d"
  by (simp add: rhe_def Let_def)

text \<open>
  Rounding to a scale \<open>M\<close> finer than the divisor and then to an integer equals rounding once: a
  quotient that is not a tie stays at least \<open>1 / d\<close> away from the tie, further than the first
  rounding moves it, and a tie is exact at the finer scale.
\<close>

lemma rhe_second:
  assumes "0 < M" "y \<le> M"
  shows "rhe (q * M + y) M =
     (if 2 * y < M then q else if M < 2 * y then q + 1 else if even q then q else q + 1)"
proof (cases "y = M")
  case True
  then have "q * M + y = (q + 1) * M" by simp
  then have "rhe (q * M + y) M = q + 1" by (simp only: rhe_exact [OF assms(1)])
  with True assms(1) show ?thesis by simp
next
  case False
  with assms have "(q * M + y) div M = q" "(q * M + y) mod M = y" by simp_all
  then show ?thesis by (simp add: rhe_def Let_def)
qed

lemma rhe_scaled_remainder:
  fixes r d M :: nat
  assumes "0 < d" "d < M" "even M" "r < d"
  shows "rhe (r * M) d \<le> M"
    and "2 * r < d \<Longrightarrow> 2 * rhe (r * M) d < M"
    and "d < 2 * r \<Longrightarrow> M < 2 * rhe (r * M) d"
    and "2 * r = d \<Longrightarrow> 2 * rhe (r * M) d = M"
proof -
  let ?y = "rhe (r * M) d"
  have up: "2 * (?y * d) \<le> 2 * (r * M) + d" and low: "2 * (r * M) \<le> 2 * (?y * d) + d"
    using rhe_error [OF assms(1), of "r * M"] by auto
  have "(r + 1) * M \<le> d * M" using assms(4) by (intro mult_right_mono) auto
  then have rM: "r * M + M \<le> d * M" by (simp add: algebra_simps)
  have "?y * d < (M + 1) * d" using up rM assms(2) by (simp add: algebra_simps)
  then have "?y < M + 1" by (simp only: mult_less_cancel2)
  then show "?y \<le> M" by simp
  { assume "2 * r < d"
    then have "(2 * r + 1) * M \<le> d * M" by (intro mult_right_mono) auto
    then have "2 * (r * M) + M \<le> d * M" by (simp add: algebra_simps)
    with up assms(2) have "2 * (?y * d) < d * M" by linarith
    then have "2 * ?y * d < M * d" by (simp only: mult.assoc mult.commute [of d M])
    then show "2 * ?y < M" by (simp only: mult_less_cancel2) }
  { assume "d < 2 * r"
    then have "(d + 1) * M \<le> (2 * r) * M" by (intro mult_right_mono) auto
    then have "d * M + M \<le> 2 * (r * M)" by (simp add: algebra_simps)
    with low assms(2) have "d * M < 2 * (?y * d)" by linarith
    then have "M * d < 2 * ?y * d" by (simp only: mult.assoc mult.commute [of d M])
    then show "M < 2 * ?y" by (simp only: mult_less_cancel2) }
  { assume tie: "2 * r = d"
    from assms(3) obtain h where "M = 2 * h" by (rule evenE)
    with tie have "r * M = h * d" by simp
    then have "?y = h" using rhe_exact [OF assms(1), of h] by simp
    with \<open>M = 2 * h\<close> show "2 * ?y = M" by simp }
qed

lemma rhe_double:
  assumes "0 < d" "d < M" "even M"
  shows "rhe (rhe (n * M) d) M = rhe n d"
proof -
  define q r where "q = n div d" and "r = n mod d"
  have r: "r < d" and n: "n = q * d + r" using assms(1) by (simp_all add: q_def r_def)
  have "n * M = (q * M) * d + r * M" by (simp add: n algebra_simps)
  then have first: "rhe (n * M) d = q * M + rhe (r * M) d"
    using rhe_add_even [OF assms(1), of "q * M" "r * M"] assms(3) by simp
  note y = rhe_scaled_remainder [OF assms r]
  have "rhe n d = (if 2 * r < d then q else if d < 2 * r then q + 1
    else if even q then q else q + 1)"
    by (simp add: rhe_def Let_def q_def r_def)
  moreover have "rhe (q * M + rhe (r * M) d) M = (if 2 * r < d then q else if d < 2 * r then q + 1
    else if even q then q else q + 1)"
    using rhe_second [OF _ y(1), of q] assms(2) y(2,3,4) by (cases "2 * r" d rule: linorder_cases) auto
  ultimately show ?thesis by (simp add: first)
qed

section \<open>Decimal division, quantisation and text\<close>

text \<open>\<open>len(str(n))\<close>.\<close>

definition num_digits :: "nat \<Rightarrow> nat" where
  "num_digits n = length (dec n)"

text \<open>
  \<open>Decimal(n) / Decimal(d)\<close> in a context of \<open>prec\<close> digits: the quotient is computed to at least
  \<open>prec\<close> digits (the shift) and the surplus digits are rounded half to even.
\<close>

definition decimal_div :: "nat \<Rightarrow> nat \<Rightarrow> nat \<Rightarrow> nat \<times> nat" where
  "decimal_div prec n d =
     (let shift = num_digits d + prec + 1 - num_digits n;
          extra = num_digits (n * 10 ^ shift div d) - prec
      in (rhe (n * 10 ^ shift) (d * 10 ^ extra), shift - extra))"

text \<open>
  \<open>value.quantize(Decimal("0.000001"), rounding=ROUND_HALF_EVEN)\<close>: the coefficient at scale six,
  or \<open>InvalidOperation\<close> when it needs more digits than the context has.
\<close>

definition quantize_six :: "nat \<Rightarrow> nat \<times> nat \<Rightarrow> (reduction_error, nat) res" where
  "quantize_six prec v =
     (case v of (c, s) \<Rightarrow>
        let q = (if s \<le> 6 then c * 10 ^ (6 - s) else rhe c (10 ^ (s - 6)))
        in if prec < num_digits q then Inl DecimalInvalidOperation else Inr q)"

text \<open>\<open>format(value, "f")\<close> of a decimal with six places.\<close>

definition format_six :: "nat \<Rightarrow> string" where
  "format_six q = dec (q div 10 ^ 6) @ ''.'' @ zpad 6 (q mod 10 ^ 6)"

definition decimal_ratio :: "int \<Rightarrow> int \<Rightarrow> (reduction_error, string) res" where
  "decimal_ratio numerator denominator =
     (if numerator < 0 then Inl NegativeNumerator
      else if denominator \<le> 0 then Inl NonPositiveDenominator
      else let n = nat numerator; d = nat denominator;
               prec = max 50 (num_digits n + num_digits d + 20)
           in rbind (quantize_six prec (decimal_div prec n d)) (\<lambda>q. Inr (format_six q)))"

lemma num_digits_pos: "0 < num_digits n"
  by (simp add: num_digits_def)

lemma num_digits_upper: "n < 10 ^ num_digits n"
  by (simp add: num_digits_def length_dec_bound)

lemma num_digits_le: "n < 10 ^ k \<Longrightarrow> 0 < k \<Longrightarrow> num_digits n \<le> k"
  by (simp add: num_digits_def length_dec_le)

lemma num_digits_lower: "0 < n \<Longrightarrow> 10 ^ (num_digits n - 1) \<le> n"
proof (rule ccontr)
  assume n: "0 < n" and "\<not> 10 ^ (num_digits n - 1) \<le> n"
  then have less: "n < 10 ^ (num_digits n - 1)" by simp
  with n have "0 < num_digits n - 1" by (cases "num_digits n - 1") auto
  with num_digits_le [OF less] show False by simp
qed

lemma decimal_div_surplus:
  assumes "0 < d" "num_digits n \<le> prec"
  shows "num_digits (n * 10 ^ (num_digits d + prec + 1 - num_digits n) div d) - prec \<le> 2"
proof -
  let ?s = "num_digits d + prec + 1 - num_digits n"
  have "n * 10 ^ ?s < 10 ^ num_digits n * 10 ^ ?s"
    using num_digits_upper [of n] by simp
  also have "\<dots> = 10 ^ (num_digits d + prec + 1)"
    using assms(2) by (simp flip: power_add)
  also have "\<dots> = 10 ^ ((num_digits d - 1) + (prec + 2))"
    using num_digits_pos [of d] by simp
  also have "\<dots> = 10 ^ (num_digits d - 1) * 10 ^ (prec + 2)"
    by (rule power_add)
  also have "\<dots> \<le> d * 10 ^ (prec + 2)"
    using num_digits_lower [OF assms(1)] by simp
  finally have "n * 10 ^ ?s div d < 10 ^ (prec + 2)"
    by (simp only: less_mult_imp_div_less mult.commute [of d])
  then have "num_digits (n * 10 ^ ?s div d) \<le> prec + 2"
    by (rule num_digits_le) simp
  then show ?thesis by simp
qed

lemma power_ten_even: "0 < k \<Longrightarrow> even ((10 :: nat) ^ k)"
  by simp

lemma decimal_div_quantized:
  assumes "0 < d" "prec = max 50 (num_digits n + num_digits d + 20)"
  shows "quantize_six prec (decimal_div prec n d) = Inr (rhe (n * 10 ^ 6) d)"
proof -
  define shift extra where "shift = num_digits d + prec + 1 - num_digits n"
    and "extra = num_digits (n * 10 ^ shift div d) - prec"
  define s where "s = shift - extra"
  have "extra \<le> 2"
    unfolding extra_def shift_def by (rule decimal_div_surplus) (use assms in auto)
  then have s: "2 * num_digits d + 19 \<le> s" "shift = s + extra"
    using assms(2) by (auto simp: s_def shift_def)
  define M where "M = (10 :: nat) ^ (s - 6)"
  have "d < 10 ^ num_digits d" by (rule num_digits_upper)
  also have "\<dots> \<le> M" unfolding M_def by (rule power_increasing) (use s in auto)
  finally have "d < M" .
  have "even M" unfolding M_def by (rule power_ten_even) (use s in simp)
  have "n * 10 ^ shift = (n * 10 ^ 6 * M) * 10 ^ extra"
  proof -
    have "shift = 6 + (s - 6) + extra" using s by simp
    then show ?thesis by (simp only: M_def power_add mult.assoc)
  qed
  then have "rhe (n * 10 ^ shift) (d * 10 ^ extra) = rhe (n * 10 ^ 6 * M) d"
    by (simp only: rhe_cancel [of "10 ^ extra"] zero_less_power zero_less_numeral)
  then have "decimal_div prec n d = (rhe (n * 10 ^ 6 * M) d, s)"
    by (simp add: decimal_div_def Let_def s_def extra_def shift_def)
  moreover have "rhe (rhe (n * 10 ^ 6 * M) d) M = rhe (n * 10 ^ 6) d"
    by (rule rhe_double) fact+
  moreover have "\<not> prec < num_digits (rhe (n * 10 ^ 6) d)"
  proof -
    have "rhe (n * 10 ^ 6) d \<le> n * 10 ^ 6 div d + 1" by (simp add: rhe_def Let_def)
    also have "\<dots> \<le> n * 10 ^ 6 + 1" using div_le_dividend [of "n * 10 ^ 6" d] by simp
    also have "\<dots> < 10 ^ num_digits n * 10 ^ 7" using num_digits_upper [of n] by simp
    finally have "num_digits (rhe (n * 10 ^ 6) d) \<le> num_digits n + 7"
      by (intro num_digits_le) (simp_all add: power_add)
    then show ?thesis using assms(2) by simp
  qed
  ultimately show ?thesis using s by (simp add: quantize_six_def Let_def M_def)
qed

lemma decimal_ratio_ok:
  assumes "0 \<le> n" "0 < d"
  shows "decimal_ratio n d = Inr (format_six (rhe (nat n * 10 ^ 6) (nat d)))"
  using assms decimal_div_quantized [of "nat d" _ "nat n", OF _ refl]
  by (simp add: decimal_ratio_def Let_def)

lemma decimal_ratio_inr:
  "decimal_ratio n d = Inr s \<longleftrightarrow>
     0 \<le> n \<and> 0 < d \<and> s = format_six (rhe (nat n * 10 ^ 6) (nat d))"
  using decimal_ratio_ok [of n d] by (auto simp: decimal_ratio_def split: if_splits)

text \<open>Reading the text back: the digits without the point are the coefficient at scale six.\<close>

definition unformat_six :: "string \<Rightarrow> nat" where
  "unformat_six s = undec (filter (\<lambda>c. c \<noteq> CHR ''.'') s)"

lemma digit_char_not_dot: "d < 10 \<Longrightarrow> digit_char d \<noteq> CHR ''.''"
proof
  assume "d < 10" and "digit_char d = CHR ''.''"
  then have "of_char (digit_char d) = (of_char (CHR ''.'') :: nat)" by simp
  with \<open>d < 10\<close> show False by (simp add: digit_char_def)
qed

lemma filter_not_dot: "CHR ''.'' \<notin> set s \<Longrightarrow> filter (\<lambda>c. c \<noteq> CHR ''.'') s = s"
  by (induction s) auto

lemma dec_no_dot: "CHR ''.'' \<notin> set (dec n)"
proof (induction n rule: dec.induct)
  case (1 n)
  then show ?case
    using digit_char_not_dot [of n] digit_char_not_dot [of "n mod 10"]
    by (subst dec.simps) auto
qed

lemma zpad_no_dot: "CHR ''.'' \<notin> set (zpad w n)"
  using dec_no_dot [of n] by (auto simp: zpad_def)

lemma undec_append: "undec (s @ t) = undec s * 10 ^ length t + undec t"
proof (induction t rule: rev_induct)
  case Nil
  then show ?case by (simp add: undec_def)
next
  case (snoc c t)
  have "undec ((s @ t) @ [c]) = 10 * undec (s @ t) + digit_value c" by (rule undec_snoc)
  then show ?case using snoc by (simp add: undec_snoc algebra_simps)
qed

lemma unformat_format_six: "unformat_six (format_six q) = q"
proof -
  have "filter (\<lambda>c. c \<noteq> CHR ''.'') (format_six q) = dec (q div 10 ^ 6) @ zpad 6 (q mod 10 ^ 6)"
    using dec_no_dot [of "q div 10 ^ 6"] zpad_no_dot [of 6 "q mod 10 ^ 6"]
    by (simp add: format_six_def filter_not_dot)
  moreover have "length (zpad 6 (q mod 10 ^ 6)) = 6" by (rule length_zpad) simp_all
  ultimately show ?thesis by (simp add: unformat_six_def undec_append)
qed

section \<open>Properties\<close>

lemma nearest_rank_index:
  assumes "nearest_rank vs p = Inr v"
  obtains k where "k < length vs" "v = sort vs ! k" "p * int (length vs) \<le> 100 * int (Suc k)"
    "100 * int k < p * int (length vs)"
proof -
  let ?n = "int (length vs)"
  let ?r = "(p * ?n + 99) div 100"
  from assms have p: "1 \<le> p" "p \<le> 100" and n: "1 \<le> ?n" and v: "v = sort vs ! nat (?r - 1)"
    by (auto simp: nearest_rank_def Let_def Suc_le_eq split: if_splits)
  note b = rank_bounds [OF p n]
  show thesis
    by (rule that [of "nat (?r - 1)"]) (use b v in \<open>auto\<close>)
qed

text \<open>
  A percentile the code returns is an element of the sample and is the nearest rank: at least
  p percent of the sample is at or below it, and fewer than p percent lies strictly below it.
\<close>

theorem nearest_rank_correct:
  assumes "nearest_rank vs p = Inr v"
  shows "v \<in> set vs \<and> p * int (length vs) \<le> 100 * int (length (filter (\<lambda>x. x \<le> v) vs))
    \<and> 100 * int (length (filter (\<lambda>x. x < v) vs)) < p * int (length vs)"
proof -
  from assms obtain k where k: "k < length vs" "v = sort vs ! k"
    "p * int (length vs) \<le> 100 * int (Suc k)" "100 * int k < p * int (length vs)"
    by (rule nearest_rank_index)
  have "Suc k \<le> length (filter (\<lambda>x. x \<le> v) vs)"
    using sorted_filter_le_count [of "sort vs" k] k by (simp add: length_filter_sort)
  moreover have "length (filter (\<lambda>x. x < v) vs) \<le> k"
    using sorted_filter_less_count [of "sort vs" k] k by (simp add: length_filter_sort)
  moreover have "v \<in> set vs" using k nth_mem [of k "sort vs"] by simp
  ultimately show ?thesis using k(3,4)
    by (auto elim!: order.trans le_less_trans [rotated] simp flip: of_nat_Suc simp del: of_nat_Suc)
qed

theorem nearest_rank_correct_witness:
  "(20 :: int) \<in> set [40, 20, 10, 30]
    \<and> 50 * int (length [40, 20, 10, 30 :: int])
      \<le> 100 * int (length (filter (\<lambda>x. x \<le> 20) [40, 20, 10, 30 :: int]))
    \<and> 100 * int (length (filter (\<lambda>x. x < 20) [40, 20, 10, 30 :: int]))
      < 50 * int (length [40, 20, 10, 30 :: int])"
proof (rule nearest_rank_correct)
  show "nearest_rank [40, 20, 10, 30] 50 = Inr 20" by code_simp
qed

text \<open>
  The decimal text of a ratio is exactly the quotient rounded half to even at six places:
  reading the digits back gives that integer number of millionths, within half a millionth of the
  true quotient, although Python's division and \<open>quantize\<close> round twice. The function raises exactly
  for a negative numerator or a denominator that is not positive.
\<close>

theorem decimal_ratio_correct:
  "(case decimal_ratio n d of
      Inr s \<Rightarrow> 0 \<le> n \<and> 0 < d \<and> unformat_six s = rhe (nat n * 10 ^ 6) (nat d)
        \<and> \<bar>2 * (int (unformat_six s) * d - n * 10 ^ 6)\<bar> \<le> d
    | Inl NegativeNumerator \<Rightarrow> n < 0
    | Inl NonPositiveDenominator \<Rightarrow> 0 \<le> n \<and> d \<le> 0
    | Inl _ \<Rightarrow> False)"
proof (cases "0 \<le> n \<and> 0 < d")
  case True
  let ?q = "rhe (nat n * 10 ^ 6) (nat d)"
  have "0 < nat d" using True by simp
  note rhe_error [OF this, of "nat n * 10 ^ 6"]
  then have "int (2 * (?q * nat d)) \<le> int (2 * (nat n * 10 ^ 6) + nat d)"
    "int (2 * (nat n * 10 ^ 6)) \<le> int (2 * (?q * nat d) + nat d)"
    by (simp_all only: of_nat_le_iff)
  then have "\<bar>2 * (int ?q * d - n * 10 ^ 6)\<bar> \<le> d" using True by (simp add: abs_le_iff)
  then show ?thesis using True by (simp add: decimal_ratio_ok unformat_format_six)
next
  case False
  then show ?thesis by (auto simp: decimal_ratio_def)
qed

end
