(* ===== verification/Metrics.thy ===== *)
theory Metrics
  imports Quantiles
begin

text \<open>
  The frozen metric semantics of \<open>domain/metrics.py\<close>: the enumerations, the table
  \<open>_METRIC_SPECS\<close>, the definition artifact built from it, and the validators of
  \<open>MetricDefinition\<close>, \<open>MetricDefinitions\<close>, \<open>Measurement\<close> and \<open>Measurements\<close>. A model class whose
  validator raises is a record with a checking function into \<open>metric_error + unit\<close>, in the order
  of the code's checks. Enumeration members that share a name in Python are told apart by a prefix
  (\<open>U_\<close> units, \<open>A_\<close> aggregations, \<open>R_\<close> rounding policies).
\<close>

section \<open>Enumerations\<close>

datatype metric_id =
    MEASURED_REQUEST_COUNT | SUCCESSFUL_REQUEST_COUNT | FAILED_REQUEST_COUNT | ERROR_RATE
  | TTFT_NS | LAST_CHOICES_EVENT_SPAN_NS | ATTEMPTED_REQUEST_THROUGHPUT
  | SUCCESSFUL_REQUEST_THROUGHPUT | OUTPUT_TOKEN_THROUGHPUT

datatype definition_id =
    MEASURED_REQUEST_COUNT_V1 | SUCCESSFUL_REQUEST_COUNT_V1 | FAILED_REQUEST_COUNT_V1
  | MEASURED_FAILURE_RATIO_V1 | VLLM_FIRST_CHOICES_EVENT_V0_26 | LAST_CHOICES_EVENT_SPAN_V1
  | ATTEMPTED_REQUESTS_PER_WINDOW_SECOND_V1 | SUCCESSFUL_REQUESTS_PER_WINDOW_SECOND_V1
  | SUCCESSFUL_OUTPUT_TOKENS_PER_WINDOW_SECOND_V1

datatype population_id =
    ALL_MEASURED_REQUESTS | SUCCESSFUL_MEASURED_REQUESTS | FAILED_MEASURED_REQUESTS
  | SUCCESSFUL_WITH_OBSERVED_TTFT

datatype unit_id = U_COUNT | U_RATIO | U_NANOSECONDS | U_REQUESTS_PER_SECOND | U_TOKENS_PER_SECOND

datatype aggregation = A_COUNT | A_RATIO | A_MEAN | A_P50 | A_P95 | A_P99 | A_RATE

datatype quantile_method = NEAREST_RANK_V1

datatype rounding_policy = R_NONE | R_DECIMAL_HALF_EVEN_6_V1

datatype source_observation =
    REQUEST_OUTCOME_STATUS | REQUEST_OUTPUT_TOKENS | REQUEST_TTFT_NS | REQUEST_ITL_NS
  | EXECUTION_MEASUREMENT_WINDOW_NS

text \<open>\<open>list(MetricId)\<close>: the members in declaration order.\<close>

definition all_metric_ids :: "metric_id list" where
  "all_metric_ids =
     [MEASURED_REQUEST_COUNT, SUCCESSFUL_REQUEST_COUNT, FAILED_REQUEST_COUNT, ERROR_RATE, TTFT_NS,
      LAST_CHOICES_EVENT_SPAN_NS, ATTEMPTED_REQUEST_THROUGHPUT, SUCCESSFUL_REQUEST_THROUGHPUT,
      OUTPUT_TOKEN_THROUGHPUT]"

lemma set_all_metric_ids [simp]: "m \<in> set all_metric_ids"
  by (cases m) (simp_all add: all_metric_ids_def)

lemma distinct_all_metric_ids [simp]: "distinct all_metric_ids"
  by (simp add: all_metric_ids_def)

section \<open>Metric specifications and definitions\<close>

record metric_spec =
  ms_definition_id :: definition_id
  ms_unit :: unit_id
  ms_population :: population_id
  ms_allowed_aggregations :: "aggregation list"
  ms_required_observations :: "source_observation list"
  ms_quantile_method :: "quantile_method option"
  ms_rounding_policy :: rounding_policy

fun metric_specs :: "metric_id \<Rightarrow> metric_spec" where
  "metric_specs MEASURED_REQUEST_COUNT =
     \<lparr>ms_definition_id = MEASURED_REQUEST_COUNT_V1, ms_unit = U_COUNT,
      ms_population = ALL_MEASURED_REQUESTS, ms_allowed_aggregations = [A_COUNT],
      ms_required_observations = [REQUEST_OUTCOME_STATUS], ms_quantile_method = None,
      ms_rounding_policy = R_NONE\<rparr>"
| "metric_specs SUCCESSFUL_REQUEST_COUNT =
     \<lparr>ms_definition_id = SUCCESSFUL_REQUEST_COUNT_V1, ms_unit = U_COUNT,
      ms_population = SUCCESSFUL_MEASURED_REQUESTS, ms_allowed_aggregations = [A_COUNT],
      ms_required_observations = [REQUEST_OUTCOME_STATUS], ms_quantile_method = None,
      ms_rounding_policy = R_NONE\<rparr>"
| "metric_specs FAILED_REQUEST_COUNT =
     \<lparr>ms_definition_id = FAILED_REQUEST_COUNT_V1, ms_unit = U_COUNT,
      ms_population = FAILED_MEASURED_REQUESTS, ms_allowed_aggregations = [A_COUNT],
      ms_required_observations = [REQUEST_OUTCOME_STATUS], ms_quantile_method = None,
      ms_rounding_policy = R_NONE\<rparr>"
| "metric_specs ERROR_RATE =
     \<lparr>ms_definition_id = MEASURED_FAILURE_RATIO_V1, ms_unit = U_RATIO,
      ms_population = ALL_MEASURED_REQUESTS, ms_allowed_aggregations = [A_RATIO],
      ms_required_observations = [REQUEST_OUTCOME_STATUS], ms_quantile_method = None,
      ms_rounding_policy = R_DECIMAL_HALF_EVEN_6_V1\<rparr>"
| "metric_specs TTFT_NS =
     \<lparr>ms_definition_id = VLLM_FIRST_CHOICES_EVENT_V0_26, ms_unit = U_NANOSECONDS,
      ms_population = SUCCESSFUL_WITH_OBSERVED_TTFT,
      ms_allowed_aggregations = [A_MEAN, A_P50, A_P95, A_P99],
      ms_required_observations = [REQUEST_TTFT_NS], ms_quantile_method = Some NEAREST_RANK_V1,
      ms_rounding_policy = R_DECIMAL_HALF_EVEN_6_V1\<rparr>"
| "metric_specs LAST_CHOICES_EVENT_SPAN_NS =
     \<lparr>ms_definition_id = LAST_CHOICES_EVENT_SPAN_V1, ms_unit = U_NANOSECONDS,
      ms_population = SUCCESSFUL_WITH_OBSERVED_TTFT,
      ms_allowed_aggregations = [A_MEAN, A_P50, A_P95, A_P99],
      ms_required_observations = [REQUEST_TTFT_NS, REQUEST_ITL_NS],
      ms_quantile_method = Some NEAREST_RANK_V1,
      ms_rounding_policy = R_DECIMAL_HALF_EVEN_6_V1\<rparr>"
| "metric_specs ATTEMPTED_REQUEST_THROUGHPUT =
     \<lparr>ms_definition_id = ATTEMPTED_REQUESTS_PER_WINDOW_SECOND_V1, ms_unit = U_REQUESTS_PER_SECOND,
      ms_population = ALL_MEASURED_REQUESTS, ms_allowed_aggregations = [A_RATE],
      ms_required_observations = [REQUEST_OUTCOME_STATUS, EXECUTION_MEASUREMENT_WINDOW_NS],
      ms_quantile_method = None, ms_rounding_policy = R_DECIMAL_HALF_EVEN_6_V1\<rparr>"
| "metric_specs SUCCESSFUL_REQUEST_THROUGHPUT =
     \<lparr>ms_definition_id = SUCCESSFUL_REQUESTS_PER_WINDOW_SECOND_V1,
      ms_unit = U_REQUESTS_PER_SECOND,
      ms_population = SUCCESSFUL_MEASURED_REQUESTS, ms_allowed_aggregations = [A_RATE],
      ms_required_observations = [REQUEST_OUTCOME_STATUS, EXECUTION_MEASUREMENT_WINDOW_NS],
      ms_quantile_method = None, ms_rounding_policy = R_DECIMAL_HALF_EVEN_6_V1\<rparr>"
| "metric_specs OUTPUT_TOKEN_THROUGHPUT =
     \<lparr>ms_definition_id = SUCCESSFUL_OUTPUT_TOKENS_PER_WINDOW_SECOND_V1,
      ms_unit = U_TOKENS_PER_SECOND,
      ms_population = SUCCESSFUL_MEASURED_REQUESTS, ms_allowed_aggregations = [A_RATE],
      ms_required_observations =
        [REQUEST_OUTPUT_TOKENS, REQUEST_OUTCOME_STATUS, EXECUTION_MEASUREMENT_WINDOW_NS],
      ms_quantile_method = None, ms_rounding_policy = R_DECIMAL_HALF_EVEN_6_V1\<rparr>"

record metric_definition = metric_spec +
  md_metric :: metric_id

datatype metric_error =
    DefinitionMismatch | DefinitionSetOrder | DefinitionIdMismatch | UnitMismatch
  | PopulationMismatch | RoundingMismatch | AggregationNotAllowed | QuantileMethodMismatch
  | ValueDomain | CountNeedsInt | CountNotSampleCount | QuantileNeedsInt | QuantileEmpty
  | DecimalExpected | ErrorRateRange | DuplicateMeasurement | UnavailableListOrder

definition check_metric_definition :: "metric_definition \<Rightarrow> (metric_error, unit) res" where
  "check_metric_definition d =
     (if ms_definition_id d = ms_definition_id (metric_specs (md_metric d))
        \<and> ms_unit d = ms_unit (metric_specs (md_metric d))
        \<and> ms_population d = ms_population (metric_specs (md_metric d))
        \<and> ms_allowed_aggregations d = ms_allowed_aggregations (metric_specs (md_metric d))
        \<and> ms_required_observations d = ms_required_observations (metric_specs (md_metric d))
        \<and> ms_quantile_method d = ms_quantile_method (metric_specs (md_metric d))
        \<and> ms_rounding_policy d = ms_rounding_policy (metric_specs (md_metric d))
      then Inr () else Inl DefinitionMismatch)"

definition check_metric_definitions :: "metric_definition list \<Rightarrow> (metric_error, unit) res" where
  "check_metric_definitions ds =
     rbind (res_map check_metric_definition ds) (\<lambda>_.
       raise_if (map md_metric ds \<noteq> all_metric_ids) DefinitionSetOrder)"

definition frozen_metric_definitions_v1 :: "metric_definition list" where
  "frozen_metric_definitions_v1 =
     map (\<lambda>m. metric_spec.extend (metric_specs m) (metric_definition.fields m)) all_metric_ids"

section \<open>Measurements\<close>

text \<open>\<open>DecimalString\<close>: \<open>^(?:0|[1-9][0-9]*)(?:\.[0-9]+)?$\<close>.\<close>

definition is_digit :: "char \<Rightarrow> bool" where
  "is_digit c \<longleftrightarrow> 48 \<le> (of_char c :: nat) \<and> (of_char c :: nat) \<le> 57"

definition integer_part :: "string \<Rightarrow> string" where
  "integer_part s = takeWhile (\<lambda>c. c \<noteq> CHR ''.'') s"

definition fraction_part :: "string \<Rightarrow> string" where
  "fraction_part s = drop 1 (dropWhile (\<lambda>c. c \<noteq> CHR ''.'') s)"

definition is_decimal_string :: "string \<Rightarrow> bool" where
  "is_decimal_string s \<longleftrightarrow>
     integer_part s \<noteq> [] \<and> list_all is_digit (integer_part s)
     \<and> (integer_part s = ''0'' \<or> hd (integer_part s) \<noteq> CHR ''0'')
     \<and> (CHR ''.'' \<in> set s \<longrightarrow> fraction_part s \<noteq> [] \<and> list_all is_digit (fraction_part s))"

text \<open>\<open>Decimal(s) > 1\<close> for such a string.\<close>

definition decimal_exceeds_one :: "string \<Rightarrow> bool" where
  "decimal_exceeds_one s \<longleftrightarrow> 10 ^ length (fraction_part s) < unformat_six s"

datatype measurement_value = VInt int | VDec string

definition value_in_domain :: "measurement_value \<Rightarrow> bool" where
  "value_in_domain v = (case v of VInt i \<Rightarrow> 0 \<le> i | VDec s \<Rightarrow> is_decimal_string s)"

record measurement =
  me_metric :: metric_id
  me_aggregation :: aggregation
  me_value :: measurement_value
  me_unit :: unit_id
  me_sample_count :: int
  me_population :: population_id
  me_definition_id :: definition_id
  me_quantile_method :: "quantile_method option"
  me_rounding_policy :: rounding_policy

definition is_quantile :: "aggregation \<Rightarrow> bool" where
  "is_quantile a \<longleftrightarrow> a \<in> {A_P50, A_P95, A_P99}"

text \<open>The value checks of \<open>validate_frozen_metric_semantics\<close>, by aggregation.\<close>

definition check_value :: "measurement \<Rightarrow> (metric_error, unit) res" where
  "check_value m =
     (if me_aggregation m = A_COUNT then
        (case me_value m of
           VDec _ \<Rightarrow> Inl CountNeedsInt
         | VInt i \<Rightarrow> raise_if (i \<noteq> me_sample_count m) CountNotSampleCount)
      else if is_quantile (me_aggregation m) then
        (case me_value m of
           VDec _ \<Rightarrow> Inl QuantileNeedsInt
         | VInt _ \<Rightarrow> raise_if (me_sample_count m = 0) QuantileEmpty)
      else (case me_value m of VDec _ \<Rightarrow> Inr () | VInt _ \<Rightarrow> Inl DecimalExpected))"

definition check_error_rate :: "measurement \<Rightarrow> (metric_error, unit) res" where
  "check_error_rate m =
     (if me_metric m = ERROR_RATE
        \<and> (case me_value m of VInt _ \<Rightarrow> True | VDec s \<Rightarrow> decimal_exceeds_one s)
      then Inl ErrorRateRange else Inr ())"

definition check_measurement :: "measurement \<Rightarrow> (metric_error, unit) res" where
  "check_measurement m =
     (let expected = metric_specs (me_metric m) in
      if \<not> value_in_domain (me_value m) \<or> me_sample_count m < 0 then Inl ValueDomain
      else if me_definition_id m \<noteq> ms_definition_id expected then Inl DefinitionIdMismatch
      else if me_unit m \<noteq> ms_unit expected then Inl UnitMismatch
      else if me_population m \<noteq> ms_population expected then Inl PopulationMismatch
      else if me_rounding_policy m \<noteq> ms_rounding_policy expected then Inl RoundingMismatch
      else if me_aggregation m \<notin> set (ms_allowed_aggregations expected)
      then Inl AggregationNotAllowed
      else if me_quantile_method m \<noteq>
        (if is_quantile (me_aggregation m) then ms_quantile_method expected else None)
      then Inl QuantileMethodMismatch
      else rbind (check_value m) (\<lambda>_. check_error_rate m))"

datatype unavailable_metric_id =
    FIRST_NONEMPTY_CONTENT_TTFT_NS | TERMINAL_E2E_LATENCY_NS | UPSTREAM_TPOT_NS
  | EXACT_ACHIEVED_CONCURRENCY | SCHEDULED_OFFSET_NS | HTTP_STATUS | FINISH_REASON

definition all_unavailable_metric_ids :: "unavailable_metric_id list" where
  "all_unavailable_metric_ids =
     [FIRST_NONEMPTY_CONTENT_TTFT_NS, TERMINAL_E2E_LATENCY_NS, UPSTREAM_TPOT_NS,
      EXACT_ACHIEVED_CONCURRENCY, SCHEDULED_OFFSET_NS, HTTP_STATUS, FINISH_REASON]"

datatype unavailable_reason = SOURCE_OBSERVATION_UNAVAILABLE

record unavailable_measurement =
  um_metric :: unavailable_metric_id
  um_reason :: unavailable_reason
  um_capability_matrix :: string

record measurements =
  mm_run_id :: string
  mm_request_records_sha256 :: string
  mm_execution_sha256 :: string
  mm_metric_definitions_digest :: string
  mm_reducer_version :: string
  mm_measurements :: "measurement list"
  mm_unavailable :: "unavailable_measurement list"

definition check_measurements :: "measurements \<Rightarrow> (metric_error, unit) res" where
  "check_measurements ms =
     rbind (res_map check_measurement (mm_measurements ms)) (\<lambda>_.
     rbind (raise_if (\<not> distinct (map (\<lambda>m. (me_metric m, me_aggregation m)) (mm_measurements ms)))
       DuplicateMeasurement) (\<lambda>_.
     raise_if (map um_metric (mm_unavailable ms) \<noteq> all_unavailable_metric_ids)
       UnavailableListOrder))"

section \<open>Facts about the decimal text\<close>

lemma is_digit_digit_char: "d < 10 \<Longrightarrow> is_digit (digit_char d)"
  by (simp add: is_digit_def digit_char_def)

lemma list_all_digit_dec: "list_all is_digit (dec n)"
proof (induction n rule: dec.induct)
  case (1 n)
  then show ?case by (subst dec.simps) (simp add: is_digit_digit_char)
qed

lemma hd_dec: "0 < n \<Longrightarrow> hd (dec n) \<noteq> CHR ''0''"
proof (induction n rule: dec.induct)
  case (1 n)
  show ?case
  proof (cases "n < 10")
    case True
    with "1.prems" have "digit_value (digit_char n) \<noteq> digit_value (CHR ''0'')"
      by (simp add: digit_value_char digit_value_def [of "CHR ''0''"])
    then have "digit_char n \<noteq> CHR ''0''" by metis
    with True show ?thesis by (simp add: dec.simps [of n])
  next
    case False
    then have "hd (dec (n div 10)) \<noteq> CHR ''0''" using 1 by simp
    with False show ?thesis by (simp add: dec.simps [of n])
  qed
qed

lemma dec_zero: "dec 0 = ''0''"
  by code_simp

lemma takeWhile_no: "P \<notin> set xs \<Longrightarrow> takeWhile (\<lambda>c. c \<noteq> P) (xs @ P # ys) = xs"
  by (induction xs) auto

lemma dropWhile_no: "P \<notin> set xs \<Longrightarrow> dropWhile (\<lambda>c. c \<noteq> P) (xs @ P # ys) = P # ys"
  by (induction xs) auto

lemma format_six_parts:
  "integer_part (format_six q) = dec (q div 10 ^ 6)"
  "fraction_part (format_six q) = zpad 6 (q mod 10 ^ 6)"
  using dec_no_dot [of "q div 10 ^ 6"]
  by (simp_all add: integer_part_def fraction_part_def format_six_def takeWhile_no dropWhile_no)

lemma list_all_digit_zpad: "list_all is_digit (zpad w n)"
proof -
  have "is_digit (CHR ''0'')" by (simp add: is_digit_def)
  then show ?thesis by (auto simp: zpad_def list_all_digit_dec list_all_iff)
    (meson list_all_digit_dec list_all_iff)
qed

lemma is_decimal_string_format_six: "is_decimal_string (format_six q)"
proof -
  have "dec (q div 10 ^ 6) = ''0'' \<or> hd (dec (q div 10 ^ 6)) \<noteq> CHR ''0''"
    using hd_dec [of "q div 10 ^ 6"] dec_zero by (cases "q div 10 ^ 6 = 0") auto
  moreover have "zpad 6 (q mod 10 ^ 6) \<noteq> []" by (simp add: zpad_def)
  ultimately show ?thesis
    by (simp add: is_decimal_string_def format_six_parts list_all_digit_dec list_all_digit_zpad)
qed

lemma decimal_exceeds_one_format_six: "decimal_exceeds_one (format_six q) \<longleftrightarrow> 10 ^ 6 < q"
proof -
  have "length (zpad 6 (q mod 10 ^ 6)) = 6" by (rule length_zpad) simp_all
  then show ?thesis by (simp add: decimal_exceeds_one_def unformat_format_six format_six_parts)
qed

lemma decimal_ratio_text:
  "decimal_ratio n d = Inr s \<Longrightarrow> is_decimal_string s"
  by (auto simp: decimal_ratio_inr is_decimal_string_format_six)

lemma rhe_le_scale: "n \<le> d \<Longrightarrow> 0 < d \<Longrightarrow> rhe (n * m) d \<le> m"
proof -
  assume "n \<le> d" "0 < d"
  have "2 * (rhe (n * m) d * d) \<le> 2 * (n * m) + d" by (rule rhe_error) fact
  also have "\<dots> \<le> 2 * (d * m) + d" using \<open>n \<le> d\<close> by simp
  finally have "rhe (n * m) d * d < (m + 1) * d" using \<open>0 < d\<close> by (simp add: algebra_simps)
  then have "rhe (n * m) d < m + 1" by (simp only: mult_less_cancel2)
  then show ?thesis by simp
qed

lemma decimal_ratio_at_most_one:
  "decimal_ratio n d = Inr s \<Longrightarrow> n \<le> d \<Longrightarrow> \<not> decimal_exceeds_one s"
  using rhe_le_scale [of "nat n" "nat d" "10 ^ 6"] nat_mono [of n d]
  by (auto simp: decimal_ratio_inr decimal_exceeds_one_format_six)

section \<open>The frozen definition set\<close>

lemma md_metric_frozen: "map md_metric frozen_metric_definitions_v1 = all_metric_ids"
  by (simp add: frozen_metric_definitions_v1_def metric_definition.defs metric_spec.defs comp_def)

lemma res_map_unit: "list_all (\<lambda>x. f x = Inr ()) xs \<Longrightarrow> is_ok (res_map f xs)"
  by (induction xs) (auto simp: is_ok_iff)

lemma frozen_definition_ok:
  "check_metric_definition (metric_spec.extend (metric_specs m) (metric_definition.fields m)) = Inr ()"
  by (simp add: check_metric_definition_def metric_spec.defs metric_definition.defs)

lemma check_frozen_definitions: "check_metric_definitions frozen_metric_definitions_v1 = Inr ()"
proof -
  have "list_all (\<lambda>d. check_metric_definition d = Inr ()) frozen_metric_definitions_v1"
    by (simp add: frozen_metric_definitions_v1_def list_all_iff frozen_definition_ok)
  then have "is_ok (res_map check_metric_definition frozen_metric_definitions_v1)"
    by (rule res_map_unit)
  then show ?thesis by (auto simp: check_metric_definitions_def is_ok_iff md_metric_frozen)
qed

text \<open>A metric looked up in the frozen set carries the specification of the table.\<close>

lemma map_of_frozen:
  "map_of (rev (map (\<lambda>d. (md_metric d, d)) frozen_metric_definitions_v1)) m =
     Some (metric_spec.extend (metric_specs m) (metric_definition.fields m))"
proof -
  let ?ps = "map (\<lambda>d. (md_metric d, d)) frozen_metric_definitions_v1"
  have fst: "map fst ?ps = all_metric_ids" using md_metric_frozen by (simp add: comp_def)
  have "?ps = map (\<lambda>m. (m, metric_spec.extend (metric_specs m) (metric_definition.fields m)))
      all_metric_ids"
    by (simp add: frozen_metric_definitions_v1_def metric_definition.defs metric_spec.defs comp_def)
  then have "(m, metric_spec.extend (metric_specs m) (metric_definition.fields m)) \<in> set (rev ?ps)"
    by simp
  moreover have "distinct (map fst (rev ?ps))" using fst by (simp flip: rev_map)
  ultimately show ?thesis by (rule map_of_is_SomeI [rotated])
qed

end
