(* ===== verification/Records.thy ===== *)
theory Records
  imports Prelude
begin

text \<open>
  The canonical observations the reducer consumes: \<open>RequestRecord\<close> of \<open>domain/request_record.py\<close>
  and \<open>ExecutionRecord\<close> of \<open>domain/execution.py\<close>, each with the checks its validators make, in
  order. Instants are integers on one time axis (Python compares aware datetimes as instants);
  response content is the byte string it is encoded to (its length limit is the code's when the
  content is ASCII). Identifiers whose type is a pattern over strings are plain strings. SHA-256 is a parameter.
\<close>

datatype request_status = RS_SUCCESS | RS_FAILED | RS_ANOMALOUS_EMPTY_STREAM

text \<open>
  The two producer variants with the fields that are not fixed literals: adapter version and native
  schema fingerprint, and for the synthetic producer its own version first.
\<close>

datatype producer_semantics =
    VllmProducerSemantics string string
  | FakeProducerSemantics string string string

definition is_fake_producer :: "producer_semantics \<Rightarrow> bool" where
  "is_fake_producer p = (case p of VllmProducerSemantics _ _ \<Rightarrow> False | FakeProducerSemantics _ _ _ \<Rightarrow> True)"

record request_record =
  rr_run_id :: string
  rr_request_id :: string
  rr_producer_request_id :: string
  rr_sequence_index :: int
  rr_native_path :: string
  rr_native_index :: int
  rr_producer :: producer_semantics
  rr_input_tokens :: int
  rr_output_tokens :: int
  rr_start_offset_ns :: int
  rr_ttft_ns :: "int option"
  rr_itl_ns :: "int list"
  rr_status :: request_status
  rr_producer_error :: "string option"
  rr_prompt_sha256 :: string
  rr_response_sha256 :: "string option"
  rr_response_content :: "string option"

datatype record_error =
    RecordFieldRange | ItlWithoutTtft | FailedNeedsError | ErrorOnNonFailed
  | ContentDigestMismatch | RequestIdMismatch | NativeIndexMismatch | SuccessNeedsTtft
  | SuccessNeedsResponse | EmptyStreamTimings | EmptyStreamTokens | EmptyStreamDigest

definition request_id_from_index :: "int \<Rightarrow> (record_error, string) res" where
  "request_id_from_index i =
     (if \<not> (0 \<le> i \<and> i \<le> 99999999) then Inl RecordFieldRange
      else Inr (''req-'' @ zpad 8 (nat i)))"

definition check_tokens :: "request_record \<Rightarrow> (record_error, unit) res" where
  "check_tokens r = raise_if (rr_input_tokens r < 0 \<or> rr_output_tokens r < 0) RecordFieldRange"

definition check_timing :: "request_record \<Rightarrow> (record_error, unit) res" where
  "check_timing r =
     (if rr_start_offset_ns r < 0 \<or> (\<exists>t \<in> set_option (rr_ttft_ns r). t < 0)
         \<or> (\<exists>t \<in> set (rr_itl_ns r). t < 0) then Inl RecordFieldRange
      else raise_if (rr_ttft_ns r = None \<and> rr_itl_ns r \<noteq> []) ItlWithoutTtft)"

definition check_outcome :: "request_record \<Rightarrow> (record_error, unit) res" where
  "check_outcome r =
     (if \<exists>e \<in> set_option (rr_producer_error r). e = [] \<or> 65536 < int (length e)
      then Inl RecordFieldRange
      else if rr_status r = RS_FAILED \<and> rr_producer_error r = None then Inl FailedNeedsError
      else raise_if (rr_status r \<noteq> RS_FAILED \<and> rr_producer_error r \<noteq> None) ErrorOnNonFailed)"

definition check_content :: "(string \<Rightarrow> string) \<Rightarrow> request_record \<Rightarrow> (record_error, unit) res" where
  "check_content sha256_digest r =
     (case rr_response_content r of
        None \<Rightarrow> Inr ()
      | Some c \<Rightarrow>
          if 4194304 < int (length c) then Inl RecordFieldRange
          else raise_if (rr_response_sha256 r \<noteq> Some (sha256_digest c)) ContentDigestMismatch)"

definition check_cross_fields ::
  "(string \<Rightarrow> string) \<Rightarrow> request_record \<Rightarrow> (record_error, unit) res" where
  "check_cross_fields sha256_digest r =
     rbind (request_id_from_index (rr_sequence_index r)) (\<lambda>expected.
       if \<not> (0 \<le> rr_native_index r \<and> rr_native_index r \<le> 99999999) then Inl RecordFieldRange
       else if rr_request_id r \<noteq> expected then Inl RequestIdMismatch
       else if rr_native_index r \<noteq> rr_sequence_index r then Inl NativeIndexMismatch
       else (case rr_status r of
           RS_SUCCESS \<Rightarrow>
             if rr_ttft_ns r = None then Inl SuccessNeedsTtft
             else raise_if (rr_response_sha256 r = None) SuccessNeedsResponse
         | RS_ANOMALOUS_EMPTY_STREAM \<Rightarrow>
             if rr_ttft_ns r \<noteq> None \<or> rr_itl_ns r \<noteq> [] then Inl EmptyStreamTimings
             else if rr_output_tokens r \<noteq> 0 then Inl EmptyStreamTokens
             else raise_if (rr_response_sha256 r \<noteq> Some (sha256_digest [])) EmptyStreamDigest
         | RS_FAILED \<Rightarrow> Inr ()))"

definition check_request_record ::
  "(string \<Rightarrow> string) \<Rightarrow> request_record \<Rightarrow> (record_error, unit) res" where
  "check_request_record sha256_digest r =
     rbind (check_tokens r) (\<lambda>_. rbind (check_timing r) (\<lambda>_. rbind (check_outcome r) (\<lambda>_.
     rbind (check_content sha256_digest r) (\<lambda>_. check_cross_fields sha256_digest r))))"

section \<open>Execution records\<close>

datatype phase_name = PH_PREFLIGHT | PH_WARMUP | PH_MEASURING | PH_FINALIZING

datatype phase_timing_status = OBSERVED | UNAVAILABLE

record phase_event =
  pe_phase :: phase_name
  pe_timing_status :: phase_timing_status
  pe_started_at :: "int option"
  pe_ended_at :: "int option"
  pe_configured_request_count :: "int option"

text \<open>\<open>ConcurrentTraffic\<close>: concurrency, warmup and measured requests. \<open>RequestRateTraffic\<close>: rate,
  burstiness, maximum concurrency, warmup and measured requests.\<close>

datatype traffic_config =
    ConcurrentTraffic int int int
  | RequestRateTraffic string string "int option" int int

fun measured_requests :: "traffic_config \<Rightarrow> int" where
  "measured_requests (ConcurrentTraffic _ _ m) = m"
| "measured_requests (RequestRateTraffic _ _ _ _ m) = m"

datatype window_definition = VLLM_BENCHMARK_DURATION_V0_26 | FAKE_MEASUREMENT_WINDOW_V1

record execution_record =
  ex_run_id :: string
  ex_started_at :: int
  ex_ended_at :: int
  ex_monotonic_clock_domain_id :: string
  ex_configured_traffic :: traffic_config
  ex_measurement_window_ns :: int
  ex_window_definition :: window_definition
  ex_producer_exit_status :: int
  ex_native_result_sha256 :: string
  ex_phases :: "phase_event list"

datatype execution_error =
    PhaseBoundaryMissing | PhaseEndBeforeStart | UnavailablePhaseBoundary | ExecutionFieldRange
  | ExecutionEndBeforeStart | PhaseOrder | PhaseOutsideExecution | PhasesOverlap | NonzeroExit

definition check_phase_event :: "phase_event \<Rightarrow> (execution_error, unit) res" where
  "check_phase_event p =
     (if \<exists>n \<in> set_option (pe_configured_request_count p). n < 0 then Inl ExecutionFieldRange
      else case pe_timing_status p of
        OBSERVED \<Rightarrow>
          (case (pe_started_at p, pe_ended_at p) of
             (Some s, Some e) \<Rightarrow> raise_if (e < s) PhaseEndBeforeStart
           | _ \<Rightarrow> Inl PhaseBoundaryMissing)
      | UNAVAILABLE \<Rightarrow>
          raise_if (pe_started_at p \<noteq> None \<or> pe_ended_at p \<noteq> None) UnavailablePhaseBoundary)"

definition phase_outside :: "execution_record \<Rightarrow> phase_event \<Rightarrow> bool" where
  "phase_outside x p =
     (case (pe_started_at p, pe_ended_at p) of
        (Some s, Some e) \<Rightarrow> s < ex_started_at x \<or> ex_ended_at x < e
      | _ \<Rightarrow> False)"

definition phase_overlap :: "phase_event \<Rightarrow> phase_event \<Rightarrow> bool" where
  "phase_overlap previous current =
     (case (pe_started_at current, pe_ended_at previous) of
        (Some s, Some e) \<Rightarrow> s < e
      | _ \<Rightarrow> False)"

definition check_execution :: "execution_record \<Rightarrow> (execution_error, unit) res" where
  "check_execution x =
     rbind (res_map check_phase_event (ex_phases x)) (\<lambda>_.
       if measured_requests (ex_configured_traffic x) \<le> 0 \<or> ex_measurement_window_ns x \<le> 0
          \<or> \<not> (0 \<le> ex_producer_exit_status x \<and> ex_producer_exit_status x \<le> 255)
       then Inl ExecutionFieldRange
       else if ex_ended_at x < ex_started_at x then Inl ExecutionEndBeforeStart
       else if map pe_phase (ex_phases x) \<noteq> [PH_PREFLIGHT, PH_WARMUP, PH_MEASURING, PH_FINALIZING]
       then Inl PhaseOrder
       else if \<exists>p \<in> set (ex_phases x). phase_outside x p then Inl PhaseOutsideExecution
       else if \<exists>(p, c) \<in> set (zip (ex_phases x) (tl (ex_phases x))). phase_overlap p c
       then Inl PhasesOverlap
       else raise_if (ex_producer_exit_status x \<noteq> 0) NonzeroExit)"

section \<open>What a valid record guarantees\<close>

lemma valid_record_tokens:
  "check_request_record sha r = Inr () \<Longrightarrow> 0 \<le> rr_input_tokens r \<and> 0 \<le> rr_output_tokens r"
  by (auto simp: check_request_record_def check_tokens_def result_simps)

lemma valid_record_ttft:
  "check_request_record sha r = Inr () \<Longrightarrow> rr_ttft_ns r = Some t \<Longrightarrow>
     0 \<le> t \<and> (\<forall>i \<in> set (rr_itl_ns r). 0 \<le> i)"
  by (auto simp: check_request_record_def check_timing_def result_simps split: if_splits)

lemma valid_success_has_ttft:
  "check_request_record sha r = Inr () \<Longrightarrow> rr_status r = RS_SUCCESS \<Longrightarrow> \<exists>t. rr_ttft_ns r = Some t"
  by (auto simp: check_request_record_def check_cross_fields_def result_simps split: if_splits)

lemma valid_execution_window:
  "check_execution x = Inr () \<Longrightarrow>
     0 < ex_measurement_window_ns x \<and> 0 < measured_requests (ex_configured_traffic x)"
  by (auto simp: check_execution_def result_simps split: if_splits)

end
