(* ===== verification/Reducer.thy ===== *)
theory Reducer
  imports Metrics Records
begin

text \<open>
  The deterministic reduction of \<open>metrics/reducer.py\<close>: population checks, the measurement rows in
  the order the code emits them, and the sealed result. The RFC 8785 encoder and SHA-256 are
  third-party code, so the bytes of each artifact and the digest functions are parameters, gathered
  in the record \<open>reduction_codec\<close>.
\<close>

datatype reduce_error =
    CountMismatch | PopulationEmpty | FakeNeedsSynthetic | VllmNeedsVllm | ForeignRun
  | NotContiguous | ProducersDisagree | DefinitionsNotFrozen | MissingDefinition
  | Numeric reduction_error | Invalid metric_error

record reduction_codec =
  rc_record :: "request_record \<Rightarrow> string"
  rc_execution :: "execution_record \<Rightarrow> string"
  rc_definitions :: "metric_definition list \<Rightarrow> string"
  rc_measurements :: "measurements \<Rightarrow> string"
  rc_sha256 :: "string \<Rightarrow> string"

record reduction_result =
  rz_metric_definitions :: "metric_definition list"
  rz_metric_definitions_bytes :: string
  rz_metric_definitions_digest :: string
  rz_request_records_bytes :: string
  rz_execution_bytes :: string
  rz_measurements :: measurements
  rz_measurements_bytes :: string

definition quantile_percentiles :: "(aggregation \<times> int) list" where
  "quantile_percentiles = [(A_P50, 50), (A_P95, 95), (A_P99, 99)]"

text \<open>\<open>digest_bytes\<close> of \<open>domain/digests.py\<close> in the metric-definition domain.\<close>

definition metric_definitions_digest :: "reduction_codec \<Rightarrow> string \<Rightarrow> string" where
  "metric_definitions_digest c payload =
     rc_sha256 c (''inferdrome:metric-definitions-v1'' @ [CHR 0x00] @ payload)"

definition canonical_request_records_bytes ::
  "reduction_codec \<Rightarrow> request_record list \<Rightarrow> string" where
  "canonical_request_records_bytes c records =
     concat (map (\<lambda>r. rc_record c r @ [CHR 0x0A]) records)"

section \<open>Population checks\<close>

fun check_rows ::
  "execution_record \<Rightarrow> producer_semantics \<Rightarrow> int \<Rightarrow> request_record list \<Rightarrow> (reduce_error, unit) res"
where
  "check_rows x p i [] = Inr ()"
| "check_rows x p i (r # rs) =
     (if rr_run_id r \<noteq> ex_run_id x then Inl ForeignRun
      else if rr_sequence_index r \<noteq> i then Inl NotContiguous
      else if rr_producer r \<noteq> p then Inl ProducersDisagree
      else check_rows x p (i + 1) rs)"

definition validate_population ::
  "execution_record \<Rightarrow> request_record list \<Rightarrow> (reduce_error, unit) res" where
  "validate_population x records =
     (if int (length records) \<noteq> measured_requests (ex_configured_traffic x) then Inl CountMismatch
      else (case records of
          [] \<Rightarrow> Inl PopulationEmpty
        | first # _ \<Rightarrow>
            if ex_window_definition x = FAKE_MEASUREMENT_WINDOW_V1
            then (if \<not> is_fake_producer (rr_producer first) then Inl FakeNeedsSynthetic
                  else check_rows x (rr_producer first) 0 records)
            else (if is_fake_producer (rr_producer first) then Inl VllmNeedsVllm
                  else check_rows x (rr_producer first) 0 records)))"

section \<open>Measurement rows\<close>

type_synonym definition_map = "metric_id \<rightharpoonup> metric_definition"

definition definition_map :: "metric_definition list \<Rightarrow> definition_map" where
  "definition_map ds = map_of (rev (map (\<lambda>d. (md_metric d, d)) ds))"

text \<open>Building a \<open>Measurement\<close> runs its validator.\<close>

definition make_measurement ::
  "definition_map \<Rightarrow> metric_id \<Rightarrow> aggregation \<Rightarrow> measurement_value \<Rightarrow> int
     \<Rightarrow> (reduce_error, measurement) res" where
  "make_measurement dm metric agg v n =
     (case dm metric of
        None \<Rightarrow> Inl MissingDefinition
      | Some d \<Rightarrow>
          let m = \<lparr>me_metric = metric, me_aggregation = agg, me_value = v, me_unit = ms_unit d,
                   me_sample_count = n, me_population = ms_population d,
                   me_definition_id = ms_definition_id d,
                   me_quantile_method =
                     (if agg \<in> set (map fst quantile_percentiles) then ms_quantile_method d
                      else None),
                   me_rounding_policy = ms_rounding_policy d\<rparr>
          in (case check_measurement m of Inl e \<Rightarrow> Inl (Invalid e) | Inr _ \<Rightarrow> Inr m))"

definition numeric :: "(reduction_error, 'a) res \<Rightarrow> (reduce_error, 'a) res" where
  "numeric r = (case r of Inl e \<Rightarrow> Inl (Numeric e) | Inr x \<Rightarrow> Inr x)"

definition ratio_measurement ::
  "definition_map \<Rightarrow> metric_id \<Rightarrow> aggregation \<Rightarrow> int \<Rightarrow> int \<Rightarrow> int
     \<Rightarrow> (reduce_error, measurement) res" where
  "ratio_measurement dm metric agg num den n =
     rbind (numeric (decimal_ratio num den)) (\<lambda>s. make_measurement dm metric agg (VDec s) n)"

definition latency_measurements ::
  "definition_map \<Rightarrow> metric_id \<Rightarrow> int list \<Rightarrow> (reduce_error, measurement list) res" where
  "latency_measurements dm metric values =
     (if values = [] then Inr []
      else
        rbind (ratio_measurement dm metric A_MEAN (sum_list values) (int (length values))
                 (int (length values))) (\<lambda>mean.
        rbind (res_map (\<lambda>(agg, percentile).
                  rbind (numeric (nearest_rank values percentile)) (\<lambda>v.
                    make_measurement dm metric agg (VInt v) (int (length values))))
                quantile_percentiles) (\<lambda>quantiles.
        Inr (mean # quantiles))))"

definition successful_records :: "request_record list \<Rightarrow> request_record list" where
  "successful_records rs = filter (\<lambda>r. rr_status r = RS_SUCCESS) rs"

definition failed_records :: "request_record list \<Rightarrow> request_record list" where
  "failed_records rs = filter (\<lambda>r. rr_status r \<noteq> RS_SUCCESS) rs"

definition ttft_values :: "request_record list \<Rightarrow> int list" where
  "ttft_values rs = List.map_filter rr_ttft_ns (successful_records rs)"

definition choices_spans :: "request_record list \<Rightarrow> int list" where
  "choices_spans rs =
     List.map_filter (\<lambda>r. map_option (\<lambda>t. t + sum_list (rr_itl_ns r)) (rr_ttft_ns r))
       (successful_records rs)"

definition count_measurement ::
  "definition_map \<Rightarrow> metric_id \<Rightarrow> int \<Rightarrow> (reduce_error, measurement) res" where
  "count_measurement dm metric n = make_measurement dm metric A_COUNT (VInt n) n"

definition count_rows ::
  "definition_map \<Rightarrow> request_record list \<Rightarrow> (reduce_error, measurement list) res" where
  "count_rows dm records =
     (let measured = int (length records);
          successful = int (length (successful_records records));
          failed = int (length (failed_records records)) in
      rbind (count_measurement dm MEASURED_REQUEST_COUNT measured) (\<lambda>m1.
      rbind (count_measurement dm SUCCESSFUL_REQUEST_COUNT successful) (\<lambda>m2.
      rbind (count_measurement dm FAILED_REQUEST_COUNT failed) (\<lambda>m3.
      rbind (ratio_measurement dm ERROR_RATE A_RATIO failed measured measured) (\<lambda>m4.
      Inr [m1, m2, m3, m4])))))"

definition nanoseconds_per_second :: int where
  "nanoseconds_per_second = 1000000000"

definition throughput_rows ::
  "definition_map \<Rightarrow> execution_record \<Rightarrow> request_record list
     \<Rightarrow> (reduce_error, measurement list) res" where
  "throughput_rows dm x records =
     (let measured = int (length records);
          successful = int (length (successful_records records));
          tokens = sum_list (map rr_output_tokens (successful_records records));
          window = ex_measurement_window_ns x in
      rbind (ratio_measurement dm ATTEMPTED_REQUEST_THROUGHPUT A_RATE
               (measured * nanoseconds_per_second) window measured) (\<lambda>m1.
      rbind (ratio_measurement dm SUCCESSFUL_REQUEST_THROUGHPUT A_RATE
               (successful * nanoseconds_per_second) window successful) (\<lambda>m2.
      rbind (ratio_measurement dm OUTPUT_TOKEN_THROUGHPUT A_RATE
               (tokens * nanoseconds_per_second) window successful) (\<lambda>m3.
      Inr [m1, m2, m3]))))"

definition measurement_rows ::
  "definition_map \<Rightarrow> execution_record \<Rightarrow> request_record list
     \<Rightarrow> (reduce_error, measurement list) res" where
  "measurement_rows dm x records =
     rbind (count_rows dm records) (\<lambda>counts.
     rbind (latency_measurements dm TTFT_NS (ttft_values records)) (\<lambda>ttft.
     rbind (latency_measurements dm LAST_CHOICES_EVENT_SPAN_NS (choices_spans records)) (\<lambda>spans.
     rbind (throughput_rows dm x records) (\<lambda>rates.
     Inr (counts @ ttft @ spans @ rates)))))"

section \<open>The reduction\<close>

definition reduce_measurements ::
  "reduction_codec \<Rightarrow> execution_record \<Rightarrow> request_record list \<Rightarrow> metric_definition list option
     \<Rightarrow> (reduce_error, reduction_result) res" where
  "reduce_measurements c x records supplied =
     rbind (validate_population x records) (\<lambda>_.
     let expected = frozen_metric_definitions_v1;
         definitions = (case supplied of None \<Rightarrow> expected | Some ds \<Rightarrow> ds) in
     if definitions \<noteq> expected then Inl DefinitionsNotFrozen
     else rbind (measurement_rows (definition_map definitions) x records) (\<lambda>rows.
       let definitions_bytes = rc_definitions c definitions;
           digest = metric_definitions_digest c definitions_bytes;
           records_bytes = canonical_request_records_bytes c records;
           execution_bytes = rc_execution c x;
           output = \<lparr>mm_run_id = ex_run_id x,
                     mm_request_records_sha256 = rc_sha256 c records_bytes,
                     mm_execution_sha256 = rc_sha256 c execution_bytes,
                     mm_metric_definitions_digest = digest,
                     mm_reducer_version = ''1.0.0'',
                     mm_measurements = rows,
                     mm_unavailable =
                       map (\<lambda>m. \<lparr>um_metric = m, um_reason = SOURCE_OBSERVATION_UNAVAILABLE,
                                 um_capability_matrix = ''vllm-0.26.0''\<rparr>)
                         all_unavailable_metric_ids\<rparr>
       in (case check_measurements output of
             Inl e \<Rightarrow> Inl (Invalid e)
           | Inr _ \<Rightarrow>
               Inr \<lparr>rz_metric_definitions = definitions,
                    rz_metric_definitions_bytes = definitions_bytes,
                    rz_metric_definitions_digest = digest,
                    rz_request_records_bytes = records_bytes,
                    rz_execution_bytes = execution_bytes,
                    rz_measurements = output,
                    rz_measurements_bytes = rc_measurements c output\<rparr>)))"

section \<open>Every row the reduction builds is valid\<close>

abbreviation "frozen_map \<equiv> definition_map frozen_metric_definitions_v1"

lemma frozen_map_lookup:
  "frozen_map m = Some (metric_spec.extend (metric_specs m) (metric_definition.fields m))"
  by (simp add: definition_map_def map_of_frozen)

lemma quantile_keys: "agg \<in> set (map fst quantile_percentiles) \<longleftrightarrow> is_quantile agg"
  by (auto simp: quantile_percentiles_def is_quantile_def)

text \<open>The row for a metric of the frozen table, and when the measurement validator accepts it.\<close>

definition frozen_row :: "metric_id \<Rightarrow> aggregation \<Rightarrow> measurement_value \<Rightarrow> int \<Rightarrow> measurement" where
  "frozen_row metric agg v n =
     \<lparr>me_metric = metric, me_aggregation = agg, me_value = v,
      me_unit = ms_unit (metric_specs metric), me_sample_count = n,
      me_population = ms_population (metric_specs metric),
      me_definition_id = ms_definition_id (metric_specs metric),
      me_quantile_method =
        (if is_quantile agg then ms_quantile_method (metric_specs metric) else None),
      me_rounding_policy = ms_rounding_policy (metric_specs metric)\<rparr>"

lemma frozen_row_sel [simp]:
  "me_metric (frozen_row metric agg v n) = metric"
  "me_aggregation (frozen_row metric agg v n) = agg"
  "me_value (frozen_row metric agg v n) = v"
  "me_sample_count (frozen_row metric agg v n) = n"
  by (simp_all add: frozen_row_def)

lemma extend_sel:
  "ms_definition_id (metric_spec.extend s e) = ms_definition_id s"
  "ms_unit (metric_spec.extend s e) = ms_unit s"
  "ms_population (metric_spec.extend s e) = ms_population s"
  "ms_quantile_method (metric_spec.extend s e) = ms_quantile_method s"
  "ms_rounding_policy (metric_spec.extend s e) = ms_rounding_policy s"
  by (simp_all add: metric_spec.defs)

lemma make_measurement_frozen_map:
  "make_measurement frozen_map metric agg v n =
     (case check_measurement (frozen_row metric agg v n) of
        Inl e \<Rightarrow> Inl (Invalid e) | Inr _ \<Rightarrow> Inr (frozen_row metric agg v n))"
  unfolding make_measurement_def frozen_map_lookup option.case Let_def quantile_keys frozen_row_def
    extend_sel
  by (rule refl)

lemma check_frozen_row:
  assumes "agg \<in> set (ms_allowed_aggregations (metric_specs metric))" and "0 \<le> n"
    and "value_in_domain v"
    and "agg = A_COUNT \<Longrightarrow> v = VInt n"
    and "is_quantile agg \<Longrightarrow> (\<exists>i. v = VInt i) \<and> 0 < n"
    and "agg \<noteq> A_COUNT \<Longrightarrow> \<not> is_quantile agg \<Longrightarrow> \<exists>s. v = VDec s"
    and "metric = ERROR_RATE \<Longrightarrow> \<exists>s. v = VDec s \<and> \<not> decimal_exceeds_one s"
  shows "check_measurement (frozen_row metric agg v n) = Inr ()"
proof -
  have "check_value (frozen_row metric agg v n) = Inr ()"
    using assms(4,5,6) by (auto simp: check_value_def split: measurement_value.splits)
  moreover have "check_error_rate (frozen_row metric agg v n) = Inr ()"
    using assms(7) by (auto simp: check_error_rate_def)
  ultimately show ?thesis
    using assms(1,2,3) by (simp add: check_measurement_def Let_def frozen_row_def)
qed

lemma make_measurement_frozen:
  "check_measurement (frozen_row metric agg v n) = Inr () \<Longrightarrow>
     make_measurement frozen_map metric agg v n = Inr (frozen_row metric agg v n)"
  by (simp add: make_measurement_frozen_map)

lemma count_measurement_frozen:
  assumes "ms_allowed_aggregations (metric_specs metric) = [A_COUNT]" "0 \<le> n"
  shows "count_measurement frozen_map metric n = Inr (frozen_row metric A_COUNT (VInt n) n)"
proof -
  have "metric \<noteq> ERROR_RATE" using assms(1) by auto
  then show ?thesis
    unfolding count_measurement_def
    by (intro make_measurement_frozen check_frozen_row)
      (use assms in \<open>simp_all add: value_in_domain_def is_quantile_def\<close>)
qed

abbreviation ratio_text :: "int \<Rightarrow> int \<Rightarrow> string" where
  "ratio_text n d \<equiv> format_six (rhe (nat n * 10 ^ 6) (nat d))"

lemma ratio_measurement_frozen:
  assumes "agg \<in> set (ms_allowed_aggregations (metric_specs metric))"
    and "agg \<in> {A_RATIO, A_MEAN, A_RATE}" and "0 \<le> n" and "0 \<le> num" and "0 < den"
    and "metric = ERROR_RATE \<Longrightarrow> num \<le> den"
  shows "ratio_measurement frozen_map metric agg num den n =
    Inr (frozen_row metric agg (VDec (ratio_text num den)) n)"
proof -
  have ratio: "decimal_ratio num den = Inr (ratio_text num den)"
    by (rule decimal_ratio_ok) fact+
  have "check_measurement (frozen_row metric agg (VDec (ratio_text num den)) n) = Inr ()"
    using assms decimal_ratio_at_most_one [OF ratio]
    by (intro check_frozen_row)
      (auto simp: value_in_domain_def is_decimal_string_format_six is_quantile_def)
  then show ?thesis
    by (simp add: ratio_measurement_def numeric_def ratio make_measurement_frozen)
qed

lemma nearest_rank_mem: "nearest_rank values p = Inr v \<Longrightarrow> v \<in> set values"
  using rank_bounds [of p "int (length values)"]
  by (auto simp: nearest_rank_def Let_def Suc_le_eq nat_less_iff split: if_splits
      intro!: nth_mem [of _ "sort values", simplified])


section \<open>The rows of a valid run, written out\<close>

definition percentile_of :: "int list \<Rightarrow> int \<Rightarrow> int" where
  "percentile_of vs p = sort vs ! nat ((p * int (length vs) + 99) div 100 - 1)"

lemma nearest_rank_percentile:
  "vs \<noteq> [] \<Longrightarrow> 1 \<le> p \<Longrightarrow> p \<le> 100 \<Longrightarrow> nearest_rank vs p = Inr (percentile_of vs p)"
  by (simp add: nearest_rank_def percentile_of_def Let_def)

definition latency_rows :: "metric_id \<Rightarrow> int list \<Rightarrow> measurement list" where
  "latency_rows metric vs =
     (let n = int (length vs) in
      if vs = [] then []
      else [frozen_row metric A_MEAN (VDec (ratio_text (sum_list vs) n)) n,
            frozen_row metric A_P50 (VInt (percentile_of vs 50)) n,
            frozen_row metric A_P95 (VInt (percentile_of vs 95)) n,
            frozen_row metric A_P99 (VInt (percentile_of vs 99)) n])"

definition rate_row :: "metric_id \<Rightarrow> execution_record \<Rightarrow> int \<Rightarrow> int \<Rightarrow> measurement" where
  "rate_row metric x amount n =
     frozen_row metric A_RATE
       (VDec (ratio_text (amount * nanoseconds_per_second) (ex_measurement_window_ns x))) n"

definition expected_rows :: "execution_record \<Rightarrow> request_record list \<Rightarrow> measurement list" where
  "expected_rows x rs =
     (let n = int (length rs); s = int (length (successful_records rs));
          f = int (length (failed_records rs)) in
      [frozen_row MEASURED_REQUEST_COUNT A_COUNT (VInt n) n,
       frozen_row SUCCESSFUL_REQUEST_COUNT A_COUNT (VInt s) s,
       frozen_row FAILED_REQUEST_COUNT A_COUNT (VInt f) f,
       frozen_row ERROR_RATE A_RATIO (VDec (ratio_text f n)) n]
      @ latency_rows TTFT_NS (ttft_values rs)
      @ latency_rows LAST_CHOICES_EVENT_SPAN_NS (choices_spans rs)
      @ [rate_row ATTEMPTED_REQUEST_THROUGHPUT x n n,
         rate_row SUCCESSFUL_REQUEST_THROUGHPUT x s s,
         rate_row OUTPUT_TOKEN_THROUGHPUT x
           (sum_list (map rr_output_tokens (successful_records rs))) s])"

lemma quantile_frozen:
  assumes "metric \<in> {TTFT_NS, LAST_CHOICES_EVENT_SPAN_NS}" "is_quantile agg" "0 \<le> v" "0 < n"
  shows "check_measurement (frozen_row metric agg (VInt v) n) = Inr ()"
  by (rule check_frozen_row) (use assms in \<open>auto simp: value_in_domain_def is_quantile_def\<close>)

lemma percentile_mem:
  assumes "vs \<noteq> []" "1 \<le> p" "p \<le> 100"
  shows "percentile_of vs p \<in> set vs"
  using nearest_rank_mem [OF nearest_rank_percentile [OF assms]] .

lemma latency_measurements_frozen:
  assumes m: "metric \<in> {TTFT_NS, LAST_CHOICES_EVENT_SPAN_NS}" and nonneg: "\<forall>v \<in> set vs. 0 \<le> v"
  shows "latency_measurements frozen_map metric vs = Inr (latency_rows metric vs)"
proof (cases "vs = []")
  case True
  then show ?thesis by (simp add: latency_measurements_def latency_rows_def)
next
  case False
  then have n: "0 < int (length vs)" by simp
  have mean: "ratio_measurement frozen_map metric A_MEAN (sum_list vs) (int (length vs))
      (int (length vs)) = Inr (frozen_row metric A_MEAN
        (VDec (ratio_text (sum_list vs) (int (length vs)))) (int (length vs)))"
    by (rule ratio_measurement_frozen) (use m n nonneg in \<open>auto intro: sum_list_nonneg\<close>)
  have quantile: "make_measurement frozen_map metric agg (VInt (percentile_of vs p)) (int (length vs))
      = Inr (frozen_row metric agg (VInt (percentile_of vs p)) (int (length vs)))"
    if "is_quantile agg" "1 \<le> p" "p \<le> 100" for agg p
    using that percentile_mem [OF False that(2,3)] nonneg
    by (intro make_measurement_frozen quantile_frozen [OF m _ _ n]) auto
  show ?thesis
    using False
    by (simp add: latency_measurements_def latency_rows_def Let_def mean quantile_percentiles_def
        nearest_rank_percentile numeric_def quantile is_quantile_def)
qed

lemma success_failed_partition:
  "length (successful_records rs) + length (failed_records rs) = length rs"
  by (simp add: successful_records_def failed_records_def sum_length_filter_compl)

lemma valid_latencies:
  assumes "\<forall>r \<in> set rs. check_request_record sha r = Inr ()"
  shows "\<forall>v \<in> set (ttft_values rs). 0 \<le> v" "\<forall>v \<in> set (choices_spans rs). 0 \<le> v"
  using assms valid_record_ttft
  by (fastforce simp: ttft_values_def choices_spans_def successful_records_def map_filter_def
      intro!: add_nonneg_nonneg sum_list_nonneg)+

lemma valid_tokens_nonneg:
  assumes "\<forall>r \<in> set rs. check_request_record sha r = Inr ()"
  shows "0 \<le> sum_list (map rr_output_tokens (successful_records rs))"
  using assms valid_record_tokens
  by (fastforce simp: successful_records_def intro!: sum_list_nonneg)

lemma measurement_rows_frozen:
  assumes "check_execution x = Inr ()" and "\<forall>r \<in> set rs. check_request_record sha r = Inr ()"
    and "rs \<noteq> []"
  shows "measurement_rows frozen_map x rs = Inr (expected_rows x rs)"
proof -
  have window: "0 < ex_measurement_window_ns x" using valid_execution_window [OF assms(1)] by simp
  have "ratio_measurement frozen_map ERROR_RATE A_RATIO (int (length (failed_records rs)))
      (int (length rs)) (int (length rs)) = Inr (frozen_row ERROR_RATE A_RATIO
        (VDec (ratio_text (int (length (failed_records rs))) (int (length rs)))) (int (length rs)))"
    by (rule ratio_measurement_frozen)
      (use success_failed_partition [of rs] assms(3) in \<open>simp_all\<close>)
  moreover have "ratio_measurement frozen_map metric A_RATE (k * nanoseconds_per_second)
      (ex_measurement_window_ns x) n = Inr (rate_row metric x k n)"
    if "metric \<in> {ATTEMPTED_REQUEST_THROUGHPUT, SUCCESSFUL_REQUEST_THROUGHPUT,
        OUTPUT_TOKEN_THROUGHPUT}" "0 \<le> k" "0 \<le> n" for metric k n
    unfolding rate_row_def
    by (rule ratio_measurement_frozen) (use that window in \<open>auto simp: nanoseconds_per_second_def\<close>)
  moreover note latency_measurements_frozen [OF _ valid_latencies(1) [OF assms(2)], of TTFT_NS]
    latency_measurements_frozen [OF _ valid_latencies(2) [OF assms(2)],
      of LAST_CHOICES_EVENT_SPAN_NS]
  ultimately show ?thesis
    using valid_tokens_nonneg [OF assms(2)]
    by (simp add: measurement_rows_def count_rows_def throughput_rows_def expected_rows_def Let_def
        count_measurement_frozen)
qed

text \<open>Every row any definition map yields has passed the measurement validator.\<close>

lemma make_measurement_valid:
  "make_measurement dm metric agg v n = Inr m \<Longrightarrow> check_measurement m = Inr ()"
  by (auto simp: make_measurement_def Let_def split: option.splits sum.splits)

lemma latency_measurements_valid:
  assumes "latency_measurements dm metric vs = Inr ms"
  shows "list_all (\<lambda>m. check_measurement m = Inr ()) ms"
  using assms
  by (auto simp: latency_measurements_def ratio_measurement_def quantile_percentiles_def result_simps
      make_measurement_valid split: if_splits)

lemma measurement_rows_valid:
  assumes "measurement_rows dm x rs = Inr ms"
  shows "list_all (\<lambda>m. check_measurement m = Inr ()) ms"
  using assms
  by (auto simp: measurement_rows_def count_rows_def throughput_rows_def ratio_measurement_def
      count_measurement_def Let_def result_simps make_measurement_valid latency_measurements_valid)

lemma distinct_rows: "distinct (map (\<lambda>m. (me_metric m, me_aggregation m)) (expected_rows x rs))"
  by (simp add: expected_rows_def Let_def latency_rows_def rate_row_def)


definition sample_record :: "int \<Rightarrow> request_status \<Rightarrow> int option \<Rightarrow> request_record" where
  "sample_record i st ttft =
     \<lparr>rr_run_id = ''run'', rr_request_id = ''req-'' @ zpad 8 (nat i),
      rr_producer_request_id = ''p'', rr_sequence_index = i, rr_native_path = ''native'',
      rr_native_index = i, rr_producer = VllmProducerSemantics ''1'' ''f'', rr_input_tokens = 4,
      rr_output_tokens = 3, rr_start_offset_ns = 0, rr_ttft_ns = ttft,
      rr_itl_ns = (if ttft = None then [] else [5, 7]), rr_status = st,
      rr_producer_error = (if st = RS_FAILED then Some ''e'' else None), rr_prompt_sha256 = ''s'',
      rr_response_sha256 = Some ''s'', rr_response_content = None\<rparr>"

definition sample_records :: "request_record list" where
  "sample_records =
     [sample_record 0 RS_SUCCESS (Some 100), sample_record 1 RS_FAILED None,
      sample_record 2 RS_SUCCESS (Some 300)]"

definition sample_phase :: "phase_name \<Rightarrow> int \<Rightarrow> phase_event" where
  "sample_phase ph t =
     \<lparr>pe_phase = ph, pe_timing_status = OBSERVED, pe_started_at = Some t, pe_ended_at = Some (t + 1),
      pe_configured_request_count = None\<rparr>"

definition sample_execution :: execution_record where
  "sample_execution =
     \<lparr>ex_run_id = ''run'', ex_started_at = 0, ex_ended_at = 9,
      ex_monotonic_clock_domain_id = ''clock'',
      ex_configured_traffic = ConcurrentTraffic 1 0 3, ex_measurement_window_ns = 2000000000,
      ex_window_definition = VLLM_BENCHMARK_DURATION_V0_26, ex_producer_exit_status = 0,
      ex_native_result_sha256 = ''s'',
      ex_phases = [sample_phase PH_PREFLIGHT 0, sample_phase PH_WARMUP 1,
        sample_phase PH_MEASURING 3, sample_phase PH_FINALIZING 5]\<rparr>"

definition sample_codec :: reduction_codec where
  "sample_codec = \<lparr>rc_record = rr_request_id, rc_execution = ex_run_id, rc_definitions = \<lambda>_. [],
     rc_measurements = mm_run_id, rc_sha256 = (\<lambda>s. s)\<rparr>"

lemma sample_valid:
  "check_execution sample_execution = Inr ()"
  "\<forall>r \<in> set sample_records. check_request_record id r = Inr ()"
  "validate_population sample_execution sample_records = Inr ()"
  by code_simp+


lemma check_rows_iff:
  "check_rows x p i rs = Inr () \<longleftrightarrow>
     (\<forall>r \<in> set rs. rr_run_id r = ex_run_id x \<and> rr_producer r = p)
     \<and> map rr_sequence_index rs = map (\<lambda>k. i + int k) [0..<length rs]"
proof (induction rs arbitrary: i)
  case Nil
  then show ?case by simp
next
  case (Cons r rs)
  have "map (\<lambda>k. i + int k) [0..<length (r # rs)] = i # map (\<lambda>k. i + 1 + int k) [0..<length rs]"
    by (simp add: upt_conv_Cons del: upt_Suc flip: map_Suc_upt)
  then show ?case using Cons [of "i + 1"] by auto
qed

lemma check_rows_zero:
  "check_rows x p 0 rs = Inr () \<longleftrightarrow>
     (\<forall>r \<in> set rs. rr_run_id r = ex_run_id x \<and> rr_producer r = p)
     \<and> map rr_sequence_index rs = map int [0..<length rs]"
  by (simp add: check_rows_iff)

text \<open>
  The population check accepts exactly the complete, contiguous, single-run, single-producer
  populations of the configured size whose producer matches the window definition.
\<close>

theorem validate_population_iff:
  "validate_population x rs = Inr () \<longleftrightarrow>
     rs \<noteq> [] \<and> int (length rs) = measured_requests (ex_configured_traffic x)
     \<and> map rr_sequence_index rs = map int [0..<length rs]
     \<and> list_all (\<lambda>r. rr_run_id r = ex_run_id x \<and> rr_producer r = rr_producer (hd rs)
          \<and> is_fake_producer (rr_producer r)
              = (ex_window_definition x = FAKE_MEASUREMENT_WINDOW_V1)) rs"
proof (cases rs)
  case Nil
  then show ?thesis by (simp add: validate_population_def)
next
  case (Cons r rest)
  have "validate_population x rs = Inr () \<longleftrightarrow>
      int (length rs) = measured_requests (ex_configured_traffic x)
      \<and> (is_fake_producer (rr_producer r)
           \<longleftrightarrow> ex_window_definition x = FAKE_MEASUREMENT_WINDOW_V1)
      \<and> check_rows x (rr_producer r) 0 rs = Inr ()"
    by (auto simp: validate_population_def Cons simp del: check_rows.simps)
  moreover have "rr_producer r = rr_producer (hd rs)" "r \<in> set rs" by (simp_all add: Cons)
  ultimately show ?thesis unfolding check_rows_zero list_all_iff by (metis list.discI Cons)
qed

lemma percentile_of_mono:
  assumes "vs \<noteq> []" "1 \<le> p" "p \<le> q" "q \<le> 100"
  shows "percentile_of vs p \<le> percentile_of vs q"
proof -
  have n: "1 \<le> int (length vs)" using assms(1) by (simp add: Suc_le_eq)
  have "(p * int (length vs) + 99) div 100 \<le> (q * int (length vs) + 99) div 100"
    using assms(3) n by (intro zdiv_mono1 add_right_mono mult_right_mono) auto
  then show ?thesis
    unfolding percentile_of_def
    using rank_bounds [of q "int (length vs)"] assms n
    by (intro sorted_nth_mono) (auto intro!: nat_mono)
qed

text \<open>
  Among the rows of a reduced run the latency percentiles are ordered, p50 at most p95 at most
  p99, for both latency metrics.
\<close>

theorem latency_percentiles_ordered:
  assumes "latency_measurements frozen_map metric vs = Inr [mean, p50, p95, p99]"
  shows "\<exists>a b c. me_value p50 = VInt a \<and> me_value p95 = VInt b \<and> me_value p99 = VInt c \<and> a \<le> b \<and> b \<le> c
    \<and> {a, b, c} \<subseteq> set vs"
proof -
  have ne: "vs \<noteq> []" using assms by (auto simp: latency_measurements_def)
  have "[p50, p95, p99] = [frozen_row metric A_P50 (VInt (percentile_of vs 50)) (int (length vs)),
      frozen_row metric A_P95 (VInt (percentile_of vs 95)) (int (length vs)),
      frozen_row metric A_P99 (VInt (percentile_of vs 99)) (int (length vs))]"
    using assms ne
    by (auto simp: latency_measurements_def quantile_percentiles_def nearest_rank_percentile
        numeric_def make_measurement_frozen_map result_simps split: sum.splits)
  then show ?thesis
    using percentile_of_mono [OF ne, of 50 95] percentile_of_mono [OF ne, of 95 99]
      percentile_mem [OF ne] by auto
qed

theorem latency_percentiles_ordered_witness:
  "\<exists>a b c. me_value (frozen_row TTFT_NS A_P50 (VInt 20) 3) = VInt a
    \<and> me_value (frozen_row TTFT_NS A_P95 (VInt 30) 3) = VInt b
    \<and> me_value (frozen_row TTFT_NS A_P99 (VInt 30) 3) = VInt c \<and> a \<le> b \<and> b \<le> c
    \<and> {a, b, c} \<subseteq> set [30, 10, 20]"
  by (rule latency_percentiles_ordered
      [of TTFT_NS "[30, 10, 20]" "frozen_row TTFT_NS A_MEAN (VDec (ratio_text 60 3)) 3"])
    (subst latency_measurements_frozen; simp add: latency_rows_def percentile_of_def)

end
