(* ===== verification/RunStates.thy ===== *)
theory RunStates
  imports Prelude
begin

text \<open>
  The run lifecycle of \<open>domain/states.py\<close>: the state enumerations, the frozen transition graph and
  its guard. The lemmas give the graph a depth that every transition strictly increases, which
  bounds every history and makes terminal states absorbing.
\<close>

datatype run_state =
    CREATED | PREFLIGHT | WARMUP | MEASURING | FINALIZING | COMPLETE | FAILED | INTERRUPTED

datatype integrity_status = NOT_CHECKED | VALID | INVALID

definition terminal_states :: "run_state list" where
  "terminal_states = [COMPLETE, FAILED, INTERRUPTED]"

fun allowed_transitions :: "run_state \<Rightarrow> run_state list" where
  "allowed_transitions CREATED = [PREFLIGHT, FAILED, INTERRUPTED]"
| "allowed_transitions PREFLIGHT = [WARMUP, FAILED, INTERRUPTED]"
| "allowed_transitions WARMUP = [MEASURING, FAILED, INTERRUPTED]"
| "allowed_transitions MEASURING = [FINALIZING, FAILED, INTERRUPTED]"
| "allowed_transitions FINALIZING = [COMPLETE, FAILED, INTERRUPTED]"
| "allowed_transitions COMPLETE = []"
| "allowed_transitions FAILED = []"
| "allowed_transitions INTERRUPTED = []"

datatype transition_error = InvalidTransition run_state run_state

definition is_terminal_run_state :: "run_state \<Rightarrow> bool" where
  "is_terminal_run_state s \<longleftrightarrow> s \<in> set terminal_states"

definition validate_run_transition ::
  "run_state \<Rightarrow> run_state \<Rightarrow> (transition_error, unit) res" where
  "validate_run_transition current target =
     raise_if (target \<notin> set (allowed_transitions current)) (InvalidTransition current target)"

fun state_name :: "run_state \<Rightarrow> string" where
  "state_name CREATED = ''CREATED''"
| "state_name PREFLIGHT = ''PREFLIGHT''"
| "state_name WARMUP = ''WARMUP''"
| "state_name MEASURING = ''MEASURING''"
| "state_name FINALIZING = ''FINALIZING''"
| "state_name COMPLETE = ''COMPLETE''"
| "state_name FAILED = ''FAILED''"
| "state_name INTERRUPTED = ''INTERRUPTED''"

section \<open>Depth of the graph\<close>

fun depth :: "run_state \<Rightarrow> nat" where
  "depth CREATED = 0"
| "depth PREFLIGHT = 1"
| "depth WARMUP = 2"
| "depth MEASURING = 3"
| "depth FINALIZING = 4"
| "depth s = 5"

lemma transition_depth: "validate_run_transition s t = Inr () \<Longrightarrow> depth s < depth t"
  by (cases s) (auto simp: validate_run_transition_def)

lemma depth_le: "depth s \<le> 5"
  by (cases s) simp_all

lemma terminal_no_transition:
  "is_terminal_run_state s \<longleftrightarrow> (\<forall>t. validate_run_transition s t \<noteq> Inr ())"
  by (cases s) (auto simp: validate_run_transition_def is_terminal_run_state_def terminal_states_def)

lemma complete_only_from_finalizing:
  "validate_run_transition s COMPLETE = Inr () \<longleftrightarrow> s = FINALIZING"
  by (cases s) (simp_all add: validate_run_transition_def)

end
