(* ===== verification/Workspace.thy ===== *)
theory Workspace
  imports RunStates "HOL-Library.List_Lexorder" "HOL-Library.Char_ord"
begin

text \<open>
  The run workspace of \<open>workspace/run_workspace.py\<close>: the state events, the frozen inputs, the
  validated snapshot and the atomic transition. The directory is a record: the frozen input files,
  the event files in whatever order the directory lists them, and the snapshot \<open>state.json\<close>. File
  contents have an abstract type \<open>'c\<close>: the code only compares, measures, parses and canonicalises
  them. Parsing (JSON and the field types), RFC 8785 and SHA-256 are third-party code, gathered in
  the parameter record \<open>workspace_codec\<close>. The optional work budget and the lock file are left out;
  a file that changes while it is read is not modelled.
\<close>

section \<open>Records and their validators\<close>

record frozen_input_descriptor =
  fi_path :: string
  fi_size_bytes :: int
  fi_sha256 :: string

record resolution_metadata =
  rm_run_id :: string
  rm_source_spec_digest :: string
  rm_execution_fingerprint :: string
  rm_request_plan_digest :: string
  rm_frozen_inputs :: "frozen_input_descriptor list"

record state_record =
  sr_run_id :: string
  sr_sequence_index :: int
  sr_previous_state :: "run_state option"
  sr_state :: run_state
  sr_integrity_status :: integrity_status
  sr_occurred_at :: int

datatype workspace_error =
    FileMissing | FileUnbounded | InputNotDeclared | InputWritable | InputSizeChanged
  | InputDigestChanged | UnexpectedInputSet | MetadataInvalid | DirectoryMismatch
  | InitialNotCreated | PredecessorRequired | CompleteNeedsValid | ValidReserved | IndexNegative
  | StateInvalid | StateOtherRun | HistoryTooLong | HistoryIncomplete | EventInvalid
  | EventOrdering | EventOtherRun | EventNotCanonical | PredecessorInvalid | HistoryInvalid
  | HistoryBackward | SnapshotDisagrees | TransitionRefused transition_error
  | CompleteUnverified | TimestampBackward | PersistenceFailed | AlreadyReserved

definition input_paths :: "string list" where
  "input_paths = [''inputs/experiment.original.yaml'', ''inputs/workload.source.jsonl'',
     ''inputs/experiment.resolved.json'', ''inputs/request-plan.json'']"

definition check_metadata :: "resolution_metadata \<Rightarrow> (workspace_error, unit) res" where
  "check_metadata m =
     (if \<exists>d \<in> set (rm_frozen_inputs m). fi_size_bytes d < 0 then Inl MetadataInvalid
      else raise_if (map fi_path (rm_frozen_inputs m) \<noteq> input_paths) UnexpectedInputSet)"

definition check_state_record :: "state_record \<Rightarrow> (workspace_error, unit) res" where
  "check_state_record r =
     (if sr_sequence_index r < 0 then Inl IndexNegative
      else if sr_sequence_index r = 0 \<and> (sr_previous_state r \<noteq> None \<or> sr_state r \<noteq> CREATED)
      then Inl InitialNotCreated
      else if sr_sequence_index r \<noteq> 0 \<and> sr_previous_state r = None then Inl PredecessorRequired
      else if sr_state r = COMPLETE
      then raise_if (sr_integrity_status r \<noteq> VALID) CompleteNeedsValid
      else raise_if (sr_integrity_status r = VALID) ValidReserved)"

section \<open>The directory\<close>

datatype 'c node = RegularFile 'c | OtherNode

record 'c input_file =
  if_node :: "'c node"
  if_writable :: bool

record 'c workspace_dir =
  wd_metadata :: resolution_metadata
  wd_inputs :: "string \<rightharpoonup> 'c input_file"
  wd_events :: "(string \<times> 'c node) list"
  wd_snapshot :: "'c node option"

record 'c workspace_codec =
  wc_size :: "'c \<Rightarrow> int"
  wc_sha256 :: "'c \<Rightarrow> string"
  wc_canonical :: "state_record \<Rightarrow> 'c"
  wc_parse :: "'c \<Rightarrow> state_record option"

definition max_control_file_bytes :: int where
  "max_control_file_bytes = 1048576"

definition max_lifecycle_events :: nat where
  "max_lifecycle_events = 6"

definition read_regular ::
  "'c workspace_codec \<Rightarrow> int \<Rightarrow> 'c node option \<Rightarrow> (workspace_error, 'c) res" where
  "read_regular k limit f =
     (case f of
        None \<Rightarrow> Inl FileMissing
      | Some OtherNode \<Rightarrow> Inl FileUnbounded
      | Some (RegularFile c) \<Rightarrow> if limit < wc_size k c then Inl FileUnbounded else Inr c)"

section \<open>Frozen inputs\<close>

definition read_frozen_input ::
  "'c workspace_codec \<Rightarrow> 'c workspace_dir \<Rightarrow> string \<Rightarrow> (workspace_error, 'c) res" where
  "read_frozen_input k w p =
     (case List.find (\<lambda>d. fi_path d = p) (rm_frozen_inputs (wd_metadata w)) of
        None \<Rightarrow> Inl InputNotDeclared
      | Some expected \<Rightarrow>
          (case wd_inputs w (fi_path expected) of
             None \<Rightarrow> Inl FileMissing
           | Some f \<Rightarrow>
               if if_node f = OtherNode then Inl FileUnbounded
               else if if_writable f then Inl InputWritable
               else rbind (read_regular k (fi_size_bytes expected + 1) (Some (if_node f))) (\<lambda>c.
                 if wc_size k c \<noteq> fi_size_bytes expected then Inl InputSizeChanged
                 else if wc_sha256 k c \<noteq> fi_sha256 expected then Inl InputDigestChanged
                 else Inr c)))"

definition verify_frozen_inputs ::
  "'c workspace_codec \<Rightarrow> 'c workspace_dir \<Rightarrow> (workspace_error, unit) res" where
  "verify_frozen_inputs k w =
     rbind (res_map (\<lambda>d. read_frozen_input k w (fi_path d)) (rm_frozen_inputs (wd_metadata w)))
       (\<lambda>_. Inr ())"

section \<open>The validated state\<close>

text \<open>\<open>WorkspaceStateRecord.model_validate_json\<close>: the parse, then the record's validator.\<close>

definition parse_record ::
  "'c workspace_codec \<Rightarrow> workspace_error \<Rightarrow> 'c \<Rightarrow> (workspace_error, state_record) res" where
  "parse_record k e c =
     (case wc_parse k c of
        None \<Rightarrow> Inl e
      | Some r \<Rightarrow> (case check_state_record r of Inl _ \<Rightarrow> Inl e | Inr _ \<Rightarrow> Inr r))"

definition event_name :: "nat \<Rightarrow> run_state \<Rightarrow> string" where
  "event_name i s = zpad 8 i @ ''-'' @ state_name s @ ''.json''"

definition check_successor ::
  "state_record option \<Rightarrow> state_record \<Rightarrow> (workspace_error, unit) res" where
  "check_successor previous e =
     (case previous of
        None \<Rightarrow> Inr ()
      | Some p \<Rightarrow>
          if sr_previous_state e \<noteq> Some (sr_state p) then Inl PredecessorInvalid
          else if validate_run_transition (sr_state p) (sr_state e) \<noteq> Inr () then Inl HistoryInvalid
          else raise_if (sr_occurred_at e < sr_occurred_at p) HistoryBackward)"

fun verify_events ::
  "'c workspace_codec \<Rightarrow> string \<Rightarrow> nat \<Rightarrow> (state_record \<times> 'c) option \<Rightarrow> (string \<times> 'c node) list
     \<Rightarrow> (workspace_error, (state_record \<times> 'c) option) res"
where
  "verify_events k run i previous [] = Inr previous"
| "verify_events k run i previous ((name, f) # rest) =
     rbind (read_regular k max_control_file_bytes (Some f)) (\<lambda>c.
     rbind (parse_record k EventInvalid c) (\<lambda>e.
       if name \<noteq> event_name i (sr_state e) \<or> sr_sequence_index e \<noteq> int i then Inl EventOrdering
       else if sr_run_id e \<noteq> run then Inl EventOtherRun
       else if c \<noteq> wc_canonical k e then Inl EventNotCanonical
       else rbind (check_successor (map_option fst previous) e) (\<lambda>_.
         verify_events k run (Suc i) (Some (e, c)) rest)))"

definition current_state ::
  "'c workspace_codec \<Rightarrow> 'c workspace_dir \<Rightarrow> (workspace_error, state_record) res" where
  "current_state k w =
     rbind (read_regular k max_control_file_bytes (wd_snapshot w)) (\<lambda>content.
     rbind (parse_record k StateInvalid content) (\<lambda>state.
       if sr_run_id state \<noteq> rm_run_id (wd_metadata w) then Inl StateOtherRun
       else if max_lifecycle_events < length (wd_events w) then Inl HistoryTooLong
       else if int (length (wd_events w)) \<noteq> sr_sequence_index state + 1 then Inl HistoryIncomplete
       else rbind (verify_events k (rm_run_id (wd_metadata w)) 0 None (sort_key fst (wd_events w)))
         (\<lambda>latest. if latest \<noteq> Some (state, content) then Inl SnapshotDisagrees else Inr state)))"

definition open_workspace ::
  "'c workspace_codec \<Rightarrow> string \<Rightarrow> 'c workspace_dir \<Rightarrow> (workspace_error, unit) res" where
  "open_workspace k directory_name w =
     (case check_metadata (wd_metadata w) of
        Inl _ \<Rightarrow> Inl MetadataInvalid
      | Inr _ \<Rightarrow>
          if directory_name \<noteq> rm_run_id (wd_metadata w) then Inl DirectoryMismatch
          else rbind (verify_frozen_inputs k w) (\<lambda>_.
               rbind (current_state k w) (\<lambda>_. Inr ())))"

section \<open>Reservation and transition\<close>

record 'c resolution =
  rs_run_id :: string
  rs_source_spec_digest :: string
  rs_execution_fingerprint :: string
  rs_request_plan_digest :: string
  rs_payloads :: "'c \<times> 'c \<times> 'c \<times> 'c"

definition input_payloads :: "'c resolution \<Rightarrow> (string \<times> 'c) list" where
  "input_payloads r =
     (case rs_payloads r of (source, workload, spec, plan) \<Rightarrow>
        zip input_paths [source, workload, spec, plan])"

definition initial_record :: "string \<Rightarrow> int \<Rightarrow> state_record" where
  "initial_record run t =
     \<lparr>sr_run_id = run, sr_sequence_index = 0, sr_previous_state = None, sr_state = CREATED,
      sr_integrity_status = NOT_CHECKED, sr_occurred_at = t\<rparr>"

text \<open>\<open>reserve\<close> on a runs root that holds \<open>existing\<close> run directories, every write succeeding.\<close>

definition reserve ::
  "'c workspace_codec \<Rightarrow> string set \<Rightarrow> 'c resolution \<Rightarrow> int
     \<Rightarrow> (workspace_error, 'c workspace_dir) res" where
  "reserve k existing r created_at =
     (if rs_run_id r \<in> existing then Inl AlreadyReserved
      else
        let descriptors = map (\<lambda>(p, c). \<lparr>fi_path = p, fi_size_bytes = wc_size k c,
                                          fi_sha256 = wc_sha256 k c\<rparr>) (input_payloads r);
            metadata = \<lparr>rm_run_id = rs_run_id r,
                        rm_source_spec_digest = rs_source_spec_digest r,
                        rm_execution_fingerprint = rs_execution_fingerprint r,
                        rm_request_plan_digest = rs_request_plan_digest r,
                        rm_frozen_inputs = descriptors\<rparr>;
            initial = wc_canonical k (initial_record (rs_run_id r) created_at);
            w = \<lparr>wd_metadata = metadata,
                 wd_inputs = map_of (map (\<lambda>(p, c).
                   (p, \<lparr>if_node = RegularFile c, if_writable = False\<rparr>)) (input_payloads r)),
                 wd_events = [(''00000000-CREATED.json'', RegularFile initial)],
                 wd_snapshot = Some (RegularFile initial)\<rparr>
        in rbind (check_metadata metadata) (\<lambda>_. rbind (verify_frozen_inputs k w) (\<lambda>_. Inr w)))"

text \<open>
  What the file system does to the two writes of a transition: both succeed, the event file cannot
  be created, its content is cut short, or the snapshot is not replaced.
\<close>

datatype 'c io_outcome = IoOk | EventNotCreated | EventTruncated 'c | SnapshotNotReplaced

definition next_record ::
  "state_record \<Rightarrow> string \<Rightarrow> run_state \<Rightarrow> int \<Rightarrow> integrity_status \<Rightarrow> state_record" where
  "next_record current run target t integrity =
     \<lparr>sr_run_id = run, sr_sequence_index = sr_sequence_index current + 1,
      sr_previous_state = Some (sr_state current), sr_state = target,
      sr_integrity_status = integrity, sr_occurred_at = t\<rparr>"

definition persist ::
  "'c io_outcome \<Rightarrow> string \<Rightarrow> 'c \<Rightarrow> 'c workspace_dir \<Rightarrow> 'c workspace_dir \<times> bool" where
  "persist io name c w =
     (if name \<in> set (map fst (wd_events w)) then (w, False)
      else (case io of
          EventNotCreated \<Rightarrow> (w, False)
        | EventTruncated c' \<Rightarrow> (w\<lparr>wd_events := (name, RegularFile c') # wd_events w\<rparr>, False)
        | SnapshotNotReplaced \<Rightarrow> (w\<lparr>wd_events := (name, RegularFile c) # wd_events w\<rparr>, False)
        | IoOk \<Rightarrow> (w\<lparr>wd_events := (name, RegularFile c) # wd_events w,
                   wd_snapshot := Some (RegularFile c)\<rparr>, True)))"

text \<open>The checks a transition makes under the lock, before it writes.\<close>

definition transition_guard ::
  "'c workspace_codec \<Rightarrow> run_state \<Rightarrow> int \<Rightarrow> integrity_status \<Rightarrow> 'c workspace_dir
     \<Rightarrow> (workspace_error, state_record) res" where
  "transition_guard k target t integrity w =
     rbind (current_state k w) (\<lambda>current.
     rbind (verify_frozen_inputs k w) (\<lambda>_.
       case validate_run_transition (sr_state current) target of
         Inl e \<Rightarrow> Inl (TransitionRefused e)
       | Inr _ \<Rightarrow>
           if target = COMPLETE \<and> integrity \<noteq> VALID then Inl CompleteUnverified
           else if target \<noteq> COMPLETE \<and> integrity = VALID then Inl ValidReserved
           else if t < sr_occurred_at current then Inl TimestampBackward
           else Inr current))"

text \<open>The directory after the call, and the record returned or the exception.\<close>

definition transition ::
  "'c workspace_codec \<Rightarrow> 'c io_outcome \<Rightarrow> run_state \<Rightarrow> int \<Rightarrow> integrity_status \<Rightarrow> 'c workspace_dir
     \<Rightarrow> 'c workspace_dir \<times> (workspace_error, state_record) res" where
  "transition k io target t integrity w =
     (case transition_guard k target t integrity w of
        Inl e \<Rightarrow> (w, Inl e)
      | Inr current \<Rightarrow>
          let r = next_record current (rm_run_id (wd_metadata w)) target t integrity;
              (w', written) = persist io (event_name (nat (sr_sequence_index r)) target)
                                (wc_canonical k r) w
          in (w', if written then Inr r else Inl PersistenceFailed))"

section \<open>Abstract specification: a history of events\<close>

text \<open>
  A workspace stands for its history: the list of state records, each a legal successor of the one
  before. A directory represents a history when its events are the canonical records of the history,
  in any directory order, and its snapshot is the last of them.
\<close>

fun chain :: "string \<Rightarrow> nat \<Rightarrow> state_record option \<Rightarrow> state_record list \<Rightarrow> bool" where
  "chain run i p [] \<longleftrightarrow> True"
| "chain run i p (e # es) \<longleftrightarrow>
     check_state_record e = Inr () \<and> sr_sequence_index e = int i \<and> sr_run_id e = run
     \<and> check_successor p e = Inr () \<and> chain run (Suc i) (Some e) es"

definition is_history :: "string \<Rightarrow> state_record list \<Rightarrow> bool" where
  "is_history run h \<longleftrightarrow> h \<noteq> [] \<and> chain run 0 None h"

definition event_entry :: "'c workspace_codec \<Rightarrow> state_record \<Rightarrow> string \<times> 'c node" where
  "event_entry k e =
     (event_name (nat (sr_sequence_index e)) (sr_state e), RegularFile (wc_canonical k e))"

definition represents :: "'c workspace_codec \<Rightarrow> 'c workspace_dir \<Rightarrow> state_record list \<Rightarrow> bool" where
  "represents k w h \<longleftrightarrow>
     is_history (rm_run_id (wd_metadata w)) h
     \<and> mset (wd_events w) = mset (map (event_entry k) h)
     \<and> wd_snapshot w = Some (RegularFile (wc_canonical k (last h)))"

text \<open>
  What the code relies on of the third-party parser and encoder: a valid record is read back from
  its canonical bytes, and those bytes respect the control-file limit.
\<close>

definition codec_ok :: "'c workspace_codec \<Rightarrow> bool" where
  "codec_ok k \<longleftrightarrow>
     (\<forall>r. check_state_record r = Inr () \<longrightarrow>
        wc_parse k (wc_canonical k r) = Some r \<and> wc_size k (wc_canonical k r) \<le> max_control_file_bytes)"

lemma chain_append:
  "chain run i p (xs @ ys) \<longleftrightarrow> chain run i p xs
     \<and> chain run (i + length xs) (if xs = [] then p else Some (last xs)) ys"
  by (induction xs arbitrary: i p) auto

lemma chain_depth: "chain run i (Some p) es \<Longrightarrow> depth (sr_state p) + length es \<le> 5"
proof (induction es arbitrary: i p)
  case Nil
  then show ?case by (simp add: depth_le)
next
  case (Cons e es)
  have "depth (sr_state e) + length es \<le> 5"
    using Cons.IH [of "Suc i" e] Cons.prems by simp
  moreover have "depth (sr_state p) < depth (sr_state e)"
    using Cons.prems by (intro transition_depth) (auto simp: check_successor_def split: if_splits)
  ultimately show ?case by simp
qed

lemma history_length: "is_history run h \<Longrightarrow> length h \<le> max_lifecycle_events"
  by (cases h) (auto simp: is_history_def max_lifecycle_events_def dest: chain_depth)

lemma chain_nth:
  "chain run i p h \<Longrightarrow> j < length h \<Longrightarrow>
     sr_sequence_index (h ! j) = int (i + j) \<and> check_state_record (h ! j) = Inr ()
     \<and> sr_run_id (h ! j) = run"
proof (induction h arbitrary: i p j)
  case Nil
  then show ?case by simp
next
  case (Cons e es)
  show ?case
  proof (cases j)
    case 0
    then show ?thesis using Cons.prems by simp
  next
    case (Suc j')
    then show ?thesis using Cons.IH [of "Suc i" "Some e" j'] Cons.prems by simp
  qed
qed

lemma history_last:
  assumes "is_history run h"
  shows "sr_sequence_index (last h) = int (length h) - 1" "check_state_record (last h) = Inr ()"
    "sr_run_id (last h) = run"
  using assms chain_nth [of run 0 None h "length h - 1"]
  by (auto simp: is_history_def last_conv_nth of_nat_diff Suc_le_eq)

lemma zpad_small:
  "zpad 8 0 = ''00000000''" "zpad 8 (Suc 0) = ''00000001''" "zpad 8 2 = ''00000002''"
  "zpad 8 3 = ''00000003''" "zpad 8 4 = ''00000004''" "zpad 8 5 = ''00000005''"
  by code_simp+

lemma char_less_code: "of_char c < (of_char d :: nat) \<Longrightarrow> c < d"
  by (simp add: less_char_def)

lemma event_name_less:
  assumes "i < j" "j < 6"
  shows "event_name i s < event_name j t"
proof -
  have "j \<in> {1, 2, 3, 4, 5}" and "i \<in> {0, 1, 2, 3, 4}" using assms by auto
  then show ?thesis
    using assms(1) by (auto simp: event_name_def zpad_small intro!: char_less_code)
qed

lemma sort_key_unique:
  fixes f :: "'a \<Rightarrow> 'b :: linorder"
  assumes "mset xs = mset ys" "sorted (map f ys)" "distinct (map f ys)"
  shows "sort_key f xs = ys"
proof (rule map_sorted_distinct_set_unique [of f])
  have m: "mset (sort_key f xs) = mset ys" using assms(1) by simp
  then have set: "set (sort_key f xs) = set ys" by (metis set_mset_mset)
  then show "set (sort_key f xs) = set ys" .
  show "inj_on f (set (sort_key f xs) \<union> set ys)" using assms(3) set by (simp add: distinct_map)
  have "mset (map f (sort_key f xs)) = mset (map f ys)" using m by (simp only: mset_map)
  then show "distinct (map f (sort_key f xs))"
    using assms(3) by (metis mset_eq_imp_distinct_iff)
qed (use assms in simp_all)

lemma history_sorted:
  assumes "is_history run h"
  shows "sorted (map fst (map (event_entry k) h))" "distinct (map fst (map (event_entry k) h))"
proof -
  have "fst (event_entry k (h ! i)) < fst (event_entry k (h ! j))" if "i < j" "j < length h" for i j
    using that history_length [OF assms] assms chain_nth [of run 0 None h i]
      chain_nth [of run 0 None h j]
    by (auto simp: event_entry_def is_history_def max_lifecycle_events_def intro!: event_name_less)
  then have "sorted_wrt (<) (map fst (map (event_entry k) h))" by (simp add: sorted_wrt_iff_nth_less)
  then show "sorted (map fst (map (event_entry k) h))" "distinct (map fst (map (event_entry k) h))"
    by (simp_all add: strict_sorted_iff)
qed

lemma represents_sort:
  "represents k w h \<Longrightarrow> sort_key fst (wd_events w) = map (event_entry k) h"
  using history_sorted [of "rm_run_id (wd_metadata w)" h k]
  by (intro sort_key_unique) (simp_all add: represents_def)

lemma parse_record_canonical:
  "codec_ok k \<Longrightarrow> check_state_record r = Inr () \<Longrightarrow> parse_record k e (wc_canonical k r) = Inr r"
  by (simp add: parse_record_def codec_ok_def)

lemma parse_record_Inr:
  "parse_record k e c = Inr r \<longleftrightarrow> wc_parse k c = Some r \<and> check_state_record r = Inr ()"
  by (auto simp: parse_record_def split: option.splits sum.splits)

lemma read_regular_canonical:
  "codec_ok k \<Longrightarrow> check_state_record r = Inr () \<Longrightarrow>
     read_regular k max_control_file_bytes (Some (RegularFile (wc_canonical k r)))
       = Inr (wc_canonical k r)"
  by (simp add: read_regular_def codec_ok_def not_less)

lemma verify_events_sound:
  assumes "verify_events k run i previous es = Inr out"
  shows "\<exists>h. es = map (event_entry k) h \<and> chain run i (map_option fst previous) h
    \<and> out = (if h = [] then previous else Some (last h, wc_canonical k (last h)))"
  using assms
proof (induction k run i previous es rule: verify_events.induct)
  case (1 k run i previous)
  then show ?case by (intro exI [of _ "[]"]) simp
next
  case (2 k run i previous name f rest)
  from "2.prems" obtain c e where c: "read_regular k max_control_file_bytes (Some f) = Inr c"
    and e: "parse_record k EventInvalid c = Inr e"
    and name: "name = event_name i (sr_state e)" "sr_sequence_index e = int i" "sr_run_id e = run"
    and canon: "c = wc_canonical k e"
    and succ: "check_successor (map_option fst previous) e = Inr ()"
    and rest: "verify_events k run (Suc i) (Some (e, c)) rest = Inr out"
    by (auto simp: result_simps split: if_splits)
  from "2.IH" [OF c e _ _ _ succ rest] name canon obtain h where
    h: "rest = map (event_entry k) h" "chain run (Suc i) (Some e) h"
    "out = (if h = [] then Some (e, c) else Some (last h, wc_canonical k (last h)))"
    by auto
  have "f = RegularFile c"
    using c by (auto simp: read_regular_def split: node.splits if_splits)
  then have "(name, f) = event_entry k e" using name canon by (simp add: event_entry_def)
  then show ?case
    using h name canon succ e by (intro exI [of _ "e # h"]) (auto simp: parse_record_Inr)
qed

lemma verify_events_complete:
  assumes "codec_ok k" and "chain run i (map_option fst previous) h"
  shows "verify_events k run i previous (map (event_entry k) h)
    = Inr (if h = [] then previous else Some (last h, wc_canonical k (last h)))"
  using assms(2)
proof (induction h arbitrary: i previous)
  case Nil
  then show ?case by simp
next
  case (Cons e h)
  then show ?case
    using Cons.IH [of "Suc i" "Some (e, wc_canonical k e)"] assms(1)
    by (simp add: event_entry_def read_regular_canonical parse_record_canonical)
qed

lemma current_state_represents:
  assumes "codec_ok k" "represents k w h"
  shows "current_state k w = Inr (last h)"
proof -
  from assms(2) have hist: "is_history (rm_run_id (wd_metadata w)) h"
    and snap: "wd_snapshot w = Some (RegularFile (wc_canonical k (last h)))"
    by (auto simp: represents_def)
  moreover have "length (wd_events w) = length h"
    using assms(2) by (metis represents_def length_map mset_eq_length)
  moreover note history_last [OF hist] history_length [OF hist]
  moreover have "verify_events k (rm_run_id (wd_metadata w)) 0 None (sort_key fst (wd_events w))
      = Inr (Some (last h, wc_canonical k (last h)))"
    using verify_events_complete [OF assms(1), of "rm_run_id (wd_metadata w)" 0 None h] hist
    by (simp add: represents_sort [OF assms(2)] is_history_def)
  ultimately show ?thesis
    by (simp add: current_state_def read_regular_canonical parse_record_canonical assms(1))
qed

lemma current_state_sound:
  assumes "current_state k w = Inr s"
  shows "\<exists>h. represents k w h \<and> s = last h"
proof -
  from assms obtain content where read: "read_regular k max_control_file_bytes (wd_snapshot w) = Inr content"
    and len: "int (length (wd_events w)) = sr_sequence_index s + 1"
    and parse: "parse_record k StateInvalid content = Inr s"
    and ver: "verify_events k (rm_run_id (wd_metadata w)) 0 None (sort_key fst (wd_events w))
      = Inr (Some (s, content))"
    by (auto simp: current_state_def result_simps split: if_splits)
  from verify_events_sound [OF ver] obtain h where h: "sort_key fst (wd_events w) = map (event_entry k) h"
    "chain (rm_run_id (wd_metadata w)) 0 None h"
    "Some (s, content) = (if h = [] then None else Some (last h, wc_canonical k (last h)))"
    by auto
  have "mset (wd_events w) = mset (map (event_entry k) h)" using h(1) by (metis mset_sort)
  moreover have "wd_snapshot w = Some (RegularFile content)"
    using read by (auto simp: read_regular_def split: option.splits node.splits if_splits)
  ultimately show ?thesis
    using h by (intro exI [of _ h]) (auto simp: represents_def is_history_def split: if_splits)
qed

section \<open>Transitions against the specification\<close>

lemma next_record_valid:
  assumes "is_history run h" and "validate_run_transition (sr_state (last h)) target = Inr ()"
    and "(target = COMPLETE) = (integrity = VALID)" and "sr_occurred_at (last h) \<le> t"
  shows "is_history run (h @ [next_record (last h) run target t integrity])"
  using assms history_last [OF assms(1)]
  by (auto simp: is_history_def chain_append next_record_def check_state_record_def
      check_successor_def Suc_le_eq)

lemma event_name_fresh:
  assumes "represents k w h" and "is_history (rm_run_id (wd_metadata w)) (h @ [r])"
  shows "event_name (nat (sr_sequence_index r)) (sr_state r) \<notin> set (map fst (wd_events w))"
proof -
  have "set (map fst (wd_events w)) = set (map fst (map (event_entry k) h))"
    using assms(1) by (metis represents_def set_map set_mset_mset)
  moreover have "fst (event_entry k r) \<notin> set (map fst (map (event_entry k) h))"
    using history_sorted(2) [OF assms(2), of k] by auto
  ultimately show ?thesis by (simp add: event_entry_def)
qed

lemma transition_cases:
  assumes "codec_ok k" "represents k w h"
  obtains (refused) e where "transition k io target t integrity w = (w, Inl e)"
  | (written) r where "is_history (rm_run_id (wd_metadata w)) (h @ [r])"
      "r = next_record (last h) (rm_run_id (wd_metadata w)) target t integrity"
      "verify_frozen_inputs k w = Inr ()"
      "transition k io target t integrity w =
        (case persist io (fst (event_entry k r)) (wc_canonical k r) w of
           (w', ok) \<Rightarrow> (w', if ok then Inr r else Inl PersistenceFailed))"
proof (cases "transition_guard k target t integrity w")
  case (Inl e)
  then show ?thesis by (intro refused) (simp add: transition_def)
next
  case (Inr current)
  then have g: "current = last h" "verify_frozen_inputs k w = Inr ()"
    "validate_run_transition (sr_state (last h)) target = Inr ()"
    "(target = COMPLETE) = (integrity = VALID)" "sr_occurred_at (last h) \<le> t"
    using current_state_represents [OF assms]
    by (auto simp: transition_guard_def result_simps split: sum.splits if_splits)
  have hist: "is_history (rm_run_id (wd_metadata w))
      (h @ [next_record (last h) (rm_run_id (wd_metadata w)) target t integrity])"
    by (rule next_record_valid) (use g assms(2) in \<open>auto simp: represents_def\<close>)
  show ?thesis
    by (rule written [OF hist refl g(2)])
      (simp add: transition_def Inr g(1) event_entry_def next_record_def Let_def split: prod.split)
qed

lemma represents_snoc:
  assumes "represents k w h" "is_history (rm_run_id (wd_metadata w)) (h @ [r])"
  shows "represents k (w\<lparr>wd_events := event_entry k r # wd_events w,
    wd_snapshot := Some (RegularFile (wc_canonical k r))\<rparr>) (h @ [r])"
  using assms by (simp add: represents_def)

text \<open>
  An event without its snapshot: the snapshot still names the previous record, so the directory is
  refused for good.
\<close>

lemma extra_event_refused:
  assumes "codec_ok k" "represents k w h" "is_history (rm_run_id (wd_metadata w)) (h @ [r])"
  shows "current_state k (w\<lparr>wd_events := x # wd_events w\<rparr>) = Inl HistoryIncomplete"
proof -
  from assms(2) have hist: "is_history (rm_run_id (wd_metadata w)) h"
    and snap: "wd_snapshot w = Some (RegularFile (wc_canonical k (last h)))"
    by (auto simp: represents_def)
  moreover have "length (wd_events w) = length h"
    using assms(2) by (metis represents_def length_map mset_eq_length)
  moreover note history_last [OF hist] history_length [OF assms(3)]
  ultimately show ?thesis
    by (simp add: current_state_def read_regular_canonical parse_record_canonical assms(1))
qed

lemma transition_on_refused:
  "current_state k w = Inl e \<Longrightarrow> transition k io target t integrity w = (w, Inl e)"
  by (simp add: transition_def transition_guard_def)



section \<open>Every directory a run can leave behind\<close>

inductive reachable :: "'c workspace_codec \<Rightarrow> 'c workspace_dir \<Rightarrow> 'c workspace_dir \<Rightarrow> bool"
  for k :: "'c workspace_codec" and w0 :: "'c workspace_dir" where
  start: "reachable k w0 w0"
| step: "reachable k w0 w \<Longrightarrow> transition k io target t integrity w = (w', out) \<Longrightarrow>
    reachable k w0 w'"

inductive_cases reachableE: "reachable k w0 w"


section \<open>Reservation\<close>

lemma zero_event_name: "event_name 0 CREATED = ''00000000-CREATED.json''"
  by (simp add: event_name_def zpad_small)

lemma reserve_opens_aux:
  assumes "codec_ok k" and "rs_run_id r \<notin> existing"
    and "\<forall>(p, c) \<in> set (input_payloads r). 0 \<le> wc_size k c"
  shows "\<exists>w. reserve k existing r t = Inr w
    \<and> represents k w [initial_record (rs_run_id r) t]
    \<and> open_workspace k (rs_run_id r) w = Inr ()"
proof -
  obtain a b c d where p: "rs_payloads r = (a, b, c, d)" by (cases "rs_payloads r") auto
  define ps where "ps = input_payloads r"
  have ps: "ps = [(''inputs/experiment.original.yaml'', a), (''inputs/workload.source.jsonl'', b),
      (''inputs/experiment.resolved.json'', c), (''inputs/request-plan.json'', d)]"
    by (simp add: ps_def input_payloads_def p input_paths_def)
  define metadata where "metadata = \<lparr>rm_run_id = rs_run_id r,
      rm_source_spec_digest = rs_source_spec_digest r,
      rm_execution_fingerprint = rs_execution_fingerprint r,
      rm_request_plan_digest = rs_request_plan_digest r,
      rm_frozen_inputs = map (\<lambda>(p, c). \<lparr>fi_path = p, fi_size_bytes = wc_size k c,
        fi_sha256 = wc_sha256 k c\<rparr>) ps\<rparr>"
  define w where "w = \<lparr>wd_metadata = metadata,
      wd_inputs = map_of (map (\<lambda>(p, c). (p, \<lparr>if_node = RegularFile c, if_writable = False\<rparr>)) ps),
      wd_events = [(''00000000-CREATED.json'',
        RegularFile (wc_canonical k (initial_record (rs_run_id r) t)))],
      wd_snapshot = Some (RegularFile (wc_canonical k (initial_record (rs_run_id r) t)))\<rparr>"
  have meta: "check_metadata metadata = Inr ()"
    using assms(3) unfolding ps_def [symmetric]
    by (simp add: check_metadata_def metadata_def ps input_paths_def)
  have inputs: "verify_frozen_inputs k w = Inr ()"
    by (simp add: verify_frozen_inputs_def w_def metadata_def ps read_frozen_input_def
        read_regular_def)
  have rep: "represents k w [initial_record (rs_run_id r) t]"
    by (simp add: represents_def w_def metadata_def is_history_def event_entry_def zero_event_name
        initial_record_def check_state_record_def check_successor_def)
  have "reserve k existing r t = Inr w"
    using assms(2) meta inputs
    unfolding reserve_def Let_def ps_def [symmetric] metadata_def [symmetric] w_def [symmetric]
    by simp
  moreover have "open_workspace k (rs_run_id r) w = Inr ()"
    using meta inputs current_state_represents [OF assms(1) rep]
    by (simp add: open_workspace_def) (simp add: w_def metadata_def)
  ultimately show ?thesis using rep by blast
qed

text \<open>
  Reserving a free run identifier succeeds: the new directory represents the one-event history
  of the \<open>CREATED\<close> record, its four frozen inputs verify, and the workspace opens.
\<close>

theorem reserve_opens:
  assumes "codec_ok k" and "rs_run_id r \<notin> existing"
    and "\<forall>(p, c) \<in> set (input_payloads r). 0 \<le> wc_size k c"
  shows "\<exists>w. reserve k existing r t = Inr w
    \<and> represents k w [initial_record (rs_run_id r) t]
    \<and> open_workspace k (rs_run_id r) w = Inr ()"
  by (rule reserve_opens_aux [OF assms])

text \<open>
  Frozen inputs are tamper evident: when verification succeeds, every declared input is a
  regular, read-only file whose size and digest are the recorded ones.
\<close>

theorem verified_inputs_match:
  assumes "verify_frozen_inputs k w = Inr ()"
    and "List.find (\<lambda>e. fi_path e = p) (rm_frozen_inputs (wd_metadata w)) = Some d"
  shows "\<exists>c. wd_inputs w p = Some \<lparr>if_node = RegularFile c, if_writable = False\<rparr>
    \<and> wc_size k c = fi_size_bytes d \<and> wc_sha256 k c = fi_sha256 d"
proof -
  have d: "d \<in> set (rm_frozen_inputs (wd_metadata w))" "fi_path d = p"
    using assms(2) by (auto simp: find_Some_iff)
  then obtain c where "read_frozen_input k w p = Inr c"
    using assms(1)
    by (auto simp: verify_frozen_inputs_def result_simps res_map_eq_Inr list_all2_conv_all_nth
        in_set_conv_nth)
  then show ?thesis
    using assms(2) d(2)
    by (auto simp: read_frozen_input_def read_regular_def result_simps
        split: option.splits if_splits node.splits intro!: input_file.equality)
qed

section \<open>A concrete workspace\<close>

definition sample_workspace_codec :: "(state_record + string) workspace_codec" where
  "sample_workspace_codec =
     \<lparr>wc_size = (\<lambda>c. case c of Inl _ \<Rightarrow> 1 | Inr s \<Rightarrow> int (length s)),
      wc_sha256 = (\<lambda>c. case c of Inl _ \<Rightarrow> [] | Inr s \<Rightarrow> s), wc_canonical = Inl,
      wc_parse = (\<lambda>c. case c of Inl r \<Rightarrow> Some r | Inr _ \<Rightarrow> None)\<rparr>"

definition sample_resolution :: "(state_record + string) resolution" where
  "sample_resolution =
     \<lparr>rs_run_id = ''run'', rs_source_spec_digest = ''a'', rs_execution_fingerprint = ''b'',
      rs_request_plan_digest = ''c'', rs_payloads = (Inr ''s'', Inr ''w'', Inr ''e'', Inr ''p'')\<rparr>"

definition sample_dir :: "(state_record + string) workspace_dir" where
  "sample_dir = (case reserve sample_workspace_codec {} sample_resolution 7 of Inr w \<Rightarrow> w)"

definition sample_history :: "state_record list" where
  "sample_history = [initial_record ''run'' 7]"

lemma sample_codec_ok: "codec_ok sample_workspace_codec"
  by (simp add: codec_ok_def sample_workspace_codec_def max_control_file_bytes_def)

lemma sample_represents: "represents sample_workspace_codec sample_dir sample_history"
  using reserve_opens_aux [OF sample_codec_ok, of sample_resolution "{}" 7]
  by (auto simp: sample_dir_def sample_history_def sample_resolution_def input_payloads_def
      input_paths_def sample_workspace_codec_def)

theorem reserve_opens_witness:
  "\<exists>w. reserve sample_workspace_codec {''other''} sample_resolution 7 = Inr w
    \<and> represents sample_workspace_codec w [initial_record (rs_run_id sample_resolution) 7]
    \<and> open_workspace sample_workspace_codec (rs_run_id sample_resolution) w = Inr ()"
  by (rule reserve_opens [OF sample_codec_ok])
    (simp_all add: sample_resolution_def input_payloads_def input_paths_def sample_workspace_codec_def)




theorem verified_inputs_match_witness:
  "\<exists>c. wd_inputs sample_dir ''inputs/request-plan.json''
      = Some \<lparr>if_node = RegularFile c, if_writable = False\<rparr>
    \<and> wc_size sample_workspace_codec c = 1 \<and> wc_sha256 sample_workspace_codec c = ''p''"
  using verified_inputs_match [of sample_workspace_codec sample_dir "''inputs/request-plan.json''"
      "\<lparr>fi_path = ''inputs/request-plan.json'', fi_size_bytes = 1, fi_sha256 = ''p''\<rparr>"]
  by (simp add: sample_dir_def reserve_def verify_frozen_inputs_def read_frozen_input_def
      read_regular_def sample_resolution_def input_payloads_def input_paths_def
      sample_workspace_codec_def check_metadata_def Let_def)

end
