(* ===== verification/Policies.thy ===== *)
theory Policies
  imports Prelude
begin

text \<open>
  The routing baselines of \<open>evaluation/policies.py\<close>: observation and snapshot contracts, the
  progress check between consecutive snapshots, the ring choice, and the four policies behind
  \<open>RoutingPolicy.decide\<close>. Observations are extensible records, so the code that treats health and
  load samples alike is one polymorphic definition. A policy object is a record of its cursors; a
  call that raises leaves it unchanged, as in the code, where every exception precedes the first
  assignment. The identifiers of policies, statuses and endpoints are datatypes, which is what the
  membership tests in the code enforce.
\<close>

section \<open>Observations\<close>

datatype endpoint_id = EndpointA | EndpointB

instantiation endpoint_id :: linorder
begin

definition less_eq_endpoint_id :: "endpoint_id \<Rightarrow> endpoint_id \<Rightarrow> bool" where
  "less_eq_endpoint_id a b \<longleftrightarrow> a = EndpointA \<or> b = EndpointB"

definition less_endpoint_id :: "endpoint_id \<Rightarrow> endpoint_id \<Rightarrow> bool" where
  "less_endpoint_id a b \<longleftrightarrow> a = EndpointA \<and> b = EndpointB"

instance
  by standard (auto simp: less_eq_endpoint_id_def less_endpoint_id_def intro: endpoint_id.exhaust)

end

datatype policy_id =
    ROUND_ROBIN_V1 | LEAST_REPORTED_LOAD_V1 | FRESHNESS_FALLBACK_V1 | FAIL_CLOSED_V1

datatype sample_status =
    VALID_SAMPLE | MISSING_SAMPLE | MALFORMED | HTTP_ERROR | TIMEOUT | TRANSPORT_ERROR | CANCELLED

datatype load_state = FRESH | STALE | MISSING

datatype decision_mode = MODE_ROUND_ROBIN | MODE_LOAD | MODE_FALLBACK | MODE_REJECT

datatype decision_reason =
    NO_HEALTHY_ENDPOINT | REQUIRED_LOAD_MISSING | REQUIRED_LOAD_STALE | REASON_ROUND_ROBIN
  | FRESH_LOAD | RETAINED_FRESH_LOAD | RETAINED_STALE_LOAD | FALLBACK_LOAD_MISSING
  | FALLBACK_LOAD_STALE

datatype routing_error =
    IntegerBound | TimestampsUnordered | HealthContradiction | LoadContradiction
  | RetainedInvalid | AttemptPrecedesLoad | LoadHistoryInconsistent | ValidNotRetained
  | EndpointOrder | SequenceRegressed | SequenceRewritten | TimestampsRegressed
  | DecisionTimeRegressed | FutureObservation | LoadAfterAttempt | RingEmpty | ScoreMissing

definition max_safe_integer :: int where
  "max_safe_integer = 2 ^ 53 - 1"

definition max_load_count :: int where
  "max_load_count = 2 ^ 31 - 1"

definition bounded_integer :: "int \<Rightarrow> int \<Rightarrow> (routing_error, int) res" where
  "bounded_integer value ceiling =
     (if \<not> (0 \<le> value \<and> value \<le> ceiling) then Inl IntegerBound else Inr value)"

text \<open>The metadata every sample carries; \<open>_Cursor\<close> of the publisher is exactly this part.\<close>

record cursor =
  ob_sequence :: int
  ob_started_ns :: int
  ob_completed_ns :: int
  ob_published_ns :: int

record observation = cursor +
  ob_status :: sample_status

record health_observation = observation +
  ho_healthy :: "bool option"

record load_observation = observation +
  lo_running :: "int option"
  lo_waiting :: "int option"

definition observation_contract :: "'a observation_scheme \<Rightarrow> (routing_error, unit) res" where
  "observation_contract s =
     rbind (res_map (\<lambda>v. bounded_integer v max_safe_integer)
        [ob_sequence s, ob_started_ns s, ob_completed_ns s, ob_published_ns s]) (\<lambda>_.
     raise_if (\<not> (ob_started_ns s \<le> ob_completed_ns s \<and> ob_completed_ns s \<le> ob_published_ns s))
       TimestampsUnordered)"

definition check_health :: "health_observation \<Rightarrow> (routing_error, unit) res" where
  "check_health h =
     rbind (observation_contract h) (\<lambda>_.
     raise_if ((ob_status h = VALID_SAMPLE \<and> ho_healthy h = None)
       \<or> (ob_status h \<noteq> VALID_SAMPLE \<and> ho_healthy h \<noteq> None)) HealthContradiction)"

definition bounded_count :: "int option \<Rightarrow> (routing_error, int) res" where
  "bounded_count v = (case v of None \<Rightarrow> Inl IntegerBound | Some n \<Rightarrow> bounded_integer n max_load_count)"

definition check_load :: "load_observation \<Rightarrow> (routing_error, unit) res" where
  "check_load l =
     rbind (observation_contract l) (\<lambda>_.
     if ob_status l = VALID_SAMPLE
     then rbind (bounded_count (lo_running l)) (\<lambda>_. rbind (bounded_count (lo_waiting l)) (\<lambda>_. Inr ()))
     else raise_if (lo_running l \<noteq> None \<or> lo_waiting l \<noteq> None) LoadContradiction)"

definition load_score :: "load_observation \<Rightarrow> int option" where
  "load_score l =
     (if ob_status l \<noteq> VALID_SAMPLE then None
      else case (lo_running l, lo_waiting l) of (Some r, Some w) \<Rightarrow> Some (r + w) | _ \<Rightarrow> None)"

section \<open>Snapshots\<close>

record endpoint_snapshot =
  es_endpoint_id :: endpoint_id
  es_health :: "health_observation option"
  es_load :: "load_observation option"
  es_last_load_attempt :: "load_observation option"

definition earlier_times :: "'a cursor_scheme \<Rightarrow> 'b cursor_scheme \<Rightarrow> bool" where
  "earlier_times current previous \<longleftrightarrow>
     ob_started_ns current < ob_started_ns previous
     \<or> ob_completed_ns current < ob_completed_ns previous
     \<or> ob_published_ns current < ob_published_ns previous"

definition check_retained_load :: "endpoint_snapshot \<Rightarrow> (routing_error, unit) res" where
  "check_retained_load e =
     (case es_load e of
        None \<Rightarrow> Inr ()
      | Some load \<Rightarrow>
          if ob_status load \<noteq> VALID_SAMPLE then Inl RetainedInvalid
          else (case es_last_load_attempt e of
              None \<Rightarrow> Inl AttemptPrecedesLoad
            | Some latest \<Rightarrow>
                if ob_sequence latest < ob_sequence load then Inl AttemptPrecedesLoad
                else raise_if (earlier_times latest load
                  \<or> (ob_sequence latest = ob_sequence load \<and> latest \<noteq> load)) LoadHistoryInconsistent))"

definition check_endpoint_snapshot :: "endpoint_snapshot \<Rightarrow> (routing_error, unit) res" where
  "check_endpoint_snapshot e =
     rbind (check_retained_load e) (\<lambda>_.
       case es_last_load_attempt e of
         None \<Rightarrow> Inr ()
       | Some latest \<Rightarrow>
           raise_if (ob_status latest = VALID_SAMPLE \<and> es_load e \<noteq> Some latest) ValidNotRetained)"

type_synonym router_snapshot = "endpoint_snapshot \<times> endpoint_snapshot"

definition check_router_snapshot :: "router_snapshot \<Rightarrow> (routing_error, unit) res" where
  "check_router_snapshot s =
     raise_if (es_endpoint_id (fst s) \<noteq> EndpointA \<or> es_endpoint_id (snd s) \<noteq> EndpointB) EndpointOrder"

definition validate_progress ::
  "('a cursor_scheme) option \<Rightarrow> ('a cursor_scheme) option \<Rightarrow> (routing_error, unit) res" where
  "validate_progress previous current =
     (case previous of
        None \<Rightarrow> Inr ()
      | Some p \<Rightarrow>
          (case current of
             None \<Rightarrow> Inl SequenceRegressed
           | Some c \<Rightarrow>
               if ob_sequence c < ob_sequence p then Inl SequenceRegressed
               else if ob_sequence c = ob_sequence p then raise_if (c \<noteq> p) SequenceRewritten
               else raise_if (earlier_times c p) TimestampsRegressed))"

definition load_after_attempt :: "endpoint_snapshot \<Rightarrow> endpoint_snapshot \<Rightarrow> bool" where
  "load_after_attempt previous current \<longleftrightarrow>
     es_load current \<noteq> es_load previous
     \<and> (case (es_load current, es_last_load_attempt previous) of
          (Some c, Some l) \<Rightarrow> ob_sequence c \<le> ob_sequence l
        | _ \<Rightarrow> False)"

definition endpoint_progress ::
  "endpoint_snapshot \<Rightarrow> endpoint_snapshot \<Rightarrow> (routing_error, unit) res" where
  "endpoint_progress previous current =
     rbind (validate_progress (es_health previous) (es_health current)) (\<lambda>_.
     rbind (validate_progress (es_load previous) (es_load current)) (\<lambda>_.
     rbind (validate_progress (es_last_load_attempt previous) (es_last_load_attempt current)) (\<lambda>_.
     raise_if (load_after_attempt previous current) LoadAfterAttempt)))"

section \<open>The policy\<close>

record policy_decision =
  pd_request_index :: int
  pd_decision_ns :: int
  pd_policy_id :: policy_id
  pd_selected_endpoint_id :: "endpoint_id option"
  pd_eligible_endpoint_ids :: "endpoint_id list"
  pd_mode :: decision_mode
  pd_reason :: decision_reason
  pd_load_ages_ns :: "int option \<times> int option"
  pd_load_states :: "load_state \<times> load_state"
  pd_load_sequence_ids :: "int option \<times> int option"
  pd_snapshot :: router_snapshot

record routing_policy =
  rp_policy_id :: policy_id
  rp_health_freshness_ns :: int
  rp_load_freshness_ns :: int
  rp_round_robin_cursor :: int
  rp_tie_cursor :: int
  rp_fallback_cursor :: int
  rp_last_decision_ns :: "int option"
  rp_previous_snapshot :: "router_snapshot option"

definition make_policy :: "policy_id \<Rightarrow> int \<Rightarrow> int \<Rightarrow> (routing_error, routing_policy) res" where
  "make_policy p health_freshness load_freshness =
     rbind (bounded_integer health_freshness max_safe_integer) (\<lambda>h.
     rbind (bounded_integer load_freshness max_safe_integer) (\<lambda>l.
     Inr \<lparr>rp_policy_id = p, rp_health_freshness_ns = h, rp_load_freshness_ns = l,
          rp_round_robin_cursor = 0, rp_tie_cursor = 0, rp_fallback_cursor = 0,
          rp_last_decision_ns = None, rp_previous_snapshot = None\<rparr>))"

definition endpoints :: "endpoint_id list" where
  "endpoints = [EndpointA, EndpointB]"

definition ring_choice :: "endpoint_id list \<Rightarrow> int \<Rightarrow> (routing_error, endpoint_id \<times> int) res" where
  "ring_choice candidates c =
     (let position = (\<lambda>offset. (c + offset) mod 2);
          pick = (\<lambda>offset. endpoints ! nat (position offset)) in
      if pick 0 \<in> set candidates then Inr (pick 0, (position 0 + 1) mod 2)
      else if pick 1 \<in> set candidates then Inr (pick 1, (position 1 + 1) mod 2)
      else Inl RingEmpty)"

definition published_after :: "endpoint_snapshot \<Rightarrow> int \<Rightarrow> bool" where
  "published_after e t \<longleftrightarrow>
     (\<exists>h \<in> set_option (es_health e). t < ob_published_ns h)
     \<or> (\<exists>l \<in> set_option (es_load e). t < ob_published_ns l)
     \<or> (\<exists>l \<in> set_option (es_last_load_attempt e). t < ob_published_ns l)"

definition validate_snapshot ::
  "routing_policy \<Rightarrow> router_snapshot \<Rightarrow> int \<Rightarrow> (routing_error, unit) res" where
  "validate_snapshot p s t =
     (if \<exists>u \<in> set_option (rp_last_decision_ns p). t < u then Inl DecisionTimeRegressed
      else if published_after (fst s) t \<or> published_after (snd s) t then Inl FutureObservation
      else (case rp_previous_snapshot p of
          None \<Rightarrow> Inr ()
        | Some previous \<Rightarrow>
            rbind (endpoint_progress (fst previous) (fst s)) (\<lambda>_.
            endpoint_progress (snd previous) (snd s))))"

definition is_eligible :: "routing_policy \<Rightarrow> int \<Rightarrow> endpoint_snapshot \<Rightarrow> bool" where
  "is_eligible p t e \<longleftrightarrow>
     (case es_health e of
        None \<Rightarrow> False
      | Some h \<Rightarrow> ob_status h = VALID_SAMPLE \<and> ho_healthy h = Some True
          \<and> t - ob_started_ns h \<le> rp_health_freshness_ns p)"

definition load_age :: "int \<Rightarrow> endpoint_snapshot \<Rightarrow> int option" where
  "load_age t e = map_option (\<lambda>l. t - ob_started_ns l) (es_load e)"

definition classify_load :: "routing_policy \<Rightarrow> int \<Rightarrow> endpoint_snapshot \<Rightarrow> load_state" where
  "classify_load p t e =
     (case load_age t e of
        None \<Rightarrow> MISSING
      | Some age \<Rightarrow> if age \<le> rp_load_freshness_ns p then FRESH else STALE)"

definition snapshot_list :: "router_snapshot \<Rightarrow> endpoint_snapshot list" where
  "snapshot_list s = [fst s, snd s]"

text \<open>The dictionary of scores, \<open>None\<close> where the code has no key.\<close>

definition scores_of :: "router_snapshot \<Rightarrow> endpoint_id \<Rightarrow> int option" where
  "scores_of s e = (if e = es_endpoint_id (snd s) then Option.bind (es_load (snd s)) load_score
     else if e = es_endpoint_id (fst s) then Option.bind (es_load (fst s)) load_score else None)"

definition lookup_score :: "(endpoint_id \<Rightarrow> int option) \<Rightarrow> endpoint_id \<Rightarrow> (routing_error, int) res" where
  "lookup_score scores e = (case scores e of None \<Rightarrow> Inl ScoreMissing | Some s \<Rightarrow> Inr s)"

type_synonym selection = "endpoint_id option \<times> decision_mode \<times> decision_reason"

definition select_by_load ::
  "routing_policy \<Rightarrow> endpoint_id list \<Rightarrow> (endpoint_id \<Rightarrow> int option) \<Rightarrow> bool \<Rightarrow> router_snapshot
     \<Rightarrow> (routing_error, routing_policy \<times> selection) res" where
  "select_by_load p eligible scores stale s =
     rbind (res_map (lookup_score scores) eligible) (\<lambda>values.
     let minimum = Min (set values);
         tied = filter (\<lambda>e. scores e = Some minimum) eligible;
         failed_after = (\<exists>e \<in> set (snapshot_list s). es_endpoint_id e \<in> set eligible
            \<and> (\<exists>l \<in> set_option (es_last_load_attempt e). ob_status l \<noteq> VALID_SAMPLE));
         reason = (if stale then RETAINED_STALE_LOAD
                   else if failed_after then RETAINED_FRESH_LOAD else FRESH_LOAD)
     in if 1 < length tied
        then rbind (ring_choice tied (rp_tie_cursor p)) (\<lambda>(e, c).
               Inr (p\<lparr>rp_tie_cursor := c\<rparr>, (Some e, MODE_LOAD, reason)))
        else Inr (p, (Some (hd tied), MODE_LOAD, reason)))"

definition select_endpoint ::
  "routing_policy \<Rightarrow> endpoint_id list \<Rightarrow> (endpoint_id \<Rightarrow> int option) \<Rightarrow> load_state \<times> load_state
     \<Rightarrow> router_snapshot \<Rightarrow> (routing_error, routing_policy \<times> selection) res" where
  "select_endpoint p eligible scores states s =
     (if eligible = [] then Inr (p, (None, MODE_REJECT, NO_HEALTHY_ENDPOINT))
      else if rp_policy_id p = ROUND_ROBIN_V1
      then rbind (ring_choice eligible (rp_round_robin_cursor p)) (\<lambda>(e, c).
             Inr (p\<lparr>rp_round_robin_cursor := c\<rparr>, (Some e, MODE_ROUND_ROBIN, REASON_ROUND_ROBIN)))
      else
        let required = map snd (filter (\<lambda>(e, _). e \<in> set eligible)
              (zip endpoints [fst states, snd states]));
            missing = MISSING \<in> set required;
            stale = STALE \<in> set required
        in if rp_policy_id p = FRESHNESS_FALLBACK_V1 \<and> (missing \<or> stale)
           then rbind (ring_choice eligible (rp_fallback_cursor p)) (\<lambda>(e, c).
                  Inr (p\<lparr>rp_fallback_cursor := c\<rparr>,
                    (Some e, MODE_FALLBACK,
                     if missing then FALLBACK_LOAD_MISSING else FALLBACK_LOAD_STALE)))
           else if missing then Inr (p, (None, MODE_REJECT, REQUIRED_LOAD_MISSING))
           else if stale \<and> rp_policy_id p = FAIL_CLOSED_V1
           then Inr (p, (None, MODE_REJECT, REQUIRED_LOAD_STALE))
           else select_by_load p eligible scores stale s)"

definition eligible_ids :: "routing_policy \<Rightarrow> int \<Rightarrow> router_snapshot \<Rightarrow> endpoint_id list" where
  "eligible_ids p t s = map es_endpoint_id (filter (is_eligible p t) (snapshot_list s))"

definition decide ::
  "routing_policy \<Rightarrow> router_snapshot \<Rightarrow> int \<Rightarrow> int
     \<Rightarrow> (routing_error, routing_policy \<times> policy_decision) res" where
  "decide p s request_index t =
     rbind (bounded_integer request_index max_safe_integer) (\<lambda>_.
     rbind (bounded_integer t max_safe_integer) (\<lambda>_.
     rbind (validate_snapshot p s t) (\<lambda>_.
     let eligible = eligible_ids p t s;
         states = (classify_load p t (fst s), classify_load p t (snd s))
     in rbind (select_endpoint p eligible (scores_of s) states s) (\<lambda>(p', (selected, mode, reason)).
        Inr (p'\<lparr>rp_last_decision_ns := Some t, rp_previous_snapshot := Some s\<rparr>,
             \<lparr>pd_request_index = request_index, pd_decision_ns = t, pd_policy_id = rp_policy_id p,
              pd_selected_endpoint_id = selected, pd_eligible_endpoint_ids = eligible,
              pd_mode = mode, pd_reason = reason,
              pd_load_ages_ns = (load_age t (fst s), load_age t (snd s)),
              pd_load_states = states,
              pd_load_sequence_ids = (map_option ob_sequence (es_load (fst s)),
                map_option ob_sequence (es_load (snd s))),
              pd_snapshot = s\<rparr>)))))"

section \<open>Choices\<close>

lemma mod_two_cases: "c mod 2 = 0 \<or> c mod 2 = (1 :: int)"
  by presburger

lemma ring_choice_eq:
  "ring_choice candidates c =
     (let first = (if c mod 2 = 0 then EndpointA else EndpointB);
          second = (if c mod 2 = 0 then EndpointB else EndpointA) in
      if first \<in> set candidates then Inr (first, (c + 1) mod 2)
      else if second \<in> set candidates then Inr (second, c mod 2)
      else Inl RingEmpty)"
proof -
  have "(c + 1) mod 2 = (if c mod 2 = 0 then 1 else 0)" "(c mod 2 + 1) mod 2 = (c + 1) mod 2"
    "((c + 1) mod 2 + 1) mod 2 = c mod 2"
    by presburger+
  then show ?thesis
    using mod_two_cases [of c] by (auto simp: ring_choice_def Let_def endpoints_def)
qed

lemma ring_choice_mem: "ring_choice candidates c = Inr (e, c') \<Longrightarrow> e \<in> set candidates"
  by (auto simp: ring_choice_eq Let_def split: if_splits)

lemma ring_choice_total:
  assumes "candidates \<noteq> []"
  shows "\<exists>e c'. ring_choice candidates c = Inr (e, c')"
proof -
  obtain e where e: "e \<in> set candidates" using assms by (meson hd_in_set)
  show ?thesis by (cases e) (use e in \<open>simp_all add: ring_choice_eq Let_def\<close>)
qed

text \<open>A snapshot the constructors accept.\<close>

definition valid_endpoint :: "endpoint_snapshot \<Rightarrow> bool" where
  "valid_endpoint e \<longleftrightarrow>
     check_endpoint_snapshot e = Inr ()
     \<and> (\<forall>h \<in> set_option (es_health e). check_health h = Inr ())
     \<and> (\<forall>l \<in> set_option (es_load e). check_load l = Inr ())
     \<and> (\<forall>l \<in> set_option (es_last_load_attempt e). check_load l = Inr ())"

definition valid_snapshot :: "router_snapshot \<Rightarrow> bool" where
  "valid_snapshot s \<longleftrightarrow>
     check_router_snapshot s = Inr () \<and> valid_endpoint (fst s) \<and> valid_endpoint (snd s)"

lemma valid_snapshot_ids:
  "valid_snapshot s \<Longrightarrow> es_endpoint_id (fst s) = EndpointA \<and> es_endpoint_id (snd s) = EndpointB"
  by (simp add: valid_snapshot_def check_router_snapshot_def)

lemma valid_load_score:
  "valid_endpoint e \<Longrightarrow> es_load e = Some l \<Longrightarrow>
     ob_status l = VALID_SAMPLE \<and> (\<exists>r w. load_score l = Some (r + w) \<and> 0 \<le> r \<and> 0 \<le> w
       \<and> lo_running l = Some r \<and> lo_waiting l = Some w)"
  by (auto simp: valid_endpoint_def check_endpoint_snapshot_def check_retained_load_def
      check_load_def bounded_count_def bounded_integer_def load_score_def result_simps
      split: option.splits if_splits)

definition endpoint_of :: "router_snapshot \<Rightarrow> endpoint_id \<Rightarrow> endpoint_snapshot" where
  "endpoint_of s e = (case e of EndpointA \<Rightarrow> fst s | EndpointB \<Rightarrow> snd s)"

lemma eligible_ids_eq:
  "valid_snapshot s \<Longrightarrow> eligible_ids p t s = filter (\<lambda>e. is_eligible p t (endpoint_of s e)) endpoints"
  by (simp add: eligible_ids_def snapshot_list_def endpoints_def endpoint_of_def valid_snapshot_ids)

lemma scores_of_eq:
  "valid_snapshot s \<Longrightarrow> scores_of s e = Option.bind (es_load (endpoint_of s e)) load_score"
  using valid_snapshot_ids [of s] by (cases e) (auto simp: scores_of_def endpoint_of_def)

lemma classify_load_iff:
  "classify_load p t e = MISSING \<longleftrightarrow> es_load e = None"
  "classify_load p t e = FRESH \<longleftrightarrow> (\<exists>l. es_load e = Some l \<and> t - ob_started_ns l \<le> rp_load_freshness_ns p)"
  by (auto simp: classify_load_def load_age_def split: option.splits)

lemma res_map_lookup_total:
  "list_all (\<lambda>e. scores e \<noteq> None) es \<Longrightarrow> res_map (lookup_score scores) es = Inr (map (the \<circ> scores) es)"
  by (induction es) (auto simp: lookup_score_def)

lemma res_map_lookup_Inr:
  "res_map (lookup_score scores) es = Inr vs \<Longrightarrow> map Some vs = map scores es"
  by (induction es arbitrary: vs)
    (auto simp: lookup_score_def result_simps split: option.splits)

lemma min_in_scores:
  assumes "res_map (lookup_score scores) es = Inr vs" "es \<noteq> []"
  shows "filter (\<lambda>e. scores e = Some (Min (set vs))) es \<noteq> []"
    and "\<forall>e \<in> set es. \<exists>v. scores e = Some v \<and> Min (set vs) \<le> v"
proof -
  note m = res_map_lookup_Inr [OF assms(1)]
  have ne: "vs \<noteq> []" using m assms(2) by auto
  then have "Some (Min (set vs)) \<in> Some ` set vs" by simp
  also have "Some ` set vs = scores ` set es" using m by (metis set_map)
  finally show "filter (\<lambda>e. scores e = Some (Min (set vs))) es \<noteq> []"
    by (auto simp: filter_empty_conv)
  have "scores e \<in> Some ` set vs" if "e \<in> set es" for e
    using that \<open>Some ` set vs = scores ` set es\<close> by simp
  then show "\<forall>e \<in> set es. \<exists>v. scores e = Some v \<and> Min (set vs) \<le> v" by fastforce
qed

lemma select_by_load_cases:
  assumes "select_by_load p es scores stale s = Inr (p', (sel, mode, reason))" "es \<noteq> []"
  obtains e where "sel = Some e" "e \<in> set es" "mode = MODE_LOAD"
    "\<exists>v. scores e = Some v \<and> (\<forall>e' \<in> set es. \<exists>v'. scores e' = Some v' \<and> v \<le> v')"
    "(reason = RETAINED_STALE_LOAD) = stale"
proof -
  from assms(1) obtain vs where vs: "res_map (lookup_score scores) es = Inr vs"
    by (auto simp: select_by_load_def result_simps)
  define tied where "tied = filter (\<lambda>e. scores e = Some (Min (set vs))) es"
  note m = min_in_scores [OF vs assms(2)]
  have "hd tied \<in> set tied" using m(1) hd_in_set [of tied] unfolding tied_def by blast
  then have "\<exists>e \<in> set tied. sel = Some e \<and> mode = MODE_LOAD \<and> (reason = RETAINED_STALE_LOAD) = stale"
    using assms(1)
    by (auto simp: select_by_load_def vs Let_def result_simps tied_def [symmetric]
        dest: ring_choice_mem split: if_splits)
  then show thesis using m(2) by (auto simp: tied_def intro!: that)
qed

lemma select_by_load_total:
  assumes "list_all (\<lambda>e. scores e \<noteq> None) es" "es \<noteq> []"
  shows "\<exists>p' x. select_by_load p es scores stale s = Inr (p', x)"
proof -
  note vs = res_map_lookup_total [OF assms(1)]
  have "filter (\<lambda>e. scores e = Some (Min (set (map (the \<circ> scores) es)))) es \<noteq> []"
    by (rule min_in_scores(1) [OF vs assms(2)])
  then show ?thesis
    using ring_choice_total
      [of "filter (\<lambda>e. scores e = Some (Min (set (map (the \<circ> scores) es)))) es" "rp_tie_cursor p"]
    by (auto simp: select_by_load_def vs Let_def simp del: set_map)
qed

lemma select_endpoint_cases:
  assumes "select_endpoint p es scores st s = Inr (p', (sel, mode, reason))"
  shows "(case sel of None \<Rightarrow> mode = MODE_REJECT \<and> p' = p | Some e \<Rightarrow> e \<in> set es \<and> mode \<noteq> MODE_REJECT)"
proof (cases "es = []")
  case True
  then show ?thesis using assms by (simp add: select_endpoint_def)
next
  case False
  then show ?thesis
    using assms
    by (auto simp: select_endpoint_def Let_def result_simps dest: ring_choice_mem
        elim!: select_by_load_cases split: if_splits)
qed

section \<open>What a decision guarantees\<close>

lemma decide_Inr:
  assumes "decide p s i t = Inr (p', d)"
  obtains q where "validate_snapshot p s t = Inr ()" "0 \<le> t" "t \<le> max_safe_integer"
    "select_endpoint p (eligible_ids p t s) (scores_of s)
       (classify_load p t (fst s), classify_load p t (snd s)) s
       = Inr (q, pd_selected_endpoint_id d, pd_mode d, pd_reason d)"
    "p' = q\<lparr>rp_last_decision_ns := Some t, rp_previous_snapshot := Some s\<rparr>"
    "pd_eligible_endpoint_ids d = eligible_ids p t s"
    "pd_load_states d = (classify_load p t (fst s), classify_load p t (snd s))"
  using assms by (auto simp: decide_def bounded_integer_def Let_def result_simps split: if_splits)

lemma required_states:
  "v \<in> set (map snd (filter (\<lambda>(e, _). e \<in> set es) (zip endpoints [a, b]))) \<longleftrightarrow>
     (EndpointA \<in> set es \<and> v = a) \<or> (EndpointB \<in> set es \<and> v = b)"
  by (auto simp: endpoints_def)

text \<open>
  Health gates every policy. A decision either rejects, selecting nothing and moving no cursor,
  or selects an endpoint whose latest health sample is valid, healthy and no older than the bound.
\<close>

theorem decide_selects_healthy:
  assumes "decide p s i t = Inr (p', d)" and "valid_snapshot s"
  shows "case pd_selected_endpoint_id d of
      None \<Rightarrow> pd_mode d = MODE_REJECT
        \<and> p' = p\<lparr>rp_last_decision_ns := Some t, rp_previous_snapshot := Some s\<rparr>
    | Some e \<Rightarrow> pd_mode d \<noteq> MODE_REJECT
        \<and> (\<exists>h. es_health (endpoint_of s e) = Some h \<and> ob_status h = VALID_SAMPLE
             \<and> ho_healthy h = Some True \<and> t - ob_started_ns h \<le> rp_health_freshness_ns p)"
proof -
  from assms(1) obtain q where sel: "select_endpoint p (eligible_ids p t s) (scores_of s)
       (classify_load p t (fst s), classify_load p t (snd s)) s
       = Inr (q, pd_selected_endpoint_id d, pd_mode d, pd_reason d)"
    and p': "p' = q\<lparr>rp_last_decision_ns := Some t, rp_previous_snapshot := Some s\<rparr>"
    by (rule decide_Inr)
  have "\<exists>h. es_health (endpoint_of s e) = Some h \<and> ob_status h = VALID_SAMPLE
      \<and> ho_healthy h = Some True \<and> t - ob_started_ns h \<le> rp_health_freshness_ns p"
    if "e \<in> set (eligible_ids p t s)" for e
    using that by (auto simp: eligible_ids_eq [OF assms(2)] is_eligible_def split: option.splits)
  then show ?thesis using select_endpoint_cases [OF sel] p' by (auto split: option.splits)
qed

lemma select_load_mode:
  assumes "select_endpoint p es scores st s = Inr (q, sel, MODE_LOAD, reason)"
  shows "\<exists>stale q' . select_by_load p es scores stale s = Inr (q', sel, MODE_LOAD, reason) \<and> es \<noteq> []
    \<and> rp_policy_id p \<noteq> ROUND_ROBIN_V1
    \<and> (EndpointA \<in> set es \<longrightarrow> fst st \<noteq> MISSING) \<and> (EndpointB \<in> set es \<longrightarrow> snd st \<noteq> MISSING)
    \<and> (rp_policy_id p \<noteq> LEAST_REPORTED_LOAD_V1 \<longrightarrow>
        (EndpointA \<in> set es \<longrightarrow> fst st = FRESH) \<and> (EndpointB \<in> set es \<longrightarrow> snd st = FRESH))"
proof -
  have cases: "v = FRESH" if "v \<noteq> MISSING" "v \<noteq> STALE" for v
    using that by (cases v) auto
  show ?thesis
    using assms cases [of "fst st"] cases [of "snd st"]
    unfolding select_endpoint_def Let_def required_states
    by (cases "rp_policy_id p") (auto simp: result_simps split: if_splits)
qed

text \<open>
  A decision by load selects an eligible endpoint of least reported load, among eligible
  endpoints that all have a retained load; the fallback and fail-closed policies only do so when
  each of those loads is no older than the freshness bound.
\<close>

theorem decide_by_load_least:
  assumes "decide p s i t = Inr (p', d)" and "valid_snapshot s" and "pd_mode d = MODE_LOAD"
  shows "\<exists>e l. pd_selected_endpoint_id d = Some e \<and> es_load (endpoint_of s e) = Some l
    \<and> (\<forall>e' \<in> set (pd_eligible_endpoint_ids d). \<exists>l'. es_load (endpoint_of s e') = Some l'
        \<and> (\<exists>v v'. load_score l = Some v \<and> load_score l' = Some v' \<and> v \<le> v')
        \<and> (rp_policy_id p \<noteq> LEAST_REPORTED_LOAD_V1 \<longrightarrow>
             t - ob_started_ns l' \<le> rp_load_freshness_ns p))"
proof -
  let ?es = "eligible_ids p t s"
  from assms(1) obtain q where sel: "select_endpoint p ?es (scores_of s)
       (classify_load p t (fst s), classify_load p t (snd s)) s
       = Inr (q, pd_selected_endpoint_id d, MODE_LOAD, pd_reason d)"
    and es: "pd_eligible_endpoint_ids d = ?es"
    unfolding assms(3) [symmetric] by (rule decide_Inr)
  from select_load_mode [OF sel] obtain stale q' where
    by_load: "select_by_load p ?es (scores_of s) stale s
      = Inr (q', pd_selected_endpoint_id d, MODE_LOAD, pd_reason d)" "?es \<noteq> []"
    and ab: "rp_policy_id p \<noteq> LEAST_REPORTED_LOAD_V1 \<Longrightarrow>
      (EndpointA \<in> set ?es \<longrightarrow> classify_load p t (fst s) = FRESH)
      \<and> (EndpointB \<in> set ?es \<longrightarrow> classify_load p t (snd s) = FRESH)"
    by auto
  have fresh: "classify_load p t (endpoint_of s e) = FRESH"
    if "rp_policy_id p \<noteq> LEAST_REPORTED_LOAD_V1" "e \<in> set ?es" for e
    using ab [OF that(1)] that(2) by (cases e) (auto simp: endpoint_of_def)
  from select_by_load_cases [OF by_load] obtain e v where e: "pd_selected_endpoint_id d = Some e"
    "scores_of s e = Some v" "\<forall>e' \<in> set ?es. \<exists>v'. scores_of s e' = Some v' \<and> v \<le> v'"
    by blast
  then show ?thesis
    using fresh by (fastforce simp: es scores_of_eq [OF assms(2)] classify_load_iff bind_eq_Some_conv)
qed

section \<open>Fairness\<close>

text \<open>A trial: decisions in order, each on its own snapshot, request index and instant.\<close>

fun decide_all ::
  "routing_policy \<Rightarrow> (router_snapshot \<times> int \<times> int) list
     \<Rightarrow> (routing_error, routing_policy \<times> policy_decision list) res" where
  "decide_all p [] = Inr (p, [])"
| "decide_all p ((s, i, t) # rest) =
     rbind (decide p s i t) (\<lambda>(p', d).
     rbind (decide_all p' rest) (\<lambda>(p'', ds). Inr (p'', d # ds)))"

lemma round_robin_step:
  assumes "decide p s i t = Inr (p', d)" "rp_policy_id p = ROUND_ROBIN_V1"
    and "pd_eligible_endpoint_ids d = endpoints"
  shows "rp_policy_id p' = ROUND_ROBIN_V1 \<and> rp_round_robin_cursor p' = (rp_round_robin_cursor p + 1) mod 2
    \<and> pd_selected_endpoint_id d = Some (if rp_round_robin_cursor p mod 2 = 0 then EndpointA else EndpointB)"
proof -
  from assms(1) obtain q where sel: "select_endpoint p (eligible_ids p t s) (scores_of s)
       (classify_load p t (fst s), classify_load p t (snd s)) s
       = Inr (q, pd_selected_endpoint_id d, pd_mode d, pd_reason d)"
    and p': "p' = q\<lparr>rp_last_decision_ns := Some t, rp_previous_snapshot := Some s\<rparr>"
    and es: "pd_eligible_endpoint_ids d = eligible_ids p t s"
    by (rule decide_Inr)
  show ?thesis
    using sel p' assms(2,3) es
    by (auto simp: select_endpoint_def ring_choice_eq Let_def endpoints_def)
qed

lemma round_robin_counts:
  assumes "decide_all p steps = Inr (p', ds)" "rp_policy_id p = ROUND_ROBIN_V1"
    and "list_all (\<lambda>d. pd_eligible_endpoint_ids d = endpoints) ds"
  shows "int (length (filter (\<lambda>d. pd_selected_endpoint_id d = Some EndpointA) ds))
      - int (length (filter (\<lambda>d. pd_selected_endpoint_id d = Some EndpointB) ds))
    \<in> (if rp_round_robin_cursor p mod 2 = 0 then {0, 1} else {-1, 0})"
  using assms
proof (induction steps arbitrary: p ds)
  case Nil
  then show ?case by simp
next
  case (Cons step steps)
  obtain s i t where step: "step = (s, i, t)" by (cases step)
  with Cons.prems(1) obtain q d ds' where d: "decide p s i t = Inr (q, d)"
    and rest: "decide_all q steps = Inr (p', ds')" and ds: "ds = d # ds'"
    by (auto simp: result_simps)
  have one: "rp_policy_id q = ROUND_ROBIN_V1"
    "rp_round_robin_cursor q = (rp_round_robin_cursor p + 1) mod 2"
    "pd_selected_endpoint_id d = Some (if rp_round_robin_cursor p mod 2 = 0 then EndpointA else EndpointB)"
    using round_robin_step [OF d Cons.prems(2)] Cons.prems(3) ds by simp_all
  have "(c + 1) mod 2 mod 2 = (if c mod 2 = 0 then 1 else 0)" for c :: int by presburger
  then show ?case
    using Cons.IH [OF rest one(1)] Cons.prems(3) ds one mod_two_cases [of "rp_round_robin_cursor p"]
    by auto
qed

text \<open>
  Round robin is fair. Over any run of decisions in which both endpoints stay eligible, the two
  endpoints are selected equally often, up to one.
\<close>

theorem round_robin_fair:
  assumes "decide_all p steps = Inr (p', ds)" and "rp_policy_id p = ROUND_ROBIN_V1"
    and "list_all (\<lambda>d. pd_eligible_endpoint_ids d = endpoints) ds"
  shows "\<bar>int (length (filter (\<lambda>d. pd_selected_endpoint_id d = Some EndpointA) ds))
      - int (length (filter (\<lambda>d. pd_selected_endpoint_id d = Some EndpointB) ds))\<bar> \<le> 1"
  using round_robin_counts [OF assms] by (auto split: if_splits)

section \<open>Totality\<close>

definition policy_ok :: "routing_policy \<Rightarrow> bool" where
  "policy_ok p \<longleftrightarrow> 0 \<le> rp_health_freshness_ns p \<and> 0 \<le> rp_load_freshness_ns p"

lemma select_endpoint_total:
  assumes "valid_snapshot s"
  shows "\<exists>q x. select_endpoint p (eligible_ids p t s) (scores_of s)
    (classify_load p t (fst s), classify_load p t (snd s)) s = Inr (q, x)"
proof (cases "eligible_ids p t s = []")
  case True
  then show ?thesis by (simp add: select_endpoint_def)
next
  case False
  note ring = ring_choice_total [OF False]
  have load: "\<exists>q x. select_by_load p (eligible_ids p t s) (scores_of s) stale s = Inr (q, x)"
    if a: "EndpointA \<in> set (eligible_ids p t s) \<Longrightarrow> classify_load p t (fst s) \<noteq> MISSING"
      and b: "EndpointB \<in> set (eligible_ids p t s) \<Longrightarrow> classify_load p t (snd s) \<noteq> MISSING" for stale
  proof (rule select_by_load_total [OF _ False])
    have "scores_of s e \<noteq> None" if e: "e \<in> set (eligible_ids p t s)" for e
    proof -
      have "es_load (endpoint_of s e) \<noteq> None"
        by (cases e) (use a b e in \<open>auto simp: endpoint_of_def classify_load_iff\<close>)
      moreover have "valid_endpoint (endpoint_of s e)"
        by (cases e) (use assms in \<open>auto simp: valid_snapshot_def endpoint_of_def\<close>)
      ultimately show ?thesis
        using valid_load_score by (fastforce simp: scores_of_eq [OF assms])
    qed
    then show "list_all (\<lambda>e. scores_of s e \<noteq> None) (eligible_ids p t s)" by (simp add: list_all_iff)
  qed
  show ?thesis
    unfolding select_endpoint_def Let_def required_states fst_conv snd_conv
    using ring [of "rp_round_robin_cursor p"] ring [of "rp_fallback_cursor p"] load False
    by (auto split: if_splits)
qed

lemma decide_total:
  assumes "valid_snapshot s" and "validate_snapshot p s t = Inr ()"
    and "0 \<le> i" "i \<le> max_safe_integer" "0 \<le> t" "t \<le> max_safe_integer"
  shows "\<exists>p' d. decide p s i t = Inr (p', d) \<and> rp_last_decision_ns p' = Some t
    \<and> rp_previous_snapshot p' = Some s"
proof -
  obtain q sel mode reason where "select_endpoint p (eligible_ids p t s) (scores_of s)
      (classify_load p t (fst s), classify_load p t (snd s)) s = Inr (q, (sel, mode, reason))"
    using select_endpoint_total [OF assms(1), of p t] by (metis prod_cases3)
  then show ?thesis using assms by (simp add: decide_def bounded_integer_def Let_def)
qed

section \<open>Concrete decisions\<close>

definition sample_health :: "int \<Rightarrow> health_observation" where
  "sample_health t = \<lparr>ob_sequence = t, ob_started_ns = t, ob_completed_ns = t, ob_published_ns = t,
     ob_status = VALID_SAMPLE, ho_healthy = Some True\<rparr>"

definition sample_load :: "int \<Rightarrow> int \<Rightarrow> load_observation" where
  "sample_load t n = \<lparr>ob_sequence = t, ob_started_ns = t, ob_completed_ns = t, ob_published_ns = t,
     ob_status = VALID_SAMPLE, lo_running = Some n, lo_waiting = Some 0\<rparr>"

definition sample_endpoint :: "endpoint_id \<Rightarrow> int \<Rightarrow> int \<Rightarrow> endpoint_snapshot" where
  "sample_endpoint e t n =
     \<lparr>es_endpoint_id = e, es_health = Some (sample_health t), es_load = Some (sample_load t n),
      es_last_load_attempt = Some (sample_load t n)\<rparr>"

definition sample_snapshot :: router_snapshot where
  "sample_snapshot = (sample_endpoint EndpointA 1 5, sample_endpoint EndpointB 2 3)"

definition sample_policy :: "policy_id \<Rightarrow> routing_policy" where
  "sample_policy p = (case make_policy p 100 50 of Inr q \<Rightarrow> q)"

definition sample_decision :: "policy_id \<Rightarrow> routing_policy \<times> policy_decision" where
  "sample_decision p = (case decide (sample_policy p) sample_snapshot 0 10 of Inr x \<Rightarrow> x)"

lemma sample_snapshot_valid: "valid_snapshot sample_snapshot"
  by code_simp

lemma sample_decision_eq:
  "decide (sample_policy p) sample_snapshot 0 10
     = Inr (fst (sample_decision p), snd (sample_decision p))"
proof -
  have "\<exists>x. decide (sample_policy p) sample_snapshot 0 10 = Inr x"
    using decide_total [OF sample_snapshot_valid, of "sample_policy p" 10 0]
    by (auto simp: sample_policy_def make_policy_def bounded_integer_def max_safe_integer_def
        validate_snapshot_def published_after_def sample_snapshot_def sample_endpoint_def
        sample_health_def sample_load_def)
  then show ?thesis by (auto simp: sample_decision_def)
qed

theorem decide_selects_healthy_witness:
  "case pd_selected_endpoint_id (snd (sample_decision FAIL_CLOSED_V1)) of
      None \<Rightarrow> pd_mode (snd (sample_decision FAIL_CLOSED_V1)) = MODE_REJECT
        \<and> fst (sample_decision FAIL_CLOSED_V1)
            = (sample_policy FAIL_CLOSED_V1)\<lparr>rp_last_decision_ns := Some 10,
                rp_previous_snapshot := Some sample_snapshot\<rparr>
    | Some e \<Rightarrow> pd_mode (snd (sample_decision FAIL_CLOSED_V1)) \<noteq> MODE_REJECT
        \<and> (\<exists>h. es_health (endpoint_of sample_snapshot e) = Some h \<and> ob_status h = VALID_SAMPLE
             \<and> ho_healthy h = Some True
             \<and> 10 - ob_started_ns h \<le> rp_health_freshness_ns (sample_policy FAIL_CLOSED_V1))"
  by (rule decide_selects_healthy [OF sample_decision_eq sample_snapshot_valid])

theorem decide_by_load_least_witness:
  "\<exists>e l. pd_selected_endpoint_id (snd (sample_decision FAIL_CLOSED_V1)) = Some e
    \<and> es_load (endpoint_of sample_snapshot e) = Some l"
proof -
  have "pd_mode (snd (sample_decision FAIL_CLOSED_V1)) = MODE_LOAD" by code_simp
  from decide_by_load_least [OF sample_decision_eq sample_snapshot_valid this] show ?thesis by blast
qed

theorem round_robin_fair_witness:
  "\<bar>int (length (filter (\<lambda>d. pd_selected_endpoint_id d = Some EndpointA)
        [snd (sample_decision ROUND_ROBIN_V1)]))
      - int (length (filter (\<lambda>d. pd_selected_endpoint_id d = Some EndpointB)
        [snd (sample_decision ROUND_ROBIN_V1)]))\<bar> \<le> 1"
proof (rule round_robin_fair)
  show "decide_all (sample_policy ROUND_ROBIN_V1) [(sample_snapshot, 0, 10)]
      = Inr (fst (sample_decision ROUND_ROBIN_V1), [snd (sample_decision ROUND_ROBIN_V1)])"
    by (simp add: sample_decision_eq split_beta)
  show "rp_policy_id (sample_policy ROUND_ROBIN_V1) = ROUND_ROBIN_V1" by code_simp
  show "list_all (\<lambda>d. pd_eligible_endpoint_ids d = endpoints) [snd (sample_decision ROUND_ROBIN_V1)]"
    by code_simp
qed

end
