(* ===== verification/Observations.thy ===== *)
theory Observations
  imports Policies
begin

text \<open>
  The observation publisher of \<open>evaluation/observations.py\<close> (\<open>RouterObservations\<close>): ordered
  publication of health and load samples per endpoint, the one load freeze with its restore, and the
  immutable snapshots the policies read. The locale \<open>observation_source\<close> states what a policy relies
  on of whoever feeds it; it is interpreted on the publisher, and gives that no decision on the
  publisher's snapshots ever raises.
\<close>

section \<open>The publisher\<close>

record published =
  pb_health :: "health_observation option"
  pb_load :: "load_observation option"
  pb_last_load_attempt :: "load_observation option"
  pb_health_cursor :: "cursor option"
  pb_load_cursor :: "cursor option"

definition empty_published :: published where
  "empty_published = \<lparr>pb_health = None, pb_load = None, pb_last_load_attempt = None,
     pb_health_cursor = None, pb_load_cursor = None\<rparr>"

record router_observations =
  ro_published :: "endpoint_id \<Rightarrow> published"
  ro_target :: "endpoint_id option"
  ro_frozen :: bool
  ro_freeze_used :: bool
  ro_restore_cutoff :: "int option"
  ro_transition_ns :: int
  ro_latest_publication_ns :: int

datatype observation_error = ObservationRegresses | TransitionTimeInvalid | FreezeUsed

definition new_observations :: router_observations where
  "new_observations = \<lparr>ro_published = (\<lambda>_. empty_published), ro_target = None, ro_frozen = False,
     ro_freeze_used = False, ro_restore_cutoff = None, ro_transition_ns = 0,
     ro_latest_publication_ns = 0\<rparr>"

definition ordered ::
  "router_observations \<Rightarrow> 'a observation_scheme \<Rightarrow> cursor option \<Rightarrow> (observation_error, cursor) res"
where
  "ordered g sample previous =
     (if ob_published_ns sample < ro_transition_ns g
         \<or> (case previous of
              None \<Rightarrow> False
            | Some c \<Rightarrow> ob_sequence sample \<le> ob_sequence c \<or> earlier_times sample c)
      then Inl ObservationRegresses else Inr (cursor.truncate sample))"

definition publish_health ::
  "endpoint_id \<Rightarrow> health_observation \<Rightarrow> router_observations
     \<Rightarrow> (observation_error, router_observations) res" where
  "publish_health e sample g =
     (let p = ro_published g e in
      rbind (ordered g sample (pb_health_cursor p)) (\<lambda>c.
        Inr (g\<lparr>ro_published := (ro_published g)(e := p\<lparr>pb_health := Some sample, pb_health_cursor := Some c\<rparr>),
               ro_latest_publication_ns :=
                 max (ro_latest_publication_ns g) (ob_published_ns sample)\<rparr>)))"

definition suppressed :: "router_observations \<Rightarrow> endpoint_id \<Rightarrow> load_observation \<Rightarrow> bool" where
  "suppressed g e sample \<longleftrightarrow>
     ro_target g = Some e
     \<and> (ro_frozen g \<or> (\<exists>c \<in> set_option (ro_restore_cutoff g). ob_started_ns sample < c))"

definition publish_load ::
  "endpoint_id \<Rightarrow> load_observation \<Rightarrow> router_observations
     \<Rightarrow> (observation_error, router_observations \<times> bool) res" where
  "publish_load e sample g =
     (let p = ro_published g e in
      rbind (ordered g sample (pb_load_cursor p)) (\<lambda>c.
        let p1 = p\<lparr>pb_load_cursor := Some c\<rparr>;
            latest = max (ro_latest_publication_ns g) (ob_published_ns sample)
        in if suppressed g e sample
           then Inr (g\<lparr>ro_published := (ro_published g)(e := p1),
                       ro_latest_publication_ns := latest\<rparr>, False)
           else
             let p2 = p1\<lparr>pb_last_load_attempt := Some sample\<rparr>;
                 p3 = (if ob_status sample = VALID_SAMPLE then p2\<lparr>pb_load := Some sample\<rparr> else p2)
             in Inr (g\<lparr>ro_published := (ro_published g)(e := p3),
                       ro_latest_publication_ns := latest\<rparr>, True)))"

definition snapshot_of :: "router_observations \<Rightarrow> router_snapshot" where
  "snapshot_of g =
     (let take = (\<lambda>e. \<lparr>es_endpoint_id = e, es_health = pb_health (ro_published g e),
                     es_load = pb_load (ro_published g e),
                     es_last_load_attempt = pb_last_load_attempt (ro_published g e)\<rparr>)
      in (take EndpointA, take EndpointB))"

text \<open>\<open>snapshot\<close> runs the constructors' checks.\<close>

definition snapshot :: "router_observations \<Rightarrow> (routing_error, router_snapshot) res" where
  "snapshot g =
     (let s = snapshot_of g in
      rbind (check_endpoint_snapshot (fst s)) (\<lambda>_.
      rbind (check_endpoint_snapshot (snd s)) (\<lambda>_.
      rbind (check_router_snapshot s) (\<lambda>_. Inr s))))"

definition transition_time :: "router_observations \<Rightarrow> int \<Rightarrow> (observation_error, unit) res" where
  "transition_time g now =
     raise_if (\<not> (0 \<le> now \<and> now \<le> max_safe_integer)
       \<or> now < max (ro_transition_ns g) (ro_latest_publication_ns g)) TransitionTimeInvalid"

definition freeze ::
  "endpoint_id \<Rightarrow> int \<Rightarrow> router_observations \<Rightarrow> (observation_error, router_observations) res" where
  "freeze e now g =
     rbind (transition_time g now) (\<lambda>_.
       if ro_freeze_used g then Inl FreezeUsed
       else Inr (g\<lparr>ro_target := Some e, ro_frozen := True, ro_freeze_used := True,
                   ro_transition_ns := now\<rparr>))"

definition restore ::
  "int \<Rightarrow> router_observations \<Rightarrow> (observation_error, router_observations \<times> bool) res" where
  "restore now g =
     (if \<not> ro_frozen g then Inr (g, False)
      else rbind (transition_time g now) (\<lambda>_.
        Inr (g\<lparr>ro_frozen := False, ro_restore_cutoff := Some now, ro_transition_ns := now\<rparr>, True)))"

section \<open>Steps\<close>

text \<open>
  The successful operations as a step relation: published samples have passed their constructors.
\<close>

inductive obs_step :: "router_observations \<Rightarrow> router_observations \<Rightarrow> bool" where
  health: "check_health h = Inr () \<Longrightarrow> publish_health e h g = Inr g' \<Longrightarrow> obs_step g g'"
| load: "check_load l = Inr () \<Longrightarrow> publish_load e l g = Inr (g', b) \<Longrightarrow> obs_step g g'"
| freeze: "freeze e now g = Inr g' \<Longrightarrow> obs_step g g'"
| restore: "restore now g = Inr (g', b) \<Longrightarrow> obs_step g g'"

inductive_cases obs_stepE: "obs_step g g'"

section \<open>Invariant\<close>

definition at_most :: "'a cursor_scheme \<Rightarrow> 'b cursor_scheme \<Rightarrow> bool" where
  "at_most a b \<longleftrightarrow> ob_sequence a \<le> ob_sequence b \<and> \<not> earlier_times b a"

definition health_ok :: "int \<Rightarrow> published \<Rightarrow> bool" where
  "health_ok latest p \<longleftrightarrow>
     pred_option (\<lambda>h. check_health h = Inr () \<and> ob_published_ns h \<le> latest
       \<and> pb_health_cursor p = Some (cursor.truncate h)) (pb_health p)"

definition attempt_ok :: "int \<Rightarrow> published \<Rightarrow> bool" where
  "attempt_ok latest p \<longleftrightarrow>
     pred_option (\<lambda>l. check_load l = Inr () \<and> ob_published_ns l \<le> latest
       \<and> (\<exists>c. pb_load_cursor p = Some c \<and> at_most l c)
       \<and> (ob_status l = VALID_SAMPLE \<longrightarrow> pb_load p = Some l)) (pb_last_load_attempt p)"

definition load_ok :: "int \<Rightarrow> published \<Rightarrow> bool" where
  "load_ok latest p \<longleftrightarrow>
     pred_option (\<lambda>l. check_load l = Inr () \<and> ob_published_ns l \<le> latest
       \<and> ob_status l = VALID_SAMPLE
       \<and> (\<exists>a. pb_last_load_attempt p = Some a \<and> at_most l a
            \<and> (ob_sequence a = ob_sequence l \<longrightarrow> a = l))) (pb_load p)"

definition published_ok :: "int \<Rightarrow> published \<Rightarrow> bool" where
  "published_ok latest p \<longleftrightarrow> health_ok latest p \<and> attempt_ok latest p \<and> load_ok latest p"

definition obs_ok :: "router_observations \<Rightarrow> bool" where
  "obs_ok g \<longleftrightarrow>
     (\<forall>e. published_ok (ro_latest_publication_ns g) (ro_published g e))
     \<and> (ro_frozen g \<longrightarrow> ro_freeze_used g) \<and> (ro_target g \<noteq> None) = ro_freeze_used g
     \<and> (ro_restore_cutoff g \<noteq> None) = (ro_freeze_used g \<and> \<not> ro_frozen g)"

lemma at_most_trans [trans]: "at_most a b \<Longrightarrow> at_most b c \<Longrightarrow> at_most a c"
  by (auto simp: at_most_def earlier_times_def)

lemma at_most_refl [simp]: "at_most a a"
  by (simp add: at_most_def earlier_times_def)

lemma truncate_sel [simp]:
  "ob_sequence (cursor.truncate s) = ob_sequence s"
  "ob_started_ns (cursor.truncate s) = ob_started_ns s"
  "ob_completed_ns (cursor.truncate s) = ob_completed_ns s"
  "ob_published_ns (cursor.truncate s) = ob_published_ns s"
  by (simp_all add: cursor.defs)

lemma at_most_truncate [simp]:
  "at_most a (cursor.truncate b) \<longleftrightarrow> at_most a b" "at_most (cursor.truncate a) b \<longleftrightarrow> at_most a b"
  by (simp_all add: at_most_def earlier_times_def)

lemma ordered_Inr:
  "ordered g s prev = Inr c \<Longrightarrow> c = cursor.truncate s \<and> ro_transition_ns g \<le> ob_published_ns s
     \<and> (\<forall>p. prev = Some p \<longrightarrow> at_most p s \<and> ob_sequence p < ob_sequence s)"
  by (auto simp: ordered_def at_most_def split: if_splits option.splits)

lemma published_ok_mono:
  assumes "published_ok a p" "a \<le> b"
  shows "published_ok b p"
proof -
  have "health_ok b p"
    using assms by (cases "pb_health p") (simp_all add: published_ok_def health_ok_def)
  moreover have "attempt_ok b p"
    using assms by (cases "pb_last_load_attempt p") (simp_all add: published_ok_def attempt_ok_def)
  moreover have "load_ok b p"
    using assms by (cases "pb_load p") (simp_all add: published_ok_def load_ok_def)
  ultimately show ?thesis by (simp add: published_ok_def)
qed

lemma obs_ok_update:
  assumes "obs_ok g" "published_ok m p" "m = max (ro_latest_publication_ns g) t"
  shows "obs_ok (g\<lparr>ro_published := (ro_published g)(e := p), ro_latest_publication_ns := m\<rparr>)"
proof -
  have "published_ok m (ro_published g x)" for x
    using assms(1,3) by (auto simp: obs_ok_def intro: published_ok_mono)
  then show ?thesis using assms(1,2) by (simp add: obs_ok_def)
qed

lemma new_observations_ok [inv_intros]: "obs_ok new_observations"
  by (simp add: obs_ok_def new_observations_def empty_published_def published_ok_def health_ok_def
      attempt_ok_def load_ok_def)

lemma publish_health_ok [inv_intros]:
  assumes "obs_ok g" "check_health h = Inr ()" "publish_health e h g = Inr g'"
  shows "obs_ok g'"
proof -
  let ?m = "max (ro_latest_publication_ns g) (ob_published_ns h)"
  let ?p = "ro_published g e"
  from assms(3) obtain c where ord: "ordered g h (pb_health_cursor ?p) = Inr c"
    and g': "g' = g\<lparr>ro_published := (ro_published g)
      (e := ?p\<lparr>pb_health := Some h, pb_health_cursor := Some c\<rparr>), ro_latest_publication_ns := ?m\<rparr>"
    by (auto simp: publish_health_def Let_def result_simps)
  have "published_ok ?m ?p" using assms(1) by (auto simp: obs_ok_def intro: published_ok_mono)
  then have "published_ok ?m (?p\<lparr>pb_health := Some h, pb_health_cursor := Some c\<rparr>)"
    using ordered_Inr [OF ord] assms(2)
    by (simp add: published_ok_def health_ok_def attempt_ok_def load_ok_def)
  then show ?thesis unfolding g' by (rule obs_ok_update [OF assms(1) _ refl])
qed

text \<open>What \<open>publish_load\<close> does to the endpoint's entry.\<close>

definition load_entry ::
  "router_observations \<Rightarrow> endpoint_id \<Rightarrow> load_observation \<Rightarrow> published" where
  "load_entry g e l =
     (let p = ro_published g e; q = p\<lparr>pb_load_cursor := Some (cursor.truncate l)\<rparr> in
      if suppressed g e l then q
      else if ob_status l = VALID_SAMPLE then q\<lparr>pb_last_load_attempt := Some l, pb_load := Some l\<rparr>
      else q\<lparr>pb_last_load_attempt := Some l\<rparr>)"

lemma publish_load_Inr:
  "publish_load e l g = Inr (g', b) \<longleftrightarrow>
     ordered g l (pb_load_cursor (ro_published g e)) = Inr (cursor.truncate l)
     \<and> b = (\<not> suppressed g e l)
     \<and> g' = g\<lparr>ro_published := (ro_published g)(e := load_entry g e l),
          ro_latest_publication_ns := max (ro_latest_publication_ns g) (ob_published_ns l)\<rparr>"
  unfolding publish_load_def Let_def load_entry_def
  by (auto simp: result_simps dest: ordered_Inr)

lemma load_entry_ok:
  assumes "published_ok m (ro_published g e)" "check_load l = Inr ()" "ob_published_ns l \<le> m"
    and "ordered g l (pb_load_cursor (ro_published g e)) = Inr c"
  shows "published_ok m (load_entry g e l)"
proof -
  define p where "p = ro_published g e"
  define q where "q = p\<lparr>pb_load_cursor := Some (cursor.truncate l)\<rparr>"
  note o = ordered_Inr [OF assms(4), folded p_def]
  have h: "health_ok m p" and a: "attempt_ok m p" and ld: "load_ok m p"
    using assms(1) by (simp_all add: published_ok_def p_def)
  have prior: "at_most k l \<and> ob_sequence k < ob_sequence l" if "pb_last_load_attempt p = Some k" for k
  proof -
    from a that obtain c' where c': "pb_load_cursor p = Some c'" "at_most k c'"
      by (auto simp: attempt_ok_def)
    then have "at_most c' l" "ob_sequence c' < ob_sequence l" using o by auto
    then show ?thesis using c'(2) at_most_trans [OF c'(2), of l] by (simp add: at_most_def)
  qed
  have prior_load: "at_most k l \<and> ob_sequence k < ob_sequence l" if "pb_load p = Some k" for k
  proof -
    from ld that obtain b where "pb_last_load_attempt p = Some b" "at_most k b"
      by (auto simp: load_ok_def)
    then show ?thesis using prior [of b] at_most_trans [of k b l] by (auto simp: at_most_def)
  qed
  have "published_ok m q"
    using h ld a prior
    by (cases "pb_last_load_attempt p")
      (simp_all add: published_ok_def q_def health_ok_def attempt_ok_def load_ok_def)
  moreover have "published_ok m (q\<lparr>pb_last_load_attempt := Some l, pb_load := Some l\<rparr>)"
    if "ob_status l = VALID_SAMPLE"
    using h that assms(2,3)
    by (simp add: published_ok_def q_def health_ok_def attempt_ok_def load_ok_def)
  moreover have "published_ok m (q\<lparr>pb_last_load_attempt := Some l\<rparr>)" if "ob_status l \<noteq> VALID_SAMPLE"
    using h ld prior_load that assms(2,3)
    by (cases "pb_load p")
      (auto simp: published_ok_def q_def health_ok_def attempt_ok_def load_ok_def)
  ultimately show ?thesis by (simp add: load_entry_def Let_def p_def q_def)
qed

lemma publish_load_ok [inv_intros]:
  assumes "obs_ok g" "check_load l = Inr ()" "publish_load e l g = Inr (g', b)"
  shows "obs_ok g'"
proof -
  let ?m = "max (ro_latest_publication_ns g) (ob_published_ns l)"
  from assms(3) have ord: "ordered g l (pb_load_cursor (ro_published g e)) = Inr (cursor.truncate l)"
    and g': "g' = g\<lparr>ro_published := (ro_published g)(e := load_entry g e l),
        ro_latest_publication_ns := ?m\<rparr>"
    by (simp_all add: publish_load_Inr)
  have "published_ok ?m (ro_published g e)"
    using assms(1) by (auto simp: obs_ok_def intro: published_ok_mono)
  then have "published_ok ?m (load_entry g e l)"
    by (rule load_entry_ok [OF _ assms(2) _ ord]) simp
  then show ?thesis unfolding g' by (rule obs_ok_update [OF assms(1) _ refl])
qed

lemma freeze_ok [inv_intros]: "obs_ok g \<Longrightarrow> freeze e now g = Inr g' \<Longrightarrow> obs_ok g'"
  by (auto simp: freeze_def obs_ok_def result_simps split: if_splits)

lemma restore_ok [inv_intros]: "obs_ok g \<Longrightarrow> restore now g = Inr (g', b) \<Longrightarrow> obs_ok g'"
  by (auto simp: restore_def obs_ok_def result_simps split: if_splits)

lemma obs_step_ok: "obs_step g g' \<Longrightarrow> obs_ok g \<Longrightarrow> obs_ok g'"
  by (erule obs_stepE) (auto intro: inv_intros)

section \<open>Progress between snapshots\<close>

lemma validate_progress_iff:
  "validate_progress p c = Inr () \<longleftrightarrow>
     (\<forall>x. p = Some x \<longrightarrow> (\<exists>y. c = Some y \<and> at_most x y \<and> (ob_sequence y = ob_sequence x \<longrightarrow> y = x)))"
proof (cases p)
  case None
  then show ?thesis by (simp add: validate_progress_def)
next
  case (Some x)
  have "\<not> earlier_times x x" by (simp add: earlier_times_def)
  then show ?thesis
    by (cases c) (auto simp: Some validate_progress_def at_most_def)
qed

lemma validate_progress_refl: "validate_progress p p = Inr ()"
  by (simp add: validate_progress_iff)

lemma validate_progress_trans:
  assumes "validate_progress a b = Inr ()" "validate_progress b c = Inr ()"
  shows "validate_progress a c = Inr ()"
  unfolding validate_progress_iff
proof (intro allI impI)
  fix x assume "a = Some x"
  with assms obtain y z where y: "b = Some y" "at_most x y" "ob_sequence y = ob_sequence x \<longrightarrow> y = x"
    and z: "c = Some z" "at_most y z" "ob_sequence z = ob_sequence y \<longrightarrow> z = y"
    by (auto simp: validate_progress_iff)
  have "ob_sequence x \<le> ob_sequence y" "ob_sequence y \<le> ob_sequence z"
    using y(2) z(2) by (simp_all add: at_most_def)
  then show "\<exists>z. c = Some z \<and> at_most x z \<and> (ob_sequence z = ob_sequence x \<longrightarrow> z = x)"
    using y z at_most_trans [OF y(2) z(2)] by auto
qed

lemma endpoint_progress_iff:
  "endpoint_progress a b = Inr () \<longleftrightarrow>
     validate_progress (es_health a) (es_health b) = Inr ()
     \<and> validate_progress (es_load a) (es_load b) = Inr ()
     \<and> validate_progress (es_last_load_attempt a) (es_last_load_attempt b) = Inr ()
     \<and> \<not> load_after_attempt a b"
  by (auto simp: endpoint_progress_def result_simps)

lemma endpoint_progress_refl: "endpoint_progress a a = Inr ()"
  by (simp add: endpoint_progress_iff validate_progress_refl load_after_attempt_def)

lemma load_after_attempt_trans:
  assumes "endpoint_progress a b = Inr ()" "endpoint_progress b c = Inr ()"
  shows "\<not> load_after_attempt a c"
proof
  assume "load_after_attempt a c"
  then obtain x l where x: "es_load c = Some x" "es_last_load_attempt a = Some l"
    "es_load c \<noteq> es_load a" "ob_sequence x \<le> ob_sequence l"
    by (auto simp: load_after_attempt_def split: option.splits)
  from assms(1) x(2) obtain l' where l': "es_last_load_attempt b = Some l'"
    "ob_sequence l \<le> ob_sequence l'"
    by (auto simp: endpoint_progress_iff validate_progress_iff at_most_def)
  show False
  proof (cases "es_load b = es_load a")
    case True
    then show False
      using assms(2) x l' by (auto simp: endpoint_progress_iff load_after_attempt_def)
  next
    case False
    then obtain m where m: "es_load b = Some m" "ob_sequence l < ob_sequence m"
      using assms(1) x(2)
      by (cases "es_load b"; cases "es_load a")
        (auto simp: endpoint_progress_iff load_after_attempt_def validate_progress_iff)
    moreover have "ob_sequence m \<le> ob_sequence x"
      using assms(2) m(1) x(1) by (auto simp: endpoint_progress_iff validate_progress_iff at_most_def)
    ultimately show False using x(4) by simp
  qed
qed

lemma endpoint_progress_trans:
  "endpoint_progress a b = Inr () \<Longrightarrow> endpoint_progress b c = Inr () \<Longrightarrow>
     endpoint_progress a c = Inr ()"
  using load_after_attempt_trans [of a b c] validate_progress_trans
  by (metis endpoint_progress_iff)

definition progressed :: "router_snapshot \<Rightarrow> router_snapshot \<Rightarrow> bool" where
  "progressed s s' \<longleftrightarrow>
     endpoint_progress (fst s) (fst s') = Inr () \<and> endpoint_progress (snd s) (snd s') = Inr ()"

lemma progressed_refl: "progressed s s"
  by (simp add: progressed_def endpoint_progress_refl)

lemma progressed_trans: "progressed a b \<Longrightarrow> progressed b c \<Longrightarrow> progressed a c"
  unfolding progressed_def using endpoint_progress_trans by blast

section \<open>What a policy relies on of its source\<close>

locale observation_source =
  fixes ok :: "'s \<Rightarrow> bool"
    and step :: "'s \<Rightarrow> 's \<Rightarrow> bool"
    and snap :: "'s \<Rightarrow> router_snapshot"
    and latest :: "'s \<Rightarrow> int"
  assumes ok_step: "ok s \<Longrightarrow> step s s' \<Longrightarrow> ok s'"
    and snap_valid: "ok s \<Longrightarrow> valid_snapshot (snap s)"
    and snap_published: "ok s \<Longrightarrow>
      \<not> published_after (fst (snap s)) (latest s) \<and> \<not> published_after (snd (snap s)) (latest s)"
    and snap_progress: "ok s \<Longrightarrow> step s s' \<Longrightarrow> progressed (snap s) (snap s')"
begin

definition synced :: "'s \<Rightarrow> routing_policy \<Rightarrow> bool" where
  "synced s p \<longleftrightarrow> ok s \<and> (\<forall>prev. rp_previous_snapshot p = Some prev \<longrightarrow> progressed prev (snap s))"

lemma synced_start: "ok s \<Longrightarrow> rp_previous_snapshot p = None \<Longrightarrow> synced s p"
  by (simp add: synced_def)

lemma synced_step: "synced s p \<Longrightarrow> step s s' \<Longrightarrow> synced s' p"
  using ok_step snap_progress progressed_trans unfolding synced_def by blast

lemma published_after_mono: "published_after e t \<Longrightarrow> u \<le> t \<Longrightarrow> published_after e u"
  by (auto simp: published_after_def)

lemma synced_decide:
  assumes "synced s p" "latest s \<le> t" "\<forall>u. rp_last_decision_ns p = Some u \<longrightarrow> u \<le> t"
    and "0 \<le> t" "t \<le> max_safe_integer" "0 \<le> i" "i \<le> max_safe_integer"
  shows "\<exists>p' d. decide p (snap s) i t = Inr (p', d) \<and> synced s p' \<and> rp_last_decision_ns p' = Some t"
proof -
  have "ok s" using assms(1) by (simp add: synced_def)
  have published: "\<not> published_after (fst (snap s)) t" "\<not> published_after (snd (snap s)) t"
    using snap_published [OF \<open>ok s\<close>] published_after_mono [OF _ assms(2)] by blast+
  have time: "\<not> (\<exists>u \<in> set_option (rp_last_decision_ns p). t < u)" using assms(3) by force
  have "validate_snapshot p (snap s) t = Inr ()"
  proof (cases "rp_previous_snapshot p")
    case None
    with published time show ?thesis by (simp add: validate_snapshot_def)
  next
    case (Some prev)
    then have "progressed prev (snap s)" using assms(1) by (simp add: synced_def)
    with Some published time show ?thesis by (simp add: validate_snapshot_def progressed_def)
  qed
  from decide_total [OF snap_valid [OF \<open>ok s\<close>] this assms(6,7,4,5)] obtain p' d where
    "decide p (snap s) i t = Inr (p', d)" "rp_last_decision_ns p' = Some t"
    "rp_previous_snapshot p' = Some (snap s)" by blast
  then show ?thesis using \<open>ok s\<close> by (auto simp: synced_def progressed_refl)
qed

end

section \<open>The publisher is such a source\<close>

lemma check_endpoint_published:
  assumes "published_ok m (ro_published g e)"
  shows "check_endpoint_snapshot \<lparr>es_endpoint_id = e, es_health = pb_health (ro_published g e),
    es_load = pb_load (ro_published g e),
    es_last_load_attempt = pb_last_load_attempt (ro_published g e)\<rparr> = Inr ()"
proof -
  let ?p = "ro_published g e"
  let ?s = "\<lparr>es_endpoint_id = e, es_health = pb_health ?p, es_load = pb_load ?p,
    es_last_load_attempt = pb_last_load_attempt ?p\<rparr>"
  have load: "load_ok m ?p" and attempt: "attempt_ok m ?p"
    using assms by (simp_all add: published_ok_def)
  have "check_retained_load ?s = Inr ()"
  proof (cases "pb_load ?p")
    case None
    then show ?thesis by (simp add: check_retained_load_def)
  next
    case (Some l)
    with load obtain a where "pb_last_load_attempt ?p = Some a" "at_most l a"
      "ob_sequence a = ob_sequence l \<longrightarrow> a = l" "ob_status l = VALID_SAMPLE"
      by (auto simp: load_ok_def)
    with Some show ?thesis by (auto simp: check_retained_load_def at_most_def)
  qed
  moreover have "\<not> (ob_status a = VALID_SAMPLE \<and> pb_load ?p \<noteq> Some a)"
    if "pb_last_load_attempt ?p = Some a" for a
    using attempt that by (auto simp: attempt_ok_def)
  ultimately show ?thesis
    by (cases "pb_last_load_attempt ?p") (auto simp: check_endpoint_snapshot_def)
qed

lemma published_valid_endpoint:
  assumes "published_ok m (ro_published g e)"
  shows "valid_endpoint \<lparr>es_endpoint_id = e, es_health = pb_health (ro_published g e),
    es_load = pb_load (ro_published g e),
    es_last_load_attempt = pb_last_load_attempt (ro_published g e)\<rparr>"
  using check_endpoint_published [OF assms] assms
  by (auto simp: valid_endpoint_def published_ok_def health_ok_def attempt_ok_def load_ok_def)

lemma snapshot_of_valid: "obs_ok g \<Longrightarrow> valid_snapshot (snapshot_of g)"
  by (auto simp: valid_snapshot_def snapshot_of_def Let_def check_router_snapshot_def obs_ok_def
      intro: published_valid_endpoint)

lemma snapshot_never_raises: "obs_ok g \<Longrightarrow> snapshot g = Inr (snapshot_of g)"
  using snapshot_of_valid [of g] by (simp add: snapshot_def Let_def valid_snapshot_def valid_endpoint_def)

lemma published_ok_latest:
  "published_ok m p \<Longrightarrow> \<not> published_after \<lparr>es_endpoint_id = e, es_health = pb_health p,
     es_load = pb_load p, es_last_load_attempt = pb_last_load_attempt p\<rparr> m"
  by (auto simp: published_after_def published_ok_def health_ok_def attempt_ok_def load_ok_def
      option.pred_set)

lemma snapshot_of_published:
  "obs_ok g \<Longrightarrow> \<not> published_after (fst (snapshot_of g)) (ro_latest_publication_ns g)
     \<and> \<not> published_after (snd (snapshot_of g)) (ro_latest_publication_ns g)"
  by (simp add: snapshot_of_def Let_def obs_ok_def published_ok_latest)

lemma snapshot_progressed:
  assumes "\<And>e. validate_progress (pb_health (ro_published g e)) (pb_health (ro_published g' e)) = Inr ()"
    and "\<And>e. validate_progress (pb_load (ro_published g e)) (pb_load (ro_published g' e)) = Inr ()"
    and "\<And>e. validate_progress (pb_last_load_attempt (ro_published g e))
      (pb_last_load_attempt (ro_published g' e)) = Inr ()"
    and "\<And>e x l. pb_load (ro_published g' e) = Some x \<Longrightarrow> pb_load (ro_published g e) \<noteq> Some x \<Longrightarrow>
      pb_last_load_attempt (ro_published g e) = Some l \<Longrightarrow> ob_sequence l < ob_sequence x"
  shows "progressed (snapshot_of g) (snapshot_of g')"
proof -
  have "\<not> load_after_attempt
      \<lparr>es_endpoint_id = e, es_health = pb_health (ro_published g e), es_load = pb_load (ro_published g e),
        es_last_load_attempt = pb_last_load_attempt (ro_published g e)\<rparr>
      \<lparr>es_endpoint_id = e, es_health = pb_health (ro_published g' e), es_load = pb_load (ro_published g' e),
        es_last_load_attempt = pb_last_load_attempt (ro_published g' e)\<rparr>" for e
    using assms(4) [of e]
    by (cases "pb_load (ro_published g' e)"; cases "pb_last_load_attempt (ro_published g e)")
      (force simp: load_after_attempt_def)+
  then show ?thesis
    by (simp add: progressed_def snapshot_of_def Let_def endpoint_progress_iff assms(1-3))
qed

lemma validate_progress_newer:
  "pred_option (\<lambda>p. at_most p x \<and> ob_sequence p < ob_sequence x) old \<Longrightarrow>
     validate_progress old (Some x) = Inr ()"
  by (cases old) (auto simp: validate_progress_iff)

lemma health_progress:
  assumes "obs_ok g" "publish_health e h g = Inr g'"
  shows "progressed (snapshot_of g) (snapshot_of g')"
proof -
  from assms(2) obtain c where ord: "ordered g h (pb_health_cursor (ro_published g e)) = Inr c"
    and g': "ro_published g' = (ro_published g)(e :=
      (ro_published g e)\<lparr>pb_health := Some h, pb_health_cursor := Some c\<rparr>)"
    by (auto simp: publish_health_def Let_def result_simps)
  have "pred_option (\<lambda>p. at_most p h \<and> ob_sequence p < ob_sequence h) (pb_health (ro_published g e))"
    using assms(1) ordered_Inr [OF ord]
    by (cases "pb_health (ro_published g e)")
      (force simp: obs_ok_def published_ok_def health_ok_def dest: spec [of _ e])+
  then show ?thesis
    by (intro snapshot_progressed)
      (auto simp: g' validate_progress_refl intro: validate_progress_newer split: if_splits)
qed

lemma load_progress:
  assumes "obs_ok g" "publish_load e l g = Inr (g', b)"
  shows "progressed (snapshot_of g) (snapshot_of g')"
proof -
  from assms(2) have ord: "ordered g l (pb_load_cursor (ro_published g e)) = Inr (cursor.truncate l)"
    and g': "ro_published g' = (ro_published g)(e := load_entry g e l)"
    by (simp_all add: publish_load_Inr)
  let ?p = "ro_published g e"
  note o = ordered_Inr [OF ord]
  have ok: "attempt_ok (ro_latest_publication_ns g) ?p" "load_ok (ro_latest_publication_ns g) ?p"
    using assms(1) by (simp_all add: obs_ok_def published_ok_def)
  have prior: "at_most k l \<and> ob_sequence k < ob_sequence l" if "pb_last_load_attempt ?p = Some k" for k
  proof -
    from ok(1) that obtain c' where c': "pb_load_cursor ?p = Some c'" "at_most k c'"
      by (auto simp: attempt_ok_def)
    then have "at_most c' l" "ob_sequence c' < ob_sequence l" using o by auto
    then show ?thesis using c'(2) at_most_trans [OF c'(2), of l] by (simp add: at_most_def)
  qed
  have prior_load: "at_most k l \<and> ob_sequence k < ob_sequence l" if "pb_load ?p = Some k" for k
  proof -
    from ok(2) that obtain b where "pb_last_load_attempt ?p = Some b" "at_most k b"
      by (auto simp: load_ok_def)
    then show ?thesis using prior [of b] at_most_trans [of k b l] by (auto simp: at_most_def)
  qed
  have newer: "validate_progress (pb_last_load_attempt ?p) (Some l) = Inr ()"
    "validate_progress (pb_load ?p) (Some l) = Inr ()"
    using prior prior_load by (auto simp: option.pred_set intro!: validate_progress_newer)
  show ?thesis
    using newer prior
    by (intro snapshot_progressed)
      (auto simp: g' load_entry_def Let_def validate_progress_refl split: if_splits)
qed

lemma obs_step_progress:
  assumes "obs_ok g" "obs_step g g'"
  shows "progressed (snapshot_of g) (snapshot_of g')"
  using assms(2)
proof cases
  case (health h e)
  then show ?thesis using health_progress [OF assms(1)] by blast
next
  case (load l e b)
  then show ?thesis using load_progress [OF assms(1)] by blast
next
  case (freeze e now)
  then have "snapshot_of g' = snapshot_of g"
    by (auto simp: freeze_def snapshot_of_def Let_def result_simps split: if_splits)
  then show ?thesis by (simp add: progressed_refl)
next
  case (restore now b)
  then have "snapshot_of g' = snapshot_of g"
    by (auto simp: restore_def snapshot_of_def Let_def result_simps split: if_splits)
  then show ?thesis by (simp add: progressed_refl)
qed

interpretation gate: observation_source obs_ok obs_step snapshot_of ro_latest_publication_ns
  by unfold_locales
    (auto intro: obs_step_ok snapshot_of_valid obs_step_progress dest: snapshot_of_published)

section \<open>Trials\<close>

text \<open>
  A trial interleaves publisher operations with decisions on the current snapshot. A decision comes
  at an instant no earlier than the previous decision and the latest publication: the code reads one
  monotonic clock.
\<close>

definition decision_due :: "router_observations \<Rightarrow> routing_policy \<Rightarrow> int \<Rightarrow> int \<Rightarrow> bool" where
  "decision_due g p i t \<longleftrightarrow>
     ro_latest_publication_ns g \<le> t \<and> (case rp_last_decision_ns p of None \<Rightarrow> True | Some u \<Rightarrow> u \<le> t)
     \<and> 0 \<le> t \<and> t \<le> max_safe_integer \<and> 0 \<le> i \<and> i \<le> max_safe_integer"

inductive trial :: "router_observations \<Rightarrow> routing_policy \<Rightarrow> bool" where
  fresh_start: "make_policy q h l = Inr p \<Longrightarrow> trial new_observations p"
| observe: "trial g p \<Longrightarrow> obs_step g g' \<Longrightarrow> trial g' p"
| decided: "trial g p \<Longrightarrow> decision_due g p i t \<Longrightarrow> decide p (snapshot_of g) i t = Inr (p', d) \<Longrightarrow>
    trial g p'"

inductive_cases trialE: "trial g p"

lemma trial_synced: "trial g p \<Longrightarrow> gate.synced g p"
proof (induction rule: trial.induct)
  case (fresh_start q h l p)
  then show ?case
    by (intro gate.synced_start new_observations_ok) (auto simp: make_policy_def result_simps)
next
  case (observe g p g')
  then show ?case by (blast intro: gate.synced_step)
next
  case (decided g p i t p' d)
  have due: "\<forall>u. rp_last_decision_ns p = Some u \<longrightarrow> u \<le> t" "ro_latest_publication_ns g \<le> t"
    "0 \<le> t" "t \<le> max_safe_integer" "0 \<le> i" "i \<le> max_safe_integer"
    using decided.hyps(2) by (auto simp: decision_due_def)
  show ?case
    using gate.synced_decide [OF decided.IH due(2,1,3-6)] decided.hyps(3) by auto
qed

lemma trial_obs_ok: "trial g p \<Longrightarrow> obs_ok g"
  using trial_synced by (simp add: gate.synced_def)

text \<open>
  C18: no trial makes its policy raise. After any interleaving of successful publications, freeze,
  restore and decisions, the publisher's snapshot passes the constructors' checks and a decision due
  on it returns: the snapshot, progress and score errors are unreachable from the publisher.
\<close>

theorem trial_decisions_never_raise:
  assumes "trial g p" and "decision_due g p i t"
  shows "snapshot g = Inr (snapshot_of g) \<and> (\<exists>p' d. decide p (snapshot_of g) i t = Inr (p', d))"
proof -
  have due: "\<forall>u. rp_last_decision_ns p = Some u \<longrightarrow> u \<le> t" "ro_latest_publication_ns g \<le> t"
    "0 \<le> t" "t \<le> max_safe_integer" "0 \<le> i" "i \<le> max_safe_integer"
    using assms(2) by (auto simp: decision_due_def)
  show ?thesis
    using gate.synced_decide [OF trial_synced [OF assms(1)] due(2,1,3-6)]
      snapshot_never_raises [OF trial_obs_ok [OF assms(1)]] by blast
qed

theorem trial_decisions_never_raise_witness:
  "snapshot new_observations = Inr (snapshot_of new_observations)
    \<and> (\<exists>p' d. decide (sample_policy FAIL_CLOSED_V1) (snapshot_of new_observations) 0 5 = Inr (p', d))"
proof (rule trial_decisions_never_raise)
  have "make_policy FAIL_CLOSED_V1 100 50 = Inr (sample_policy FAIL_CLOSED_V1)"
    by (simp add: sample_policy_def make_policy_def bounded_integer_def max_safe_integer_def)
  then show "trial new_observations (sample_policy FAIL_CLOSED_V1)" by (rule trial.fresh_start)
  show "decision_due new_observations (sample_policy FAIL_CLOSED_V1) 0 5" by code_simp
qed

section \<open>The freeze hides load, and only load\<close>

text \<open>
  Samples of the frozen target: while frozen none is visible, and after the restore only those whose
  acquisition started at or after the cutoff.
\<close>

definition visible_load :: "router_observations \<Rightarrow> endpoint_id \<Rightarrow> load_observation option \<times> load_observation option" where
  "visible_load g e = (pb_load (ro_published g e), pb_last_load_attempt (ro_published g e))"

text \<open>
  While an endpoint is frozen no operation but \<open>restore\<close> changes what the policies see of its
  load, even across repeated publications; the other endpoint's samples and all health samples stay
  live.
\<close>

theorem frozen_load_hidden:
  assumes "ro_frozen g" and "ro_target g = Some e"
  shows "(case publish_load x l g of
        Inl _ \<Rightarrow> True
      | Inr (g', visible) \<Rightarrow> visible = (x \<noteq> e) \<and> visible_load g' e = visible_load g e
          \<and> ro_frozen g' \<and> ro_target g' = Some e
          \<and> (x \<noteq> e \<longrightarrow> pb_last_load_attempt (ro_published g' x) = Some l))
    \<and> (case publish_health x h g of
        Inl _ \<Rightarrow> True
      | Inr g' \<Rightarrow> visible_load g' e = visible_load g e \<and> pb_health (ro_published g' x) = Some h
          \<and> ro_frozen g' \<and> ro_target g' = Some e)"
proof (intro conjI)
  show "case publish_load x l g of
        Inl _ \<Rightarrow> True
      | Inr (g', visible) \<Rightarrow> visible = (x \<noteq> e) \<and> visible_load g' e = visible_load g e
          \<and> ro_frozen g' \<and> ro_target g' = Some e
          \<and> (x \<noteq> e \<longrightarrow> pb_last_load_attempt (ro_published g' x) = Some l)"
  proof (cases "publish_load x l g")
    case (Inl a)
    then show ?thesis by simp
  next
    case (Inr r)
    obtain g' b where "r = (g', b)" by (cases r)
    then have eq: "publish_load x l g = Inr (g', b)" using Inr by simp
    show ?thesis
      using eq [unfolded publish_load_Inr] assms unfolding eq
      by (auto simp: suppressed_def load_entry_def visible_load_def Let_def split: if_splits)
  qed
  show "case publish_health x h g of
        Inl _ \<Rightarrow> True
      | Inr g' \<Rightarrow> visible_load g' e = visible_load g e \<and> pb_health (ro_published g' x) = Some h
          \<and> ro_frozen g' \<and> ro_target g' = Some e"
    using assms
    by (cases "ordered g h (pb_health_cursor (ro_published g x))")
      (auto simp: publish_health_def Let_def visible_load_def)
qed

definition sample_frozen :: router_observations where
  "sample_frozen = (case freeze EndpointB 3 new_observations of Inr g \<Rightarrow> g)"

theorem frozen_load_hidden_witness:
  "case publish_health EndpointB (sample_health 4) sample_frozen of
      Inl _ \<Rightarrow> True
    | Inr g' \<Rightarrow> visible_load g' EndpointB = visible_load sample_frozen EndpointB
        \<and> pb_health (ro_published g' EndpointB) = Some (sample_health 4)
        \<and> ro_frozen g' \<and> ro_target g' = Some EndpointB"
proof -
  have "ro_frozen sample_frozen" "ro_target sample_frozen = Some EndpointB"
    by (simp_all add: sample_frozen_def freeze_def transition_time_def new_observations_def
        max_safe_integer_def)
  from conjunct2 [OF frozen_load_hidden [OF this]] show ?thesis .
qed

text \<open>
  After a restore the target's visible load can only change to a sample acquired after the cutoff.
\<close>

inductive after_restore :: "router_observations \<Rightarrow> router_observations \<Rightarrow> bool"
  for g0 :: router_observations where
  restored: "after_restore g0 g0"
| later: "after_restore g0 g \<Longrightarrow> obs_step g g' \<Longrightarrow> after_restore g0 g'"

definition fresh_or_same ::
  "endpoint_id \<Rightarrow> int \<Rightarrow> router_observations \<Rightarrow> router_observations \<Rightarrow> bool" where
  "fresh_or_same e cutoff g0 g \<longleftrightarrow>
     (pb_load (ro_published g e) = pb_load (ro_published g0 e)
        \<or> (\<exists>l. pb_load (ro_published g e) = Some l \<and> cutoff \<le> ob_started_ns l))
     \<and> ro_target g = Some e \<and> \<not> ro_frozen g \<and> ro_freeze_used g \<and> ro_restore_cutoff g = Some cutoff"

lemma fresh_or_same_step:
  assumes "fresh_or_same e cutoff g0 g" "obs_step g g'"
  shows "fresh_or_same e cutoff g0 g'"
  using assms(2)
proof cases
  case (health h x)
  then show ?thesis
    using assms(1) by (auto simp: publish_health_def Let_def fresh_or_same_def result_simps)
next
  case (load l x b)
  then show ?thesis
    using assms(1)
    by (auto simp: publish_load_Inr fresh_or_same_def load_entry_def Let_def suppressed_def)
next
  case (freeze x now)
  then show ?thesis using assms(1) by (auto simp: freeze_def fresh_or_same_def result_simps)
next
  case (restore now b)
  then show ?thesis using assms(1) by (auto simp: restore_def fresh_or_same_def)
qed

text \<open>
  A restore never republishes a buffered or in-flight sample. Whatever happens after the restore
  at \<open>now\<close>, the target's retained load is still the one from before the freeze or one whose
  acquisition started at or after \<open>now\<close>; the freeze cannot be used again.
\<close>

theorem restored_load_is_fresh:
  assumes "obs_ok g" and "restore now g = Inr (g1, True)" and "ro_target g = Some e"
    and "after_restore g1 g2"
  shows "(pb_load (ro_published g2 e) = pb_load (ro_published g e)
      \<or> (\<exists>l. pb_load (ro_published g2 e) = Some l \<and> now \<le> ob_started_ns l))
    \<and> \<not> is_ok (freeze x t g2)"
proof -
  have g1: "fresh_or_same e now g g1"
    using assms(1-3) by (auto simp: restore_def fresh_or_same_def obs_ok_def result_simps split: if_splits)
  from assms(4) have "fresh_or_same e now g g2"
    by induction (use g1 fresh_or_same_step in blast)+
  then show ?thesis
    by (cases "pb_load (ro_published g2 e)"; cases "transition_time g2 t")
      (auto simp: fresh_or_same_def freeze_def)
qed

definition sample_restored :: router_observations where
  "sample_restored = (case restore 8 sample_frozen of Inr (g, _) \<Rightarrow> g)"

theorem restored_load_is_fresh_witness:
  "(pb_load (ro_published sample_restored EndpointB) = pb_load (ro_published sample_frozen EndpointB)
      \<or> (\<exists>l. pb_load (ro_published sample_restored EndpointB) = Some l \<and> 8 \<le> ob_started_ns l))
    \<and> \<not> is_ok (freeze EndpointA 9 sample_restored)"
proof (rule restored_load_is_fresh [where now = 8 and g = sample_frozen, OF _ _ _ after_restore.restored])
  show "obs_ok sample_frozen"
    using freeze_ok [OF new_observations_ok, of EndpointB 3]
    by (simp add: sample_frozen_def freeze_def transition_time_def new_observations_def
        max_safe_integer_def)
qed (simp_all add: sample_restored_def sample_frozen_def restore_def freeze_def transition_time_def
    new_observations_def max_safe_integer_def)

end
