(* ===== verification/Lifecycle.thy ===== *)
theory Lifecycle
  imports Prelude
begin

text \<open>
  The deployment lifecycle of \<open>deployment/lifecycle.py\<close>: the coordinator's \<open>run\<close> with its phases, its
  \<open>finally\<close> block, the classification of exceptions and the resulting outcome, and the local
  adapters. Adapters, the benchmark callback and the cancellation token are arbitrary code: each
  call transforms a world \<open>'w\<close> and returns a value or raises. Raised objects are classified as the
  code's \<open>isinstance\<close> chain does. A return value of the wrong Python type is a constructor of its own.
\<close>

section \<open>Vocabulary\<close>

datatype lifecycle_phase =
    VALIDATION | PROVIDER_ACQUISITION | RUNTIME_START | RUNTIME_READINESS | BENCHMARK | RUNTIME_STOP
  | PROVIDER_CLEANUP | PROVIDER_FINAL_CONFIRMATION

datatype lifecycle_status = LS_SUCCEEDED | LS_FAILED | LS_CANCELLED | LS_INTERRUPTED

datatype event_result = EV_SUCCEEDED | EV_FAILED

datatype lifecycle_error =
    INVALID_SPEC | INVALID_CALLBACK | UNSUPPORTED_PROVIDER | UNSUPPORTED_RUNTIME
  | UNSUPPORTED_INTENT | CAPABILITY_MISMATCH | PROVIDER_ACQUIRE_FAILED | RUNTIME_START_FAILED
  | READINESS_FAILED | BENCHMARK_FAILED | RUNTIME_STOP_FAILED | PROVIDER_CLEANUP_FAILED
  | CLEANUP_UNCONFIRMED | E_CANCELLED | E_INTERRUPTED | BASE_EXCEPTION

datatype raised =
    LifecycleFailure lifecycle_error | LifecycleValidationError lifecycle_error
  | CancellationRequested | KeyboardInterrupt | OrdinaryException | OtherBaseException

record runtime_endpoint =
  ep_scheme :: string
  ep_host :: string
  ep_port :: int
  ep_path :: string

record runtime_handle =
  rh_handle_id :: string
  rh_endpoint :: runtime_endpoint

record deployment_spec =
  sp_provider_id :: string
  sp_engine :: string
  sp_execution_intent :: string
  sp_mode :: string
  sp_gpu_count :: int
  sp_endpoint :: runtime_endpoint
  sp_startup_seconds :: int

record cleanup_result =
  cl_confirmed :: bool
  cl_orphaned :: bool
  cl_error_code :: "lifecycle_error option"

text \<open>A value an adapter hands back: \<open>None\<close> when it is not of the class the coordinator expects.\<close>

type_synonym ('w, 'a) call = "'w \<Rightarrow> 'w \<times> (raised, 'a) res"

record 'w provider_adapter =
  pa_provider_id :: string
  pa_validate :: "deployment_spec \<Rightarrow> ('w, unit) call"
  pa_acquire :: "deployment_spec \<Rightarrow> ('w, string option) call"
  pa_cleanup :: "deployment_spec \<Rightarrow> string option \<Rightarrow> ('w, cleanup_result option) call"
  pa_confirm_cleanup :: "deployment_spec \<Rightarrow> string option \<Rightarrow> ('w, cleanup_result option) call"

record 'w runtime_adapter =
  ra_engine_id :: string
  ra_validate :: "deployment_spec \<Rightarrow> ('w, unit) call"
  ra_start :: "deployment_spec \<Rightarrow> string \<Rightarrow> ('w, runtime_handle option) call"
  ra_wait_ready :: "deployment_spec \<Rightarrow> runtime_handle \<Rightarrow> ('w, bool) call"
  ra_stop :: "deployment_spec \<Rightarrow> runtime_handle option \<Rightarrow> ('w, cleanup_result option) call"

record trace_event =
  te_sequence_index :: int
  te_phase :: lifecycle_phase
  te_result :: event_result
  te_error_code :: "lifecycle_error option"

record lifecycle_outcome =
  lo_status :: lifecycle_status
  lo_terminal_phase :: lifecycle_phase
  lo_error_code :: "lifecycle_error option"
  lo_primary_error_code :: "lifecycle_error option"
  lo_cleanup_error_code :: "lifecycle_error option"
  lo_trace :: "trace_event list"
  lo_runtime_stop_attempted :: bool
  lo_runtime_stop_confirmed :: bool
  lo_provider_cleanup_attempted :: bool
  lo_provider_cleanup_confirmed :: bool
  lo_final_confirmation_attempted :: bool
  lo_final_confirmation :: bool
  lo_orphaned :: bool

fun phase_default_error :: "lifecycle_phase \<Rightarrow> lifecycle_error" where
  "phase_default_error VALIDATION = CAPABILITY_MISMATCH"
| "phase_default_error PROVIDER_ACQUISITION = PROVIDER_ACQUIRE_FAILED"
| "phase_default_error RUNTIME_START = RUNTIME_START_FAILED"
| "phase_default_error RUNTIME_READINESS = READINESS_FAILED"
| "phase_default_error BENCHMARK = BENCHMARK_FAILED"
| "phase_default_error RUNTIME_STOP = RUNTIME_STOP_FAILED"
| "phase_default_error PROVIDER_CLEANUP = PROVIDER_CLEANUP_FAILED"
| "phase_default_error PROVIDER_FINAL_CONFIRMATION = CLEANUP_UNCONFIRMED"

fun error_code :: "raised \<Rightarrow> lifecycle_error \<Rightarrow> lifecycle_error" where
  "error_code (LifecycleFailure c) fallback = c"
| "error_code (LifecycleValidationError c) fallback = c"
| "error_code CancellationRequested fallback = E_CANCELLED"
| "error_code KeyboardInterrupt fallback = E_INTERRUPTED"
| "error_code OrdinaryException fallback = fallback"
| "error_code OtherBaseException fallback = BASE_EXCEPTION"

definition status_for_error :: "lifecycle_error \<Rightarrow> lifecycle_status" where
  "status_for_error c =
     (if c = E_CANCELLED then LS_CANCELLED
      else if c = E_INTERRUPTED then LS_INTERRUPTED else LS_FAILED)"

definition require_cleanup_result ::
  "cleanup_result option \<Rightarrow> lifecycle_error \<Rightarrow> (raised, cleanup_result) res" where
  "require_cleanup_result value fallback =
     (case value of
        None \<Rightarrow> Inl (LifecycleFailure fallback)
      | Some r \<Rightarrow>
          if cl_confirmed r
          then (if cl_orphaned r \<or> cl_error_code r \<noteq> None then Inl (LifecycleFailure fallback)
                else Inr r)
          else (case cl_error_code r of
              None \<Rightarrow> Inl (LifecycleFailure fallback)
            | Some c \<Rightarrow>
                if c \<noteq> fallback \<and> c \<noteq> CLEANUP_UNCONFIRMED then Inl (LifecycleFailure fallback)
                else Inl (LifecycleFailure c)))"

section \<open>The coordinator's state\<close>

text \<open>The variables of \<open>run\<close> that its nested functions share, with the world.\<close>

record 'w lifecycle =
  lc_world :: 'w
  lc_trace :: "trace_event list"
  lc_phase :: lifecycle_phase
  lc_provider_handle :: "string option"
  lc_runtime_handle :: "runtime_handle option"
  lc_provider_attempted :: bool
  lc_start_attempted :: bool

type_synonym ('w, 'a) step = "'w lifecycle \<Rightarrow> 'w lifecycle \<times> (raised, 'a) res"

definition then_do :: "('w, 'a) step \<Rightarrow> ('a \<Rightarrow> ('w, 'b) step) \<Rightarrow> ('w, 'b) step" where
  "then_do m f = (\<lambda>s. case m s of (s', Inl e) \<Rightarrow> (s', Inl e) | (s', Inr x) \<Rightarrow> f x s')"

definition done_with :: "(raised, 'a) res \<Rightarrow> ('w, 'a) step" where
  "done_with r = (\<lambda>s. (s, r))"

definition modify :: "('w lifecycle \<Rightarrow> 'w lifecycle) \<Rightarrow> ('w, unit) step" where
  "modify f = (\<lambda>s. (f s, Inr ()))"

definition call_out :: "('w, 'a) call \<Rightarrow> ('w, 'a) step" where
  "call_out c = (\<lambda>s. case c (lc_world s) of (w, r) \<Rightarrow> (s\<lparr>lc_world := w\<rparr>, r))"

definition record_event ::
  "lifecycle_phase \<Rightarrow> event_result \<Rightarrow> lifecycle_error option \<Rightarrow> 'w lifecycle \<Rightarrow> 'w lifecycle" where
  "record_event ph result e s =
     s\<lparr>lc_trace := lc_trace s @ [\<lparr>te_sequence_index = int (length (lc_trace s)), te_phase = ph,
        te_result = result, te_error_code = e\<rparr>]\<rparr>"

definition in_phase :: "lifecycle_phase \<Rightarrow> ('w, 'a) step \<Rightarrow> ('w, 'a) step" where
  "in_phase ph operation =
     (\<lambda>s. case operation (s\<lparr>lc_phase := ph\<rparr>) of
        (s', Inl e) \<Rightarrow> (record_event ph EV_FAILED (Some (error_code e (phase_default_error ph))) s', Inl e)
      | (s', Inr x) \<Rightarrow> (record_event ph EV_SUCCEEDED None s', Inr x))"

record 'w coordinator =
  co_provider :: "'w provider_adapter"
  co_runtime :: "'w runtime_adapter"
  co_cancelled :: "'w \<Rightarrow> bool"

definition check_cancellation :: "'w coordinator \<Rightarrow> ('w, unit) step" where
  "check_cancellation co =
     (\<lambda>s. (s, if co_cancelled co (lc_world s) then Inl CancellationRequested else Inr ()))"

definition validate_spec :: "'w coordinator \<Rightarrow> deployment_spec \<Rightarrow> ('w, unit) step" where
  "validate_spec co spec =
     (if sp_provider_id spec \<noteq> ''local''
      then done_with (Inl (LifecycleValidationError UNSUPPORTED_PROVIDER))
      else if sp_engine spec \<noteq> ''vllm''
      then done_with (Inl (LifecycleValidationError UNSUPPORTED_RUNTIME))
      else if pa_provider_id (co_provider co) \<noteq> sp_provider_id spec
      then done_with (Inl (LifecycleValidationError CAPABILITY_MISMATCH))
      else if ra_engine_id (co_runtime co) \<noteq> sp_engine spec
      then done_with (Inl (LifecycleValidationError CAPABILITY_MISMATCH))
      else then_do (call_out (pa_validate (co_provider co) spec))
             (\<lambda>_. call_out (ra_validate (co_runtime co) spec)))"

type_synonym 'w benchmark = "(runtime_endpoint \<Rightarrow> ('w, unit) call) option"

definition validate_inputs ::
  "'w coordinator \<Rightarrow> deployment_spec \<Rightarrow> 'w benchmark \<Rightarrow> ('w, unit) step" where
  "validate_inputs co spec benchmark =
     then_do (check_cancellation co) (\<lambda>_.
     then_do (validate_spec co spec) (\<lambda>_.
       done_with (if benchmark = None then Inl (LifecycleFailure INVALID_CALLBACK) else Inr ())))"

definition acquire_provider :: "'w coordinator \<Rightarrow> deployment_spec \<Rightarrow> ('w, string) step" where
  "acquire_provider co spec =
     then_do (check_cancellation co) (\<lambda>_.
     then_do (modify (\<lambda>s. s\<lparr>lc_provider_attempted := True\<rparr>)) (\<lambda>_.
     then_do (call_out (pa_acquire (co_provider co) spec)) (\<lambda>h.
       done_with (case h of None \<Rightarrow> Inl (LifecycleFailure PROVIDER_ACQUIRE_FAILED)
                  | Some handle \<Rightarrow> Inr handle))))"

definition start_runtime :: "'w coordinator \<Rightarrow> deployment_spec \<Rightarrow> ('w, runtime_handle) step" where
  "start_runtime co spec =
     then_do (check_cancellation co) (\<lambda>_ s.
       case lc_provider_handle s of
         None \<Rightarrow> (s, Inl (LifecycleFailure RUNTIME_START_FAILED))
       | Some p \<Rightarrow>
           then_do (call_out (ra_start (co_runtime co) spec p)) (\<lambda>h s'.
             case h of
               None \<Rightarrow> (s', Inl (LifecycleFailure RUNTIME_START_FAILED))
             | Some handle \<Rightarrow>
                 (s'\<lparr>lc_runtime_handle := Some handle\<rparr>,
                  if rh_endpoint handle \<noteq> sp_endpoint spec
                  then Inl (LifecycleFailure RUNTIME_START_FAILED) else Inr handle))
           (s\<lparr>lc_start_attempted := True\<rparr>))"

definition wait_for_readiness :: "'w coordinator \<Rightarrow> deployment_spec \<Rightarrow> ('w, unit) step" where
  "wait_for_readiness co spec =
     then_do (check_cancellation co) (\<lambda>_ s.
       case lc_runtime_handle s of
         None \<Rightarrow> (s, Inl (LifecycleFailure READINESS_FAILED))
       | Some h \<Rightarrow>
           then_do (call_out (ra_wait_ready (co_runtime co) spec h)) (\<lambda>ready.
             done_with (if \<not> ready then Inl (LifecycleFailure READINESS_FAILED) else Inr ())) s)"

definition run_benchmark :: "'w coordinator \<Rightarrow> 'w benchmark \<Rightarrow> ('w, unit) step" where
  "run_benchmark co benchmark =
     then_do (check_cancellation co) (\<lambda>_ s.
       case (lc_runtime_handle s, benchmark) of
         (Some h, Some b) \<Rightarrow> call_out (b (rh_endpoint h)) s
       | _ \<Rightarrow> (s, Inl (LifecycleFailure BENCHMARK_FAILED)))"

text \<open>The \<open>try\<close> block.\<close>

definition main_phases ::
  "'w coordinator \<Rightarrow> deployment_spec \<Rightarrow> 'w benchmark \<Rightarrow> ('w, unit) step" where
  "main_phases co spec benchmark =
     then_do (in_phase VALIDATION (validate_inputs co spec benchmark)) (\<lambda>_.
     then_do (in_phase PROVIDER_ACQUISITION (acquire_provider co spec)) (\<lambda>p.
     then_do (modify (\<lambda>s. s\<lparr>lc_provider_handle := Some p\<rparr>)) (\<lambda>_.
     then_do (in_phase RUNTIME_START (start_runtime co spec)) (\<lambda>h.
     then_do (modify (\<lambda>s. s\<lparr>lc_runtime_handle := Some h\<rparr>)) (\<lambda>_.
     then_do (in_phase RUNTIME_READINESS (wait_for_readiness co spec)) (\<lambda>_.
     in_phase BENCHMARK (run_benchmark co benchmark)))))))"

text \<open>The part of the \<open>finally\<close> block that one cleanup call contributes.\<close>

record cleanup_state =
  cs_stop_attempted :: bool
  cs_stop_confirmed :: bool
  cs_cleanup_attempted :: bool
  cs_cleanup_confirmed :: bool
  cs_final_attempted :: bool
  cs_final_confirmed :: bool
  cs_orphaned :: bool
  cs_error :: "lifecycle_error option"

definition cleanup_call ::
  "lifecycle_phase \<Rightarrow> ('w, cleanup_result option) call
     \<Rightarrow> 'w lifecycle \<times> bool \<times> lifecycle_error option
     \<Rightarrow> ('w lifecycle \<times> bool \<times> lifecycle_error option) \<times> bool" where
  "cleanup_call ph c x =
     (case x of (s, orphaned, error) \<Rightarrow>
        (case in_phase ph (then_do (call_out c)
            (\<lambda>v. done_with (require_cleanup_result v (phase_default_error ph)))) s of
          (s', Inr r) \<Rightarrow> ((s', orphaned \<or> cl_orphaned r, error), cl_confirmed r \<and> \<not> cl_orphaned r)
        | (s', Inl e) \<Rightarrow>
            ((s', True, if error = None then Some (error_code e (phase_default_error ph)) else error),
             False)))"

definition cleanup_phases ::
  "'w coordinator \<Rightarrow> deployment_spec \<Rightarrow> 'w lifecycle \<Rightarrow> 'w lifecycle \<times> cleanup_state" where
  "cleanup_phases co spec s =
     (let stopping = lc_start_attempted s \<or> lc_runtime_handle s \<noteq> None;
          cleaning = lc_provider_attempted s \<or> lc_provider_handle s \<noteq> None;
          (x1, stopped) = (if stopping
             then cleanup_call RUNTIME_STOP (ra_stop (co_runtime co) spec (lc_runtime_handle s))
                    (s, False, None)
             else ((s, False, None), True));
          (x2, cleaned) = (if cleaning
             then cleanup_call PROVIDER_CLEANUP
                    (pa_cleanup (co_provider co) spec (lc_provider_handle s)) x1
             else (x1, True));
          ((s3, orphaned, error), final) = (if cleaning
             then cleanup_call PROVIDER_FINAL_CONFIRMATION
                    (pa_confirm_cleanup (co_provider co) spec (lc_provider_handle s)) x2
             else (x2, True))
      in (s3, \<lparr>cs_stop_attempted = stopping, cs_stop_confirmed = stopped,
               cs_cleanup_attempted = cleaning, cs_cleanup_confirmed = cleaned,
               cs_final_attempted = cleaning, cs_final_confirmed = final, cs_orphaned = orphaned,
               cs_error = (if \<not> (stopped \<and> cleaned \<and> final) \<and> error = None
                           then Some CLEANUP_UNCONFIRMED else error)\<rparr>))"

definition initial_lifecycle :: "'w \<Rightarrow> 'w lifecycle" where
  "initial_lifecycle w = \<lparr>lc_world = w, lc_trace = [], lc_phase = VALIDATION,
     lc_provider_handle = None, lc_runtime_handle = None, lc_provider_attempted = False,
     lc_start_attempted = False\<rparr>"

definition run ::
  "'w coordinator \<Rightarrow> deployment_spec \<Rightarrow> 'w benchmark \<Rightarrow> 'w \<Rightarrow> 'w \<times> lifecycle_outcome" where
  "run co spec benchmark w =
     (let (s1, result) = main_phases co spec benchmark (initial_lifecycle w);
          primary = (case result of
              Inl e \<Rightarrow> Some (error_code e (phase_default_error (lc_phase s1)))
            | Inr _ \<Rightarrow> None);
          (s2, c) = cleanup_phases co spec s1
      in (lc_world s2,
          \<lparr>lo_status = (if cs_error c \<noteq> None then LS_FAILED
             else (case primary of None \<Rightarrow> LS_SUCCEEDED | Some e \<Rightarrow> status_for_error e)),
           lo_terminal_phase =
             (if lc_trace s2 = [] then VALIDATION else te_phase (last (lc_trace s2))),
           lo_error_code = (case cs_error c of None \<Rightarrow> primary | Some e \<Rightarrow> Some e),
           lo_primary_error_code = primary, lo_cleanup_error_code = cs_error c,
           lo_trace = lc_trace s2, lo_runtime_stop_attempted = cs_stop_attempted c,
           lo_runtime_stop_confirmed = cs_stop_confirmed c,
           lo_provider_cleanup_attempted = cs_cleanup_attempted c,
           lo_provider_cleanup_confirmed = cs_cleanup_confirmed c,
           lo_final_confirmation_attempted = cs_final_attempted c,
           lo_final_confirmation = cs_final_confirmed c, lo_orphaned = cs_orphaned c\<rparr>))"

section \<open>What each operation may change\<close>

definition ok_event :: "int \<Rightarrow> lifecycle_phase \<Rightarrow> trace_event" where
  "ok_event i ph = \<lparr>te_sequence_index = i, te_phase = ph, te_result = EV_SUCCEEDED, te_error_code = None\<rparr>"

definition failed_event :: "int \<Rightarrow> lifecycle_phase \<Rightarrow> lifecycle_error \<Rightarrow> trace_event" where
  "failed_event i ph c = \<lparr>te_sequence_index = i, te_phase = ph, te_result = EV_FAILED, te_error_code = Some c\<rparr>"

lemma event_sel [simp]:
  "te_sequence_index (ok_event i ph) = i" "te_phase (ok_event i ph) = ph"
  "te_result (ok_event i ph) = EV_SUCCEEDED"
  "te_sequence_index (failed_event i ph c) = i" "te_phase (failed_event i ph c) = ph"
  "te_result (failed_event i ph c) = EV_FAILED"
  by (simp_all add: ok_event_def failed_event_def)

lemma call_out_world: "call_out c s = (s', r) \<Longrightarrow> \<exists>w. s' = s\<lparr>lc_world := w\<rparr>"
  by (auto simp: call_out_def split: prod.splits)

lemma then_do_cases:
  assumes "then_do m f s = (s', r)"
  obtains (stop) e where "m s = (s', Inl e)" "r = Inl e"
  | (go) t x where "m s = (t, Inr x)" "f x t = (s', r)"
  using assms by (auto simp: then_do_def split: prod.splits sum.splits)

lemma check_cancellation_frame: "check_cancellation co s = (s', r) \<Longrightarrow> s' = s"
  by (simp add: check_cancellation_def)

text \<open>Everything but the world, the handles and the two attempt flags.\<close>

definition same_log :: "'w lifecycle \<Rightarrow> 'w lifecycle \<Rightarrow> bool" where
  "same_log s s' \<longleftrightarrow>
     lc_trace s' = lc_trace s \<and> lc_phase s' = lc_phase s
     \<and> lc_provider_handle s' = lc_provider_handle s"

definition same_flags :: "'w lifecycle \<Rightarrow> 'w lifecycle \<Rightarrow> bool" where
  "same_flags s s' \<longleftrightarrow>
     same_log s s' \<and> lc_runtime_handle s' = lc_runtime_handle s
     \<and> lc_provider_attempted s' = lc_provider_attempted s
     \<and> lc_start_attempted s' = lc_start_attempted s"

lemma call_out_flags: "call_out c s = (s', r) \<Longrightarrow> same_flags s s'"
  by (auto simp: call_out_def same_flags_def same_log_def split: prod.splits)

lemma same_flags_trans: "same_flags a b \<Longrightarrow> same_flags b c \<Longrightarrow> same_flags a c"
  by (simp add: same_flags_def same_log_def)

lemma same_flags_refl [simp]: "same_flags a a"
  by (simp add: same_flags_def same_log_def)

lemma validate_inputs_frame: "validate_inputs co spec b s = (s', r) \<Longrightarrow> same_flags s s'"
  by (auto simp: validate_inputs_def validate_spec_def done_with_def elim!: then_do_cases
      split: if_splits dest!: check_cancellation_frame call_out_flags intro: same_flags_trans)

lemma wait_for_readiness_frame: "wait_for_readiness co spec s = (s', r) \<Longrightarrow> same_flags s s'"
  by (auto simp: wait_for_readiness_def done_with_def elim!: then_do_cases split: option.splits
      dest!: check_cancellation_frame call_out_flags)

lemma run_benchmark_frame: "run_benchmark co b s = (s', r) \<Longrightarrow> same_flags s s'"
  by (auto simp: run_benchmark_def elim!: then_do_cases split: option.splits
      dest!: check_cancellation_frame call_out_flags)

lemma acquire_provider_frame:
  "acquire_provider co spec s = (s', r) \<Longrightarrow>
     same_log s s' \<and> lc_runtime_handle s' = lc_runtime_handle s
     \<and> lc_start_attempted s' = lc_start_attempted s \<and> (is_ok r \<longrightarrow> lc_provider_attempted s')"
  by (auto simp: acquire_provider_def done_with_def modify_def same_flags_def same_log_def
      elim!: then_do_cases dest!: check_cancellation_frame call_out_flags)

lemma start_runtime_frame:
  "start_runtime co spec s = (s', r) \<Longrightarrow> lc_runtime_handle s = None \<Longrightarrow>
     same_log s s' \<and> lc_provider_attempted s' = lc_provider_attempted s
     \<and> (is_ok r \<longrightarrow> lc_start_attempted s')
     \<and> (lc_runtime_handle s' \<noteq> None \<longrightarrow> lc_start_attempted s')"
  by (auto simp: start_runtime_def same_flags_def same_log_def elim!: then_do_cases
      split: option.splits dest!: check_cancellation_frame call_out_flags)

lemma in_phase_cases:
  assumes "in_phase ph op s = (s', r)"
  obtains (failed) t e where "op (s\<lparr>lc_phase := ph\<rparr>) = (t, Inl e)" "r = Inl e"
      "s' = t\<lparr>lc_trace := lc_trace t @ [failed_event (int (length (lc_trace t))) ph
        (error_code e (phase_default_error ph))]\<rparr>"
  | (succeeded) t x where "op (s\<lparr>lc_phase := ph\<rparr>) = (t, Inr x)" "r = Inr x"
      "s' = t\<lparr>lc_trace := lc_trace t @ [ok_event (int (length (lc_trace t))) ph]\<rparr>"
  using assms
  by (auto simp: in_phase_def record_event_def ok_event_def failed_event_def
      split: prod.splits sum.splits)

text \<open>
  The state after \<open>n\<close> phases of the \<open>try\<close> block succeeded, and after one of them failed.
\<close>

definition succeeded_trace :: "lifecycle_phase list \<Rightarrow> trace_event list" where
  "succeeded_trace before = map (\<lambda>(i, p). ok_event (int i) p) (enumerate 0 before)"

lemma succeeded_trace_snoc:
  "succeeded_trace (before @ [ph]) = succeeded_trace before @ [ok_event (int (length before)) ph]"
  by (simp add: succeeded_trace_def enumerate_append_eq)

lemma length_succeeded_trace [simp]: "length (succeeded_trace before) = length before"
  by (simp add: succeeded_trace_def)

definition failed_at ::
  "'w lifecycle \<Rightarrow> (raised, unit) res \<Rightarrow> lifecycle_phase list \<Rightarrow> lifecycle_phase \<Rightarrow> bool" where
  "failed_at s r before ph \<longleftrightarrow>
     (\<exists>e. r = Inl e \<and> lc_phase s = ph
       \<and> lc_trace s = succeeded_trace before
           @ [failed_event (int (length before)) ph (error_code e (phase_default_error ph))])"

text \<open>One step of the block: a phase whose operation leaves the trace and the phase alone.\<close>

text \<open>How far the \<open>try\<close> block came, and what it left to clean up.\<close>

definition main_order :: "lifecycle_phase list" where
  "main_order = [VALIDATION, PROVIDER_ACQUISITION, RUNTIME_START, RUNTIME_READINESS, BENCHMARK]"

definition left_over :: "nat \<Rightarrow> 'w lifecycle \<Rightarrow> bool" where
  "left_over n s \<longleftrightarrow>
     (n = 0 \<longrightarrow> \<not> lc_provider_attempted s) \<and> (2 \<le> n \<longrightarrow> lc_provider_attempted s)
     \<and> (lc_provider_handle s \<noteq> None \<longrightarrow> lc_provider_attempted s)
     \<and> (n \<le> 1 \<longrightarrow> \<not> lc_start_attempted s) \<and> (3 \<le> n \<longrightarrow> lc_start_attempted s)
     \<and> (lc_runtime_handle s \<noteq> None \<longrightarrow> lc_start_attempted s)"

definition reached :: "nat \<Rightarrow> 'w lifecycle \<Rightarrow> bool" where
  "reached n s \<longleftrightarrow>
     lc_trace s = succeeded_trace (take n main_order) \<and> left_over n s
     \<and> (n \<le> 1 \<longrightarrow> lc_provider_handle s = None) \<and> (n \<le> 2 \<longrightarrow> lc_runtime_handle s = None)"

definition stopped_at :: "nat \<Rightarrow> 'w lifecycle \<Rightarrow> raised \<Rightarrow> bool" where
  "stopped_at n s e \<longleftrightarrow>
     lc_phase s = main_order ! n
     \<and> lc_trace s = succeeded_trace (take n main_order)
         @ [failed_event (int n) (main_order ! n) (error_code e (phase_default_error (main_order ! n)))]
     \<and> left_over n s"

lemma main_order_nth:
  "main_order ! 0 = VALIDATION" "main_order ! Suc 0 = PROVIDER_ACQUISITION"
  "main_order ! 2 = RUNTIME_START" "main_order ! 3 = RUNTIME_READINESS" "main_order ! 4 = BENCHMARK"
  "length main_order = 5"
  by (simp_all add: main_order_def)

definition phase_frame :: "nat \<Rightarrow> ('w, 'a) step \<Rightarrow> 'w lifecycle \<Rightarrow> bool" where
  "phase_frame n op s \<longleftrightarrow>
     (\<forall>t q. op (s\<lparr>lc_phase := main_order ! n\<rparr>) = (t, q) \<longrightarrow>
        same_log (s\<lparr>lc_phase := main_order ! n\<rparr>) t
        \<and> (case q of Inl e \<Rightarrow> left_over n t | Inr x \<Rightarrow> left_over (Suc n) t)
        \<and> (n < 2 \<longrightarrow> lc_runtime_handle t = None))"

lemma phase_step:
  assumes "in_phase (main_order ! n) op s = (s', r)" and "reached n s" and "n < 5"
    and "phase_frame n op s"
  shows "case r of Inl e \<Rightarrow> stopped_at n s' e
    | Inr x \<Rightarrow> lc_trace s' = succeeded_trace (take (Suc n) main_order) \<and> left_over (Suc n) s'
        \<and> (n < 2 \<longrightarrow> lc_runtime_handle s' = None \<and> lc_provider_handle s' = lc_provider_handle s)"
  using assms(1)
proof (cases rule: in_phase_cases)
  case (failed t e)
  then show ?thesis
    using assms(4) [unfolded phase_frame_def, rule_format, OF failed(1)] assms(2,3)
    by (simp add: stopped_at_def reached_def same_log_def left_over_def main_order_nth)
next
  case (succeeded t x)
  have "take (Suc n) main_order = take n main_order @ [main_order ! n]"
    using assms(3) by (simp add: take_Suc_conv_app_nth main_order_nth)
  then show ?thesis
    using succeeded assms(4) [unfolded phase_frame_def, rule_format, OF succeeded(1)] assms(2,3)
    by (simp add: reached_def same_log_def left_over_def succeeded_trace_snoc main_order_nth)
qed

lemma validation_step:
  assumes "in_phase VALIDATION (validate_inputs co spec b) s = (s', r)" "reached 0 s"
  shows "case r of Inl e \<Rightarrow> stopped_at 0 s' e | Inr x \<Rightarrow> reached 1 (s')"
proof -
  have "phase_frame 0 (validate_inputs co spec b) s"
    using assms(2)
    by (auto simp: phase_frame_def reached_def left_over_def same_flags_def same_log_def
        dest!: validate_inputs_frame split: sum.splits)
  then show ?thesis
    using phase_step [of 0 "validate_inputs co spec b" s s' r] assms
    by (auto simp: main_order_nth reached_def left_over_def split: sum.splits)
qed

lemma acquisition_step:
  assumes "in_phase PROVIDER_ACQUISITION (acquire_provider co spec) s = (s', r)" "reached 1 s"
  shows "case r of Inl e \<Rightarrow> stopped_at 1 s' e | Inr x \<Rightarrow> reached 2 (s'\<lparr>lc_provider_handle := Some x\<rparr>)"
proof -
  have "phase_frame 1 (acquire_provider co spec) s"
    using assms(2)
    by (auto simp: phase_frame_def reached_def left_over_def same_log_def
        dest!: acquire_provider_frame split: sum.splits)
  then show ?thesis
    using phase_step [of 1 "acquire_provider co spec" s s' r] assms
    by (auto simp: main_order_nth reached_def left_over_def numeral_2_eq_2 split: sum.splits)
qed

lemma start_step:
  assumes "in_phase RUNTIME_START (start_runtime co spec) s = (s', r)" "reached 2 s"
  shows "case r of Inl e \<Rightarrow> stopped_at 2 s' e | Inr x \<Rightarrow> reached 3 (s'\<lparr>lc_runtime_handle := Some x\<rparr>)"
proof -
  have "phase_frame 2 (start_runtime co spec) s"
    using assms(2)
    by (auto simp: phase_frame_def reached_def left_over_def same_log_def
        dest!: start_runtime_frame split: sum.splits)
  then show ?thesis
    using phase_step [of 2 "start_runtime co spec" s s' r] assms
    by (auto simp: main_order_nth reached_def left_over_def split: sum.splits)
qed

lemma readiness_step:
  assumes "in_phase RUNTIME_READINESS (wait_for_readiness co spec) s = (s', r)" "reached 3 s"
  shows "case r of Inl e \<Rightarrow> stopped_at 3 s' e | Inr x \<Rightarrow> reached 4 (s')"
proof -
  have "phase_frame 3 (wait_for_readiness co spec) s"
    using assms(2)
    by (auto simp: phase_frame_def reached_def left_over_def same_flags_def same_log_def
        dest!: wait_for_readiness_frame split: sum.splits)
  then show ?thesis
    using phase_step [of 3 "wait_for_readiness co spec" s s' r] assms
    by (auto simp: main_order_nth reached_def left_over_def split: sum.splits)
qed

lemma benchmark_step:
  assumes "in_phase BENCHMARK (run_benchmark co b) s = (s', r)" "reached 4 s"
  shows "case r of Inl e \<Rightarrow> stopped_at 4 s' e | Inr x \<Rightarrow> reached 5 (s')"
proof -
  have "phase_frame 4 (run_benchmark co b) s"
    using assms(2)
    by (auto simp: phase_frame_def reached_def left_over_def same_flags_def same_log_def
        dest!: run_benchmark_frame split: sum.splits)
  then show ?thesis
    using phase_step [of 4 "run_benchmark co b" s s' r] assms
    by (auto simp: main_order_nth reached_def left_over_def split: sum.splits)
qed

lemma main_phases_result:
  assumes "main_phases co spec b (initial_lifecycle w) = (s, r)"
  shows "case r of Inl e \<Rightarrow> \<exists>n<5. stopped_at n s e | Inr _ \<Rightarrow> reached 5 s"
proof -
  have start: "reached 0 (initial_lifecycle w)"
    by (simp add: reached_def initial_lifecycle_def succeeded_trace_def left_over_def)
  from assms [unfolded main_phases_def] show ?thesis
    by (auto simp: modify_def elim!: then_do_cases
        dest!: validation_step [OF _ start] acquisition_step start_step readiness_step benchmark_step
        split: sum.splits)
      (rule exI, rule conjI [rotated], assumption, simp)+
qed

section \<open>The \<open>finally\<close> block\<close>

lemma require_cleanup_result_Inr:
  "require_cleanup_result v f = Inr r \<Longrightarrow> cl_confirmed r \<and> \<not> cl_orphaned r"
  by (auto simp: require_cleanup_result_def split: option.splits if_splits)

definition cleanup_event :: "nat \<Rightarrow> lifecycle_phase \<Rightarrow> bool \<Rightarrow> trace_event \<Rightarrow> bool" where
  "cleanup_event n ph confirmed ev \<longleftrightarrow>
     te_sequence_index ev = int n \<and> te_phase ev = ph
     \<and> te_result ev = (if confirmed then EV_SUCCEEDED else EV_FAILED)"

lemma cleanup_call_cases:
  assumes "cleanup_call ph c (s, orphaned, error) = ((s', orphaned', error'), confirmed)"
  obtains ev where "lc_trace s' = lc_trace s @ [ev]" "cleanup_event (length (lc_trace s)) ph confirmed ev"
    "orphaned' = (orphaned \<or> \<not> confirmed)" "(error' = None) = (error = None \<and> confirmed)"
    "error \<noteq> None \<longrightarrow> error' = error"
proof -
  define op where "op = then_do (call_out c) (\<lambda>v. done_with (require_cleanup_result v (phase_default_error ph)))"
  have frame: "lc_trace t = lc_trace s \<and> (\<forall>r. q = Inr r \<longrightarrow> cl_confirmed r \<and> \<not> cl_orphaned r)"
    if "op (s\<lparr>lc_phase := ph\<rparr>) = (t, q)" for t q
    using that
    by (auto simp: op_def done_with_def same_flags_def same_log_def require_cleanup_result_Inr
        elim!: then_do_cases dest!: call_out_flags)
  obtain t q where q: "in_phase ph op s = (t, q)" by (cases "in_phase ph op s")
  then show thesis
  proof (cases rule: in_phase_cases)
    case (failed u e)
    then show thesis
      using assms q frame [OF failed(1)]
      by (intro that) (auto simp: cleanup_call_def cleanup_event_def op_def [symmetric])
  next
    case (succeeded u x)
    then show thesis
      using assms q frame [OF succeeded(1)]
      by (intro that) (auto simp: cleanup_call_def cleanup_event_def op_def [symmetric])
  qed
qed

definition cleanup_order :: "bool \<Rightarrow> bool \<Rightarrow> lifecycle_phase list" where
  "cleanup_order stopping cleaning =
     (if stopping then [RUNTIME_STOP] else [])
     @ (if cleaning then [PROVIDER_CLEANUP, PROVIDER_FINAL_CONFIRMATION] else [])"

definition well_indexed :: "trace_event list \<Rightarrow> bool" where
  "well_indexed tr \<longleftrightarrow> map te_sequence_index tr = map int [0..<length tr]"

lemma well_indexed_snoc:
  "well_indexed tr \<Longrightarrow> te_sequence_index ev = int (length tr) \<Longrightarrow> well_indexed (tr @ [ev])"
  by (simp add: well_indexed_def)

definition cleanup_inv ::
  "'w lifecycle \<Rightarrow> lifecycle_phase list \<Rightarrow> 'w lifecycle \<times> bool \<times> lifecycle_error option \<Rightarrow> bool \<Rightarrow> bool"
where
  "cleanup_inv s phs x all_confirmed \<longleftrightarrow>
     (case x of (s', orphaned, error) \<Rightarrow>
        well_indexed (lc_trace s') \<and> orphaned = (\<not> all_confirmed) \<and> (error = None) = all_confirmed
        \<and> (\<exists>evs. lc_trace s' = lc_trace s @ evs \<and> map te_phase evs = phs
             \<and> list_all (\<lambda>ev. te_result ev = EV_SUCCEEDED) evs = all_confirmed))"

lemma cleanup_inv_start: "well_indexed (lc_trace s) \<Longrightarrow> cleanup_inv s [] (s, False, None) True"
  by (simp add: cleanup_inv_def)

lemma cleanup_inv_call:
  assumes "cleanup_inv s phs x b" "cleanup_call ph c x = (x', confirmed)"
  shows "cleanup_inv s (phs @ [ph]) x' (b \<and> confirmed)"
proof -
  obtain t o1 e1 t' o2 e2 where x: "x = (t, o1, e1)" "x' = (t', o2, e2)"
    by (cases x, cases x') auto
  from assms(1) obtain evs where inv: "well_indexed (lc_trace t)" "o1 = (\<not> b)" "(e1 = None) = b"
    "lc_trace t = lc_trace s @ evs" "map te_phase evs = phs"
    "list_all (\<lambda>ev. te_result ev = EV_SUCCEEDED) evs = b"
    unfolding cleanup_inv_def x prod.case by blast
  from assms(2) [unfolded x] obtain ev where ev: "lc_trace t' = lc_trace t @ [ev]"
    "cleanup_event (length (lc_trace t)) ph confirmed ev"
    "o2 = (o1 \<or> \<not> confirmed)" "(e2 = None) = (e1 = None \<and> confirmed)"
    by (rule cleanup_call_cases)
  have "lc_trace t' = lc_trace s @ (evs @ [ev])" using inv(4) ev(1) by simp
  moreover have "map te_phase (evs @ [ev]) = phs @ [ph]"
    using inv(5) ev(2) by (simp add: cleanup_event_def)
  moreover have "list_all (\<lambda>ev. te_result ev = EV_SUCCEEDED) (evs @ [ev]) = (b \<and> confirmed)"
    using inv(6) ev(2) by (auto simp: cleanup_event_def)
  moreover have "well_indexed (lc_trace t')"
    unfolding ev(1) by (rule well_indexed_snoc [OF inv(1)]) (use ev(2) in \<open>simp add: cleanup_event_def\<close>)
  ultimately show ?thesis unfolding cleanup_inv_def x prod.case using inv(2,3) ev(3,4) by blast
qed

text \<open>A call that is made only under a condition, as in the code.\<close>

lemma cleanup_inv_cond:
  assumes "cleanup_inv s phs x b"
    and "(if cond then cleanup_call ph c x else (x, True)) = (x', confirmed)"
  shows "cleanup_inv s (phs @ (if cond then [ph] else [])) x' (b \<and> confirmed)"
  using cleanup_inv_call [OF assms(1), of ph c x' confirmed] assms by (cases cond) auto

lemma cleanup_phases_shape:
  assumes "cleanup_phases co spec s = (s', c)" and "well_indexed (lc_trace s)"
    and "lc_runtime_handle s \<noteq> None \<longrightarrow> lc_start_attempted s"
    and "lc_provider_handle s \<noteq> None \<longrightarrow> lc_provider_attempted s"
  obtains evs where "lc_trace s' = lc_trace s @ evs" "well_indexed (lc_trace s')"
    "map te_phase evs = cleanup_order (lc_start_attempted s) (lc_provider_attempted s)"
    "list_all (\<lambda>ev. te_result ev = EV_SUCCEEDED) evs = (\<not> cs_orphaned c)"
    "cs_orphaned c = (\<not> (cs_stop_confirmed c \<and> cs_cleanup_confirmed c \<and> cs_final_confirmed c))"
    "(cs_error c = None) = (\<not> cs_orphaned c)"
    "cs_stop_attempted c = lc_start_attempted s" "cs_cleanup_attempted c = lc_provider_attempted s"
    "cs_final_attempted c = lc_provider_attempted s"
proof -
  have stopping: "(lc_start_attempted s \<or> lc_runtime_handle s \<noteq> None) = lc_start_attempted s"
    and cleaning: "(lc_provider_attempted s \<or> lc_provider_handle s \<noteq> None) = lc_provider_attempted s"
    using assms(3,4) by auto
  obtain x1 stopped where 1: "(if lc_start_attempted s
      then cleanup_call RUNTIME_STOP (ra_stop (co_runtime co) spec (lc_runtime_handle s)) (s, False, None)
      else ((s, False, None), True)) = (x1, stopped)" by fastforce
  obtain x2 cleaned where 2: "(if lc_provider_attempted s
      then cleanup_call PROVIDER_CLEANUP (pa_cleanup (co_provider co) spec (lc_provider_handle s)) x1
      else (x1, True)) = (x2, cleaned)" by fastforce
  obtain s3 orphaned error final where 3: "(if lc_provider_attempted s
      then cleanup_call PROVIDER_FINAL_CONFIRMATION
        (pa_confirm_cleanup (co_provider co) spec (lc_provider_handle s)) x2
      else (x2, True)) = ((s3, orphaned, error), final)" by (metis prod_cases3 surj_pair)
  note inv = cleanup_inv_cond [OF cleanup_inv_cond [OF cleanup_inv_cond
    [OF cleanup_inv_start [OF assms(2)] 1] 2] 3]
  have c: "s' = s3" "c = \<lparr>cs_stop_attempted = lc_start_attempted s, cs_stop_confirmed = stopped,
      cs_cleanup_attempted = lc_provider_attempted s, cs_cleanup_confirmed = cleaned,
      cs_final_attempted = lc_provider_attempted s, cs_final_confirmed = final,
      cs_orphaned = orphaned, cs_error = (if \<not> (stopped \<and> cleaned \<and> final) \<and> error = None
        then Some CLEANUP_UNCONFIRMED else error)\<rparr>"
    using assms(1) unfolding cleanup_phases_def stopping cleaning Let_def 1 2 3 prod.case
    by simp_all
  have order: "(([] @ (if lc_start_attempted s then [RUNTIME_STOP] else []))
      @ (if lc_provider_attempted s then [PROVIDER_CLEANUP] else []))
      @ (if lc_provider_attempted s then [PROVIDER_FINAL_CONFIRMATION] else [])
    = cleanup_order (lc_start_attempted s) (lc_provider_attempted s)"
    by (simp add: cleanup_order_def)
  from inv obtain evs where evs: "well_indexed (lc_trace s3)" "lc_trace s3 = lc_trace s @ evs"
    "map te_phase evs = cleanup_order (lc_start_attempted s) (lc_provider_attempted s)"
    "list_all (\<lambda>ev. te_result ev = EV_SUCCEEDED) evs = (stopped \<and> cleaned \<and> final)"
    "orphaned = (\<not> (stopped \<and> cleaned \<and> final))" "(error = None) = (stopped \<and> cleaned \<and> final)"
    unfolding cleanup_inv_def prod.case order simp_thms conj_assoc by blast
  have error: "(if \<not> (stopped \<and> cleaned \<and> final) \<and> error = None then Some CLEANUP_UNCONFIRMED else error)
      = error"
    using evs(6) by auto
  show thesis
    by (rule that [OF _ _ evs(3)]; (use evs c error in simp)?) (use evs c error in auto)
qed

section \<open>What a run guarantees for every adapter\<close>

lemma succeeded_trace_indexed: "well_indexed (succeeded_trace before)"
  by (rule nth_equalityI [THEN well_indexed_def [THEN iffD2]])
    (simp_all add: succeeded_trace_def nth_enumerate_eq)

lemma succeeded_trace_phases:
  "map te_phase (succeeded_trace before) = before"
  "list_all (\<lambda>ev. te_result ev = EV_SUCCEEDED) (succeeded_trace before)"
  by (simp_all add: succeeded_trace_def list_all_iff comp_def split_beta)

text \<open>
  The whole run, over every adapter and callback: the phases entered, and the outcome's fields in
  terms of how far the main block came.
\<close>

definition run_shape :: "lifecycle_outcome \<Rightarrow> nat \<Rightarrow> bool \<Rightarrow> bool \<Rightarrow> bool" where
  "run_shape out n stopping cleaning \<longleftrightarrow>
     n \<le> 5 \<and> (n \<le> 1 \<longrightarrow> \<not> stopping) \<and> (3 \<le> n \<longrightarrow> stopping) \<and> (n = 0 \<longrightarrow> \<not> cleaning)
     \<and> (2 \<le> n \<longrightarrow> cleaning)
     \<and> map te_phase (lo_trace out) = take (Suc n) main_order @ cleanup_order stopping cleaning
     \<and> well_indexed (lo_trace out)
     \<and> lo_runtime_stop_attempted out = stopping \<and> lo_provider_cleanup_attempted out = cleaning
     \<and> lo_final_confirmation_attempted out = cleaning
     \<and> lo_orphaned out = (\<not> (lo_runtime_stop_confirmed out \<and> lo_provider_cleanup_confirmed out
          \<and> lo_final_confirmation out))
     \<and> (lo_cleanup_error_code out = None) = (\<not> lo_orphaned out)
     \<and> (lo_primary_error_code out = None) = (n = 5)
     \<and> list_all (\<lambda>ev. te_result ev = EV_SUCCEEDED) (lo_trace out) = (n = 5 \<and> \<not> lo_orphaned out)
     \<and> lo_error_code out = (case lo_cleanup_error_code out of
          None \<Rightarrow> lo_primary_error_code out | Some e \<Rightarrow> Some e)
     \<and> lo_status out = (if lo_cleanup_error_code out \<noteq> None then LS_FAILED
          else (case lo_primary_error_code out of None \<Rightarrow> LS_SUCCEEDED | Some e \<Rightarrow> status_for_error e))
     \<and> lo_trace out \<noteq> [] \<and> lo_terminal_phase out = te_phase (last (lo_trace out))"

lemma run_has_shape:
  "\<exists>n stopping cleaning. run_shape (snd (run co spec b w)) n stopping cleaning"
proof -
  obtain s1 r where main: "main_phases co spec b (initial_lifecycle w) = (s1, r)" by fastforce
  obtain s2 c where clean: "cleanup_phases co spec s1 = (s2, c)" by fastforce
  note res = main_phases_result [OF main]
  obtain n where n: "n \<le> 5" "left_over n s1" "(r = Inr ()) = (n = 5)"
    "map te_phase (lc_trace s1) = take (Suc n) main_order" "well_indexed (lc_trace s1)"
    "list_all (\<lambda>ev. te_result ev = EV_SUCCEEDED) (lc_trace s1) = (n = 5)"
  proof (cases r)
    case (Inl e)
    with res obtain n where "n < 5" "stopped_at n s1 e" by auto
    then show thesis
      by (intro that [of n])
        (auto simp: Inl stopped_at_def succeeded_trace_phases take_Suc_conv_app_nth main_order_nth(6)
          intro!: well_indexed_snoc succeeded_trace_indexed)
  next
    case (Inr u)
    with res show thesis
      by (intro that [of 5])
        (auto simp: reached_def succeeded_trace_phases succeeded_trace_indexed main_order_def)
  qed
  from n(2) have handles: "lc_runtime_handle s1 \<noteq> None \<longrightarrow> lc_start_attempted s1"
    "lc_provider_handle s1 \<noteq> None \<longrightarrow> lc_provider_attempted s1"
    by (auto simp: left_over_def)
  from clean n(5) handles obtain evs where evs: "lc_trace s2 = lc_trace s1 @ evs" "well_indexed (lc_trace s2)"
    "map te_phase evs = cleanup_order (lc_start_attempted s1) (lc_provider_attempted s1)"
    "list_all (\<lambda>ev. te_result ev = EV_SUCCEEDED) evs = (\<not> cs_orphaned c)"
    "cs_orphaned c = (\<not> (cs_stop_confirmed c \<and> cs_cleanup_confirmed c \<and> cs_final_confirmed c))"
    "(cs_error c = None) = (\<not> cs_orphaned c)"
    "cs_stop_attempted c = lc_start_attempted s1" "cs_cleanup_attempted c = lc_provider_attempted s1"
    "cs_final_attempted c = lc_provider_attempted s1"
    by (rule cleanup_phases_shape)
  have ne: "lc_trace s1 \<noteq> []" using n(4) by (auto simp: main_order_def)
  have primary: "((case r of Inl e \<Rightarrow> Some (error_code e (phase_default_error (lc_phase s1)))
      | Inr _ \<Rightarrow> None) = None) = (n = 5)"
    using n(3) by (cases r) auto
  have "run_shape (snd (run co spec b w)) n (lc_start_attempted s1) (lc_provider_attempted s1)"
    using n evs ne primary
    unfolding run_shape_def run_def main clean Let_def prod.case snd_conv
    by (auto simp: left_over_def split: option.splits)
  then show ?thesis by blast
qed

fun phase_rank :: "lifecycle_phase \<Rightarrow> nat" where
  "phase_rank VALIDATION = 0" | "phase_rank PROVIDER_ACQUISITION = 1" | "phase_rank RUNTIME_START = 2"
| "phase_rank RUNTIME_READINESS = 3" | "phase_rank BENCHMARK = 4" | "phase_rank RUNTIME_STOP = 5"
| "phase_rank PROVIDER_CLEANUP = 6" | "phase_rank PROVIDER_FINAL_CONFIRMATION = 7"

lemma shape_order:
  assumes "n \<le> 5"
  shows "sorted_wrt (<) (map phase_rank (take (Suc n) main_order @ cleanup_order a b))"
    "length (take (Suc n) main_order @ cleanup_order a b) \<le> 8"
proof -
  have "n \<in> {0, 1, 2, 3, 4, 5}" using assms by auto
  then show "sorted_wrt (<) (map phase_rank (take (Suc n) main_order @ cleanup_order a b))"
    "length (take (Suc n) main_order @ cleanup_order a b) \<le> 8"
    by (auto simp: main_order_def cleanup_order_def eval_nat_numeral)
qed

text \<open>
  The trace of every run, whatever the adapters do, has between one and eight events, numbered
  from zero, at most one per phase and in the order of the phases; the terminal phase is the last
  one entered.
\<close>

theorem run_trace_bounded:
  "well_indexed (lo_trace (snd (run co spec b w)))
    \<and> sorted_wrt (<) (map (phase_rank \<circ> te_phase) (lo_trace (snd (run co spec b w))))
    \<and> 1 \<le> length (lo_trace (snd (run co spec b w))) \<and> length (lo_trace (snd (run co spec b w))) \<le> 8
    \<and> lo_terminal_phase (snd (run co spec b w)) = te_phase (last (lo_trace (snd (run co spec b w))))"
proof -
  obtain n x y where sh: "run_shape (snd (run co spec b w)) n x y" using run_has_shape [of co spec b w] by blast
  then have ph: "map te_phase (lo_trace (snd (run co spec b w))) = take (Suc n) main_order @ cleanup_order x y"
    and "n \<le> 5" by (simp_all add: run_shape_def)
  have "map (phase_rank \<circ> te_phase) (lo_trace (snd (run co spec b w)))
      = map phase_rank (take (Suc n) main_order @ cleanup_order x y)"
    by (simp only: ph [symmetric] map_map)
  moreover have "length (lo_trace (snd (run co spec b w))) \<le> 8"
    using shape_order(2) [OF \<open>n \<le> 5\<close>, of x y] by (metis ph length_map)
  ultimately show ?thesis
    using sh shape_order(1) [OF \<open>n \<le> 5\<close>, of x y] by (simp add: run_shape_def Suc_le_eq)
qed


text \<open>
  C28: no failure is hidden. A run succeeds exactly when every one of the eight phases ran and
  succeeded; a resource that may be orphaned, or any cleanup call that was not confirmed, makes the
  status \<open>FAILED\<close> with the cleanup error in front of the primary one, even after a cancellation.
\<close>

theorem run_status_sound:
  assumes "out = snd (run co spec b w)"
  shows "(lo_status out = LS_SUCCEEDED) =
      (list_all (\<lambda>ev. te_result ev = EV_SUCCEEDED) (lo_trace out) \<and> length (lo_trace out) = 8)
    \<and> (lo_orphaned out \<or> \<not> lo_runtime_stop_confirmed out \<or> \<not> lo_provider_cleanup_confirmed out
        \<or> \<not> lo_final_confirmation out \<longrightarrow>
          lo_status out = LS_FAILED \<and> lo_orphaned out \<and> lo_error_code out = lo_cleanup_error_code out
          \<and> lo_cleanup_error_code out \<noteq> None)"
proof -
  obtain n x y where sh: "run_shape out n x y" using run_has_shape [of co spec b w] assms by blast
  have len: "length (lo_trace out) = length (take (Suc n) main_order @ cleanup_order x y)"
    using sh unfolding run_shape_def by (metis length_map)
  have "status_for_error e \<noteq> LS_SUCCEEDED" for e by (simp add: status_for_error_def)
  then have "(lo_status out = LS_SUCCEEDED) = (n = 5 \<and> \<not> lo_orphaned out)"
    using sh by (auto simp: run_shape_def split: option.splits)
  moreover have "length (lo_trace out) = 8" if "n = 5"
    using that sh by (simp add: len run_shape_def main_order_def cleanup_order_def)
  ultimately show ?thesis using sh by (auto simp: run_shape_def split: option.splits)
qed

lemma main_phases_validation_fails:
  assumes "validate_inputs co spec b (initial_lifecycle w) = (s, Inl e)"
  shows "main_phases co spec b (initial_lifecycle w)
    = (record_event VALIDATION EV_FAILED (Some (error_code e CAPABILITY_MISMATCH)) s, Inl e)"
  using assms
  by (simp add: main_phases_def then_do_def in_phase_def initial_lifecycle_def)

text \<open>
  Nothing is touched before validation. When validation fails the run consists of that one event,
  no cleanup is attempted, and the world is the one the capability checks left.
\<close>

theorem run_rejected_spec_is_inert:
  assumes "validate_inputs co spec b (initial_lifecycle w) = (s, Inl e)"
  shows "fst (run co spec b w) = lc_world s
    \<and> lo_trace (snd (run co spec b w)) = [failed_event 0 VALIDATION (error_code e CAPABILITY_MISMATCH)]
    \<and> \<not> lo_runtime_stop_attempted (snd (run co spec b w))
    \<and> \<not> lo_provider_cleanup_attempted (snd (run co spec b w))"
proof -
  have f: "same_flags (initial_lifecycle w) s" by (rule validate_inputs_frame [OF assms])
  then have clean: "cleanup_phases co spec (record_event VALIDATION EV_FAILED c s)
      = (record_event VALIDATION EV_FAILED c s,
         \<lparr>cs_stop_attempted = False, cs_stop_confirmed = True, cs_cleanup_attempted = False,
          cs_cleanup_confirmed = True, cs_final_attempted = False, cs_final_confirmed = True,
          cs_orphaned = False, cs_error = None\<rparr>)" for c
    by (simp add: cleanup_phases_def same_flags_def same_log_def record_event_def initial_lifecycle_def)
  show ?thesis
    unfolding run_def main_phases_validation_fails [OF assms] Let_def prod.case clean
    using f by (simp add: record_event_def failed_event_def same_flags_def same_log_def
        initial_lifecycle_def)
qed

section \<open>Adapters whose cleanup confirms\<close>

text \<open>
  What a coordinator's user may assume of well-behaved adapters: the three cleanup calls return a
  confirmation. Then no run reports an orphan, and the status is that of the main block alone.
\<close>

definition confirmed_result :: cleanup_result where
  "confirmed_result = \<lparr>cl_confirmed = True, cl_orphaned = False, cl_error_code = None\<rparr>"

locale confirming_adapters =
  fixes co :: "'w coordinator"
  assumes stop_confirms: "\<exists>w'. ra_stop (co_runtime co) spec h w = (w', Inr (Some confirmed_result))"
    and cleanup_confirms: "\<exists>w'. pa_cleanup (co_provider co) spec p w = (w', Inr (Some confirmed_result))"
    and confirm_confirms:
      "\<exists>w'. pa_confirm_cleanup (co_provider co) spec p w = (w', Inr (Some confirmed_result))"
begin

lemma confirmed_call:
  assumes "\<forall>w. \<exists>w'. c w = (w', Inr (Some confirmed_result))"
  shows "\<exists>s'. cleanup_call ph c (s, orphaned, error) = ((s', orphaned, error), True)"
proof -
  obtain w' where "c (lc_world s) = (w', Inr (Some confirmed_result))" using assms by blast
  then show ?thesis
    by (simp add: cleanup_call_def in_phase_def then_do_def call_out_def done_with_def
        require_cleanup_result_def confirmed_result_def)
qed

lemma confirmed_cond:
  assumes "\<forall>w. \<exists>w'. c w = (w', Inr (Some confirmed_result))"
  shows "\<exists>s'. (if cond then cleanup_call ph c (s, orphaned, error) else ((s, orphaned, error), True))
    = ((s', orphaned, error), True)"
  using confirmed_call [OF assms] by (cases cond) auto

lemma cleanup_confirmed: "cs_error (snd (cleanup_phases co spec s)) = None"
proof -
  obtain s1 where 1: "(if lc_start_attempted s \<or> lc_runtime_handle s \<noteq> None
      then cleanup_call RUNTIME_STOP (ra_stop (co_runtime co) spec (lc_runtime_handle s)) (s, False, None)
      else ((s, False, None), True)) = ((s1, False, None), True)"
    using confirmed_cond [of "ra_stop (co_runtime co) spec (lc_runtime_handle s)"] stop_confirms
    by blast
  obtain s2 where 2: "(if lc_provider_attempted s \<or> lc_provider_handle s \<noteq> None
      then cleanup_call PROVIDER_CLEANUP (pa_cleanup (co_provider co) spec (lc_provider_handle s))
        (s1, False, None)
      else ((s1, False, None), True)) = ((s2, False, None), True)"
    using confirmed_cond [of "pa_cleanup (co_provider co) spec (lc_provider_handle s)"]
      cleanup_confirms by blast
  obtain s3 where 3: "(if lc_provider_attempted s \<or> lc_provider_handle s \<noteq> None
      then cleanup_call PROVIDER_FINAL_CONFIRMATION
        (pa_confirm_cleanup (co_provider co) spec (lc_provider_handle s)) (s2, False, None)
      else ((s2, False, None), True)) = ((s3, False, None), True)"
    using confirmed_cond [of "pa_confirm_cleanup (co_provider co) spec (lc_provider_handle s)"]
      confirm_confirms by blast
  show ?thesis unfolding cleanup_phases_def Let_def 1 prod.case 2 3 by simp
qed

lemma no_orphan:
  "\<not> lo_orphaned (snd (run co spec b w)) \<and> lo_cleanup_error_code (snd (run co spec b w)) = None"
proof -
  have "lo_cleanup_error_code (snd (run co spec b w)) = None"
    using cleanup_confirmed by (simp add: run_def Let_def split_beta)
  moreover obtain n x y where "run_shape (snd (run co spec b w)) n x y"
    using run_has_shape [of co spec b w] by blast
  ultimately show ?thesis unfolding run_shape_def by blast
qed

end

section \<open>The local adapters\<close>

datatype cancellation_reason = USER | SIGNAL | DEADLINE

text \<open>The counters of the two local adapters and the cancellation token's notice.\<close>

record local_world =
  lw_acquire_count :: int
  lw_cleanup_count :: int
  lw_confirmation_count :: int
  lw_start_count :: int
  lw_readiness_count :: int
  lw_stop_count :: int
  lw_notice :: "cancellation_reason option"

text \<open>\<open>CancellationToken.request\<close>: the first writer wins.\<close>

definition request_cancellation :: "cancellation_reason \<Rightarrow> local_world \<Rightarrow> local_world \<times> bool" where
  "request_cancellation reason w =
     (if lw_notice w \<noteq> None then (w, False) else (w\<lparr>lw_notice := Some reason\<rparr>, True))"

definition local_provider :: "local_world provider_adapter" where
  "local_provider =
     \<lparr>pa_provider_id = ''local'',
      pa_validate = (\<lambda>spec w. (w,
        if sp_provider_id spec \<noteq> ''local'' then Inl (LifecycleValidationError CAPABILITY_MISMATCH)
        else if sp_execution_intent spec \<notin> {''mock_only'', ''local_execute''}
        then Inl (LifecycleValidationError UNSUPPORTED_INTENT) else Inr ())),
      pa_acquire = (\<lambda>spec w. (w\<lparr>lw_acquire_count := lw_acquire_count w + 1\<rparr>,
        Inr (Some ''local-no-resource''))),
      pa_cleanup = (\<lambda>spec h w. (w\<lparr>lw_cleanup_count := lw_cleanup_count w + 1\<rparr>,
        Inr (Some confirmed_result))),
      pa_confirm_cleanup = (\<lambda>spec h w. (w\<lparr>lw_confirmation_count := lw_confirmation_count w + 1\<rparr>,
        Inr (Some confirmed_result)))\<rparr>"

text \<open>
  The mock runtime with the in-memory process boundary, whose \<open>stop\<close> is always true; \<open>probe\<close> is the
  injected readiness probe.
\<close>

definition local_mock_runtime ::
  "(runtime_endpoint \<Rightarrow> int \<Rightarrow> bool) \<Rightarrow> local_world runtime_adapter" where
  "local_mock_runtime probe =
     \<lparr>ra_engine_id = ''vllm'',
      ra_validate = (\<lambda>spec w. (w,
        if sp_engine spec \<noteq> ''vllm'' then Inl (LifecycleValidationError UNSUPPORTED_RUNTIME)
        else if sp_execution_intent spec \<noteq> ''mock_only''
        then Inl (LifecycleValidationError UNSUPPORTED_INTENT)
        else if sp_mode spec \<noteq> ''development'' \<or> sp_gpu_count spec \<noteq> 0
        then Inl (LifecycleValidationError CAPABILITY_MISMATCH) else Inr ())),
      ra_start = (\<lambda>spec p w. (w\<lparr>lw_start_count := lw_start_count w + 1\<rparr>,
        Inr (Some \<lparr>rh_handle_id = ''local-mock-runtime'', rh_endpoint = sp_endpoint spec\<rparr>))),
      ra_wait_ready = (\<lambda>spec h w. (w\<lparr>lw_readiness_count := lw_readiness_count w + 1\<rparr>,
        Inr (probe (rh_endpoint h) (sp_startup_seconds spec)))),
      ra_stop = (\<lambda>spec h w. (w\<lparr>lw_stop_count := lw_stop_count w + 1\<rparr>, Inr (Some confirmed_result)))\<rparr>"

definition local_coordinator ::
  "(runtime_endpoint \<Rightarrow> int \<Rightarrow> bool) \<Rightarrow> local_world coordinator" where
  "local_coordinator probe =
     \<lparr>co_provider = local_provider, co_runtime = local_mock_runtime probe,
      co_cancelled = (\<lambda>w. lw_notice w \<noteq> None)\<rparr>"

interpretation local_run: confirming_adapters "local_coordinator probe" for probe
  by unfold_locales (simp_all add: local_coordinator_def local_provider_def local_mock_runtime_def)

text \<open>
  With the local adapters no run can orphan anything: whatever the spec, the probe and the
  benchmark do, and whenever cancellation comes, every cleanup call is confirmed and the status
  reports the main block's own error.
\<close>

theorem local_runs_never_orphan:
  "\<not> lo_orphaned (snd (run (local_coordinator probe) spec b w))
    \<and> lo_cleanup_error_code (snd (run (local_coordinator probe) spec b w)) = None
    \<and> lo_error_code (snd (run (local_coordinator probe) spec b w))
        = lo_primary_error_code (snd (run (local_coordinator probe) spec b w))"
proof -
  obtain n x y where "run_shape (snd (run (local_coordinator probe) spec b w)) n x y"
    using run_has_shape [of "local_coordinator probe" spec b w] by blast
  then have "lo_error_code (snd (run (local_coordinator probe) spec b w)) =
      (case lo_cleanup_error_code (snd (run (local_coordinator probe) spec b w)) of
        None \<Rightarrow> lo_primary_error_code (snd (run (local_coordinator probe) spec b w)) | Some e \<Rightarrow> Some e)"
    unfolding run_shape_def by blast
  then show ?thesis using local_run.no_orphan [of probe spec b w] by simp
qed

section \<open>Concrete runs\<close>

definition sample_spec :: deployment_spec where
  "sample_spec = \<lparr>sp_provider_id = ''local'', sp_engine = ''vllm'', sp_execution_intent = ''mock_only'',
     sp_mode = ''development'', sp_gpu_count = 0,
     sp_endpoint = \<lparr>ep_scheme = ''http'', ep_host = ''127.0.0.1'', ep_port = 8000, ep_path = ''/''\<rparr>,
     sp_startup_seconds = 5\<rparr>"

definition sample_world :: local_world where
  "sample_world = \<lparr>lw_acquire_count = 0, lw_cleanup_count = 0, lw_confirmation_count = 0,
     lw_start_count = 0, lw_readiness_count = 0, lw_stop_count = 0, lw_notice = None\<rparr>"

text \<open>A benchmark during which the user cancels and which then raises.\<close>

definition cancelled_benchmark :: "local_world benchmark" where
  "cancelled_benchmark =
     Some (\<lambda>_ w. (fst (request_cancellation USER w), Inl CancellationRequested))"

definition sample_outcome :: lifecycle_outcome where
  "sample_outcome =
     snd (run (local_coordinator (\<lambda>_ _. True)) sample_spec cancelled_benchmark sample_world)"

lemma sample_outcome_cancelled:
  "lo_status sample_outcome = LS_CANCELLED \<and> length (lo_trace sample_outcome) = 8"
  by code_simp


theorem run_status_sound_witness:
  "(lo_status sample_outcome = LS_SUCCEEDED) =
      (list_all (\<lambda>ev. te_result ev = EV_SUCCEEDED) (lo_trace sample_outcome)
        \<and> length (lo_trace sample_outcome) = 8)"
  using run_status_sound [OF sample_outcome_def] by (rule conjunct1)

definition sample_bad_spec :: deployment_spec where
  "sample_bad_spec = sample_spec\<lparr>sp_mode := ''evidence''\<rparr>"

theorem run_rejected_spec_is_inert_witness:
  "fst (run (local_coordinator (\<lambda>_ _. True)) sample_bad_spec cancelled_benchmark sample_world) = sample_world
    \<and> lo_trace (snd (run (local_coordinator (\<lambda>_ _. True)) sample_bad_spec cancelled_benchmark sample_world))
        = [failed_event 0 VALIDATION (error_code (LifecycleValidationError CAPABILITY_MISMATCH)
            CAPABILITY_MISMATCH)]
    \<and> \<not> lo_runtime_stop_attempted
        (snd (run (local_coordinator (\<lambda>_ _. True)) sample_bad_spec cancelled_benchmark sample_world))
    \<and> \<not> lo_provider_cleanup_attempted
        (snd (run (local_coordinator (\<lambda>_ _. True)) sample_bad_spec cancelled_benchmark sample_world))"
proof -
  have "validate_inputs (local_coordinator (\<lambda>_ _. True)) sample_bad_spec cancelled_benchmark
      (initial_lifecycle sample_world)
    = (initial_lifecycle sample_world, Inl (LifecycleValidationError CAPABILITY_MISMATCH))"
    by (simp add: validate_inputs_def validate_spec_def then_do_def check_cancellation_def call_out_def
        local_coordinator_def local_provider_def local_mock_runtime_def sample_bad_spec_def
        sample_spec_def sample_world_def initial_lifecycle_def)
  from run_rejected_spec_is_inert [OF this] show ?thesis by (simp add: initial_lifecycle_def)
qed

section \<open>Bounded termination of a process\<close>

text \<open>
  \<open>terminate_bounded\<close>: what a process does is whether it has exited when polled, and whether it exits
  within the wait after \<open>terminate\<close> and within the wait after \<open>kill\<close>. The result carries the signals
  sent, in order.
\<close>

datatype termination_outcome = ALREADY_EXITED | GRACEFUL | FORCED

datatype process_signal = Terminate | Kill

record process_behaviour =
  pr_exited :: bool
  pr_exits_on_terminate :: bool
  pr_exits_on_kill :: bool

definition terminate_bounded ::
  "process_behaviour \<Rightarrow> process_signal list \<times> termination_outcome option" where
  "terminate_bounded p =
     (if pr_exited p then ([], Some ALREADY_EXITED)
      else if pr_exits_on_terminate p then ([Terminate], Some GRACEFUL)
      else if pr_exits_on_kill p then ([Terminate, Kill], Some FORCED)
      else ([Terminate, Kill], None))"

lemma terminate_bounded_cases:
  "snd (terminate_bounded p) = None \<longleftrightarrow>
     \<not> pr_exited p \<and> \<not> pr_exits_on_terminate p \<and> \<not> pr_exits_on_kill p"
  "Kill \<in> set (fst (terminate_bounded p)) \<longleftrightarrow> \<not> pr_exited p \<and> \<not> pr_exits_on_terminate p"
  by (auto simp: terminate_bounded_def)

end
