(* ===== verification/Artifacts.thy ===== *)
theory Artifacts
  imports Text
begin

text \<open>
  The JSON artifacts of the routing studies: reading a decoded object, RFC 8785 bytes and SHA-256 as a
  parameter record, exact integers, the value types an artifact may hold, and the offers of a source
  plan as \<open>vllm_arrival_timing.py\<close> reads them. A decoded artifact is a value of \<open>json\<close>; its objects
  have distinct keys. The plan recipe \<open>validate_plan\<close> regenerates a trace from Python's random number
  generator and is an argument: what follows holds for whatever it returns, since \<open>_source_offers\<close>
  checks every offer itself.
\<close>

section \<open>Faults\<close>

text \<open>
  Exceptions by what raises them. \<open>Python_Error\<close> stands for the lookup, type, attribute, overflow and
  recursion errors the callers turn into a ValueError; an IndexError is not among those they catch.
\<close>

datatype artifact_fault =
    Python_Error
  | Index_Error
  | Malformed string
  | NotCanonical
  | NotUnicode
  | EmptySequence
  | NotAnArtifact string
  | BooleanMisplaced
  | UnsupportedValue
  | IntegerRange string
  | UnsupportedPlanSchema
  | PlanDigestMismatch
  | StudySettings
  | UnsupportedPhase
  | PatternNotControl
  | PlanRejected string
  | OfferOrder
  | ParameterFields
  | NotRegenerated string
  | RetainedGroupsInvalid
  | RetainedGroupsRepeated
  | RetainedGroupUnknown
  | Refused string

type_synonym 'a checked = "(artifact_fault, 'a) res"

text \<open>\<open>except (KeyError, TypeError, AttributeError, OverflowError, RecursionError)\<close>.\<close>

definition guarded :: "string \<Rightarrow> 'a checked \<Rightarrow> 'a checked" where
  "guarded label r = (case r of Inl Python_Error \<Rightarrow> Inl (Malformed label) | _ \<Rightarrow> r)"

section \<open>Objects\<close>

type_synonym members = "(py_text \<times> json) list"

definition jstr :: "string \<Rightarrow> json" where
  "jstr s = JStr (ascii_text s)"

definition jobj :: "(string \<times> json) list \<Rightarrow> json" where
  "jobj ms = JObj (map (\<lambda>(k, v). (ascii_text k, v)) ms)"

text \<open>\<open>d.get(k)\<close>, \<open>d[k]\<close> and \<open>{k: v for k, v in d.items() if k != name}\<close>.\<close>

definition get_null :: "members \<Rightarrow> string \<Rightarrow> json" where
  "get_null ms key = (case json_get ms key of None \<Rightarrow> JNull | Some v \<Rightarrow> v)"

definition need :: "members \<Rightarrow> string \<Rightarrow> json checked" where
  "need ms key = (case json_get ms key of None \<Rightarrow> Inl Python_Error | Some v \<Rightarrow> Inr v)"

definition without :: "string \<Rightarrow> members \<Rightarrow> members" where
  "without key ms = filter (\<lambda>(k, _). k \<noteq> ascii_text key) ms"

definition same_fields :: "members \<Rightarrow> string list \<Rightarrow> bool" where
  "same_fields ms keys \<longleftrightarrow> set (map fst ms) = set (map ascii_text keys)"

section \<open>Canonical bytes and digests\<close>

record codec =
  cd_canonical :: "json \<Rightarrow> py_bytes option"
  cd_sha256 :: "py_bytes \<Rightarrow> string"

definition canonical :: "codec \<Rightarrow> json \<Rightarrow> py_bytes checked" where
  "canonical k v = (case cd_canonical k v of None \<Rightarrow> Inl NotCanonical | Some b \<Rightarrow> Inr b)"

definition artifact_digest :: "codec \<Rightarrow> json \<Rightarrow> string checked" where
  "artifact_digest k v = rbind (canonical k v) (\<lambda>b. Inr (''sha256:'' @ cd_sha256 k b))"

text \<open>\<open>canonical_json_bytes(a) != canonical_json_bytes(b)\<close> raises.\<close>

definition require_same :: "codec \<Rightarrow> json \<Rightarrow> json \<Rightarrow> artifact_fault \<Rightarrow> unit checked" where
  "require_same k a b e = rbind (canonical k a) (\<lambda>x. rbind (canonical k b) (\<lambda>y. raise_if (x \<noteq> y) e))"

section \<open>Exact values\<close>

definition max_exact_integer :: int where
  "max_exact_integer = 2 ^ 53 - 1"

definition exact_integer :: "json \<Rightarrow> int \<Rightarrow> int \<Rightarrow> string \<Rightarrow> int checked" where
  "exact_integer v low high label =
     (case v of
        JInt n \<Rightarrow> if low \<le> n \<and> n \<le> high then Inr n else Inl (IntegerRange label)
      | _ \<Rightarrow> Inl (IntegerRange label))"

definition flag_paths :: "py_text list list" where
  "flag_paths = [[ascii_text ''ignore_eos''], [ascii_text ''stream_usage_required'']]"

fun artifact_types :: "bool \<Rightarrow> py_text list \<Rightarrow> json \<Rightarrow> unit checked"
  and artifact_members :: "bool \<Rightarrow> py_text list \<Rightarrow> members \<Rightarrow> unit checked"
  and artifact_items :: "bool \<Rightarrow> py_text list \<Rightarrow> json list \<Rightarrow> unit checked" where
  "artifact_types flags path (JBool _) =
     raise_if (\<not> flags \<or> path \<notin> set flag_paths) BooleanMisplaced"
| "artifact_types flags path (JInt n) =
     rbind (exact_integer (JInt n) (- max_exact_integer) max_exact_integer ''artifact number'')
       (\<lambda>_. Inr ())"
| "artifact_types flags path (JObj ms) = artifact_members flags path ms"
| "artifact_types flags path (JArr js) = artifact_items flags path js"
| "artifact_types flags path (JFloat _) = Inl UnsupportedValue"
| "artifact_types flags path JNull = Inr ()"
| "artifact_types flags path (JStr _) = Inr ()"
| "artifact_members flags path [] = Inr ()"
| "artifact_members flags path ((k, v) # ms) =
     rbind (artifact_types flags (path @ [k]) v) (\<lambda>_. artifact_members flags path ms)"
| "artifact_items flags path [] = Inr ()"
| "artifact_items flags path (j # js) =
     rbind (artifact_types flags (path @ [ascii_text ''[]'']) j) (\<lambda>_. artifact_items flags path js)"

text \<open>\<open>[0-9a-f]{n}\<close> and \<open>sha256:[0-9a-f]{64}\<close>.\<close>

definition lower_hex :: "nat \<Rightarrow> py_text \<Rightarrow> bool" where
  "lower_hex n t \<longleftrightarrow> length t = n \<and> set t \<subseteq> set (ascii_text ''0123456789abcdef'')"

definition digest_text :: "py_text \<Rightarrow> bool" where
  "digest_text t \<longleftrightarrow> take 7 t = ascii_text ''sha256:'' \<and> lower_hex 64 (drop 7 t)"

section \<open>Source offers\<close>

record offer =
  of_index :: int
  of_scheduled_ns :: int
  of_epoch :: int
  of_traffic_class :: string
  of_tenant :: string
  of_prompt :: py_text
  of_document_id :: "int option"

type_synonym plan_reader = "json \<Rightarrow> offer list checked"

definition study_schema :: string where
  "study_schema = ''inferdrome.vllm-router-study-plan.v1''"

definition capacity_schema :: string where
  "capacity_schema = ''inferdrome.vllm-router-capacity-plan.v2''"

definition plan_phases :: "json \<Rightarrow> string list" where
  "plan_phases schema =
     (if schema = jstr capacity_schema then [''pilot'', ''evaluation'', ''fixture'']
      else [''calibration'', ''evaluation'', ''fixture''])"

text \<open>\<open>plan["workload"].get("pattern_version") not in (None, "control.v1")\<close>.\<close>

definition check_pattern :: "members \<Rightarrow> unit checked" where
  "check_pattern plan =
     rbind (need plan ''workload'') (\<lambda>w.
       case w of
         JObj ms \<Rightarrow>
           raise_if (get_null ms ''pattern_version'' \<notin> {JNull, jstr ''control.v1''}) PatternNotControl
       | _ \<Rightarrow> Inl Python_Error)"

text \<open>The loop over the offers: position, order and epoch.\<close>

fun check_offers :: "int \<Rightarrow> int \<Rightarrow> int \<Rightarrow> offer list \<Rightarrow> unit checked" where
  "check_offers duration index previous [] = Inr ()"
| "check_offers duration index previous (x # xs) =
     (if \<not> (0 \<le> of_scheduled_ns x \<and> of_scheduled_ns x \<le> duration - 1)
      then Inl (IntegerRange ''source scheduled_ns'')
      else if of_index x \<noteq> index \<or> of_scheduled_ns x < previous
        \<or> of_epoch x \<noteq> of_scheduled_ns x * 3 div duration
      then Inl OfferOrder
      else check_offers duration (index + 1) (of_scheduled_ns x) xs)"

definition read_offers :: "codec \<Rightarrow> plan_reader \<Rightarrow> members \<Rightarrow> offer list checked" where
  "read_offers k validate_plan plan =
     rbind (artifact_types True [] (JObj plan)) (\<lambda>_.
       let schema = get_null plan ''schema''
       in rbind (raise_if (schema \<notin> {jstr study_schema, jstr capacity_schema}) UnsupportedPlanSchema) (\<lambda>_.
       rbind (artifact_digest k (JObj (without ''plan_sha256'' plan))) (\<lambda>digest.
       rbind (raise_if (get_null plan ''plan_sha256'' \<noteq> jstr digest) PlanDigestMismatch) (\<lambda>_.
       rbind (raise_if (schema = jstr study_schema
           \<and> (get_null plan ''ignore_eos'' \<noteq> JBool True
              \<or> get_null plan ''stream_usage_required'' \<noteq> JBool True)) StudySettings) (\<lambda>_.
       rbind (exact_integer (get_null plan ''duration_ns'') 3 max_exact_integer ''source duration_ns'')
         (\<lambda>duration.
       rbind (exact_integer (get_null plan ''seed'') 0 (2 ^ 32 - 1) ''source seed'') (\<lambda>_.
       rbind (exact_integer (get_null plan ''offered_count'') 1
           (if schema = jstr capacity_schema then 20000 else 10000) ''source offered_count'') (\<lambda>_.
       rbind (raise_if (get_null plan ''phase'' \<notin> set (map jstr (plan_phases schema))) UnsupportedPhase) (\<lambda>_.
       rbind (if schema = jstr capacity_schema then check_pattern plan else Inr ()) (\<lambda>_.
       rbind (validate_plan (JObj plan)) (\<lambda>offers.
       rbind (check_offers duration 0 (-1) offers) (\<lambda>_. Inr offers))))))))))))"

definition source_offers :: "codec \<Rightarrow> plan_reader \<Rightarrow> json \<Rightarrow> offer list checked" where
  "source_offers k validate_plan plan =
     (case plan of
        JObj ms \<Rightarrow> guarded ''source study plan'' (read_offers k validate_plan ms)
      | _ \<Rightarrow> Inl (NotAnArtifact ''source plan''))"

section \<open>Lemmas\<close>

lemma canonical_ok: "canonical k v = Inr b \<longleftrightarrow> cd_canonical k v = Some b"
  by (simp add: canonical_def split: option.split)

lemma require_same_ok:
  "require_same k a b e = Inr u \<longleftrightarrow> (\<exists>x. cd_canonical k a = Some x \<and> cd_canonical k b = Some x)"
  by (auto simp: require_same_def result_simps canonical_ok)

lemma guarded_ok [simp]: "guarded label r = Inr x \<longleftrightarrow> r = Inr x"
  by (cases r) (auto simp: guarded_def split: artifact_fault.split)

lemma exact_integer_ok:
  "exact_integer v low high label = Inr n \<longleftrightarrow> v = JInt n \<and> low \<le> n \<and> n \<le> high"
  by (cases v) (auto simp: exact_integer_def)

text \<open>What \<open>check_offers\<close> accepts.\<close>

definition offers_ordered :: "int \<Rightarrow> offer list \<Rightarrow> bool" where
  "offers_ordered duration os \<longleftrightarrow>
     list_all (\<lambda>x. 0 \<le> of_scheduled_ns x \<and> of_scheduled_ns x < duration
        \<and> of_epoch x = of_scheduled_ns x * 3 div duration) os
     \<and> sorted (map of_scheduled_ns os)"

lemma check_offers_ok:
  "check_offers duration i p os = Inr u \<longleftrightarrow>
     offers_ordered duration os \<and> map of_index os = [i..i + int (length os) - 1]
     \<and> (\<forall>x \<in> set os. p \<le> of_scheduled_ns x)"
proof (induction os arbitrary: i p)
  case Nil
  then show ?case by (simp add: offers_ordered_def)
next
  case (Cons x xs)
  have upto: "[i..i + int (length (x # xs)) - 1] = i # [i + 1..i + 1 + int (length xs) - 1]"
    by (subst upto.simps) (simp add: algebra_simps)
  show ?case unfolding upto using Cons.IH [of "i + 1" "of_scheduled_ns x"]
    by (auto simp: offers_ordered_def not_less) (meson order_trans)+
qed

lemma read_offers_ok:
  assumes "read_offers k vp plan = Inr os"
  shows "vp (JObj plan) = Inr os"
    and "artifact_types True [] (JObj plan) = Inr ()"
    and "\<exists>duration. get_null plan ''duration_ns'' = JInt duration \<and> 3 \<le> duration
           \<and> duration \<le> max_exact_integer \<and> offers_ordered duration os"
    and "map of_index os = [0..int (length os) - 1]"
    and "\<exists>n. get_null plan ''offered_count'' = JInt n \<and> 1 \<le> n \<and> n \<le> 20000"
  using assms
  by (auto simp: read_offers_def result_simps Let_def exact_integer_ok check_offers_ok split: if_splits)

lemma source_offers_ok:
  "source_offers k vp plan = Inr os \<longleftrightarrow> (\<exists>ms. plan = JObj ms \<and> read_offers k vp ms = Inr os)"
  by (cases plan) (auto simp: source_offers_def)

text \<open>Reading back what \<open>jobj\<close> built.\<close>

lemma json_get_jobj: "json_get (map (\<lambda>(k, v). (ascii_text k, v)) ms) key = map_of ms key"
  unfolding json_get_def by (induction ms) auto

lemma get_null_jobj: "get_null (map (\<lambda>(k, v). (ascii_text k, v)) ms) key
    = (case map_of ms key of None \<Rightarrow> JNull | Some v \<Rightarrow> v)"
  by (simp add: get_null_def json_get_jobj)

lemma fetch [simp]:
  "json_get ((ascii_text a, v) # ms) key = (if a = key then Some v else json_get ms key)"
  "json_get [] key = None"
  "get_null ((ascii_text a, v) # ms) key = (if a = key then v else get_null ms key)"
  "get_null [] key = JNull"
  by (auto simp: json_get_def get_null_def)

section \<open>Documents with the same bytes\<close>

text \<open>
  RFC 8785: documents with the same canonical bytes differ at most in the order of their members and in
  the spelling of their numbers.
\<close>

inductive same_document :: "json \<Rightarrow> json \<Rightarrow> bool" where
  same_null: "same_document JNull JNull"
| same_bool: "same_document (JBool b) (JBool b)"
| same_int: "same_document (JInt n) (JInt n)"
| same_int_float: "same_document (JInt n) (JFloat f)"
| same_float_int: "same_document (JFloat f) (JInt n)"
| same_float: "same_document (JFloat f) (JFloat g)"
| same_str: "same_document (JStr t) (JStr t)"
| same_arr: "list_all2 same_document xs ys \<Longrightarrow> same_document (JArr xs) (JArr ys)"
| same_obj: "(\<And>key. rel_option same_document (map_of xs key) (map_of ys key)) \<Longrightarrow> same_document (JObj xs) (JObj ys)"
  monos list.rel_mono_strong option.rel_mono_strong

inductive_cases same_documentE:
  "same_document v (JInt n)" "same_document v (JStr t)" "same_document v JNull" "same_document v (JObj ys)"

definition codec_faithful :: "codec \<Rightarrow> bool" where
  "codec_faithful k \<longleftrightarrow>
     (\<forall>a b. cd_canonical k a = cd_canonical k b \<and> cd_canonical k a \<noteq> None \<longrightarrow> same_document a b)"

lemma same_document_refl: "same_document v v"
proof (induction v)
  case (JArr js)
  then have "list_all2 same_document js js" by (simp add: list.rel_refl_strong)
  then show ?case by (rule same_arr)
next
  case (JObj ms)
  have "rel_option same_document (map_of ms key) (map_of ms key)" for key
  proof (cases "map_of ms key")
    case (Some v)
    then have "(key, v) \<in> set ms" by (rule map_of_SomeD)
    with JObj [of "(key, v)" v] have "same_document v v" by simp
    with Some show ?thesis by simp
  qed simp
  then show ?case by (rule same_obj)
qed (rule same_null same_bool same_int same_float same_str)+

text \<open>Members of documents with the same bytes.\<close>

lemma same_members:
  assumes "same_document (JObj xs) (JObj ys)"
  shows "rel_option same_document (json_get xs key) (json_get ys key)"
    "same_document (get_null xs key) (get_null ys key)"
proof -
  show first: "rel_option same_document (json_get xs key) (json_get ys key)"
    using assms by (auto simp: json_get_def elim: same_documentE)
  then show "same_document (get_null xs key) (get_null ys key)"
    by (cases "json_get xs key"; cases "json_get ys key") (simp_all add: get_null_def same_null)
qed

lemma require_same_documents:
  assumes "codec_faithful k" and "require_same k a b e = Inr u"
  shows "same_document a b"
  using assms unfolding codec_faithful_def require_same_ok by (metis option.distinct(1))

section \<open>A codec for concrete inputs\<close>

text \<open>
  Canonical bytes that spell a document back. Documents whose second member is a measurement of a timed
  trial or whose third one is a seed have digests of their own, all others share one.
\<close>

fun nat_bytes :: "nat \<Rightarrow> py_bytes" where
  "nat_bytes 0 = ''0''"
| "nat_bytes (Suc n) = CHR ''1'' # nat_bytes n"

fun list_bytes :: "('a \<Rightarrow> py_bytes) \<Rightarrow> 'a list \<Rightarrow> py_bytes" where
  "list_bytes f [] = ''.''"
| "list_bytes f (x # xs) = '','' @ f x @ list_bytes f xs"

lemma list_bytes_cong [fundef_cong]:
  "xs = ys \<Longrightarrow> (\<And>x. x \<in> set ys \<Longrightarrow> f x = g x) \<Longrightarrow> list_bytes f xs = list_bytes g ys"
  by (induction ys arbitrary: xs) auto

fun json_bytes :: "json \<Rightarrow> py_bytes" where
  "json_bytes JNull = ''n''"
| "json_bytes (JBool b) = (if b then ''t'' else ''f'')"
| "json_bytes (JInt n) = (if n < 0 then CHR ''-'' # nat_bytes (nat (- n)) else CHR ''+'' # nat_bytes (nat n))"
| "json_bytes (JFloat f) = ''d'' @ list_bytes (\<lambda>c. [c]) f"
| "json_bytes (JStr t) = ''s'' @ list_bytes nat_bytes t"
| "json_bytes (JArr js) = ''a'' @ list_bytes json_bytes js"
| "json_bytes (JObj ms) = ''o'' @ list_bytes (\<lambda>(k, v). list_bytes nat_bytes k @ json_bytes v) ms"

fun measured_value :: "json \<Rightarrow> bool" where
  "measured_value (JObj (_ # (key, _) # _)) \<longleftrightarrow> key = ascii_text ''plan_sha256''"
| "measured_value _ = False"

fun seed_first :: "members \<Rightarrow> bool" where
  "seed_first ((key, JInt _) # _) \<longleftrightarrow> key = ascii_text ''seed''"
| "seed_first _ = False"

fun marked_document :: "json \<Rightarrow> bool" where
  "marked_document (JObj (_ # (_, v) # ms)) \<longleftrightarrow> measured_value v \<or> seed_first ms"
| "marked_document _ = False"

definition demo_bytes :: "json \<Rightarrow> py_bytes" where
  "demo_bytes v = (if marked_document v then CHR ''!'' else CHR ''.'') # json_bytes v"

definition demo_sha256 :: "py_bytes \<Rightarrow> string" where
  "demo_sha256 b = (case b of c # cs \<Rightarrow> if c = CHR ''!'' then cs else ''00'' | [] \<Rightarrow> ''00'')"

definition demo_codec :: codec where
  "demo_codec = \<lparr>cd_canonical = \<lambda>v. Some (demo_bytes v), cd_sha256 = demo_sha256\<rparr>"

lemma demo_canonical: "cd_canonical demo_codec v = Some (demo_bytes v)" "canonical demo_codec v = Inr (demo_bytes v)"
  by (simp_all add: demo_codec_def canonical_def)

lemma demo_hash [simp]:
  "\<not> marked_document v \<Longrightarrow> cd_sha256 demo_codec (demo_bytes v) = ''00''"
  "marked_document v \<Longrightarrow> cd_sha256 demo_codec (demo_bytes v) = json_bytes v"
  by (simp_all add: demo_codec_def demo_sha256_def demo_bytes_def)

lemma demo_digest: "\<not> marked_document v \<Longrightarrow> artifact_digest demo_codec v = Inr ''sha256:00''"
  by (simp add: artifact_digest_def demo_canonical)

fun seed_next :: "(string \<times> json) list \<Rightarrow> bool" where
  "seed_next ((key, JInt _) # _) \<longleftrightarrow> key = ''seed''"
| "seed_next _ = False"

lemma seed_first_names: "seed_first (map (\<lambda>(k, v). (ascii_text k, v)) ms) \<longleftrightarrow> seed_next ms"
  by (induction ms rule: seed_next.induct) auto

lemma seed_next_names [simp]:
  "seed_next ((key, v) # ms) \<longleftrightarrow> key = ''seed'' \<and> (case v of JInt _ \<Rightarrow> True | _ \<Rightarrow> False)"
  by (cases v) auto

lemma marked_document_first [simp]:
  "marked_document (jobj ((a, v) # (b, w) # rest)) \<longleftrightarrow> measured_value w \<or> seed_next rest"
  "\<not> marked_document (jobj [])" "\<not> marked_document (jobj [(a, v)])" "\<not> measured_value (jstr s)"
  "measured_value (jobj ((a, v) # (b, w) # rest)) \<longleftrightarrow> b = ''plan_sha256''"
  "\<not> measured_value (jobj [])" "\<not> measured_value (jobj [(a, v)])"
  using seed_first_names [of rest] by (simp_all add: jobj_def jstr_def case_prod_beta')

definition spelled :: "('a \<Rightarrow> py_bytes) \<Rightarrow> 'a \<Rightarrow> bool" where
  "spelled f x \<longleftrightarrow> (\<forall>y u v. f x @ u = f y @ v \<longrightarrow> x = y \<and> u = v)"

lemma spelledI: "(\<And>y u v. f x @ u = f y @ v \<Longrightarrow> x = y \<and> u = v) \<Longrightarrow> spelled f x"
  by (simp add: spelled_def)

lemma spelledD: "spelled f x \<Longrightarrow> f x @ u = f y @ v \<Longrightarrow> x = y \<and> u = v"
  by (simp add: spelled_def)

lemma spelled_nat: "spelled nat_bytes m"
proof -
  have "nat_bytes m @ u = nat_bytes n @ v \<Longrightarrow> m = n \<and> u = v" for n u v
  proof (induction m arbitrary: n)
    case 0
    then show ?case by (cases n) simp_all
  next
    case (Suc m)
    then show ?case by (cases n) simp_all
  qed
  then show ?thesis by (rule spelledI)
qed

lemma nat_bytes_append: "nat_bytes m @ u = nat_bytes n @ v \<longleftrightarrow> m = n \<and> u = v"
  using spelledD [OF spelled_nat] by blast

lemma spelled_list:
  assumes "\<And>x. x \<in> set xs \<Longrightarrow> spelled f x"
  shows "spelled (list_bytes f) xs"
proof -
  have "list_bytes f xs @ u = list_bytes f ys @ v \<Longrightarrow> xs = ys \<and> u = v" for ys u v
    using assms
  proof (induction xs arbitrary: ys)
    case Nil
    then show ?case by (cases ys) simp_all
  next
    case (Cons x xs)
    then obtain y ys' where ys: "ys = y # ys'" by (cases ys) simp_all
    with Cons.prems have "f x @ list_bytes f xs @ u = f y @ list_bytes f ys' @ v" "spelled f x" by simp_all
    from spelledD [OF this(2,1)] have "x = y" "list_bytes f xs @ u = list_bytes f ys' @ v" by simp_all
    with Cons.IH [OF this(2)] Cons.prems(2) ys show ?case by simp
  qed
  then show ?thesis by (rule spelledI)
qed

lemma spelled_char: "spelled (\<lambda>c. [c]) c"
  by (simp add: spelled_def)

lemma spelled_member:
  assumes "spelled json_bytes v"
  shows "spelled (\<lambda>(k, v). list_bytes nat_bytes k @ json_bytes v) (k, v)"
proof -
  have "(k, v) = (k', v') \<and> u = w"
    if "list_bytes nat_bytes k @ json_bytes v @ u = list_bytes nat_bytes k' @ json_bytes v' @ w" for k' v' u w
  proof -
    note key = spelledD [OF spelled_list [OF spelled_nat] that]
    with spelledD [OF assms conjunct2 [OF key]] show ?thesis by simp
  qed
  then show ?thesis unfolding spelled_def split_paired_All prod.case append_assoc by (intro allI impI)
qed

lemma spelled_json: "spelled json_bytes v"
proof (induction v)
  case (JInt n)
  have "JInt n = y \<and> u = w" if "json_bytes (JInt n) @ u = json_bytes y @ w" for y u w
    using that by (cases y) (simp_all add: nat_bytes_append eq_nat_nat_iff split: if_splits)
  then show ?case by (rule spelledI)
next
  case (JFloat f)
  have "JFloat f = y \<and> u = w" if "json_bytes (JFloat f) @ u = json_bytes y @ w" for y u w
    using that by (cases y) (auto dest!: spelledD [OF spelled_list [OF spelled_char]] split: if_splits)
  then show ?case by (rule spelledI)
next
  case (JStr t)
  have "JStr t = y \<and> u = w" if "json_bytes (JStr t) @ u = json_bytes y @ w" for y u w
    using that by (cases y) (auto dest!: spelledD [OF spelled_list [OF spelled_nat]] split: if_splits)
  then show ?case by (rule spelledI)
next
  case (JArr js)
  then have items: "spelled (list_bytes json_bytes) js" by (rule spelled_list)
  have "JArr js = y \<and> u = w" if "json_bytes (JArr js) @ u = json_bytes y @ w" for y u w
    using that by (cases y) (auto dest!: spelledD [OF items] split: if_splits)
  then show ?case by (rule spelledI)
next
  case (JObj ms)
  have members: "spelled (\<lambda>(k, v). list_bytes nat_bytes k @ json_bytes v) x" if "x \<in> set ms" for x
  proof -
    obtain k v where x: "x = (k, v)" by (cases x)
    with JObj [of x v] that have "spelled json_bytes v" by (simp add: snds.simps)
    then show ?thesis unfolding x by (rule spelled_member)
  qed
  have items: "spelled (list_bytes (\<lambda>(k, v). list_bytes nat_bytes k @ json_bytes v)) ms"
    by (rule spelled_list) (rule members)
  have "JObj ms = y \<and> u = w" if "json_bytes (JObj ms) @ u = json_bytes y @ w" for y u w
    using that by (cases y) (auto dest!: spelledD [OF items] split: if_splits)
  then show ?case by (rule spelledI)
next
  case JNull
  have "JNull = y \<and> u = w" if "json_bytes JNull @ u = json_bytes y @ w" for y u w
    using that by (cases y) (auto split: if_splits)
  then show ?case by (rule spelledI)
next
  case (JBool b)
  have "JBool b = y \<and> u = w" if "json_bytes (JBool b) @ u = json_bytes y @ w" for y u w
    using that by (cases y) (auto split: if_splits)
  then show ?case by (rule spelledI)
qed

lemma demo_faithful: "codec_faithful demo_codec"
proof -
  have "a = b" if "json_bytes a = json_bytes b" for a b
    using spelledD [OF spelled_json, of a "[]" b "[]"] that by simp
  then have "a = b" if "demo_bytes a = demo_bytes b" for a b using that by (simp add: demo_bytes_def)
  then show ?thesis by (auto simp: codec_faithful_def demo_codec_def intro: same_document_refl)
qed

end
