(* ===== verification/Links.thy ===== *)
theory Links
  imports Artifacts
begin

text \<open>
  Request correlation of \<open>vllm_request_identity.py\<close>: the checks on a correlated client result and its
  join with the router's ledger rows by request identity. Results, rows and links are decoded JSON
  objects; the compact \<open>json.dumps\<close> of the ledger is an argument, like the canonical encoder. The
  lemmas show that an accepted join is a partition of the offers and a bijection on the ledger.
\<close>

section \<open>Identities and vocabularies\<close>

datatype link_fault =
    ResultFields
  | ResultSchema
  | DigestMismatch string
  | MeasurementSchema
  | MeasurementPolicy
  | LinkPopulation
  | LinkIdentity
  | ClientOutcome
  | ClientObservation
  | UndispatchedHeaders
  | ResponseIdentityMismatch
  | ResponseIdentityUnobserved
  | LedgerIdentity
  | LedgerDuplicate
  | LedgerOrphan
  | LedgerPolicy
  | LedgerOutcome
  | LedgerReplica
  | UndispatchedLedgerRow
  | Encoding artifact_fault

type_synonym 'a linked = "(link_fault, 'a) res"

definition identity_text :: "py_text \<Rightarrow> bool" where
  "identity_text t \<longleftrightarrow> lower_hex 32 t"

definition is_identity :: "json \<Rightarrow> bool" where
  "is_identity v = (case v of JStr t \<Rightarrow> identity_text t | _ \<Rightarrow> False)"

definition measurement_schemas :: "string list" where
  "measurement_schemas = [''inferdrome.vllm-router-study-result.v1'',
     ''inferdrome.vllm-router-capacity-result.v2'', ''inferdrome.vllm-router-timed-result.v1'']"

definition supported_policies :: "string list" where
  "supported_policies = [''round_robin'', ''least_busy'', ''cache_only'', ''cache_plus_load'',
     ''cache_saturation'']"

definition router_outcomes :: "string list" where
  "router_outcomes = [''error'', ''completed'', ''rejected_accounting'', ''rejected_capacity'',
     ''rejected_queue_timeout'', ''rejected_body'', ''rejected_input'', ''rejected_request_id'',
     ''disconnected'', ''cancelled'', ''timeout'', ''upstream_error'', ''upstream_http_error'',
     ''upstream_protocol_error'', ''stream_limit'']"

definition correlated_schema :: string where
  "correlated_schema = ''inferdrome.vllm-router-correlated-result.v1''"

definition link_digest :: "codec \<Rightarrow> json \<Rightarrow> string linked" where
  "link_digest k v = (case artifact_digest k v of Inl e \<Rightarrow> Inl (Encoding e) | Inr d \<Rightarrow> Inr d)"

text \<open>\<open>_check_digest\<close>\<close>

definition check_digest :: "codec \<Rightarrow> string \<Rightarrow> members \<Rightarrow> unit linked" where
  "check_digest k label ms =
     rbind (link_digest k (JObj (without ''result_sha256'' ms))) (\<lambda>d.
       raise_if (get_null ms ''result_sha256'' \<noteq> jstr d) (DigestMismatch label))"

section \<open>The correlated result\<close>

definition correlated_result :: "codec \<Rightarrow> json \<Rightarrow> json list \<Rightarrow> json linked" where
  "correlated_result k measurement links =
     (let body = [(''schema'', jstr correlated_schema), (''measurement'', measurement),
           (''request_links'', JArr links)]
      in rbind (link_digest k (jobj body)) (\<lambda>d. Inr (jobj (body @ [(''result_sha256'', jstr d)]))))"

text \<open>\<open>type(v) is not int or v < 0\<close> for a value that may be null; the key must be present.\<close>

definition optional_stamp :: "members \<Rightarrow> string \<Rightarrow> bool" where
  "optional_stamp row key \<longleftrightarrow>
     (case json_get row key of
        None \<Rightarrow> False
      | Some JNull \<Rightarrow> True
      | Some (JInt n) \<Rightarrow> 0 \<le> n
      | Some _ \<Rightarrow> False)"

definition nonempty_text :: "json \<Rightarrow> bool" where
  "nonempty_text v = (case v of JStr t \<Rightarrow> t \<noteq> [] | _ \<Rightarrow> False)"

definition link_fields :: "string list" where
  "link_fields = [''index'', ''request_id'', ''response_request_id'']"

text \<open>One turn of the loop over rows and links; \<open>seen\<close> holds the identities met so far.\<close>

definition check_link :: "int \<Rightarrow> json list \<Rightarrow> json \<Rightarrow> json \<Rightarrow> unit linked" where
  "check_link index seen row link =
     (case (row, link) of
        (JObj r, JObj l) \<Rightarrow>
          rbind (raise_if (get_null r ''index'' \<noteq> JInt index \<or> \<not> same_fields l link_fields
              \<or> get_null l ''index'' \<noteq> JInt index \<or> \<not> is_identity (get_null l ''request_id'')
              \<or> get_null l ''request_id'' \<in> set seen) LinkIdentity) (\<lambda>_.
          rbind (raise_if (\<not> nonempty_text (get_null r ''outcome'')) ClientOutcome) (\<lambda>_.
          rbind (raise_if (\<not> optional_stamp r ''dispatch_ns'' \<or> \<not> optional_stamp r ''response_headers_ns'')
              ClientObservation) (\<lambda>_.
          if get_null r ''response_headers_ns'' \<noteq> JNull
          then rbind (raise_if (get_null r ''dispatch_ns'' = JNull) UndispatchedHeaders) (\<lambda>_.
            raise_if (\<not> is_identity (get_null l ''response_request_id'')
              \<or> get_null l ''response_request_id'' \<noteq> get_null l ''request_id'') ResponseIdentityMismatch)
          else raise_if (get_null l ''response_request_id'' \<noteq> JNull) ResponseIdentityUnobserved)))
      | _ \<Rightarrow> Inl LinkIdentity)"

definition object_members :: "json \<Rightarrow> members" where
  "object_members v = (case v of JObj ms \<Rightarrow> ms | _ \<Rightarrow> [])"

fun check_links :: "int \<Rightarrow> json list \<Rightarrow> (json \<times> json) list \<Rightarrow> unit linked" where
  "check_links index seen [] = Inr ()"
| "check_links index seen ((row, link) # rest) =
     rbind (check_link index seen row link) (\<lambda>_.
       check_links (index + 1) (get_null (object_members link) ''request_id'' # seen) rest)"

definition is_bool :: "json \<Rightarrow> bool" where
  "is_bool v = (case v of JBool _ \<Rightarrow> True | _ \<Rightarrow> False)"

definition validate_correlated_result ::
  "codec \<Rightarrow> json \<Rightarrow> (members \<times> json list \<times> json list) linked" where
  "validate_correlated_result k result =
     (case result of
        JObj ms \<Rightarrow>
          rbind (raise_if (\<not> same_fields ms [''schema'', ''measurement'', ''request_links'', ''result_sha256''])
              ResultFields) (\<lambda>_.
          rbind (raise_if (get_null ms ''schema'' \<noteq> jstr correlated_schema) ResultSchema) (\<lambda>_.
          rbind (check_digest k ''correlated result'' ms) (\<lambda>_.
          case get_null ms ''measurement'' of
            JObj measurement \<Rightarrow>
              rbind (raise_if (get_null measurement ''schema'' \<notin> set (map jstr measurement_schemas))
                  MeasurementSchema) (\<lambda>_.
              rbind (check_digest k ''measurement'' measurement) (\<lambda>_.
              rbind (raise_if (get_null measurement ''policy'' \<notin> set (map jstr supported_policies))
                  MeasurementPolicy) (\<lambda>_.
              case (get_null measurement ''rows'', get_null ms ''request_links'') of
                (JArr rows, JArr links) \<Rightarrow>
                  if rows = [] \<or> length links \<noteq> length rows
                    \<or> \<not> is_bool (get_null measurement ''comparison_valid'')
                  then Inl LinkPopulation
                  else rbind (check_links 0 [] (zip rows links)) (\<lambda>_. Inr (measurement, rows, links))
              | _ \<Rightarrow> Inl LinkPopulation)))
          | _ \<Rightarrow> Inl MeasurementSchema)))
      | _ \<Rightarrow> Inl ResultFields)"

section \<open>The join with the ledger\<close>

text \<open>The insertion order of \<open>ledger_by_id\<close> is never read: a map is enough.\<close>

type_synonym receipts = "json \<Rightarrow> members option"

definition replica_ok :: "members \<Rightarrow> bool" where
  "replica_ok row \<longleftrightarrow>
     (case json_get row ''replica'' of
        None \<Rightarrow> False
      | Some JNull \<Rightarrow> get_null row ''outcome'' \<noteq> jstr ''completed''
      | Some (JInt n) \<Rightarrow> n = 0 \<or> n = 1
      | Some _ \<Rightarrow> False)"

definition add_receipt :: "members \<Rightarrow> json list \<Rightarrow> receipts \<Rightarrow> json \<Rightarrow> receipts linked" where
  "add_receipt measurement offered receipts row =
     (case row of
        JObj r \<Rightarrow>
          let identity = get_null r ''request_id''
          in rbind (raise_if (\<not> is_identity identity) LedgerIdentity) (\<lambda>_.
             rbind (raise_if (receipts identity \<noteq> None) LedgerDuplicate) (\<lambda>_.
             rbind (raise_if (identity \<notin> set offered) LedgerOrphan) (\<lambda>_.
             rbind (raise_if (get_null r ''policy'' \<noteq> get_null measurement ''policy'') LedgerPolicy) (\<lambda>_.
             rbind (raise_if (get_null r ''outcome'' \<notin> set (map jstr router_outcomes)) LedgerOutcome) (\<lambda>_.
             rbind (raise_if (\<not> replica_ok r) LedgerReplica) (\<lambda>_.
             Inr (receipts(identity \<mapsto> r))))))))
      | _ \<Rightarrow> Inl LedgerIdentity)"

datatype link_state = NOT_DISPATCHED | DISPATCHED_WITHOUT_ROUTER_RECORD | MATCHED

record joined_link =
  jl_index :: json
  jl_request_id :: json
  jl_state :: link_state
  jl_client_outcome :: json
  jl_router_outcome :: json
  jl_replica :: json

definition join_link :: "receipts \<Rightarrow> json \<times> json \<Rightarrow> joined_link linked" where
  "join_link receipts row_link =
     (let row = object_members (fst row_link);
          identity = get_null (object_members (snd row_link)) ''request_id'';
          receipt = receipts identity
      in rbind
          (if get_null row ''dispatch_ns'' = JNull
           then (if receipt \<noteq> None then Inl UndispatchedLedgerRow else Inr NOT_DISPATCHED)
           else Inr (if receipt = None then DISPATCHED_WITHOUT_ROUTER_RECORD else MATCHED))
          (\<lambda>state. Inr \<lparr>jl_index = get_null row ''index'', jl_request_id = identity, jl_state = state,
             jl_client_outcome = get_null row ''outcome'',
             jl_router_outcome = (case receipt of None \<Rightarrow> JNull | Some r \<Rightarrow> get_null r ''outcome''),
             jl_replica = (case receipt of None \<Rightarrow> JNull | Some r \<Rightarrow> get_null r ''replica'')\<rparr>))"

definition state_count :: "link_state \<Rightarrow> joined_link list \<Rightarrow> int" where
  "state_count s links = int (length (filter (\<lambda>l. jl_state l = s) links))"

record link_report =
  lk_verified :: bool
  lk_comparison_valid :: json
  lk_result_sha256 :: json
  lk_measurement_sha256 :: json
  lk_ledger_rows_sha256 :: string
  lk_offered :: int
  lk_matched :: int
  lk_not_dispatched :: int
  lk_unresolved :: int
  lk_links :: "joined_link list"
  lk_report_sha256 :: string

definition link_state_name :: "link_state \<Rightarrow> string" where
  "link_state_name s = (case s of NOT_DISPATCHED \<Rightarrow> ''NOT_DISPATCHED''
     | DISPATCHED_WITHOUT_ROUTER_RECORD \<Rightarrow> ''DISPATCHED_WITHOUT_ROUTER_RECORD'' | MATCHED \<Rightarrow> ''MATCHED'')"

definition joined_json :: "joined_link \<Rightarrow> json" where
  "joined_json l = jobj [(''index'', jl_index l), (''request_id'', jl_request_id l),
     (''state'', jstr (link_state_name (jl_state l))), (''client_outcome'', jl_client_outcome l),
     (''router_outcome'', jl_router_outcome l), (''replica'', jl_replica l)]"

definition report_json :: "link_report \<Rightarrow> json" where
  "report_json r = jobj [(''schema'', jstr ''inferdrome.vllm-router-request-links.v1''),
     (''scope'', jstr ''REQUEST_IDENTITY_ONLY''),
     (''status'', jstr (if lk_verified r then ''VERIFIED'' else ''INCOMPLETE'')),
     (''correlation_valid'', JBool (lk_verified r)),
     (''measurement_comparison_valid'', lk_comparison_valid r),
     (''correlated_result_sha256'', lk_result_sha256 r), (''measurement_sha256'', lk_measurement_sha256 r),
     (''ledger_rows_sha256'', jstr (lk_ledger_rows_sha256 r)),
     (''ledger_rows_encoding'', jstr ''PYTHON_JSON_SORTED_COMPACT_UTF8_V1''),
     (''offered'', JInt (lk_offered r)), (''matched'', JInt (lk_matched r)),
     (''not_dispatched'', JInt (lk_not_dispatched r)), (''unresolved_dispatches'', JInt (lk_unresolved r)),
     (''links'', JArr (map joined_json (lk_links r)))]"

text \<open>\<open>_ledger_digest\<close>; \<open>dumps\<close> is the compact \<open>json.dumps\<close>, None for a non-finite number.\<close>

definition ledger_digest :: "codec \<Rightarrow> (json list \<Rightarrow> py_bytes option) \<Rightarrow> json list \<Rightarrow> string linked" where
  "ledger_digest k dumps rows =
     (case dumps rows of None \<Rightarrow> Inl (Encoding NotCanonical) | Some b \<Rightarrow> Inr (''sha256:'' @ cd_sha256 k b))"

definition verify_links ::
  "codec \<Rightarrow> (json list \<Rightarrow> py_bytes option) \<Rightarrow> json \<Rightarrow> json list \<Rightarrow> link_report linked" where
  "verify_links k dumps result ledger =
     rbind (validate_correlated_result k result) (\<lambda>(measurement, rows, links).
     let offered = map (\<lambda>l. get_null (object_members l) ''request_id'') links
     in rbind (res_fold (add_receipt measurement offered) Map.empty ledger) (\<lambda>receipts.
        rbind (res_map (join_link receipts) (zip rows links)) (\<lambda>joined.
        rbind (ledger_digest k dumps ledger) (\<lambda>ledger_sha256.
        let unresolved = state_count DISPATCHED_WITHOUT_ROUTER_RECORD joined;
            report = \<lparr>lk_verified = (unresolved = 0),
             lk_comparison_valid = get_null measurement ''comparison_valid'',
             lk_result_sha256 = get_null (object_members result) ''result_sha256'',
             lk_measurement_sha256 = get_null measurement ''result_sha256'',
             lk_ledger_rows_sha256 = ledger_sha256, lk_offered = int (length rows),
             lk_matched = int (length ledger), lk_not_dispatched = state_count NOT_DISPATCHED joined,
             lk_unresolved = unresolved, lk_links = joined, lk_report_sha256 = []\<rparr>
        in rbind (link_digest k (report_json report)) (\<lambda>d. Inr (report\<lparr>lk_report_sha256 := d\<rparr>))))))"

section \<open>What the checks give\<close>

definition identity_of :: "json \<Rightarrow> json" where
  "identity_of v = get_null (object_members v) ''request_id''"

lemma check_links_distinct:
  assumes "check_links i seen (zip rows links) = Inr ()" "length links = length rows"
  shows "distinct (map identity_of links) \<and> set (map identity_of links) \<inter> set seen = {}"
  using assms
proof (induction rows arbitrary: i seen links)
  case Nil
  then show ?case by simp
next
  case (Cons row rows)
  then obtain l ls where links: "links = l # ls" "length ls = length rows" by (cases links) auto
  have head: "check_link i seen row l = Inr ()"
    and rest: "check_links (i + 1) (identity_of l # seen) (zip rows ls) = Inr ()"
    using Cons.prems(1) by (auto simp: links result_simps identity_of_def)
  have "identity_of l \<notin> set seen"
    using head by (auto simp: check_link_def result_simps identity_of_def object_members_def split: json.splits)
  with Cons.IH [OF rest links(2)] show ?case by (auto simp: links)
qed

lemma add_receipt_ok:
  assumes "add_receipt measurement offered m row = Inr m'"
  shows "m (identity_of row) = None" "identity_of row \<in> set offered"
    "m' = m(identity_of row \<mapsto> object_members row)"
  using assms
  by (auto simp: add_receipt_def identity_of_def object_members_def result_simps Let_def split: json.splits)

lemma add_receipts_ok:
  assumes "res_fold (add_receipt measurement offered) m ledger = Inr m'"
  shows "distinct (map identity_of ledger) \<and> set (map identity_of ledger) \<subseteq> set offered
    \<and> (\<forall>i \<in> set (map identity_of ledger). m i = None)
    \<and> dom m' = dom m \<union> set (map identity_of ledger)
    \<and> (\<forall>i. m i \<noteq> None \<longrightarrow> m' i = m i)
    \<and> (\<forall>row \<in> set ledger. m' (identity_of row) = Some (object_members row))"
  using assms
proof (induction ledger arbitrary: m)
  case Nil
  then show ?case by simp
next
  case (Cons row ledger)
  then obtain m1 where m1: "add_receipt measurement offered m row = Inr m1"
    "res_fold (add_receipt measurement offered) m1 ledger = Inr m'" by (auto simp: result_simps)
  note step = add_receipt_ok [OF m1(1)]
  show ?case using Cons.IH [OF m1(2)] step by (auto simp: dom_def split: if_splits)
qed

lemma join_link_ok:
  assumes "join_link receipts (row, link) = Inr j"
  shows "jl_request_id j = identity_of link"
    "jl_state j = MATCHED \<longleftrightarrow> receipts (identity_of link) \<noteq> None"
    "jl_state j = NOT_DISPATCHED \<longleftrightarrow> get_null (object_members row) ''dispatch_ns'' = JNull"
    "receipts (identity_of link) = Some r \<Longrightarrow>
       jl_router_outcome j = get_null r ''outcome'' \<and> jl_replica j = get_null r ''replica''"
  using assms
  by (auto simp: join_link_def Let_def result_simps identity_of_def split: if_splits)

lemma three_states: "length js = length (filter (\<lambda>l. jl_state l = MATCHED) js)
    + length (filter (\<lambda>l. jl_state l = NOT_DISPATCHED) js)
    + length (filter (\<lambda>l. jl_state l = DISPATCHED_WITHOUT_ROUTER_RECORD) js)"
proof (induction js)
  case (Cons j js)
  then show ?case by (cases "jl_state j") auto
qed simp

text \<open>What a join that the code accepts was made from.\<close>

lemma verify_links_parts:
  assumes "verify_links k dumps result ledger = Inr rep"
  obtains measurement rows links receipts where
    "validate_correlated_result k result = Inr (measurement, rows, links)"
    "res_fold (add_receipt measurement (map identity_of links)) Map.empty ledger = Inr receipts"
    "res_map (join_link receipts) (zip rows links) = Inr (lk_links rep)"
    "lk_offered rep = int (length rows)" "lk_matched rep = int (length ledger)"
    "lk_not_dispatched rep = state_count NOT_DISPATCHED (lk_links rep)"
    "lk_unresolved rep = state_count DISPATCHED_WITHOUT_ROUTER_RECORD (lk_links rep)"
    "lk_verified rep \<longleftrightarrow> lk_unresolved rep = 0"
proof -
  have identity: "(\<lambda>l. get_null (object_members l) ''request_id'') = identity_of"
    by (rule ext) (simp add: identity_of_def)
  from assms show thesis
    unfolding verify_links_def identity Let_def rbind_eq_Inr
    by (auto simp: result_simps intro: that)
qed

lemma validated_links:
  assumes "validate_correlated_result k result = Inr (measurement, rows, links)"
  shows "length links = length rows" "rows \<noteq> []" "check_links 0 [] (zip rows links) = Inr ()"
  using assms
  by (auto simp: validate_correlated_result_def result_simps split: json.splits if_splits)

text \<open>A join, link by link.\<close>

lemma joined_links:
  assumes "res_map (join_link receipts) (zip rows links) = Inr js" "length links = length rows"
  shows joined_length: "length js = length rows"
    and joined_nth: "i < length rows \<Longrightarrow> join_link receipts (rows ! i, links ! i) = Inr (js ! i)"
    and joined_ids: "map jl_request_id js = map identity_of links"
    and joined_state: "j \<in> set js \<Longrightarrow> jl_state j = MATCHED \<longleftrightarrow> receipts (jl_request_id j) \<noteq> None"
proof -
  have joined: "list_all2 (\<lambda>rl j. join_link receipts rl = Inr j) (zip rows links) js"
    using assms(1) by (simp add: res_map_eq_Inr)
  show len: "length js = length rows" using list_all2_lengthD [OF joined] assms(2) by simp
  show nth: "i < length rows \<Longrightarrow> join_link receipts (rows ! i, links ! i) = Inr (js ! i)" for i
    using list_all2_nthD [OF joined, of i] assms(2) by simp
  show "map jl_request_id js = map identity_of links"
    by (rule nth_equalityI) (simp_all add: len assms(2) join_link_ok(1) [OF nth])
  assume "j \<in> set js"
  then obtain i where "i < length rows" "j = js ! i" using len by (auto simp: in_set_conv_nth)
  with join_link_ok(1,2) [OF nth [of i]] show "jl_state j = MATCHED \<longleftrightarrow> receipts (jl_request_id j) \<noteq> None"
    by simp
qed

lemma matched_receipts:
  assumes "res_map (join_link receipts) (zip rows links) = Inr js" "length links = length rows"
    and "distinct (map identity_of links)" "dom receipts \<subseteq> set (map identity_of links)"
  shows "length (filter (\<lambda>l. jl_state l = MATCHED) js) = card (dom receipts)"
proof -
  let ?ids = "map jl_request_id (filter (\<lambda>l. jl_state l = MATCHED) js)"
  note ids = joined_ids [OF assms(1,2)] and state = joined_state [OF assms(1,2)]
  have "set ?ids \<subseteq> dom receipts" using state by auto
  moreover have "i \<in> set ?ids" if i: "i \<in> dom receipts" for i
  proof -
    from i assms(4) have "i \<in> set (map jl_request_id js)" unfolding ids by blast
    with state i show ?thesis by auto
  qed
  ultimately have "set ?ids = dom receipts" by blast
  moreover have "distinct ?ids" using assms(3) ids by (metis distinct_map_filter)
  ultimately show ?thesis by (metis distinct_card length_map)
qed

lemma receipt_joined:
  assumes "res_map (join_link receipts) (zip rows links) = Inr js" "length links = length rows"
    and "receipts i = Some r" "i \<in> set (map identity_of links)"
  shows "list_ex (\<lambda>l. jl_request_id l = i \<and> jl_state l = MATCHED \<and> jl_router_outcome l = get_null r ''outcome''
    \<and> jl_replica l = get_null r ''replica'') js"
proof -
  from assms(2,4) obtain n where n: "n < length rows" "identity_of (links ! n) = i"
    by (auto simp: in_set_conv_nth)
  with join_link_ok [OF joined_nth [OF assms(1,2) n(1)]] assms(3) joined_length [OF assms(1,2)] show ?thesis
    by (auto simp: list_ex_length intro!: exI [of _ n])
qed


section \<open>A concrete join\<close>

text \<open>Two offers: one dispatched with a completed receipt, one never dispatched.\<close>

definition demo_identity :: "char \<Rightarrow> json" where
  "demo_identity c = jstr (replicate 32 c)"

definition demo_row :: "int \<Rightarrow> json \<Rightarrow> json" where
  "demo_row i dispatch = jobj [(''index'', JInt i), (''outcome'', jstr ''completed''),
     (''dispatch_ns'', dispatch), (''response_headers_ns'', dispatch)]"

definition demo_link :: "int \<Rightarrow> json \<Rightarrow> json \<Rightarrow> json" where
  "demo_link i identity response = jobj [(''index'', JInt i), (''request_id'', identity),
     (''response_request_id'', response)]"

definition demo_measurement :: members where
  "demo_measurement = map (\<lambda>(k, v). (ascii_text k, v))
     [(''schema'', jstr ''inferdrome.vllm-router-timed-result.v1''), (''policy'', jstr ''round_robin''),
      (''comparison_valid'', JBool True), (''rows'', JArr [demo_row 0 (JInt 5), demo_row 1 JNull]),
      (''result_sha256'', jstr ''sha256:00'')]"

definition demo_links :: "json list" where
  "demo_links = [demo_link 0 (demo_identity (CHR ''a'')) (demo_identity (CHR ''a'')),
     demo_link 1 (demo_identity (CHR ''b'')) JNull]"

definition demo_result :: json where
  "demo_result = jobj [(''schema'', jstr correlated_schema), (''measurement'', JObj demo_measurement),
     (''request_links'', JArr demo_links), (''result_sha256'', jstr ''sha256:00'')]"

definition demo_ledger :: "json list" where
  "demo_ledger = [jobj [(''request_id'', demo_identity (CHR ''a'')), (''policy'', jstr ''round_robin''),
     (''outcome'', jstr ''completed''), (''replica'', JInt 1)]]"

lemma demo_identities:
  "is_identity (demo_identity (CHR ''a''))" "is_identity (demo_identity (CHR ''b''))"
  "demo_identity (CHR ''a'') \<noteq> demo_identity (CHR ''b'')" "demo_identity c \<noteq> JNull"
  by (simp_all add: is_identity_def demo_identity_def jstr_def identity_text_def lower_hex_def ascii_text_def)

lemma demo_checked: "check_links 0 [] (zip [demo_row 0 (JInt 5), demo_row 1 JNull] demo_links) = Inr ()"
proof -
  have named: "nonempty_text (jstr ''completed'')" by (simp add: nonempty_text_def jstr_def ascii_text_def)
  show ?thesis
    by (simp add: demo_links_def check_link_def demo_row_def demo_link_def jobj_def object_members_def
        optional_stamp_def same_fields_def link_fields_def demo_identities demo_identities(3) [symmetric] named insert_commute)
qed

lemma report_not_timed [simp]: "\<not> marked_document (report_json r)"
  by (simp add: report_json_def)

lemma demo_validated:
  "validate_correlated_result demo_codec demo_result
     = Inr (demo_measurement, [demo_row 0 (JInt 5), demo_row 1 JNull], demo_links)"
proof -
  have digest: "check_digest demo_codec label ms = Inr ()"
    if "get_null ms ''result_sha256'' = jstr ''sha256:00''" "\<not> marked_document (JObj (without ''result_sha256'' ms))" for label ms
    using that by (simp add: check_digest_def link_digest_def demo_digest)
  have unmarked: "\<not> marked_document (JObj (without ''result_sha256'' demo_measurement))"
    by (simp add: demo_measurement_def without_def jstr_def)
  have measurement: "get_null demo_measurement key = (case map_of
     [(''schema'', jstr ''inferdrome.vllm-router-timed-result.v1''), (''policy'', jstr ''round_robin''),
      (''comparison_valid'', JBool True), (''rows'', JArr [demo_row 0 (JInt 5), demo_row 1 JNull]),
      (''result_sha256'', jstr ''sha256:00'')] key of None \<Rightarrow> JNull | Some v \<Rightarrow> v)" for key
    unfolding demo_measurement_def by (rule get_null_jobj)
  define ms where "ms = map (\<lambda>(k, v). (ascii_text k, v))
    [(''schema'', jstr correlated_schema), (''measurement'', JObj demo_measurement),
     (''request_links'', JArr demo_links), (''result_sha256'', jstr ''sha256:00'')]"
  have result: "demo_result = JObj ms" by (simp add: demo_result_def jobj_def ms_def)
  have get: "get_null ms key = (case map_of
    [(''schema'', jstr correlated_schema), (''measurement'', JObj demo_measurement),
     (''request_links'', JArr demo_links), (''result_sha256'', jstr ''sha256:00'')] key of
      None \<Rightarrow> JNull | Some v \<Rightarrow> v)" for key
    unfolding ms_def by (rule get_null_jobj)
  have same: "same_fields ms [''schema'', ''measurement'', ''request_links'', ''result_sha256'']"
    by (simp add: same_fields_def ms_def)
  have body: "\<not> marked_document (JObj (without ''result_sha256'' ms))"
    by (simp add: ms_def without_def demo_measurement_def)
  have population: "length demo_links = 2" by (simp add: demo_links_def)
  show ?thesis
    by (simp add: validate_correlated_result_def result get same digest unmarked body measurement measurement_schemas_def
        supported_policies_def is_bool_def population demo_checked)
qed


end
