(* ===== verification/Timing.thy ===== *)
theory Timing
  imports Artifacts "HOL-Library.List_Lexorder"
begin

text \<open>
  Planned arrival timing: the epoch-local compression of \<open>vllm_arrival_timing.py\<close>, the restoration of
  whole groups of \<open>vllm_reduced_timing.py\<close>, and the masks over the groups of several plans of
  \<open>vllm_reduced_protocol.py\<close>. A timing artifact the code builds is a record with its encoder; one it
  is given is a \<open>json\<close>. The lemmas show that any mask of original groups only moves offers earlier,
  within their epoch, without reordering them.
\<close>

section \<open>Compression\<close>

record arrival =
  ar_index :: int
  ar_original_ns :: int
  ar_scheduled_ns :: int

fun compress :: "int \<Rightarrow> int \<Rightarrow> int \<Rightarrow> int \<Rightarrow> int \<Rightarrow> int \<Rightarrow> offer list \<Rightarrow> arrival list" where
  "compress group_size spacing advance anchor position epoch [] = []"
| "compress group_size spacing advance anchor position epoch (x # xs) =
     (let fresh = (of_epoch x \<noteq> epoch \<or> position = group_size);
          anchor = (if fresh then of_scheduled_ns x else anchor);
          position = (if fresh then 0 else position);
          scheduled = max (of_scheduled_ns x - advance)
            (anchor + (of_scheduled_ns x - anchor) * spacing div 10000)
      in \<lparr>ar_index = of_index x, ar_original_ns = of_scheduled_ns x, ar_scheduled_ns = scheduled\<rparr>
         # compress group_size spacing advance anchor (position + 1) (of_epoch x) xs)"

definition advance_of :: "arrival \<Rightarrow> int" where
  "advance_of a = ar_original_ns a - ar_scheduled_ns a"

definition arrival_json :: "arrival \<Rightarrow> json" where
  "arrival_json a = jobj [(''index'', JInt (ar_index a)),
     (''original_scheduled_ns'', JInt (ar_original_ns a)), (''scheduled_ns'', JInt (ar_scheduled_ns a))]"

section \<open>The population\<close>

text \<open>\<open>plan["prompt_tokens_by_index"][index]\<close>: a negative index counts from the end.\<close>

definition list_item :: "json \<Rightarrow> int \<Rightarrow> json checked" where
  "list_item v i =
     (case v of
        JArr js \<Rightarrow>
          let n = int (length js); j = (if i < 0 then i + n else i)
          in if 0 \<le> j \<and> j < n then Inr (js ! nat j) else Inl Index_Error
      | _ \<Rightarrow> Inl Python_Error)"

definition expected_tokens :: "members \<Rightarrow> offer \<Rightarrow> json checked" where
  "expected_tokens plan x =
     rbind (need plan ''schema'') (\<lambda>schema.
       if schema = jstr capacity_schema
       then rbind (need plan ''prompt_tokens_by_index'') (\<lambda>v. list_item v (of_index x))
       else need plan ''expected_prompt_tokens'')"

definition population_row :: "codec \<Rightarrow> members \<Rightarrow> offer \<Rightarrow> (string \<times> json) list checked" where
  "population_row k plan x =
     (case utf8_encode (of_prompt x) of
        None \<Rightarrow> Inl NotUnicode
      | Some prompt \<Rightarrow>
          rbind (expected_tokens plan x) (\<lambda>tokens.
          rbind (need plan ''max_tokens'') (\<lambda>max_tokens.
          rbind (need plan ''context_length'') (\<lambda>context_length.
          Inr [(''index'', JInt (of_index x)), (''epoch'', JInt (of_epoch x)),
               (''traffic_class'', jstr (of_traffic_class x)), (''tenant'', jstr (of_tenant x)),
               (''document_id'', (case of_document_id x of None \<Rightarrow> JNull | Some d \<Rightarrow> JInt d)),
               (''prompt_sha256'', jstr (cd_sha256 k prompt)), (''expected_prompt_tokens'', tokens),
               (''max_tokens'', max_tokens), (''context_length'', context_length)]))))"

definition population_rows ::
  "codec \<Rightarrow> members \<Rightarrow> offer list \<Rightarrow> (string \<times> json) list list checked" where
  "population_rows k plan offers = res_map (population_row k plan) offers"

definition population_json :: "(string \<times> json) list list \<Rightarrow> json" where
  "population_json rows = JArr (map jobj rows)"

text \<open>\<open>{**row, "scheduled_ns": arrival["scheduled_ns"]}\<close>\<close>

definition trace_json :: "(string \<times> json) list list \<Rightarrow> arrival list \<Rightarrow> json" where
  "trace_json rows arrivals =
     JArr (map (\<lambda>(row, a). jobj (row @ [(''scheduled_ns'', JInt (ar_scheduled_ns a))]))
       (zip rows arrivals))"

section \<open>The timing artifact\<close>

record timing =
  tm_base_plan_schema :: json
  tm_base_plan_sha256 :: json
  tm_base_trace_sha256 :: json
  tm_duration_ns :: json
  tm_offered_count :: int
  tm_group_size :: int
  tm_retained_spacing_bps :: int
  tm_max_advance_ns :: int
  tm_population_sha256 :: string
  tm_transformed_trace_sha256 :: string
  tm_max_applied_advance_ns :: int
  tm_moved_count :: int
  tm_arrivals :: "arrival list"
  tm_timing_sha256 :: string

definition parameters_json :: "timing \<Rightarrow> json" where
  "parameters_json t = jobj [(''group_size'', JInt (tm_group_size t)),
     (''retained_spacing_bps'', JInt (tm_retained_spacing_bps t)),
     (''max_advance_ns'', JInt (tm_max_advance_ns t))]"

definition timing_schema :: string where
  "timing_schema = ''inferdrome.vllm-router-arrival-timing.v1''"

definition timing_fields :: "timing \<Rightarrow> (string \<times> json) list" where
  "timing_fields t =
     [(''schema'', jstr timing_schema), (''method'', jstr ''epoch-local-compression.v1''),
      (''base_plan_schema'', tm_base_plan_schema t), (''base_plan_sha256'', tm_base_plan_sha256 t),
      (''base_trace_sha256'', tm_base_trace_sha256 t), (''duration_ns'', tm_duration_ns t),
      (''offered_count'', JInt (tm_offered_count t)), (''parameters'', parameters_json t),
      (''population_sha256'', jstr (tm_population_sha256 t)),
      (''transformed_trace_sha256'', jstr (tm_transformed_trace_sha256 t)),
      (''max_applied_advance_ns'', JInt (tm_max_applied_advance_ns t)),
      (''moved_count'', JInt (tm_moved_count t)),
      (''arrivals'', JArr (map arrival_json (tm_arrivals t)))]"

definition timing_json :: "timing \<Rightarrow> json" where
  "timing_json t = jobj (timing_fields t @ [(''timing_sha256'', jstr (tm_timing_sha256 t))])"

text \<open>\<open>max(advances)\<close> of an empty list is a ValueError.\<close>

definition max_of :: "int list \<Rightarrow> int checked" where
  "max_of xs = (if xs = [] then Inl EmptySequence else Inr (Max (set xs)))"

definition moved :: "arrival list \<Rightarrow> int" where
  "moved arrivals = int (length (filter (\<lambda>a. 0 < advance_of a) arrivals))"

definition build_timing ::
  "codec \<Rightarrow> members \<Rightarrow> int \<Rightarrow> int \<Rightarrow> int \<Rightarrow> offer list \<Rightarrow> timing checked" where
  "build_timing k plan group_size spacing advance offers =
     (let arrivals = compress group_size spacing advance 0 0 (-1) offers
      in rbind (population_rows k plan offers) (\<lambda>rows.
         rbind (need plan ''schema'') (\<lambda>schema.
         rbind (need plan ''plan_sha256'') (\<lambda>plan_sha256.
         rbind (need plan ''trace_sha256'') (\<lambda>trace_sha256.
         rbind (need plan ''duration_ns'') (\<lambda>duration.
         rbind (artifact_digest k (population_json rows)) (\<lambda>population_sha256.
         rbind (artifact_digest k (trace_json rows arrivals)) (\<lambda>trace.
         rbind (max_of (map advance_of arrivals)) (\<lambda>applied.
         let t = \<lparr>tm_base_plan_schema = schema, tm_base_plan_sha256 = plan_sha256,
               tm_base_trace_sha256 = trace_sha256, tm_duration_ns = duration,
               tm_offered_count = int (length offers), tm_group_size = group_size,
               tm_retained_spacing_bps = spacing, tm_max_advance_ns = advance,
               tm_population_sha256 = population_sha256, tm_transformed_trace_sha256 = trace,
               tm_max_applied_advance_ns = applied, tm_moved_count = moved arrivals,
               tm_arrivals = arrivals, tm_timing_sha256 = []\<rparr>
         in rbind (artifact_digest k (jobj (timing_fields t))) (\<lambda>digest.
            Inr (t\<lparr>tm_timing_sha256 := digest\<rparr>)))))))))))"

definition plan_members :: "json \<Rightarrow> members" where
  "plan_members plan = (case plan of JObj ms \<Rightarrow> ms | _ \<Rightarrow> [])"

definition make_timing ::
  "codec \<Rightarrow> plan_reader \<Rightarrow> json \<Rightarrow> json \<Rightarrow> json \<Rightarrow> json \<Rightarrow> timing checked" where
  "make_timing k validate_plan plan group_size spacing advance =
     rbind (source_offers k validate_plan plan) (\<lambda>offers.
     rbind (exact_integer group_size 1 1024 ''group_size'') (\<lambda>g.
     rbind (exact_integer spacing 0 10000 ''retained_spacing_bps'') (\<lambda>b.
     rbind (need (plan_members plan) ''duration_ns'') (\<lambda>duration.
     case duration of
       JInt d \<Rightarrow> rbind (exact_integer advance 0 d ''max_advance_ns'') (\<lambda>m.
         build_timing k (plan_members plan) g b m offers)
     | _ \<Rightarrow> Inl Python_Error))))"

text \<open>\<open>tuple(replace(offer, scheduled_ns=...) for ... in zip(..., strict=True))\<close>\<close>

definition retime :: "offer list \<Rightarrow> arrival list \<Rightarrow> offer list" where
  "retime offers arrivals = map (\<lambda>(x, a). x\<lparr>of_scheduled_ns := ar_scheduled_ns a\<rparr>) (zip offers arrivals)"

definition parameter_names :: "string list" where
  "parameter_names = [''group_size'', ''retained_spacing_bps'', ''max_advance_ns'']"

definition make_from_parameters ::
  "codec \<Rightarrow> plan_reader \<Rightarrow> json \<Rightarrow> members \<Rightarrow> timing checked" where
  "make_from_parameters k validate_plan plan parameters =
     make_timing k validate_plan plan (get_null parameters ''group_size'')
       (get_null parameters ''retained_spacing_bps'') (get_null parameters ''max_advance_ns'')"

text \<open>\<open>validate_timing\<close> for a descriptor of the first kind.\<close>

definition check_timing_artifact ::
  "codec \<Rightarrow> plan_reader \<Rightarrow> json \<Rightarrow> json \<Rightarrow> offer list checked" where
  "check_timing_artifact k validate_plan plan descriptor =
     (case descriptor of
        JObj ms \<Rightarrow>
          (case get_null ms ''parameters'' of
             JObj parameters \<Rightarrow>
               rbind (artifact_types False [] descriptor) (\<lambda>_.
               rbind (raise_if (\<not> same_fields parameters parameter_names) ParameterFields) (\<lambda>_.
               rbind (make_from_parameters k validate_plan plan parameters) (\<lambda>expected.
               rbind (require_same k descriptor (timing_json expected) (NotRegenerated ''timing'')) (\<lambda>_.
               rbind (source_offers k validate_plan plan) (\<lambda>offers.
               Inr (retime offers (tm_arrivals expected)))))))
           | _ \<Rightarrow> Inl (NotAnArtifact ''timing''))
      | _ \<Rightarrow> Inl (NotAnArtifact ''timing''))"

section \<open>Original groups\<close>

record timing_group =
  tg_group_id :: string
  tg_epoch :: int
  tg_ordinal :: nat
  tg_indices :: "int list"
  tg_moved_count :: int

definition str_int :: "int \<Rightarrow> string" where
  "str_int n = (if n < 0 then CHR ''-'' # dec (nat (- n)) else dec (nat n))"

definition group_id :: "int \<Rightarrow> nat \<Rightarrow> string" where
  "group_id epoch ordinal = ''e'' @ str_int epoch @ ''-g'' @ zpad 4 ordinal"

definition add_to_group :: "offer \<Rightarrow> arrival \<Rightarrow> timing_group \<Rightarrow> timing_group" where
  "add_to_group x a g =
     g\<lparr>tg_indices := tg_indices g @ [of_index x],
       tg_moved_count := tg_moved_count g
         + (if ar_scheduled_ns a \<noteq> ar_original_ns a then 1 else 0)\<rparr>"

text \<open>
  The loop of \<open>_source_groups\<close>; \<open>groups[-1]\<close> is the group under construction, kept apart from the
  finished ones.
\<close>

fun collect_groups ::
  "int \<Rightarrow> int \<Rightarrow> nat \<Rightarrow> int \<Rightarrow> timing_group option \<Rightarrow> (offer \<times> arrival) list \<Rightarrow> timing_group list" where
  "collect_groups group_size epoch ordinal position current [] = (case current of None \<Rightarrow> [] | Some g \<Rightarrow> [g])"
| "collect_groups group_size epoch ordinal position current ((x, a) # rest) =
     (let new_epoch = (of_epoch x \<noteq> epoch);
          full = (\<not> new_epoch \<and> position = group_size);
          ordinal = (if new_epoch then 0 else if full then ordinal + 1 else ordinal);
          position = (if new_epoch \<or> full then 0 else position);
          finished = (if position = 0 then (case current of None \<Rightarrow> [] | Some g \<Rightarrow> [g]) else []);
          g = (if position = 0
               then \<lparr>tg_group_id = group_id (of_epoch x) ordinal, tg_epoch = of_epoch x,
                     tg_ordinal = ordinal, tg_indices = [], tg_moved_count = 0\<rparr>
               else the current)
      in finished
         @ collect_groups group_size (of_epoch x) ordinal (position + 1) (Some (add_to_group x a g)) rest)"

definition source_groups ::
  "codec \<Rightarrow> plan_reader \<Rightarrow> json \<Rightarrow> json \<Rightarrow> (timing \<times> offer list \<times> timing_group list) checked" where
  "source_groups k validate_plan plan parameters =
     (case parameters of
        JObj ps \<Rightarrow>
          rbind (raise_if (\<not> same_fields ps parameter_names) ParameterFields) (\<lambda>_.
          rbind (make_from_parameters k validate_plan plan ps) (\<lambda>source.
          rbind (source_offers k validate_plan plan) (\<lambda>offers.
          Inr (source, offers,
            collect_groups (tm_group_size source) (-1) 0 0 None (zip offers (tm_arrivals source))))))
      | _ \<Rightarrow> Inl ParameterFields)"

definition original_groups :: "codec \<Rightarrow> plan_reader \<Rightarrow> json \<Rightarrow> json \<Rightarrow> timing_group list checked" where
  "original_groups k validate_plan plan parameters =
     rbind (source_groups k validate_plan plan parameters) (\<lambda>(_, _, groups). Inr groups)"

section \<open>Restoring groups\<close>

text \<open>\<open>retained_groups\<close> as received: a list whose items are all strings.\<close>

fun json_strings :: "json list \<Rightarrow> py_text list option" where
  "json_strings [] = Some []"
| "json_strings (JStr s # js) = map_option ((#) s) (json_strings js)"
| "json_strings (_ # js) = None"

definition active_of :: "timing_group list \<Rightarrow> (py_text \<times> timing_group) list" where
  "active_of groups = map (\<lambda>g. (ascii_text (tg_group_id g), g)) (filter (\<lambda>g. 0 < tg_moved_count g) groups)"

definition check_retained :: "timing_group list \<Rightarrow> json \<Rightarrow> py_text list checked" where
  "check_retained groups retained =
     (case retained of
        JArr js \<Rightarrow>
          let active = map fst (active_of groups)
          in if length (remdups active) < length js then Inl RetainedGroupsInvalid
             else (case json_strings js of
                 None \<Rightarrow> Inl RetainedGroupsInvalid
               | Some names \<Rightarrow>
                   if \<not> distinct names then Inl RetainedGroupsRepeated
                   else if \<not> set names \<subseteq> set active then Inl RetainedGroupUnknown
                   else Inr (sort names))
      | _ \<Rightarrow> Inl RetainedGroupsInvalid)"

text \<open>
  \<open>{index for group_id in retained for index in active[group_id]["indices"]}\<close>; of two groups with one
  identifier a dict keeps the last.
\<close>

definition selected_indices :: "timing_group list \<Rightarrow> py_text list \<Rightarrow> int list" where
  "selected_indices groups retained =
     concat (map (\<lambda>name. case map_of (rev (active_of groups)) name of
         None \<Rightarrow> [] | Some g \<Rightarrow> tg_indices g) retained)"

definition restore_arrival :: "int list \<Rightarrow> arrival \<Rightarrow> arrival" where
  "restore_arrival selected a =
     a\<lparr>ar_scheduled_ns := (if ar_index a \<in> set selected then ar_scheduled_ns a else ar_original_ns a)\<rparr>"

record reduced_timing =
  rt_source :: timing
  rt_source_parameters :: json
  rt_retained_groups :: "py_text list"
  rt_transformed_trace_sha256 :: string
  rt_max_applied_advance_ns :: int
  rt_moved_count :: int
  rt_arrivals :: "arrival list"
  rt_timing_sha256 :: string

definition reduced_schema :: string where
  "reduced_schema = ''inferdrome.vllm-router-reduced-timing.v1''"

definition reduced_fields :: "reduced_timing \<Rightarrow> (string \<times> json) list" where
  "reduced_fields t =
     [(''schema'', jstr reduced_schema), (''method'', jstr ''original-group-retention.v1''),
      (''base_plan_schema'', tm_base_plan_schema (rt_source t)),
      (''base_plan_sha256'', tm_base_plan_sha256 (rt_source t)),
      (''base_trace_sha256'', tm_base_trace_sha256 (rt_source t)),
      (''duration_ns'', tm_duration_ns (rt_source t)),
      (''offered_count'', JInt (tm_offered_count (rt_source t))),
      (''source_parameters'', rt_source_parameters t),
      (''source_timing_sha256'', jstr (tm_timing_sha256 (rt_source t))),
      (''retained_groups'', JArr (map JStr (rt_retained_groups t))),
      (''population_sha256'', jstr (tm_population_sha256 (rt_source t))),
      (''transformed_trace_sha256'', jstr (rt_transformed_trace_sha256 t)),
      (''max_applied_advance_ns'', JInt (rt_max_applied_advance_ns t)),
      (''moved_count'', JInt (rt_moved_count t)),
      (''arrivals'', JArr (map arrival_json (rt_arrivals t)))]"

definition reduced_json :: "reduced_timing \<Rightarrow> json" where
  "reduced_json t = jobj (reduced_fields t @ [(''timing_sha256'', jstr (rt_timing_sha256 t))])"

definition make_reduced_timing ::
  "codec \<Rightarrow> plan_reader \<Rightarrow> json \<Rightarrow> json \<Rightarrow> json \<Rightarrow> reduced_timing checked" where
  "make_reduced_timing k validate_plan plan parameters retained_groups =
     rbind (source_groups k validate_plan plan parameters) (\<lambda>(source, offers, groups).
     rbind (check_retained groups retained_groups) (\<lambda>retained.
     let arrivals = map (restore_arrival (selected_indices groups retained)) (tm_arrivals source)
     in rbind (population_rows k (plan_members plan) offers) (\<lambda>rows.
        rbind (artifact_digest k (trace_json rows arrivals)) (\<lambda>trace.
        rbind (max_of (map advance_of arrivals)) (\<lambda>applied.
        let t = \<lparr>rt_source = source, rt_source_parameters = parameters, rt_retained_groups = retained,
              rt_transformed_trace_sha256 = trace, rt_max_applied_advance_ns = applied,
              rt_moved_count = moved arrivals, rt_arrivals = arrivals, rt_timing_sha256 = []\<rparr>
        in rbind (artifact_digest k (jobj (reduced_fields t))) (\<lambda>digest.
           Inr (t\<lparr>rt_timing_sha256 := digest\<rparr>)))))))"

definition validate_reduced_timing ::
  "codec \<Rightarrow> plan_reader \<Rightarrow> json \<Rightarrow> json \<Rightarrow> offer list checked" where
  "validate_reduced_timing k validate_plan plan descriptor =
     guarded ''reduced timing descriptor''
       (case descriptor of
          JObj ms \<Rightarrow>
            rbind (artifact_types False [] descriptor) (\<lambda>_.
            rbind (need ms ''source_parameters'') (\<lambda>parameters.
            rbind (need ms ''retained_groups'') (\<lambda>retained.
            rbind (make_reduced_timing k validate_plan plan parameters retained) (\<lambda>expected.
            rbind (require_same k descriptor (reduced_json expected) (NotRegenerated ''reduced timing'')) (\<lambda>_.
            rbind (source_offers k validate_plan plan) (\<lambda>offers.
            Inr (retime offers (rt_arrivals expected))))))))
        | _ \<Rightarrow> Inl (NotAnArtifact ''reduced timing''))"

definition validate_timing :: "codec \<Rightarrow> plan_reader \<Rightarrow> json \<Rightarrow> json \<Rightarrow> offer list checked" where
  "validate_timing k validate_plan plan descriptor =
     (case descriptor of
        JObj ms \<Rightarrow>
          if get_null ms ''schema'' = jstr reduced_schema
          then validate_reduced_timing k validate_plan plan descriptor
          else guarded ''arrival timing descriptor'' (check_timing_artifact k validate_plan plan descriptor)
      | _ \<Rightarrow> guarded ''arrival timing descriptor'' (check_timing_artifact k validate_plan plan descriptor))"

section \<open>Masks over several plans\<close>

definition active_groups :: "codec \<Rightarrow> plan_reader \<Rightarrow> json \<Rightarrow> json \<Rightarrow> py_text list checked" where
  "active_groups k validate_plan parameters plan =
     rbind (original_groups k validate_plan plan parameters) (\<lambda>groups.
       Inr (sort (map fst (active_of groups))))"

definition group_universe ::
  "codec \<Rightarrow> plan_reader \<Rightarrow> json list \<Rightarrow> json \<Rightarrow> py_text list checked" where
  "group_universe k validate_plan plans parameters =
     (if length plans < 4 \<or> 32 < length plans \<or> length plans mod 4 \<noteq> 0
      then Inl (NotAnArtifact ''reduced comparison blocks'')
      else rbind (res_map (active_groups k validate_plan parameters) plans) (\<lambda>groups.
        Inr (sort (remdups (concat groups)))))"

definition check_mask :: "json \<Rightarrow> py_text list \<Rightarrow> py_text list checked" where
  "check_mask retained universe =
     (case retained of
        JArr js \<Rightarrow>
          (case json_strings js of
             None \<Rightarrow> Inl RetainedGroupsInvalid
           | Some names \<Rightarrow>
               if names = [] \<or> names \<noteq> sort (remdups names) \<or> \<not> set names \<subseteq> set universe
               then Inl RetainedGroupsInvalid else Inr names)
      | _ \<Rightarrow> Inl RetainedGroupsInvalid)"

text \<open>\<open>_timings\<close>: the baseline and the candidate of every block.\<close>

definition block_timings ::
  "codec \<Rightarrow> plan_reader \<Rightarrow> json \<Rightarrow> py_text list \<Rightarrow> json \<Rightarrow> (timing \<times> reduced_timing) checked" where
  "block_timings k validate_plan parameters retained plan =
     rbind (active_groups k validate_plan parameters plan) (\<lambda>active.
     let kept = sort (filter (\<lambda>g. g \<in> set active) (remdups retained))
     in rbind (make_reduced_timing k validate_plan plan parameters (JArr (map JStr kept))) (\<lambda>candidate.
        rbind (raise_if (rt_moved_count candidate = 0) (NotAnArtifact ''reduced candidate'')) (\<lambda>_.
        rbind (make_timing k validate_plan plan (JInt 1) (JInt 10000) (JInt 0)) (\<lambda>baseline.
        Inr (baseline, candidate)))))"

definition all_timings ::
  "codec \<Rightarrow> plan_reader \<Rightarrow> json list \<Rightarrow> json \<Rightarrow> py_text list \<Rightarrow> (timing \<times> reduced_timing) list checked" where
  "all_timings k validate_plan plans parameters retained =
     res_map (block_timings k validate_plan parameters retained) plans"

section \<open>Compression moves offers earlier, within their group\<close>

lemma length_compress [simp]: "length (compress g b m a p e os) = length os"
  by (induction os arbitrary: a p e) (simp_all add: Let_def)

lemma compress_step_bounds:
  fixes s a b m :: int
  assumes "a \<le> s" "0 \<le> b" "b \<le> 10000" "0 \<le> m"
  shows "a \<le> max (s - m) (a + (s - a) * b div 10000)" "max (s - m) (a + (s - a) * b div 10000) \<le> s"
    "s - m \<le> max (s - m) (a + (s - a) * b div 10000)"
proof -
  have "0 \<le> (s - a) * b" using assms by simp
  then have low: "0 \<le> (s - a) * b div 10000" by simp
  have "(s - a) * b \<le> (s - a) * 10000" using assms by (intro mult_left_mono) auto
  then have "(s - a) * b div 10000 \<le> (s - a) * 10000 div 10000" by (intro zdiv_mono1) auto
  then have high: "(s - a) * b div 10000 \<le> s - a" by simp
  show "a \<le> max (s - m) (a + (s - a) * b div 10000)" "max (s - m) (a + (s - a) * b div 10000) \<le> s"
    "s - m \<le> max (s - m) (a + (s - a) * b div 10000)"
    using low high assms by auto
qed

lemma compress_step_mono:
  fixes s s' a b m :: int
  assumes "a \<le> s" "s \<le> s'" "0 \<le> b"
  shows "max (s - m) (a + (s - a) * b div 10000) \<le> max (s' - m) (a + (s' - a) * b div 10000)"
proof -
  have "(s - a) * b div 10000 \<le> (s' - a) * b div 10000"
    using assms by (intro zdiv_mono1 mult_right_mono) auto
  then show ?thesis using assms by auto
qed

text \<open>What compression does to one offer of a plan of the given duration.\<close>

definition advances :: "int \<Rightarrow> int \<Rightarrow> offer \<Rightarrow> arrival \<Rightarrow> bool" where
  "advances duration advance x a \<longleftrightarrow>
     ar_index a = of_index x \<and> ar_original_ns a = of_scheduled_ns x
     \<and> of_scheduled_ns x - advance \<le> ar_scheduled_ns a \<and> ar_scheduled_ns a \<le> of_scheduled_ns x
     \<and> 0 \<le> ar_scheduled_ns a \<and> ar_scheduled_ns a * 3 div duration = of_epoch x"

lemma same_epoch_between:
  fixes a t s d e :: int
  assumes "a * 3 div d = e" "s * 3 div d = e" "a \<le> t" "t \<le> s" "0 < d"
  shows "t * 3 div d = e"
proof (rule antisym)
  show "t * 3 div d \<le> e" unfolding assms(2) [symmetric] using assms by (intro zdiv_mono1) auto
  show "e \<le> t * 3 div d" unfolding assms(1) [symmetric] using assms by (intro zdiv_mono1) auto
qed

lemma compress_advances:
  assumes "0 < d" "0 \<le> b" "b \<le> 10000" "0 \<le> m" and "offers_ordered d os"
    and "\<forall>x \<in> set os. of_epoch x = e \<longrightarrow> a \<le> of_scheduled_ns x \<and> 0 \<le> a \<and> a * 3 div d = e"
  shows "list_all2 (advances d m) os (compress g b m a p e os)"
  using assms
proof (induction os arbitrary: a p e)
  case Nil
  then show ?case by simp
next
  case (Cons x xs)
  define fresh where "fresh = (of_epoch x \<noteq> e \<or> p = g)"
  define a' where "a' = (if fresh then of_scheduled_ns x else a)"
  have x: "0 \<le> of_scheduled_ns x" "of_epoch x = of_scheduled_ns x * 3 div d"
    "\<forall>y \<in> set xs. of_scheduled_ns x \<le> of_scheduled_ns y" and xs: "offers_ordered d xs"
    using Cons.prems(5) by (auto simp: offers_ordered_def)
  have a': "a' \<le> of_scheduled_ns x" "0 \<le> a'" "a' * 3 div d = of_epoch x"
    using Cons.prems(6) x by (auto simp: a'_def fresh_def)
  let ?t = "max (of_scheduled_ns x - m) (a' + (of_scheduled_ns x - a') * b div 10000)"
  note bounds = compress_step_bounds [OF a'(1) Cons.prems(2,3,4)]
  have "?t * 3 div d = of_epoch x"
    using same_epoch_between [OF a'(3) x(2) [symmetric] bounds(1,2) Cons.prems(1)] .
  moreover have "0 \<le> ?t" using bounds(1) a'(2) by linarith
  moreover have "list_all2 (advances d m) xs
      (compress g b m a' (if fresh then 0 + 1 else p + 1) (of_epoch x) xs)"
    by (rule Cons.IH [OF Cons.prems(1-4) xs]) (use x a' order_trans in auto)
  ultimately have "advances d m x \<lparr>ar_index = of_index x, ar_original_ns = of_scheduled_ns x, ar_scheduled_ns = ?t\<rparr>"
    and "list_all2 (advances d m) xs (compress g b m a' ((if fresh then 0 else p) + 1) (of_epoch x) xs)"
    using bounds(2,3) by (simp_all add: advances_def split: if_splits)
  then show ?case by (simp only: compress.simps Let_def fresh_def a'_def list.rel_inject)
qed

section \<open>Group keys\<close>

text \<open>The ordinal of the group each offer is in, by the loop of \<open>_source_groups\<close>.\<close>

fun ordinals :: "int \<Rightarrow> int \<Rightarrow> nat \<Rightarrow> int \<Rightarrow> offer list \<Rightarrow> nat list" where
  "ordinals group_size epoch ordinal position [] = []"
| "ordinals group_size epoch ordinal position (x # xs) =
     (let new_epoch = (of_epoch x \<noteq> epoch);
          full = (\<not> new_epoch \<and> position = group_size);
          ordinal = (if new_epoch then 0 else if full then ordinal + 1 else ordinal);
          position = (if new_epoch \<or> full then 0 else position)
      in ordinal # ordinals group_size (of_epoch x) ordinal (position + 1) xs)"

lemma length_ordinals [simp]: "length (ordinals g e ord p os) = length os"
  by (induction os arbitrary: e ord p) (simp_all add: Let_def)

definition group_key :: "timing_group \<Rightarrow> int \<times> nat" where
  "group_key g = (tg_epoch g, tg_ordinal g)"

lemma add_to_group_fields [simp]:
  "tg_epoch (add_to_group x a g) = tg_epoch g" "tg_ordinal (add_to_group x a g) = tg_ordinal g"
  "tg_group_id (add_to_group x a g) = tg_group_id g"
  by (simp_all add: add_to_group_def)

lemma group_key_add [simp]: "group_key (add_to_group x a g) = group_key g"
  by (simp add: group_key_def)

text \<open>
  A quantity that grows with each offer added to a group, summed over the groups of one key: it is the
  sum over the offers of that key.
\<close>

definition keyed :: "int \<times> nat \<Rightarrow> (offer \<times> nat) \<times> arrival \<Rightarrow> bool" where
  "keyed key xla \<longleftrightarrow> (case xla of ((x, l), _) \<Rightarrow> (of_epoch x, l) = key)"

lemma keyed_pair [simp]: "keyed key ((x, l), a) \<longleftrightarrow> (of_epoch x, l) = key"
  by (simp add: keyed_def)

abbreviation new_group :: "int \<Rightarrow> nat \<Rightarrow> timing_group" where
  "new_group e l \<equiv> \<lparr>tg_group_id = group_id e l, tg_epoch = e, tg_ordinal = l, tg_indices = [],
     tg_moved_count = 0\<rparr>"

text \<open>One step of the loop, with the conditions spelled out; \<open>p\<close> is 0 only before the first offer.\<close>

definition fresh_group :: "int \<Rightarrow> int \<Rightarrow> int \<Rightarrow> offer \<Rightarrow> bool" where
  "fresh_group g e p x \<longleftrightarrow> of_epoch x \<noteq> e \<or> p = g"

definition next_ordinal :: "int \<Rightarrow> int \<Rightarrow> nat \<Rightarrow> int \<Rightarrow> offer \<Rightarrow> nat" where
  "next_ordinal g e ord p x = (if of_epoch x \<noteq> e then 0 else if p = g then ord + 1 else ord)"

definition next_position :: "int \<Rightarrow> int \<Rightarrow> int \<Rightarrow> offer \<Rightarrow> int" where
  "next_position g e p x = (if fresh_group g e p x then 0 else p) + 1"

definition next_group ::
  "int \<Rightarrow> int \<Rightarrow> nat \<Rightarrow> int \<Rightarrow> timing_group option \<Rightarrow> offer \<Rightarrow> arrival \<Rightarrow> timing_group" where
  "next_group g e ord p current x a =
     add_to_group x a (if fresh_group g e p x then new_group (of_epoch x) (next_ordinal g e ord p x)
                       else the current)"

definition placed :: "int \<Rightarrow> int \<Rightarrow> nat \<Rightarrow> int \<Rightarrow> timing_group option \<Rightarrow> offer list \<Rightarrow> bool" where
  "placed g e ord p current os \<longleftrightarrow>
     0 < g \<and> 0 \<le> p \<and>
     (case current of None \<Rightarrow> os \<noteq> [] \<longrightarrow> of_epoch (hd os) \<noteq> e
      | Some c \<Rightarrow> group_key c = (e, ord) \<and> tg_group_id c = group_id e ord \<and> 0 < p)"

lemma placed_first [simp]: "placed g e 0 0 None os \<longleftrightarrow> 0 < g \<and> (os \<noteq> [] \<longrightarrow> of_epoch (hd os) \<noteq> e)"
  by (simp add: placed_def)

lemma not_fresh_placed:
  "placed g e ord p current (x # xs) \<Longrightarrow> \<not> fresh_group g e p x \<Longrightarrow>
   \<exists>c. current = Some c \<and> group_key c = (of_epoch x, next_ordinal g e ord p x) \<and> 0 < p"
  by (auto simp: placed_def fresh_group_def next_ordinal_def split: option.splits)

lemma key_next_group:
  "placed g e ord p current (x # xs) \<Longrightarrow>
   group_key (next_group g e ord p current x a) = (of_epoch x, next_ordinal g e ord p x)"
  using not_fresh_placed [of g e ord p current x xs]
  by (auto simp: next_group_def group_key_def)

lemma placed_step:
  assumes "placed g e ord p current (x # xs)"
  shows "placed g (of_epoch x) (next_ordinal g e ord p x) (next_position g e p x)
     (Some (next_group g e ord p current x a)) xs"
proof -
  have "tg_group_id (next_group g e ord p current x a) = group_id (of_epoch x) (next_ordinal g e ord p x)"
    using assms by (auto simp: next_group_def placed_def fresh_group_def next_ordinal_def split: option.splits)
  then show ?thesis
    using assms key_next_group [OF assms] by (auto simp: placed_def next_position_def)
qed

lemma collect_groups_Cons:
  assumes "placed g e ord p current (x # xs)"
  shows "collect_groups g e ord p current ((x, a) # rest)
    = (if fresh_group g e p x then (case current of None \<Rightarrow> [] | Some c \<Rightarrow> [c]) else [])
      @ collect_groups g (of_epoch x) (next_ordinal g e ord p x) (next_position g e p x)
          (Some (next_group g e ord p current x a)) rest"
  using assms not_fresh_placed [OF assms]
  by (auto simp: Let_def next_position_def next_group_def fresh_group_def next_ordinal_def)

lemma ordinals_Cons:
  "ordinals g e ord p (x # xs) = next_ordinal g e ord p x
     # ordinals g (of_epoch x) (next_ordinal g e ord p x) (next_position g e p x) xs"
  by (simp add: Let_def next_ordinal_def next_position_def fresh_group_def)

lemma collect_groups_sum:
  fixes f :: "timing_group \<Rightarrow> 'm :: comm_monoid_add" and h :: "offer \<Rightarrow> arrival \<Rightarrow> 'm"
  assumes add: "\<And>x a c. f (add_to_group x a c) = f c + h x a" and zero: "\<And>e l. f (new_group e l) = 0"
    and "length as = length os" and "placed g e ord p current os"
  shows "sum_list (map f (filter (\<lambda>c. group_key c = key) (collect_groups g e ord p current (zip os as))))
    = (case current of None \<Rightarrow> 0 | Some c \<Rightarrow> if group_key c = key then f c else 0)
      + sum_list (map (\<lambda>((x, _), a). h x a)
          (filter (keyed key) (zip (zip os (ordinals g e ord p os)) as)))"
  using assms(3,4)
proof (induction os arbitrary: as e ord p current)
  case Nil
  then show ?case by (simp split: option.split)
next
  case (Cons x xs)
  then obtain a as' where as: "as = a # as'" "length as' = length xs" by (cases as) auto
  note placed = Cons.prems(2)
  define c' where "c' = next_group g e ord p current x a"
  have IH: "sum_list (map f (filter (\<lambda>c. group_key c = key)
      (collect_groups g (of_epoch x) (next_ordinal g e ord p x) (next_position g e p x)
         (Some c') (zip xs as'))))
    = (if (of_epoch x, next_ordinal g e ord p x) = key then f c' else 0)
      + sum_list (map (\<lambda>((x, _), a). h x a) (filter (keyed key)
          (zip (zip xs (ordinals g (of_epoch x) (next_ordinal g e ord p x) (next_position g e p x) xs)) as')))"
    using Cons.IH [OF as(2) placed_step [OF placed]] by (simp add: key_next_group [OF placed] c'_def)
  have grown: "f c' = (if fresh_group g e p x then 0 else f (the current)) + h x a"
    by (simp add: c'_def next_group_def add zero)
  note step = as(1) ordinals_Cons zip_Cons_Cons collect_groups_Cons [OF placed] c'_def [symmetric]
  show ?case
  proof (cases "fresh_group g e p x")
    case True
    then show ?thesis unfolding step by (cases current) (simp_all add: IH grown add.assoc)
  next
    case False
    with not_fresh_placed [OF placed] obtain c where
      "current = Some c" "group_key c = (of_epoch x, next_ordinal g e ord p x)" by blast
    with False show ?thesis unfolding step by (simp add: IH grown add.assoc)
  qed
qed

text \<open>The keys of the groups increase strictly, so a key names one group.\<close>

definition key_less :: "int \<times> nat \<Rightarrow> int \<times> nat \<Rightarrow> bool" where
  "key_less k l \<longleftrightarrow> fst k < fst l \<or> fst k = fst l \<and> snd k < snd l"

lemma collect_groups_keys:
  assumes "length as = length os" and "placed g e ord p current os"
    and "sorted (map of_epoch os)" and "\<forall>x \<in> set os. e \<le> of_epoch x"
  shows "sorted_wrt key_less (map group_key (collect_groups g e ord p current (zip os as)))
    \<and> (\<forall>h \<in> set (collect_groups g e ord p current (zip os as)).
         tg_group_id h = group_id (tg_epoch h) (tg_ordinal h)
         \<and> (case current of None \<Rightarrow> e < tg_epoch h
            | Some c \<Rightarrow> group_key h = (e, ord) \<or> key_less (e, ord) (group_key h)))"
  using assms
proof (induction os arbitrary: as e ord p current)
  case Nil
  then show ?case by (auto simp: placed_def group_key_def split: option.split)
next
  case (Cons x xs)
  then obtain a as' where as: "as = a # as'" "length as' = length xs" by (cases as) auto
  note placed = Cons.prems(2)
  define key where "key = (of_epoch x, next_ordinal g e ord p x)"
  define rest where "rest = collect_groups g (of_epoch x) (next_ordinal g e ord p x) (next_position g e p x)
    (Some (next_group g e ord p current x a)) (zip xs as')"
  have IH: "sorted_wrt key_less (map group_key rest)"
      "\<forall>h \<in> set rest. tg_group_id h = group_id (tg_epoch h) (tg_ordinal h)
        \<and> (group_key h = key \<or> key_less key (group_key h))"
    using Cons.IH [OF as(2) placed_step [OF placed]] Cons.prems(3) unfolding rest_def key_def by auto
  have step: "collect_groups g e ord p current (zip (x # xs) as)
      = (if fresh_group g e p x then (case current of None \<Rightarrow> [] | Some c \<Rightarrow> [c]) else []) @ rest"
    unfolding as(1) rest_def zip_Cons_Cons by (rule collect_groups_Cons [OF placed])
  show ?case
  proof (cases current)
    case None
    then have "fresh_group g e p x" "e < of_epoch x"
      using not_fresh_placed [OF placed] placed Cons.prems(4) by (auto simp: placed_def)
    moreover have "\<forall>h \<in> set rest. of_epoch x \<le> tg_epoch h"
      using IH(2) by (auto simp: key_less_def group_key_def key_def)
    ultimately show ?thesis unfolding step using None IH by auto
  next
    case (Some c)
    then have c: "group_key c = (e, ord)" "tg_group_id c = group_id (tg_epoch c) (tg_ordinal c)"
      using placed by (auto simp: placed_def group_key_def)
    have key: "if fresh_group g e p x then key_less (e, ord) key else key = (e, ord)"
      using placed Some Cons.prems(4)
      by (auto simp: key_def key_less_def next_ordinal_def fresh_group_def order_le_less)
    have above: "\<forall>h \<in> set rest. if fresh_group g e p x then key_less (e, ord) (group_key h)
        else group_key h = (e, ord) \<or> key_less (e, ord) (group_key h)"
      using IH(2) key by (auto simp: key_less_def)
    show ?thesis unfolding step using Some IH c above
      by (cases "fresh_group g e p x") auto
  qed
qed

text \<open>Group identifiers determine the key, for the epochs of offers.\<close>

lemma dec_chars: "c \<in> set (dec n) \<Longrightarrow> c \<noteq> CHR ''-''"
proof (induction n rule: dec.induct)
  case (1 n)
  have "digit_char (n mod 10) \<noteq> CHR ''-''"
  proof -
    have "(of_char (digit_char (n mod 10)) :: nat) = 48 + n mod 10"
      by (simp add: digit_char_def of_char_of)
    moreover have "(of_char (CHR ''-'') :: nat) = 45" by simp
    moreover have "48 + n mod 10 \<noteq> (45 :: nat)" by simp
    ultimately show ?thesis by metis
  qed
  moreover have "n < 10 \<Longrightarrow> n mod 10 = n" by simp
  ultimately show ?case using 1 by (auto simp: dec.simps [of n] split: if_splits)
qed

lemma group_id_inject:
  assumes "group_id e l = group_id e' l'" "0 \<le> e" "0 \<le> e'"
  shows "(e, l) = (e', l')"
proof -
  define f where "f = (\<lambda>n s. takeWhile (\<lambda>c. c \<noteq> CHR ''-'') (dec n @ CHR ''-'' # s))"
  have f: "f n s = dec n" for n s by (simp add: f_def takeWhile_append dec_chars)
  have eq: "dec (nat e) @ ''-g'' @ zpad 4 l = dec (nat e') @ ''-g'' @ zpad 4 l'"
    using assms by (simp add: group_id_def str_int_def)
  then have "f (nat e) (CHR ''g'' # zpad 4 l) = f (nat e') (CHR ''g'' # zpad 4 l')" by (simp add: f_def)
  then have "nat e = nat e'" by (simp add: f)
  with eq assms show ?thesis by simp
qed

section \<open>Masks of whole groups keep the order\<close>

text \<open>The times when the groups with the keys \<open>sel\<close> stay compressed and the others are restored.\<close>

fun masked ::
  "int \<Rightarrow> int \<Rightarrow> int \<Rightarrow> (int \<times> nat \<Rightarrow> bool) \<Rightarrow> int \<Rightarrow> int \<Rightarrow> int \<Rightarrow> nat \<Rightarrow> offer list \<Rightarrow> int list" where
  "masked g b m sel a p e ord [] = []"
| "masked g b m sel a p e ord (x # xs) =
     (let a' = (if fresh_group g e p x then of_scheduled_ns x else a);
          t = (if sel (of_epoch x, next_ordinal g e ord p x)
               then max (of_scheduled_ns x - m) (a' + (of_scheduled_ns x - a') * b div 10000)
               else of_scheduled_ns x)
      in t # masked g b m sel a' (next_position g e p x) (of_epoch x) (next_ordinal g e ord p x) xs)"

lemma masked_map:
  "masked g b m sel a p e ord os =
     map (\<lambda>((x, l), r). if sel (of_epoch x, l) then ar_scheduled_ns r else of_scheduled_ns x)
       (zip (zip os (ordinals g e ord p os)) (compress g b m a p e os))"
proof (induction os arbitrary: a p e ord)
  case Nil
  then show ?case by simp
next
  case (Cons x xs)
  show ?case using Cons.IH
    by (simp add: Let_def ordinals_Cons fresh_group_def next_position_def del: ordinals.simps(2))
qed

lemma masked_sorted:
  assumes "0 \<le> b" "b \<le> 10000" "0 \<le> m" "sorted (map of_scheduled_ns os)"
    and "a \<le> s" "\<forall>x \<in> set os. s \<le> of_scheduled_ns x"
  shows "sorted (masked g b m sel a p e ord os)
    \<and> (\<forall>t \<in> set (masked g b m sel a p e ord os).
        (if sel (e, ord) then max (s - m) (a + (s - a) * b div 10000) else s) \<le> t)"
  using assms
proof (induction os arbitrary: a s p e ord)
  case Nil
  then show ?case by simp
next
  case (Cons x xs)
  define a' where "a' = (if fresh_group g e p x then of_scheduled_ns x else a)"
  define t where "t = (if sel (of_epoch x, next_ordinal g e ord p x)
    then max (of_scheduled_ns x - m) (a' + (of_scheduled_ns x - a') * b div 10000) else of_scheduled_ns x)"
  define t0 where "t0 = (if sel (e, ord) then max (s - m) (a + (s - a) * b div 10000) else s)"
  let ?rest = "masked g b m sel a' (next_position g e p x) (of_epoch x) (next_ordinal g e ord p x) xs"
  have IH: "sorted ?rest \<and> (\<forall>u \<in> set ?rest. t \<le> u)"
    unfolding t_def by (rule Cons.IH) (use Cons.prems in \<open>auto simp: a'_def\<close>)
  have first: "t0 \<le> t"
  proof (cases "fresh_group g e p x")
    case True
    have "t = of_scheduled_ns x" using True Cons.prems(3) by (simp add: t_def a'_def)
    moreover have "t0 \<le> s"
      unfolding t0_def using compress_step_bounds(2) [OF Cons.prems(5,1,2,3)] by simp
    ultimately show ?thesis using Cons.prems(6) by auto
  next
    case False
    then have "(of_epoch x, next_ordinal g e ord p x) = (e, ord)"
      by (simp add: fresh_group_def next_ordinal_def)
    then show ?thesis
      using False compress_step_mono [OF Cons.prems(5) _ Cons.prems(1)] Cons.prems(6)
      by (simp add: t_def t0_def a'_def)
  qed
  have step: "masked g b m sel a p e ord (x # xs) = t # ?rest"
    by (simp add: Let_def t_def a'_def)
  show ?case unfolding step t0_def [symmetric] using IH first by (auto intro: order_trans)
qed

section \<open>Groups as sets of offers\<close>

text \<open>The groups of a source timing and the labelled offers they are made of.\<close>

definition labelled :: "int \<Rightarrow> offer list \<Rightarrow> arrival list \<Rightarrow> ((offer \<times> nat) \<times> arrival) list" where
  "labelled g os as = zip (zip os (ordinals g (-1) 0 0 os)) as"

definition all_groups :: "int \<Rightarrow> offer list \<Rightarrow> arrival list \<Rightarrow> timing_group list" where
  "all_groups g os as = collect_groups g (-1) 0 0 None (zip os as)"

lemma filter_key_single:
  assumes "sorted_wrt key_less (map group_key gs)" "h \<in> set gs"
  shows "filter (\<lambda>c. group_key c = group_key h) gs = [h]"
  using assms
proof (induction gs)
  case Nil
  then show ?case by simp
next
  case (Cons c gs)
  have apart: "group_key x \<noteq> group_key c" if "x \<in> set gs" for x
    using Cons.prems(1) that by (auto simp: key_less_def)
  show ?case
  proof (cases "h = c")
    case True
    then show ?thesis by (simp add: filter_empty_conv apart)
  next
    case False
    with Cons.prems have "h \<in> set gs" by simp
    with Cons apart [of h] show ?thesis by simp
  qed
qed

lemma sorted_epochs: "offers_ordered d os \<Longrightarrow> 0 < d \<Longrightarrow> sorted (map of_epoch os)"
proof (induction os)
  case Nil
  then show ?case by simp
next
  case (Cons x xs)
  have "of_epoch x \<le> of_epoch y" if "y \<in> set xs" for y
  proof -
    have "of_scheduled_ns x \<le> of_scheduled_ns y" "of_epoch y = of_scheduled_ns y * 3 div d"
      using Cons.prems that by (auto simp: offers_ordered_def list_all_iff)
    then show ?thesis using Cons.prems by (auto simp: offers_ordered_def intro!: zdiv_mono1)
  qed
  then show ?case using Cons by (auto simp: offers_ordered_def)
qed

lemma epochs_nonneg: "offers_ordered d os \<Longrightarrow> 0 < d \<Longrightarrow> x \<in> set os \<Longrightarrow> 0 \<le> of_epoch x"
  by (auto simp: offers_ordered_def list_all_iff pos_imp_zdiv_nonneg_iff)

text \<open>
  For the offers of a plan: keys increase, identifiers follow the keys, a group holds the offers of its
  key and counts the moved ones, and every offer is in a group.
\<close>

lemma all_groups_facts:
  assumes ordered: "offers_ordered d os" "0 < d" and g: "0 < g" and len: "length as = length os"
  shows "sorted_wrt key_less (map group_key (all_groups g os as))"
    and "h \<in> set (all_groups g os as) \<Longrightarrow> tg_group_id h = group_id (tg_epoch h) (tg_ordinal h) \<and> 0 \<le> tg_epoch h"
    and "h \<in> set (all_groups g os as) \<Longrightarrow>
       set (tg_indices h) = {of_index x |x l a. ((x, l), a) \<in> set (labelled g os as)
         \<and> (of_epoch x, l) = group_key h}"
    and "h \<in> set (all_groups g os as) \<Longrightarrow> ((x, l), a) \<in> set (labelled g os as) \<Longrightarrow>
       (of_epoch x, l) = group_key h \<Longrightarrow> ar_scheduled_ns a \<noteq> ar_original_ns a \<Longrightarrow> 0 < tg_moved_count h"
    and "((x, l), a) \<in> set (labelled g os as) \<Longrightarrow>
       \<exists>h \<in> set (all_groups g os as). group_key h = (of_epoch x, l)"
proof -
  have placed: "placed g (-1) 0 0 None os"
    using g epochs_nonneg [OF ordered, of "hd os"] by (cases os) auto
  note keys = collect_groups_keys [OF len placed sorted_epochs [OF ordered]]
  have low: "\<forall>x \<in> set os. -1 \<le> of_epoch x" using epochs_nonneg [OF ordered] by force
  show sorted: "sorted_wrt key_less (map group_key (all_groups g os as))"
    using keys [OF low] by (simp add: all_groups_def)
  show "h \<in> set (all_groups g os as) \<Longrightarrow>
      tg_group_id h = group_id (tg_epoch h) (tg_ordinal h) \<and> 0 \<le> tg_epoch h"
    using keys [OF low] by (fastforce simp: all_groups_def)
  have members: "sum_list (map (mset \<circ> tg_indices) (filter (\<lambda>c. group_key c = key) (all_groups g os as)))
      = sum_list (map (\<lambda>((x, _), a). {#of_index x#}) (filter (keyed key) (labelled g os as)))" for key
    using collect_groups_sum [where f = "mset \<circ> tg_indices" and h = "\<lambda>x a. {#of_index x#}",
        OF _ _ len placed, of key]
    by (simp add: all_groups_def labelled_def add_to_group_def)
  have set_sum: "set_mset (sum_list (map (\<lambda>((x, _), a). {#of_index x#}) (filter (keyed key) ys)))
      = {of_index x |x l a. ((x, l), a) \<in> set ys \<and> (of_epoch x, l) = key}"
    for key and ys :: "((offer \<times> nat) \<times> arrival) list"
  proof (induction ys)
    case Nil
    then show ?case by simp
  next
    case (Cons y ys)
    obtain x l a where y: "y = ((x, l), a)" by (metis surj_pair)
    show ?case
    proof (cases "(of_epoch x, l) = key")
      case True
      then have "set_mset (sum_list (map (\<lambda>((x, _), a). {#of_index x#}) (filter (keyed key) (y # ys))))
          = insert (of_index x) (set_mset (sum_list (map (\<lambda>((x, _), a). {#of_index x#}) (filter (keyed key) ys))))"
        by (simp add: y)
      then show ?thesis using True unfolding Cons.IH by (auto simp: y)
    next
      case False
      then show ?thesis using Cons.IH by (simp add: y) blast
    qed
  qed
  show "set (tg_indices h) = {of_index x |x l a. ((x, l), a) \<in> set (labelled g os as)
         \<and> (of_epoch x, l) = group_key h}" if "h \<in> set (all_groups g os as)"
    using members [of "group_key h"] set_sum [of "group_key h" "labelled g os as"]
    by (simp add: filter_key_single [OF sorted that] flip: set_mset_mset)
  show "\<exists>h \<in> set (all_groups g os as). group_key h = (of_epoch x, l)"
    if "((x, l), a) \<in> set (labelled g os as)"
  proof (rule ccontr)
    assume "\<not> ?thesis"
    then have "filter (\<lambda>c. group_key c = (of_epoch x, l)) (all_groups g os as) = []"
      by (auto simp: filter_empty_conv)
    then have "{of_index y |y k b. ((y, k), b) \<in> set (labelled g os as) \<and> (of_epoch y, k) = (of_epoch x, l)} = {}"
      using members [of "(of_epoch x, l)"] set_sum [of "(of_epoch x, l)" "labelled g os as"] by simp
    with that show False by auto
  qed
  define weight :: "(offer \<times> nat) \<times> arrival \<Rightarrow> int"
    where "weight = (\<lambda>((x, _), a). if ar_scheduled_ns a \<noteq> ar_original_ns a then 1 else 0)"
  have weight: "0 \<le> weight y" "ar_scheduled_ns a \<noteq> ar_original_ns a \<Longrightarrow> weight ((x, l), a) = 1" for y x l a
    by (auto simp: weight_def split: prod.split)
  have count: "tg_moved_count h = sum_list (map weight (filter (keyed (group_key h)) (labelled g os as)))"
    if "h \<in> set (all_groups g os as)"
    using collect_groups_sum [where f = tg_moved_count
        and h = "\<lambda>x a. if ar_scheduled_ns a \<noteq> ar_original_ns a then 1 else 0",
        OF _ _ len placed, of "group_key h"] filter_key_single [OF sorted that]
    by (simp add: all_groups_def labelled_def add_to_group_def weight_def)
  have positive: "((x, l), a) \<in> set ys \<Longrightarrow> keyed key ((x, l), a) \<Longrightarrow> ar_scheduled_ns a \<noteq> ar_original_ns a \<Longrightarrow>
      0 < sum_list (map weight (filter (keyed key) ys))" for key ys
  proof (induction ys)
    case Nil
    then show ?case by simp
  next
    case (Cons y ys)
    have "0 \<le> sum_list (map weight (filter (keyed key) ys))"
      by (rule sum_list_nonneg) (auto simp: weight)
    with Cons weight(1) [of y] weight(2) [OF Cons.prems(3), of x l] show ?case by auto
  qed
  show "0 < tg_moved_count h" if "h \<in> set (all_groups g os as)" "((x, l), a) \<in> set (labelled g os as)"
    "(of_epoch x, l) = group_key h" "ar_scheduled_ns a \<noteq> ar_original_ns a"
    unfolding count [OF that(1)] using positive that by simp
qed

section \<open>What a mask selects\<close>

lemma labelled_nth:
  assumes "length as = length os" "i < length os"
  shows "labelled g os as ! i = ((os ! i, ordinals g (-1) 0 0 os ! i), as ! i)"
  using assms by (simp add: labelled_def)

lemma length_labelled [simp]: "length as = length os \<Longrightarrow> length (labelled g os as) = length os"
  by (simp add: labelled_def)

text \<open>Offers of a plan are numbered by position.\<close>

lemma index_nth: "map of_index os = [0..int (length os) - 1] \<Longrightarrow> i < length os \<Longrightarrow> of_index (os ! i) = int i"
  by (metis (no_types, lifting) add_0 length_map nth_map nth_upto of_nat_less_iff zle_diff1_eq)

lemma labelled_unique:
  assumes "map of_index os = [0..int (length os) - 1]" "length as = length os"
    and "((x, l), a) \<in> set (labelled g os as)" "((y, k), b) \<in> set (labelled g os as)"
    and "of_index x = of_index y"
  shows "((x, l), a) = ((y, k), b)"
proof -
  from assms(2,3) obtain i where i: "i < length os" "labelled g os as ! i = ((x, l), a)"
    by (metis in_set_conv_nth length_labelled)
  from assms(2,4) obtain j where j: "j < length os" "labelled g os as ! j = ((y, k), b)"
    by (metis in_set_conv_nth length_labelled)
  have "x = os ! i" "y = os ! j" using i j labelled_nth [OF assms(2)] by auto
  then have "i = j" using assms(5) index_nth [OF assms(1)] i j by simp
  with i j show ?thesis by simp
qed

lemma active_of_names:
  "name \<in> set (map fst (active_of gs)) \<longleftrightarrow> (\<exists>h \<in> set gs. 0 < tg_moved_count h \<and> name = ascii_text (tg_group_id h))"
  by (auto simp: active_of_def)

lemma map_of_active:
  assumes "name \<in> set (map fst (active_of gs))"
  obtains h where "map_of (rev (active_of gs)) name = Some h" "h \<in> set gs" "name = ascii_text (tg_group_id h)"
proof -
  have "name \<in> fst ` set (rev (active_of gs))" using assms by auto
  then obtain h where "map_of (rev (active_of gs)) name = Some h"
    by (metis domD dom_map_of_conv_image_fst)
  with map_of_SomeD [OF this] that show thesis by (auto simp: active_of_def)
qed

lemma selected_mem:
  "i \<in> set (selected_indices gs names) \<longleftrightarrow>
     (\<exists>name \<in> set names. \<exists>h. map_of (rev (active_of gs)) name = Some h \<and> i \<in> set (tg_indices h))"
proof -
  have "i \<in> set (case v of None \<Rightarrow> [] | Some h \<Rightarrow> tg_indices h) \<longleftrightarrow> (\<exists>h. v = Some h \<and> i \<in> set (tg_indices h))"
    for v by (cases v) auto
  note mem = this
  show ?thesis unfolding selected_indices_def set_concat set_map UN_iff image_image bex_simps mem by simp
qed

lemma selected_iff:
  assumes ordered: "offers_ordered d os" "0 < d" and g: "0 < g" and len: "length as = length os"
    and index: "map of_index os = [0..int (length os) - 1]"
    and names: "set names \<subseteq> set (map fst (active_of (all_groups g os as)))"
    and x: "((x, l), a) \<in> set (labelled g os as)"
  shows "of_index x \<in> set (selected_indices (all_groups g os as) names)
     \<longleftrightarrow> ascii_text (group_id (of_epoch x) l) \<in> set names"
proof -
  note facts = all_groups_facts [OF ordered g len]
  have nonneg: "0 \<le> of_epoch x"
    using x epochs_nonneg [OF ordered] by (auto simp: labelled_def dest!: set_zip_leftD)
  have chosen: "of_index x \<in> set (selected_indices (all_groups g os as) names)
      \<longleftrightarrow> (\<exists>name \<in> set names. \<exists>h. map_of (rev (active_of (all_groups g os as))) name = Some h
             \<and> of_index x \<in> set (tg_indices h))"
    by (rule selected_mem)
  have member: "of_index x \<in> set (tg_indices h) \<longleftrightarrow> (of_epoch x, l) = group_key h"
    if "h \<in> set (all_groups g os as)" for h
  proof -
    have "y = x \<and> k = l" if "((y, k), b) \<in> set (labelled g os as)" "of_index x = of_index y" for y k b
      using labelled_unique [OF index len x that] by simp
    then show ?thesis unfolding facts(3) [OF that] using x by blast
  qed
  have named: "ascii_text (group_id (of_epoch x) l) = ascii_text (tg_group_id h) \<longleftrightarrow> (of_epoch x, l) = group_key h"
    if "h \<in> set (all_groups g os as)" for h
    using facts(2) [OF that] group_id_inject [of "of_epoch x" l "tg_epoch h" "tg_ordinal h"] nonneg
    by (auto simp: group_key_def)
  show ?thesis
  proof
    assume "of_index x \<in> set (selected_indices (all_groups g os as) names)"
    then obtain name h where h: "name \<in> set names" "of_index x \<in> set (tg_indices h)"
      "map_of (rev (active_of (all_groups g os as))) name = Some h" unfolding chosen by blast
    have "name \<in> set (map fst (active_of (all_groups g os as)))" using h(1) names by auto
    then obtain h' where "map_of (rev (active_of (all_groups g os as))) name = Some h'"
      "h' \<in> set (all_groups g os as)" "name = ascii_text (tg_group_id h')" by (rule map_of_active)
    with h member [of h'] named [of h'] show "ascii_text (group_id (of_epoch x) l) \<in> set names" by auto
  next
    assume name: "ascii_text (group_id (of_epoch x) l) \<in> set names"
    then have "ascii_text (group_id (of_epoch x) l) \<in> set (map fst (active_of (all_groups g os as)))"
      using names by auto
    then obtain h where h: "map_of (rev (active_of (all_groups g os as))) (ascii_text (group_id (of_epoch x) l)) = Some h"
      "h \<in> set (all_groups g os as)" "ascii_text (group_id (of_epoch x) l) = ascii_text (tg_group_id h)"
      by (rule map_of_active)
    with named member name show "of_index x \<in> set (selected_indices (all_groups g os as) names)"
      unfolding chosen by blast
  qed
qed

section \<open>What the code guarantees of its timings\<close>

lemma build_timing_fields:
  assumes "build_timing k plan g b m os = Inr t"
  shows "tm_arrivals t = compress g b m 0 0 (-1) os" "tm_group_size t = g" "tm_max_advance_ns t = m"
    "tm_retained_spacing_bps t = b" "tm_moved_count t = moved (tm_arrivals t)" "os \<noteq> []"
    "tm_max_applied_advance_ns t = Max (set (map advance_of (tm_arrivals t)))"
    "tm_offered_count t = int (length os)"
  using assms by (auto simp: build_timing_def Let_def result_simps max_of_def split: if_splits)

lemma make_timing_parts:
  assumes "make_timing k vp plan group_size spacing advance = Inr t"
  obtains os d g b m where "source_offers k vp plan = Inr os" "group_size = JInt g" "1 \<le> g" "g \<le> 1024"
    "spacing = JInt b" "0 \<le> b" "b \<le> 10000" "advance = JInt m" "0 \<le> m" "m \<le> d"
    "get_null (plan_members plan) ''duration_ns'' = JInt d" "3 \<le> d"
    "offers_ordered d os" "map of_index os = [0..int (length os) - 1]"
    "build_timing k (plan_members plan) g b m os = Inr t"
proof -
  from assms obtain os g b duration where found: "source_offers k vp plan = Inr os" "group_size = JInt g"
    "1 \<le> g" "g \<le> 1024" "spacing = JInt b" "0 \<le> b" "b \<le> 10000"
    "need (plan_members plan) ''duration_ns'' = Inr duration"
    and rest: "(case duration of
       JInt d \<Rightarrow> rbind (exact_integer advance 0 d ''max_advance_ns'') (\<lambda>m.
         build_timing k (plan_members plan) g b m os)
     | _ \<Rightarrow> Inl Python_Error) = Inr t"
    unfolding make_timing_def rbind_eq_Inr exact_integer_ok by blast
  from rest obtain d m where "duration = JInt d" "advance = JInt m" "0 \<le> m" "m \<le> d"
    "build_timing k (plan_members plan) g b m os = Inr t"
    by (cases duration) (auto simp: result_simps exact_integer_ok)
  note parts = found(1-7) this(2-4) found(8) [unfolded this(1)] this(5)
  from parts(1) obtain ms where ms: "plan = JObj ms" "read_offers k vp ms = Inr os"
    by (auto simp: source_offers_ok)
  from parts(11) have null: "get_null ms ''duration_ns'' = JInt d"
    by (auto simp: need_def get_null_def ms(1) plan_members_def split: option.splits)
  with read_offers_ok(3,4) [OF ms(2)] have "3 \<le> d" "offers_ordered d os"
    "map of_index os = [0..int (length os) - 1]" by auto
  with that parts null ms(1) show thesis by (simp add: plan_members_def)
qed

lemma compressed_sorted:
  assumes "0 \<le> b" "b \<le> 10000" "0 \<le> m" "offers_ordered d os"
  shows "sorted (map ar_scheduled_ns (compress g b m 0 0 (-1) os))"
proof -
  have "map ar_scheduled_ns (compress g b m 0 0 (-1) os) = masked g b m (\<lambda>_. True) 0 0 (-1) 0 os"
    by (simp add: masked_map) (rule nth_equalityI, simp_all)
  moreover have "sorted (masked g b m (\<lambda>_. True) 0 0 (-1) 0 os)"
    using masked_sorted [of b m os 0 0 g "\<lambda>_. True"] assms
    by (auto simp: offers_ordered_def list_all_iff)
  ultimately show ?thesis by simp
qed

lemma list_all2_right: "list_all2 P xs ys \<Longrightarrow> y \<in> set ys \<Longrightarrow> \<exists>x \<in> set xs. P x y"
  by (induction rule: list_all2_induct) auto

lemma list_all2_advances_max:
  assumes "list_all2 (advances d m) os as" "as \<noteq> []"
  shows "0 \<le> Max (set (map advance_of as))" "Max (set (map advance_of as)) \<le> m"
proof -
  have each: "0 \<le> advance_of a \<and> advance_of a \<le> m" if "a \<in> set as" for a
    using list_all2_right [OF assms(1) that] by (auto simp: advances_def advance_of_def)
  from assms(2) obtain a where a: "a \<in> set as" by (cases as) auto
  have "advance_of a \<le> Max (set (map advance_of as))" using a by (intro Max_ge) auto
  with each [OF a] show "0 \<le> Max (set (map advance_of as))" by linarith
  show "Max (set (map advance_of as)) \<le> m" using assms(2) each by simp
qed

lemma built_advances:
  assumes "build_timing k plan g b m os = Inr t" "0 \<le> b" "b \<le> 10000" "0 \<le> m" "3 \<le> d" "offers_ordered d os"
  shows "list_all2 (advances d m) os (tm_arrivals t)" "tm_arrivals t \<noteq> []"
proof -
  note fields = build_timing_fields [OF assms(1)]
  show "list_all2 (advances d m) os (tm_arrivals t)"
    unfolding fields(1)
  proof (rule compress_advances)
    show "\<forall>x \<in> set os. of_epoch x = -1 \<longrightarrow> 0 \<le> of_scheduled_ns x \<and> (0 :: int) \<le> 0 \<and> 0 * 3 div d = -1"
      using epochs_nonneg [OF assms(6)] assms(5) by force
  qed (use assms in auto)
  show "tm_arrivals t \<noteq> []" using fields(1,6) by (metis length_0_conv length_compress)
qed

text \<open>What a made timing moves: offers of the plan, earlier, by no more than an exact integer.\<close>

lemma made_advances:
  assumes "make_timing k vp plan group_size spacing advance = Inr t"
  obtains os d m where "source_offers k vp plan = Inr os" "advance = JInt m" "0 \<le> m" "m \<le> d"
    "get_null (plan_members plan) ''duration_ns'' = JInt d" "d \<le> max_exact_integer"
    "list_all2 (advances d m) os (tm_arrivals t)" "tm_arrivals t \<noteq> []"
    "tm_max_applied_advance_ns t = Max (set (map advance_of (tm_arrivals t)))" "tm_moved_count t = moved (tm_arrivals t)"
proof -
  from assms obtain os d g b m where parts: "source_offers k vp plan = Inr os" "0 \<le> b" "b \<le> 10000" "0 \<le> m"
    "3 \<le> d" "offers_ordered d os" "build_timing k (plan_members plan) g b m os = Inr t"
    "get_null (plan_members plan) ''duration_ns'' = JInt d" "advance = JInt m" "m \<le> d"
    by (rule make_timing_parts)
  from parts(1) obtain ms where ms: "plan = JObj ms" "read_offers k vp ms = Inr os" by (auto simp: source_offers_ok)
  have "d \<le> max_exact_integer" using read_offers_ok(3) [OF ms(2)] parts(8) by (auto simp: ms(1) plan_members_def)
  with parts build_timing_fields(5,7) [OF parts(7)] built_advances [OF parts(7,2-6)] that show thesis by blast
qed

text \<open>
  C7: a compression recipe the code accepts only moves offers earlier: every offer keeps its index and
  its epoch, is advanced by at most the recipe's bound and never past the start of the trace, the
  arrivals stay in order, and the summary fields of the artifact say what was done.
\<close>

theorem timing_only_advances:
  assumes "make_timing k vp plan group_size spacing advance = Inr t"
  shows "\<exists>os d. source_offers k vp plan = Inr os
     \<and> get_null (plan_members plan) ''duration_ns'' = JInt d \<and> offers_ordered d os
     \<and> list_all2 (advances d (tm_max_advance_ns t)) os (tm_arrivals t)
     \<and> sorted (map ar_scheduled_ns (tm_arrivals t))
     \<and> tm_offered_count t = int (length os)
     \<and> tm_moved_count t = int (length (filter (\<lambda>a. ar_scheduled_ns a \<noteq> ar_original_ns a) (tm_arrivals t)))
     \<and> 0 \<le> tm_max_applied_advance_ns t \<and> tm_max_applied_advance_ns t \<le> tm_max_advance_ns t"
proof -
  from assms obtain os d g b m where parts: "source_offers k vp plan = Inr os" "0 \<le> b" "b \<le> 10000" "0 \<le> m"
    "3 \<le> d" "offers_ordered d os" "build_timing k (plan_members plan) g b m os = Inr t"
    "get_null (plan_members plan) ''duration_ns'' = JInt d"
    by (rule make_timing_parts)
  note fields = build_timing_fields [OF parts(7)]
  note adv = built_advances(1) [OF parts(7,2-6)]
  have "ar_scheduled_ns a \<noteq> ar_original_ns a \<longleftrightarrow> 0 < advance_of a" if "a \<in> set (tm_arrivals t)" for a
    using list_all2_right [OF adv that] by (auto simp: advances_def advance_of_def)
  then have "moved (tm_arrivals t)
      = int (length (filter (\<lambda>a. ar_scheduled_ns a \<noteq> ar_original_ns a) (tm_arrivals t)))"
    unfolding moved_def by (intro arg_cong [where f = "\<lambda>xs. int (length xs)"] filter_cong) auto
  moreover have "tm_arrivals t \<noteq> []" by (rule built_advances(2) [OF parts(7,2-6)])
  ultimately show ?thesis
    using parts adv fields compressed_sorted [OF parts(2,3,4,6), of g] list_all2_advances_max [OF adv]
    by auto
qed

lemma source_groups_parts:
  assumes "source_groups k vp plan ps = Inr (t, os, gs)"
  obtains d b m where "source_offers k vp plan = Inr os" "gs = all_groups (tm_group_size t) os (tm_arrivals t)"
    "0 < tm_group_size t" "0 \<le> b" "b \<le> 10000" "0 \<le> m" "3 \<le> d" "offers_ordered d os"
    "map of_index os = [0..int (length os) - 1]" "tm_max_advance_ns t = m"
    "tm_arrivals t = compress (tm_group_size t) b m 0 0 (-1) os"
    "list_all2 (advances d m) os (tm_arrivals t)" "get_null (plan_members plan) ''duration_ns'' = JInt d"
proof -
  from assms obtain qs where qs: "make_from_parameters k vp plan qs = Inr t" "source_offers k vp plan = Inr os"
    "gs = all_groups (tm_group_size t) os (tm_arrivals t)"
    by (auto simp: source_groups_def result_simps all_groups_def split: json.splits)
  from qs(1) [unfolded make_from_parameters_def] obtain os' d g b m where parts:
    "source_offers k vp plan = Inr os'" "1 \<le> g" "0 \<le> b" "b \<le> 10000" "0 \<le> m" "3 \<le> d"
    "offers_ordered d os'" "map of_index os' = [0..int (length os') - 1]"
    "build_timing k (plan_members plan) g b m os' = Inr t"
    "get_null (plan_members plan) ''duration_ns'' = JInt d"
    by (rule make_timing_parts)
  note fields = build_timing_fields [OF parts(9)]
  have os: "os' = os" using parts(1) qs(2) by simp
  show thesis
    by (intro that [of b m d])
      (use built_advances(1) [OF parts(9,3-7)] qs parts fields os in \<open>simp_all add: os\<close>)
qed

lemma check_retained_ok:
  assumes "check_retained gs retained = Inr names"
  shows "set names \<subseteq> set (map fst (active_of gs))" "distinct names" "sorted names"
    "\<exists>ns. retained = JArr (map JStr ns) \<and> names = sort ns"
proof -
  have strings: "json_strings js = Some ns \<Longrightarrow> js = map JStr ns" for js ns
    by (induction js arbitrary: ns rule: json_strings.induct) auto
  from assms obtain js ns where "retained = JArr js" "json_strings js = Some ns" "names = sort ns"
    "set ns \<subseteq> set (map fst (active_of gs))" "distinct ns"
    by (auto simp: check_retained_def Let_def split: json.splits if_splits option.splits)
  with strings show "set names \<subseteq> set (map fst (active_of gs))" "distinct names" "sorted names"
    "\<exists>ns. retained = JArr (map JStr ns) \<and> names = sort ns" by auto
qed

lemma map_restore_labelled:
  assumes "length as = length os"
    and "\<And>x l a. ((x, l), a) \<in> set (labelled g os as) \<Longrightarrow> f a = h ((x, l), a)"
  shows "map f as = map h (labelled g os as)"
proof (rule nth_equalityI)
  fix i assume i: "i < length (map f as)"
  then have "labelled g os as ! i = ((os ! i, ordinals g (-1) 0 0 os ! i), as ! i)"
    using labelled_nth [of as os i g] assms(1) by simp
  moreover from i have "labelled g os as ! i \<in> set (labelled g os as)"
    by (intro nth_mem) (simp add: assms(1))
  ultimately show "map f as ! i = map h (labelled g os as) ! i" using assms i by simp
qed (simp add: assms(1))

text \<open>
  C8: restoring groups never regroups anything. In a reduced timing exactly the offers of the retained
  groups keep their compressed time and all others are back at their original one; whatever the mask,
  no offer leaves its epoch, is advanced beyond the bound of the source recipe or overtakes another.
\<close>

theorem reduced_timing_keeps_order:
  assumes "make_reduced_timing k vp plan parameters retained = Inr t"
  shows "\<exists>os d. source_offers k vp plan = Inr os
     \<and> get_null (plan_members plan) ''duration_ns'' = JInt d \<and> offers_ordered d os
     \<and> rt_arrivals t = map (\<lambda>((x, l), a).
          if ascii_text (group_id (of_epoch x) l) \<in> set (rt_retained_groups t) then a
          else a\<lparr>ar_scheduled_ns := of_scheduled_ns x\<rparr>)
         (labelled (tm_group_size (rt_source t)) os (tm_arrivals (rt_source t)))
     \<and> list_all2 (advances d (tm_max_advance_ns (rt_source t))) os (rt_arrivals t)
     \<and> sorted (map ar_scheduled_ns (rt_arrivals t))"
proof -
  from assms obtain source os gs names where built:
    "source_groups k vp plan parameters = Inr (source, os, gs)" "check_retained gs retained = Inr names"
    "rt_source t = source" "rt_retained_groups t = names"
    "rt_arrivals t = map (restore_arrival (selected_indices gs names)) (tm_arrivals source)"
    by (auto simp: make_reduced_timing_def result_simps Let_def)
  from built(1) obtain d b m where src: "source_offers k vp plan = Inr os"
    "gs = all_groups (tm_group_size source) os (tm_arrivals source)" "0 < tm_group_size source"
    "0 \<le> b" "b \<le> 10000" "0 \<le> m" "3 \<le> d" "offers_ordered d os"
    "map of_index os = [0..int (length os) - 1]" "tm_max_advance_ns source = m"
    "tm_arrivals source = compress (tm_group_size source) b m 0 0 (-1) os"
    "list_all2 (advances d m) os (tm_arrivals source)"
    "get_null (plan_members plan) ''duration_ns'' = JInt d"
    by (rule source_groups_parts)
  define L where "L = labelled (tm_group_size source) os (tm_arrivals source)"
  define keep where "keep = (\<lambda>key :: int \<times> nat. ascii_text (group_id (fst key) (snd key)) \<in> set names)"
  have len: "length (tm_arrivals source) = length os" using src(11) by simp
  have adv: "advances d m x a" if "((x, l), a) \<in> set L" for x l a
    using that src(12) len unfolding L_def labelled_def
    by (auto simp: list_all2_conv_all_nth in_set_conv_nth)
  have "restore_arrival (selected_indices gs names) a
      = (if keep (of_epoch x, l) then a else a\<lparr>ar_scheduled_ns := of_scheduled_ns x\<rparr>)"
    if "((x, l), a) \<in> set L" for x l a
    using adv [OF that] selected_iff [OF src(8) _ src(3) len src(9), of names x l a] that
      check_retained_ok(1) [OF built(2)] src(2,7)
    by (simp add: restore_arrival_def L_def keep_def advances_def)
  then have arrivals: "rt_arrivals t = map (\<lambda>((x, l), a).
      if keep (of_epoch x, l) then a else a\<lparr>ar_scheduled_ns := of_scheduled_ns x\<rparr>) L"
    unfolding built(5) L_def by (intro map_restore_labelled [OF len]) simp
  have "map ar_scheduled_ns (rt_arrivals t) = masked (tm_group_size source) b m keep 0 0 (-1) 0 os"
    unfolding arrivals masked_map L_def labelled_def src(11) by (auto simp: comp_def split: prod.splits)
  then have sorted: "sorted (map ar_scheduled_ns (rt_arrivals t))"
    using masked_sorted [OF src(4,5,6), of os 0 0 "tm_group_size source" keep] src(8)
    by (auto simp: offers_ordered_def list_all_iff)
  have "list_all2 (advances d m) os (rt_arrivals t)"
  proof (rule list_all2_all_nthI)
    show "length os = length (rt_arrivals t)" by (simp add: arrivals L_def len)
    fix i assume i: "i < length os"
    have nth: "L ! i = ((os ! i, ordinals (tm_group_size source) (-1) 0 0 os ! i), tm_arrivals source ! i)"
      using labelled_nth [OF len i] by (simp add: L_def)
    have "L ! i \<in> set L" using i len by (simp add: L_def)
    then have "advances d m (os ! i) (tm_arrivals source ! i)" using adv nth by metis
    moreover have "0 \<le> of_scheduled_ns (os ! i)" "of_epoch (os ! i) = of_scheduled_ns (os ! i) * 3 div d"
      using src(8) i by (simp_all add: offers_ordered_def list_all_length)
    ultimately show "advances d m (os ! i) (rt_arrivals t ! i)"
      using i len nth src(6) by (simp add: arrivals L_def advances_def)
  qed
  with src sorted arrivals built(3,4) show ?thesis by (auto simp: L_def keep_def)
qed

section \<open>Artifacts validate against their own recipe\<close>

lemma artifact_types_path:
  "artifact_types False p v = artifact_types False q v"
  "artifact_members False p ms = artifact_members False q ms"
  "artifact_items False p js = artifact_items False q js"
proof (induction False p v and False p ms and False p js
    arbitrary: q and q and q rule: artifact_types_artifact_members_artifact_items.induct)
  case (9 p k v ms)
  show ?case using 9(1) [of "q @ [k]"] 9(2) [of _ q] by (simp cong: rbind_cong)
next
  case (11 p j js)
  show ?case using 11(1) [of "q @ [ascii_text ''[]'']"] 11(2) [of _ q] by (simp cong: rbind_cong)
qed simp_all

text \<open>A value of a plan that is not one of its flags satisfies the stricter check too.\<close>

lemma artifact_types_flagged:
  "artifact_types fl p v = Inr () \<Longrightarrow> fl \<Longrightarrow> p \<noteq> [] \<Longrightarrow> p \<notin> set flag_paths \<Longrightarrow> artifact_types False q v = Inr ()"
  "artifact_members fl p ms = Inr () \<Longrightarrow> fl \<Longrightarrow> p \<noteq> [] \<Longrightarrow> artifact_members False q ms = Inr ()"
  "artifact_items fl p js = Inr () \<Longrightarrow> fl \<Longrightarrow> p \<noteq> [] \<Longrightarrow> artifact_items False q js = Inr ()"
proof (induction fl p v and fl p ms and fl p js
    arbitrary: q and q and q rule: artifact_types_artifact_members_artifact_items.induct)
  case (9 fl p k v ms)
  from 9(4,5) have "p @ [k] \<noteq> []" "p @ [k] \<notin> set flag_paths"
    by (auto simp: flag_paths_def append_eq_Cons_conv)
  with 9 show ?case by (auto simp: result_simps)
next
  case (11 fl p j js)
  from 11(4,5) have "p @ [ascii_text ''[]''] \<noteq> []" "p @ [ascii_text ''[]''] \<notin> set flag_paths"
    by (auto simp: flag_paths_def append_eq_Cons_conv)
  with 11 show ?case by (auto simp: result_simps)
qed auto

definition plain_value :: "json \<Rightarrow> bool" where
  "plain_value v \<longleftrightarrow> artifact_types False [] v = Inr ()"

lemma plain_basic [simp]:
  "plain_value (jstr s)" "plain_value (JStr t)" "plain_value JNull"
  "plain_value (JInt n) \<longleftrightarrow> - max_exact_integer \<le> n \<and> n \<le> max_exact_integer"
  by (auto simp: plain_value_def jstr_def result_simps exact_integer_ok)

lemma plain_items [simp]: "plain_value (JArr js) \<longleftrightarrow> list_all plain_value js"
proof -
  have "artifact_items False [] js = Inr () \<longleftrightarrow> list_all plain_value js"
    by (induction js)
      (auto simp: result_simps plain_value_def artifact_types_path(1) [of "[ascii_text ''[]'']" _ "[]"])
  then show ?thesis by (simp add: plain_value_def)
qed

lemma plain_members [simp]: "plain_value (jobj ms) \<longleftrightarrow> list_all (\<lambda>(_, v). plain_value v) ms"
proof -
  have "artifact_members False [] (map (\<lambda>(k, v). (ascii_text k, v)) ms) = Inr ()
      \<longleftrightarrow> list_all (\<lambda>(_, v). plain_value v) ms"
    by (induction ms) (auto simp: result_simps plain_value_def artifact_types_path(1) [of "[_]" _ "[]"])
  then show ?thesis by (simp add: plain_value_def jobj_def)
qed

lemma plain_member:
  assumes "artifact_types True [] (JObj ms) = Inr ()" "json_get ms key = Some v"
    and "[ascii_text key] \<notin> set flag_paths"
  shows "plain_value v"
proof -
  have "artifact_members True [] ms = Inr () \<Longrightarrow> (a, v) \<in> set ms \<Longrightarrow> artifact_types True [a] v = Inr ()"
    for a :: py_text
    by (induction ms) (auto simp: result_simps)
  moreover have "(ascii_text key, v) \<in> set ms" using assms(2) by (simp add: json_get_def map_of_SomeD)
  ultimately have "artifact_types True [ascii_text key] v = Inr ()" using assms(1) by simp
  with artifact_types_flagged(1) [OF this] assms(3) show ?thesis by (simp add: plain_value_def)
qed

lemma plain_arrivals:
  assumes "list_all2 (advances d m) os as" "map of_index os = [0..int (length os) - 1]"
    and "offers_ordered d os" "d \<le> max_exact_integer" "int (length os) \<le> max_exact_integer"
  shows "list_all plain_value (map arrival_json as)"
proof -
  have "plain_value (arrival_json a)" if a: "a \<in> set as" for a
  proof -
    from list_all2_right [OF assms(1) a] obtain x where x: "x \<in> set os" "advances d m x a" by blast
    from x(1) have "of_index x \<in> set [0..int (length os) - 1]" unfolding assms(2) [symmetric] by simp
    moreover have "0 \<le> of_scheduled_ns x" "of_scheduled_ns x < d"
      using x(1) assms(3) by (auto simp: offers_ordered_def list_all_iff)
    ultimately show ?thesis using x(2) assms(4,5) by (auto simp: arrival_json_def advances_def)
  qed
  then show ?thesis by (simp add: list_all_iff)
qed

lemma build_timing_members:
  assumes "build_timing k plan g b m os = Inr t"
  shows "json_get plan ''schema'' = Some (tm_base_plan_schema t)"
    "json_get plan ''plan_sha256'' = Some (tm_base_plan_sha256 t)"
    "json_get plan ''trace_sha256'' = Some (tm_base_trace_sha256 t)"
    "json_get plan ''duration_ns'' = Some (tm_duration_ns t)"
  using assms
  by (auto simp: build_timing_def Let_def result_simps need_def split: option.splits)

lemma flag_names [simp]: "[ascii_text key] \<in> set flag_paths \<longleftrightarrow> key = ''ignore_eos'' \<or> key = ''stream_usage_required''"
  by (simp add: flag_paths_def)

lemma length_moved: "0 \<le> moved as" "moved as \<le> int (length as)"
  by (simp_all add: moved_def)

lemma plain_timing:
  assumes "make_timing k vp plan group_size spacing advance = Inr t" "source_offers k vp plan = Inr os"
    and "int (length os) \<le> max_exact_integer"
  shows "plain_value (timing_json t)"
proof -
  from assms(1) obtain os' d g b m where parts: "source_offers k vp plan = Inr os'" "g \<le> 1024" "1 \<le> g"
    "0 \<le> b" "b \<le> 10000" "0 \<le> m" "m \<le> d" "get_null (plan_members plan) ''duration_ns'' = JInt d" "3 \<le> d"
    "offers_ordered d os'" "map of_index os' = [0..int (length os') - 1]"
    "build_timing k (plan_members plan) g b m os' = Inr t"
    by (rule make_timing_parts)
  have os: "os' = os" using parts(1) assms(2) by simp
  note fields = build_timing_fields [OF parts(12)] and members = build_timing_members [OF parts(12)]
  from parts(1) obtain ms where ms: "plan = JObj ms" "read_offers k vp ms = Inr os'"
    by (auto simp: source_offers_ok)
  have types: "artifact_types True [] (JObj (plan_members plan)) = Inr ()"
    using read_offers_ok(2) [OF ms(2)] by (simp add: ms(1) plan_members_def)
  have d: "d \<le> max_exact_integer"
    using read_offers_ok(3) [OF ms(2)] parts(8) by (auto simp: ms(1) plan_members_def)
  note adv = built_advances(1) [OF parts(12,4-6,9,10), unfolded os]
  have len: "length (tm_arrivals t) = length os" using fields(1) os by simp
  then have "tm_arrivals t \<noteq> []" using fields(6) os by auto
  note applied = list_all2_advances_max [OF adv this]
  have big: "10000 \<le> max_exact_integer" by (simp add: max_exact_integer_def)
  have "plain_value (tm_base_plan_schema t)" "plain_value (tm_base_plan_sha256 t)"
    "plain_value (tm_base_trace_sha256 t)" "plain_value (tm_duration_ns t)"
    using members by (auto intro!: plain_member [OF types])
  moreover have "list_all plain_value (map arrival_json (tm_arrivals t))"
    using plain_arrivals [OF adv] parts(10,11) os d assms(3) by simp
  moreover have "moved (tm_arrivals t) \<le> max_exact_integer" using length_moved(2) [of "tm_arrivals t"] len assms(3) by linarith
  ultimately show ?thesis
    using fields(2-5,7,8) parts(2-7) os d assms(3) big length_moved(1) [of "tm_arrivals t"] applied
    by (simp add: timing_json_def timing_fields_def parameters_json_def)
qed

lemma retime_only_times:
  "length as = length os \<Longrightarrow> list_all2 (\<lambda>x y. y = x\<lparr>of_scheduled_ns := of_scheduled_ns y\<rparr>) os (retime os as)
     \<and> map of_scheduled_ns (retime os as) = map ar_scheduled_ns as"
  by (auto simp: retime_def list_all2_conv_all_nth intro!: nth_equalityI)

lemma timing_accepted:
  assumes made: "make_timing k vp plan group_size spacing advance = Inr t"
    and offers: "source_offers k vp plan = Inr os" "int (length os) \<le> max_exact_integer"
    and bytes: "cd_canonical k (timing_json t) \<noteq> None"
  shows "validate_timing k vp plan (timing_json t) = Inr (retime os (tm_arrivals t))"
    "length (tm_arrivals t) = length os"
proof -
  from made obtain os' d g b m where parts: "source_offers k vp plan = Inr os'" "group_size = JInt g"
    "spacing = JInt b" "advance = JInt m" "build_timing k (plan_members plan) g b m os' = Inr t"
    by (rule make_timing_parts)
  note fields = build_timing_fields [OF parts(5)]
  show "length (tm_arrivals t) = length os" using fields(1) parts(1) offers(1) by simp
  define ps where "ps = map (\<lambda>(k, v). (ascii_text k, v))
    [(''group_size'', JInt g), (''retained_spacing_bps'', JInt b), (''max_advance_ns'', JInt m)]"
  define ms where "ms = map (\<lambda>(k, v). (ascii_text k, v))
    (timing_fields t @ [(''timing_sha256'', jstr (tm_timing_sha256 t))])"
  have json: "timing_json t = JObj ms" by (simp add: timing_json_def ms_def jobj_def)
  have schema: "get_null ms ''schema'' = jstr timing_schema" unfolding ms_def get_null_jobj
    by (simp add: timing_fields_def)
  have parameters: "get_null ms ''parameters'' = JObj ps" unfolding ms_def get_null_jobj
    by (simp add: timing_fields_def parameters_json_def jobj_def ps_def fields)
  have "make_from_parameters k vp plan ps = Inr t"
    unfolding make_from_parameters_def ps_def get_null_jobj using made parts(2-4) by simp
  moreover have "same_fields ps parameter_names"
    by (simp add: same_fields_def ps_def parameter_names_def insert_commute)
  moreover have "artifact_types False [] (timing_json t) = Inr ()"
    using plain_timing [OF made offers] by (simp add: plain_value_def)
  moreover have "timing_schema \<noteq> reduced_schema" by (simp add: timing_schema_def reduced_schema_def)
  moreover have "require_same k (timing_json t) (timing_json t) e = Inr ()" for e
    using bytes by (auto simp: require_same_ok)
  ultimately show "validate_timing k vp plan (timing_json t) = Inr (retime os (tm_arrivals t))"
    using schema parameters offers(1)
    by (simp add: validate_timing_def check_timing_artifact_def json jstr_def)
qed

text \<open>
  C38: a timing artifact round-trips: encoded and read back against the same plan it validates, and the
  offers it yields are the plan's with nothing but their scheduled times replaced by the artifact's.
  The artifact must have canonical bytes and the number of offers must be an exact integer.
\<close>

theorem timing_roundtrip:
  assumes made: "make_timing k vp plan group_size spacing advance = Inr t"
    and offers: "source_offers k vp plan = Inr os" "int (length os) \<le> max_exact_integer"
    and bytes: "cd_canonical k (timing_json t) \<noteq> None"
  shows "validate_timing k vp plan (timing_json t) = Inr (retime os (tm_arrivals t))
     \<and> list_all2 (\<lambda>x y. y = x\<lparr>of_scheduled_ns := of_scheduled_ns y\<rparr>) os (retime os (tm_arrivals t))
     \<and> map of_scheduled_ns (retime os (tm_arrivals t)) = map ar_scheduled_ns (tm_arrivals t)"
  using timing_accepted [OF assms] retime_only_times by blast

section \<open>A concrete plan\<close>

definition demo_trace :: "int \<Rightarrow> string" where
  "demo_trace seed = CHR ''t'' # nat_bytes (nat seed)"

definition demo_plan_fields :: "int \<Rightarrow> (string \<times> json) list" where
  "demo_plan_fields seed =
     [(''schema'', jstr study_schema), (''phase'', jstr ''fixture''), (''seed'', JInt seed),
      (''offered_count'', JInt 4), (''duration_ns'', JInt 300), (''ignore_eos'', JBool True),
      (''stream_usage_required'', JBool True), (''trace_sha256'', jstr (demo_trace seed)),
      (''expected_prompt_tokens'', JInt 5), (''max_tokens'', JInt 7), (''context_length'', JInt 2048),
      (''first_content_slo_ns'', JInt 50), (''completion_slo_ns'', JInt 100)]"

definition demo_plan_sha :: "int \<Rightarrow> string" where
  "demo_plan_sha seed = ''sha256:'' @ json_bytes (jobj (demo_plan_fields seed))"

definition demo_block :: "int \<Rightarrow> json" where
  "demo_block seed = jobj
     [(''schema'', jstr study_schema), (''phase'', jstr ''fixture''), (''seed'', JInt seed),
      (''offered_count'', JInt 4), (''duration_ns'', JInt 300), (''ignore_eos'', JBool True),
      (''stream_usage_required'', JBool True), (''trace_sha256'', jstr (demo_trace seed)),
      (''expected_prompt_tokens'', JInt 5), (''max_tokens'', JInt 7), (''context_length'', JInt 2048),
      (''first_content_slo_ns'', JInt 50), (''completion_slo_ns'', JInt 100),
      (''plan_sha256'', jstr (demo_plan_sha seed))]"

abbreviation demo_plan :: json where
  "demo_plan \<equiv> demo_block 1"

definition demo_offer :: "int \<Rightarrow> int \<Rightarrow> int \<Rightarrow> offer" where
  "demo_offer i t e = \<lparr>of_index = i, of_scheduled_ns = t, of_epoch = e, of_traffic_class = ''hot'',
     of_tenant = ''tenant-a'', of_prompt = [], of_document_id = None\<rparr>"

definition demo_os :: "offer list" where
  "demo_os = [demo_offer 0 0 0, demo_offer 1 40 0, demo_offer 2 90 0, demo_offer 3 120 1]"

definition demo_reader :: plan_reader where
  "demo_reader _ = Inr demo_os"

lemma demo_fields:
  "get_null (plan_members (jobj ms)) key = (case map_of ms key of None \<Rightarrow> JNull | Some v \<Rightarrow> v)"
  "need (plan_members (jobj ms)) key = (case map_of ms key of None \<Rightarrow> Inl Python_Error | Some v \<Rightarrow> Inr v)"
  by (simp_all add: plan_members_def jobj_def get_null_jobj need_def json_get_jobj)

lemma not_timed [simp]:
  "\<not> marked_document (population_json rows)" "\<not> marked_document (trace_json rows arrivals)"
  "\<not> marked_document (jobj (timing_fields t))" "\<not> marked_document (jobj (reduced_fields t'))"
  by (simp_all add: population_json_def trace_json_def timing_fields_def reduced_fields_def)

text \<open>What holds of the plan for every seed.\<close>

lemma demo_plan_digest: "artifact_digest demo_codec (JObj (without ''plan_sha256'' (plan_members (demo_block seed))))
    = Inr (demo_plan_sha seed)"
proof -
  have body: "JObj (without ''plan_sha256'' (plan_members (demo_block seed))) = jobj (demo_plan_fields seed)"
    by (simp add: demo_block_def demo_plan_fields_def plan_members_def jobj_def without_def)
  have "marked_document (jobj (demo_plan_fields seed))" by (simp add: demo_plan_fields_def)
  then show ?thesis unfolding body by (simp add: artifact_digest_def demo_canonical demo_plan_sha_def)
qed

lemma demo_offers_seed:
  assumes "0 \<le> seed" "seed < 2 ^ 32"
  shows "source_offers demo_codec demo_reader (demo_block seed) = Inr demo_os"
proof -
  have plan: "demo_block seed = JObj (plan_members (demo_block seed))"
    by (simp add: demo_block_def plan_members_def jobj_def)
  have types: "artifact_types True [] (demo_block seed) = Inr ()"
    using assms by (simp add: demo_block_def jobj_def jstr_def result_simps exact_integer_def max_exact_integer_def)
  have "read_offers demo_codec demo_reader (plan_members (demo_block seed)) = Inr demo_os"
    using types assms
    by (simp add: read_offers_def plan [symmetric] Let_def demo_plan_digest)
      (simp add: demo_block_def demo_fields 
        exact_integer_def max_exact_integer_def plan_phases_def study_schema_def capacity_schema_def
        jstr_def demo_reader_def demo_os_def demo_offer_def)
  then show ?thesis by (subst plan) (simp add: source_offers_def)
qed

lemma demo_offers: "source_offers demo_codec demo_reader demo_plan = Inr demo_os"
  by (rule demo_offers_seed) simp_all

definition demo_parameters :: json where
  "demo_parameters = jobj [(''group_size'', JInt 2), (''retained_spacing_bps'', JInt 5000),
     (''max_advance_ns'', JInt 100)]"

definition demo_arrivals :: "arrival list" where
  "demo_arrivals = [\<lparr>ar_index = 0, ar_original_ns = 0, ar_scheduled_ns = 0\<rparr>,
     \<lparr>ar_index = 1, ar_original_ns = 40, ar_scheduled_ns = 20\<rparr>,
     \<lparr>ar_index = 2, ar_original_ns = 90, ar_scheduled_ns = 90\<rparr>,
     \<lparr>ar_index = 3, ar_original_ns = 120, ar_scheduled_ns = 120\<rparr>]"

definition demo_timing :: "int \<Rightarrow> timing" where
  "demo_timing seed = \<lparr>tm_base_plan_schema = jstr study_schema, tm_base_plan_sha256 = jstr (demo_plan_sha seed),
     tm_base_trace_sha256 = jstr (demo_trace seed), tm_duration_ns = JInt 300, tm_offered_count = 4, tm_group_size = 2,
     tm_retained_spacing_bps = 5000, tm_max_advance_ns = 100, tm_population_sha256 = ''sha256:00'',
     tm_transformed_trace_sha256 = ''sha256:00'', tm_max_applied_advance_ns = 20, tm_moved_count = 1,
     tm_arrivals = demo_arrivals, tm_timing_sha256 = ''sha256:00''\<rparr>"

lemma demo_population: "\<exists>rows. population_rows demo_codec (plan_members (demo_block seed))
    demo_os = Inr rows"
  by (simp add: population_rows_def population_row_def expected_tokens_def demo_block_def demo_fields demo_os_def
      demo_offer_def study_schema_def capacity_schema_def jstr_def)

lemma demo_compress:
  "compress 2 5000 100 0 0 (-1) demo_os
     = demo_arrivals"
  by (simp add: demo_os_def demo_offer_def demo_arrivals_def Let_def)

lemma demo_needed:
  "need (plan_members (demo_block seed)) ''duration_ns'' = Inr (JInt 300)"
  "need (plan_members (demo_block seed)) ''schema'' = Inr (jstr study_schema)"
  "need (plan_members (demo_block seed)) ''plan_sha256'' = Inr (jstr (demo_plan_sha seed))"
  "need (plan_members (demo_block seed)) ''trace_sha256'' = Inr (jstr (demo_trace seed))"
  "need (plan_members (demo_block seed)) ''phase'' = Inr (jstr ''fixture'')"
  "need (plan_members (demo_block seed)) ''seed'' = Inr (JInt seed)"
  by (simp_all add: demo_block_def demo_fields)

lemma demo_made_seed:
  assumes "0 \<le> seed" "seed < 2 ^ 32"
  shows "make_timing demo_codec demo_reader (demo_block seed) (JInt 2) (JInt 5000) (JInt 100) = Inr (demo_timing seed)"
proof -
  obtain rows where rows: "population_rows demo_codec (plan_members (demo_block seed)) demo_os = Inr rows"
    using demo_population by blast
  have moved: "moved demo_arrivals = 1" "max_of (map advance_of demo_arrivals) = Inr 20" "demo_arrivals \<noteq> []"
    by (simp_all add: moved_def demo_arrivals_def advance_of_def max_of_def)
  have "build_timing demo_codec (plan_members (demo_block seed)) 2 5000 100 demo_os = Inr (demo_timing seed)"
    unfolding build_timing_def Let_def demo_compress rows demo_needed demo_digest [OF not_timed(1)] demo_digest [OF not_timed(2)]
      demo_digest [OF not_timed(3)] moved rbind.simps
    by (simp add: demo_timing_def demo_os_def)
  then show ?thesis
    by (simp add: make_timing_def demo_offers_seed [OF assms] exact_integer_def demo_needed)
qed

lemma demo_made: "make_timing demo_codec demo_reader demo_plan (JInt 2) (JInt 5000) (JInt 100) = Inr (demo_timing 1)"
  by (rule demo_made_seed) simp_all

lemma demo_timing_accepted:
  assumes "0 \<le> seed" "seed < 2 ^ 32"
  shows "validate_timing demo_codec demo_reader (demo_block seed) (timing_json (demo_timing seed))
    = Inr [demo_offer 0 0 0, demo_offer 1 20 0, demo_offer 2 90 0, demo_offer 3 120 1]"
proof -
  have "validate_timing demo_codec demo_reader (demo_block seed) (timing_json (demo_timing seed))
      = Inr (retime demo_os (tm_arrivals (demo_timing seed)))"
    by (rule timing_accepted(1) [OF demo_made_seed [OF assms] demo_offers_seed [OF assms]])
      (simp_all add: max_exact_integer_def demo_canonical demo_os_def)
  then show ?thesis by (simp add: retime_def demo_timing_def demo_arrivals_def demo_os_def demo_offer_def)
qed

text \<open>The unchanged schedule.\<close>

lemma demo_baseline_made:
  assumes "0 \<le> seed" "seed < 2 ^ 32"
  shows "\<exists>t. make_timing demo_codec demo_reader (demo_block seed) (JInt 1) (JInt 10000) (JInt 0) = Inr t
    \<and> tm_timing_sha256 t = ''sha256:00''"
proof -
  obtain rows where rows: "population_rows demo_codec (plan_members (demo_block seed)) demo_os = Inr rows"
    using demo_population by blast
  have max: "max_of (map advance_of (compress 1 10000 0 0 0 (-1) demo_os)) = Inr 0"
    by (simp add: demo_os_def demo_offer_def advance_of_def max_of_def Let_def)
  show ?thesis
    by (simp add: make_timing_def demo_offers_seed [OF assms] exact_integer_def demo_needed build_timing_def
        Let_def rows demo_digest max)
qed

lemma demo_duration: "get_null (plan_members demo_plan) ''duration_ns'' = JInt 300"
  by (simp add: demo_block_def demo_fields)

lemma timing_only_advances_witness:
  "list_all2 (advances 300 100) demo_os (tm_arrivals (demo_timing 1)) \<and> tm_moved_count (demo_timing 1) = 1"
proof -
  from timing_only_advances [OF demo_made] obtain os d where found:
    "source_offers demo_codec demo_reader demo_plan = Inr os"
    "get_null (plan_members demo_plan) ''duration_ns'' = JInt d"
    "list_all2 (advances d (tm_max_advance_ns (demo_timing 1))) os (tm_arrivals (demo_timing 1))"
    "tm_moved_count (demo_timing 1)
       = int (length (filter (\<lambda>a. ar_scheduled_ns a \<noteq> ar_original_ns a) (tm_arrivals (demo_timing 1))))" by blast
  then have "os = demo_os" "d = 300" by (simp_all add: demo_offers demo_duration)
  with found show ?thesis by (simp add: demo_timing_def demo_arrivals_def)
qed

lemma timing_roundtrip_witness:
  "validate_timing demo_codec demo_reader demo_plan (timing_json (demo_timing 1))
     = Inr [demo_offer 0 0 0, demo_offer 1 20 0, demo_offer 2 90 0, demo_offer 3 120 1]"
proof -
  have offers: "source_offers demo_codec demo_reader demo_plan
      = Inr demo_os"
    by (simp add: demo_offers)
  have "validate_timing demo_codec demo_reader demo_plan (timing_json (demo_timing 1))
      = Inr (retime demo_os
          (tm_arrivals (demo_timing 1)))"
    by (rule conjunct1 [OF timing_roundtrip [OF demo_made offers]])
      (simp_all add: max_exact_integer_def demo_canonical demo_os_def)
  then show ?thesis by (simp add: retime_def demo_timing_def demo_arrivals_def demo_os_def demo_offer_def)
qed

definition demo_groups :: "timing_group list" where
  "demo_groups =
     [\<lparr>tg_group_id = ''e0-g0000'', tg_epoch = 0, tg_ordinal = 0, tg_indices = [0, 1], tg_moved_count = 1\<rparr>,
      \<lparr>tg_group_id = ''e0-g0001'', tg_epoch = 0, tg_ordinal = 1, tg_indices = [2], tg_moved_count = 0\<rparr>,
      \<lparr>tg_group_id = ''e1-g0000'', tg_epoch = 1, tg_ordinal = 0, tg_indices = [3], tg_moved_count = 0\<rparr>]"

lemma demo_group_ids:
  "group_id 0 0 = ''e0-g0000''" "group_id 0 1 = ''e0-g0001''" "group_id 1 0 = ''e1-g0000''"
  by code_simp+

lemma demo_collected: "collect_groups 2 (-1) 0 0 None (zip demo_os demo_arrivals) = demo_groups"
  by (simp add: demo_os_def demo_offer_def demo_arrivals_def demo_groups_def Let_def add_to_group_def
      demo_group_ids [simplified])

lemma demo_source:
  assumes "0 \<le> seed" "seed < 2 ^ 32"
  shows "source_groups demo_codec demo_reader (demo_block seed) demo_parameters = Inr (demo_timing seed, demo_os, demo_groups)"
proof -
  define ps where "ps = map (\<lambda>(k, v). (ascii_text k, v))
    [(''group_size'', JInt 2), (''retained_spacing_bps'', JInt 5000), (''max_advance_ns'', JInt 100)]"
  have made: "make_from_parameters demo_codec demo_reader (demo_block seed) ps = Inr (demo_timing seed)"
    unfolding make_from_parameters_def ps_def get_null_jobj by (simp add: demo_made_seed [OF assms])
  have same: "same_fields ps parameter_names"
    by (simp add: same_fields_def ps_def parameter_names_def insert_commute)
  have json: "demo_parameters = JObj ps" by (simp add: demo_parameters_def jobj_def ps_def)
  have fields: "tm_group_size (demo_timing seed) = 2" "tm_arrivals (demo_timing seed) = demo_arrivals"
    by (simp_all add: demo_timing_def)
  show ?thesis
    unfolding source_groups_def json json.case made demo_offers_seed [OF assms] rbind.simps fields demo_collected
    by (simp add: same)
qed

definition demo_mask :: json where
  "demo_mask = JArr [JStr (ascii_text ''e0-g0000'')]"

lemma demo_retained: "check_retained demo_groups demo_mask = Inr [ascii_text ''e0-g0000'']"
  by (simp add: check_retained_def demo_groups_def demo_mask_def active_of_def Let_def)

lemma demo_reduced:
  assumes "0 \<le> seed" "seed < 2 ^ 32"
  shows "\<exists>t. make_reduced_timing demo_codec demo_reader (demo_block seed) demo_parameters demo_mask = Inr t
    \<and> rt_retained_groups t = [ascii_text ''e0-g0000''] \<and> rt_source t = demo_timing seed \<and> rt_moved_count t = 1"
proof -
  obtain rows where rows: "population_rows demo_codec (plan_members (demo_block seed)) demo_os = Inr rows"
    using demo_population by blast
  have restored: "map (restore_arrival (selected_indices demo_groups [ascii_text ''e0-g0000''])) demo_arrivals = demo_arrivals"
    by (simp add: demo_arrivals_def demo_groups_def restore_arrival_def selected_indices_def active_of_def)
  have arrivals: "tm_arrivals (demo_timing seed) = demo_arrivals" "moved demo_arrivals = 1"
    "max_of (map advance_of demo_arrivals) = Inr 20"
    by (simp_all add: demo_timing_def demo_arrivals_def moved_def advance_of_def max_of_def)
  show ?thesis
    unfolding make_reduced_timing_def demo_source [OF assms] rbind.simps prod.case demo_retained Let_def arrivals
      restored rows
    by (simp add: demo_digest arrivals)
qed

lemma demo_active:
  assumes "0 \<le> seed" "seed < 2 ^ 32"
  shows "active_groups demo_codec demo_reader demo_parameters (demo_block seed) = Inr [ascii_text ''e0-g0000'']"
  by (simp add: active_groups_def original_groups_def demo_source [OF assms] active_of_def demo_groups_def)

lemma demo_block_timings:
  assumes "0 \<le> seed" "seed < 2 ^ 32"
  shows "\<exists>x. block_timings demo_codec demo_reader demo_parameters [ascii_text ''e0-g0000''] (demo_block seed) = Inr x"
proof -
  obtain b where b: "make_timing demo_codec demo_reader (demo_block seed) (JInt 1) (JInt 10000) (JInt 0) = Inr b"
    using demo_baseline_made [OF assms] by blast
  obtain t where "make_reduced_timing demo_codec demo_reader (demo_block seed) demo_parameters
      (JArr [JStr (ascii_text ''e0-g0000'')]) = Inr t" "rt_moved_count t = 1"
    using demo_reduced [OF assms] unfolding demo_mask_def by blast
  with b show ?thesis by (simp add: block_timings_def demo_active [OF assms] Let_def)
qed

lemma reduced_timing_keeps_order_witness:
  "\<exists>t. make_reduced_timing demo_codec demo_reader demo_plan demo_parameters demo_mask = Inr t
     \<and> list_all2 (advances 300 100) demo_os (rt_arrivals t) \<and> sorted (map ar_scheduled_ns (rt_arrivals t))"
proof -
  obtain t where t: "make_reduced_timing demo_codec demo_reader demo_plan demo_parameters demo_mask = Inr t"
    "rt_source t = demo_timing 1" using demo_reduced [of 1] by auto
  from reduced_timing_keeps_order [OF t(1)] obtain os d where found:
    "source_offers demo_codec demo_reader demo_plan = Inr os"
    "get_null (plan_members demo_plan) ''duration_ns'' = JInt d"
    "list_all2 (advances d (tm_max_advance_ns (rt_source t))) os (rt_arrivals t)"
    "sorted (map ar_scheduled_ns (rt_arrivals t))" by blast
  then have "os = demo_os" "d = 300" by (simp_all add: demo_offers demo_duration)
  with found t show ?thesis by (auto simp: demo_timing_def)
qed

end
