(* ===== verification/Pairing.thy ===== *)
theory Pairing
  imports Complex_Main Timing "HOL-Library.Multiset" "HOL-Library.Char_ord"
begin

text \<open>
  Paired comparisons of \<open>vllm_paired_protocol.py\<close> and \<open>vllm_reduced_protocol.py\<close>: the frozen design of
  four cells per block in a Williams order, its protocol artifact with and without a mask of retained
  groups, and the exact directional statistics over the blocks. Fractions are rationals; the float
  approximations the report repeats are kept only as the range check that may refuse them.
\<close>

section \<open>Exact directional statistics\<close>

record direction_summary =
  ds_count :: nat
  ds_direction :: int
  ds_mean :: rat
  ds_median :: rat
  ds_min :: rat
  ds_max :: rat
  ds_exceedances :: nat
  ds_at_margin :: nat
  ds_opposite_or_below :: nat
  ds_pvalue :: rat
  ds_supported :: bool

definition alpha :: rat where
  "alpha = 1 / 40"

definition binomial_tail :: "nat \<Rightarrow> nat \<Rightarrow> rat" where
  "binomial_tail n k = of_nat (\<Sum>i \<leftarrow> [k..<n + 1]. n choose i) / 2 ^ n"

text \<open>\<open>float(value)\<close> raises OverflowError from halfway above the largest double on.\<close>

definition finite_float :: "rat \<Rightarrow> bool" where
  "finite_float v \<longleftrightarrow> \<bar>v\<bar> < 2 ^ 1024 - 2 ^ 970"

definition directional_summary :: "rat list \<Rightarrow> int \<Rightarrow> rat \<Rightarrow> direction_summary checked" where
  "directional_summary values direction margin =
     (let n = length values; ordered = sort values; mean = sum_list values / of_nat n; middle = n div 2;
          median = (ordered ! (middle - 1) + ordered ! middle) / 2;
          oriented = map (\<lambda>v. of_int direction * v) values;
          exceedances = length (filter (\<lambda>v. margin < v) oriented);
          at_margin = length (filter (\<lambda>v. v = margin) oriented);
          pvalue = binomial_tail n exceedances
      in if \<not> list_all finite_float [mean, median, hd ordered, last ordered] then Inl (Refused ''paired rate range'')
         else Inr \<lparr>ds_count = n, ds_direction = direction, ds_mean = mean, ds_median = median,
           ds_min = hd ordered, ds_max = last ordered, ds_exceedances = exceedances,
           ds_at_margin = at_margin, ds_opposite_or_below = n - exceedances - at_margin,
           ds_pvalue = pvalue,
           ds_supported = (pvalue \<le> alpha \<and> margin < of_int direction * mean)\<rparr>)"

definition max_minimum_effect :: int where
  "max_minimum_effect = 10 ^ 12"

definition block_count :: "nat \<Rightarrow> unit checked" where
  "block_count n =
     rbind (exact_integer (JInt (int n)) 4 32 ''block count'') (\<lambda>_.
       raise_if (n mod 4 \<noteq> 0) (Refused ''block count must be a multiple of four''))"

record paired_statistics =
  ps_minimum_effect :: int
  ps_baseline :: direction_summary
  ps_candidate :: direction_summary
  ps_reversal_signal :: bool

definition paired_statistics_of :: "rat list \<Rightarrow> rat list \<Rightarrow> int \<Rightarrow> paired_statistics checked" where
  "paired_statistics_of baseline candidate effect =
     rbind (block_count (length baseline)) (\<lambda>_.
     rbind (raise_if (length candidate \<noteq> length baseline) (Refused ''paired populations'')) (\<lambda>_.
     rbind (exact_integer (JInt effect) 0 max_minimum_effect ''minimum_effect_microrps'') (\<lambda>_.
     let margin = of_int effect / 1000000
     in rbind (directional_summary baseline 1 margin) (\<lambda>b.
        rbind (directional_summary candidate (-1) margin) (\<lambda>c.
        Inr \<lparr>ps_minimum_effect = effect, ps_baseline = b, ps_candidate = c,
             ps_reversal_signal = (ds_supported b \<and> ds_supported c)\<rparr>)))))"

text \<open>The verdict of a comparison.\<close>

datatype comparison_status = INELIGIBLE | REVERSAL_CANDIDATE | INCONCLUSIVE

section \<open>What the statistics mean\<close>

lemma sum_list_choose: "(\<Sum>i \<leftarrow> [k..<n + 1]. n choose i) = (\<Sum>i \<in> {k..n}. n choose i)"
  by (metis add.commute atLeastLessThanSuc_atLeastAtMost distinct_upt plus_1_eq_Suc set_upt sum_list_distinct_conv_sum_set)

text \<open>The tail counts the sets of blocks with at least as many exceedances.\<close>

lemma card_large_subsets: "card {E. E \<subseteq> {..<n} \<and> k \<le> card E} = (\<Sum>i \<in> {k..n}. n choose i)"
proof -
  have "{E. E \<subseteq> {..<n} \<and> k \<le> card E} = (\<Union>i \<in> {k..n}. {E. E \<subseteq> {..<n} \<and> card E = i})"
    using card_mono [of "{..<n}"] by fastforce
  also have "card \<dots> = (\<Sum>i \<in> {k..n}. card {E. E \<subseteq> {..<n} \<and> card E = i})"
    by (rule card_UN_disjoint) auto
  also have "\<dots> = (\<Sum>i \<in> {k..n}. n choose i)"
    using n_subsets [of "{..<n}"] by simp
  finally show ?thesis .
qed

lemma binomial_tail_card: "binomial_tail n k = of_nat (card {E. E \<subseteq> {..<n} \<and> k \<le> card E}) / 2 ^ n"
  by (simp only: binomial_tail_def card_large_subsets sum_list_choose)

lemma finite_subsets: "finite {E. E \<subseteq> {..<n :: nat} \<and> P E}"
  by (rule finite_subset [of _ "Pow {..<n}"]) auto

lemma binomial_tail_antimono: "k \<le> l \<Longrightarrow> binomial_tail n l \<le> binomial_tail n k"
  unfolding binomial_tail_card
  by (intro divide_right_mono) (auto intro!: card_mono finite_subsets)

text \<open>The level of the test: under fair coins at most one set of exceedances in forty is significant.\<close>

lemma significant_sets: "40 * card {E. E \<subseteq> {..<n} \<and> binomial_tail n (card E) \<le> alpha} \<le> 2 ^ n"
proof (cases "\<exists>k. binomial_tail n k \<le> alpha")
  case True
  define k where "k = (LEAST k. binomial_tail n k \<le> alpha)"
  have k: "binomial_tail n k \<le> alpha" unfolding k_def using True by (auto intro: LeastI)
  have "{E. E \<subseteq> {..<n} \<and> binomial_tail n (card E) \<le> alpha} \<subseteq> {E. E \<subseteq> {..<n} \<and> k \<le> card E}"
    unfolding k_def by (auto intro: Least_le)
  then have "card {E. E \<subseteq> {..<n} \<and> binomial_tail n (card E) \<le> alpha} \<le> card {E. E \<subseteq> {..<n} \<and> k \<le> card E}"
    by (rule card_mono [OF finite_subsets])
  moreover have "(of_nat (40 * card {E. E \<subseteq> {..<n} \<and> k \<le> card E}) :: rat) \<le> of_nat (2 ^ n)"
    using k by (simp add: binomial_tail_card alpha_def divide_simps mult.commute)
  then have "40 * card {E. E \<subseteq> {..<n} \<and> k \<le> card E} \<le> 2 ^ n" by (simp only: of_nat_le_iff)
  ultimately show ?thesis by (meson le_trans mult_le_mono2)
next
  case False
  then show ?thesis by simp
qed

text \<open>Of a set and its complement one has at least half of the blocks.\<close>

lemma half_tail:
  assumes "2 * k \<le> n"
  shows "1 / 2 \<le> binomial_tail n k"
proof -
  let ?A = "{E. E \<subseteq> {..<n} \<and> k \<le> card E}"
  have "Pow {..<n} \<subseteq> ?A \<union> (\<lambda>E. {..<n} - E) ` ?A"
  proof
    fix E assume E: "E \<in> Pow {..<n}"
    show "E \<in> ?A \<union> (\<lambda>E. {..<n} - E) ` ?A"
    proof (cases "k \<le> card E")
      case False
      with E assms have "{..<n} - E \<in> ?A" by (auto simp: card_Diff_subset finite_subset)
      moreover have "E = {..<n} - ({..<n} - E)" using E by auto
      ultimately show ?thesis by blast
    qed (use E in auto)
  qed
  then have "card (Pow {..<n}) \<le> card (?A \<union> (\<lambda>E. {..<n} - E) ` ?A)"
    by (rule card_mono [rotated]) (simp add: finite_subsets)
  also have "\<dots> \<le> card ?A + card ?A"
    by (rule le_trans [OF card_Un_le]) (simp add: card_image_le finite_subsets)
  finally have "2 ^ n \<le> 2 * card ?A" by (simp add: card_Pow)
  then have "(of_nat (2 ^ n) :: rat) \<le> of_nat (2 * card ?A)" by (simp only: of_nat_le_iff)
  then show ?thesis by (simp add: binomial_tail_card divide_simps mult.commute)
qed

lemma significant_majority: "binomial_tail n k \<le> alpha \<Longrightarrow> n < 2 * k"
  using half_tail [of k n] by (force simp: alpha_def)

lemma four_blocks_insignificant: "k \<le> 4 \<Longrightarrow> \<not> binomial_tail 4 k \<le> alpha"
proof -
  assume "k \<le> 4"
  then have "binomial_tail 4 4 \<le> binomial_tail 4 k" by (rule binomial_tail_antimono)
  moreover have "binomial_tail 4 4 = 1 / 16" by (simp add: binomial_tail_def)
  ultimately show ?thesis by (simp add: alpha_def)
qed

definition exceeding :: "rat list \<Rightarrow> int \<Rightarrow> rat \<Rightarrow> nat set" where
  "exceeding values direction margin = {i. i < length values \<and> margin < of_int direction * values ! i}"

text \<open>What a summary of one direction says.\<close>

definition direction_spec :: "rat list \<Rightarrow> int \<Rightarrow> rat \<Rightarrow> direction_summary \<Rightarrow> bool" where
  "direction_spec values direction margin d \<longleftrightarrow>
     ds_mean d * of_nat (length values) = sum_list values
     \<and> ds_min d = Min (set values) \<and> ds_max d = Max (set values)
     \<and> ds_min d \<le> ds_median d \<and> ds_median d \<le> ds_max d
     \<and> ds_exceedances d = card (exceeding values direction margin)
     \<and> ds_exceedances d + ds_at_margin d + ds_opposite_or_below d = length values
     \<and> ds_pvalue d = of_nat (card {E. E \<subseteq> {..<length values} \<and> ds_exceedances d \<le> card E}) / 2 ^ length values
     \<and> (ds_supported d \<longleftrightarrow> ds_pvalue d \<le> 1 / 40 \<and> margin < of_int direction * ds_mean d)
     \<and> (\<not> ds_supported d \<or> 8 \<le> length values \<and> length values < 2 * ds_exceedances d)"

lemma sort_ends:
  fixes vs :: "'a :: linorder list"
  assumes "vs \<noteq> []"
  shows "hd (sort vs) = Min (set vs)" "last (sort vs) = Max (set vs)"
proof -
  have nonempty: "sort vs \<noteq> []" using assms by (metis length_0_conv length_sort)
  then obtain x xs where "sort vs = x # xs" by (cases "sort vs") auto
  moreover have "sorted (sort vs)" "set (sort vs) = set vs" by simp_all
  ultimately have "hd (sort vs) \<in> set vs" "\<forall>y \<in> set vs. hd (sort vs) \<le> y" by auto
  then show "hd (sort vs) = Min (set vs)" by (intro Min_eqI [symmetric]) auto
  have "sorted (butlast (sort vs) @ [last (sort vs)])" using nonempty by simp
  then have "\<forall>y \<in> set (butlast (sort vs) @ [last (sort vs)]). y \<le> last (sort vs)"
    by (simp only: sorted_append) auto
  then have "\<forall>y \<in> set vs. y \<le> last (sort vs)" using nonempty by simp
  moreover have "last (sort vs) \<in> set vs" using nonempty last_in_set [of "sort vs"] by simp
  ultimately show "last (sort vs) = Max (set vs)" by (intro Max_eqI [symmetric]) auto
qed

lemma middle_between:
  fixes vs :: "rat list"
  assumes "vs \<noteq> []" "i < length vs" "j < length vs"
  shows "Min (set vs) \<le> (sort vs ! i + sort vs ! j) / 2" "(sort vs ! i + sort vs ! j) / 2 \<le> Max (set vs)"
proof -
  have "sort vs ! k \<in> set vs" if "k < length vs" for k using that nth_mem [of k "sort vs"] by simp
  then have "Min (set vs) \<le> sort vs ! k \<and> sort vs ! k \<le> Max (set vs)" if "k < length vs" for k
    using that by simp
  from this [OF assms(2)] this [OF assms(3)]
  show "Min (set vs) \<le> (sort vs ! i + sort vs ! j) / 2" "(sort vs ! i + sort vs ! j) / 2 \<le> Max (set vs)"
    by simp_all
qed

lemma length_filter_nth: "length (filter P (map f vs)) = card {i. i < length vs \<and> P (f (vs ! i))}"
  by (simp add: length_filter_conv_card cong: conj_cong)

lemma exceedances_disjoint:
  "length (filter (\<lambda>v. margin < v) os) + length (filter (\<lambda>v. v = margin) os) \<le> length (os :: rat list)"
  by (induction os) auto

lemma directional_summary_spec:
  assumes "directional_summary vs direction margin = Inr d" and "4 \<le> length vs" and "length vs mod 4 = 0"
  shows "direction_spec vs direction margin d"
proof -
  have nonempty: "vs \<noteq> []" using assms(2) by auto
  note d = assms(1) [unfolded directional_summary_def Let_def]
  have fields: "ds_mean d = sum_list vs / of_nat (length vs)" "ds_min d = Min (set vs)" "ds_max d = Max (set vs)"
    "ds_median d = (sort vs ! (length vs div 2 - 1) + sort vs ! (length vs div 2)) / 2"
    "ds_exceedances d = card (exceeding vs direction margin)"
    "ds_pvalue d = binomial_tail (length vs) (ds_exceedances d)"
    "ds_supported d \<longleftrightarrow> ds_pvalue d \<le> alpha \<and> margin < of_int direction * ds_mean d"
    using d sort_ends [OF nonempty] unfolding exceeding_def length_filter_nth by (auto split: if_splits)
  have counts: "ds_exceedances d + ds_at_margin d + ds_opposite_or_below d = length vs"
    using d exceedances_disjoint [of margin "map (\<lambda>v. of_int direction * v) vs"] by (auto split: if_splits)
  have large: "8 \<le> length vs" "length vs < 2 * ds_exceedances d" if "ds_supported d"
  proof -
    have significant: "binomial_tail (length vs) (ds_exceedances d) \<le> alpha" using fields(6,7) that by simp
    then show "length vs < 2 * ds_exceedances d" by (rule significant_majority)
    have "ds_exceedances d \<le> length vs" using counts by simp
    with significant four_blocks_insignificant [of "ds_exceedances d"] have "length vs \<noteq> 4" by auto
    with assms(2,3) show "8 \<le> length vs" by presburger
  qed
  have middle: "length vs div 2 - 1 < length vs" "length vs div 2 < length vs" using assms(2) by linarith+
  have median: "ds_min d \<le> ds_median d" "ds_median d \<le> ds_max d"
    unfolding fields(2-4) using middle_between [OF nonempty middle] by blast+
  have mean: "ds_mean d * of_nat (length vs) = sum_list vs" using fields(1) nonempty by simp
  have pvalue: "ds_pvalue d = of_nat (card {E. E \<subseteq> {..<length vs} \<and> ds_exceedances d \<le> card E}) / 2 ^ length vs"
    unfolding fields(6) binomial_tail_card ..
  have support: "ds_supported d \<longleftrightarrow> ds_pvalue d \<le> 1 / 40 \<and> margin < of_int direction * ds_mean d"
    using fields(7) by (simp only: alpha_def)
  have "\<not> ds_supported d \<or> 8 \<le> length vs \<and> length vs < 2 * ds_exceedances d" using large by blast
  then show ?thesis
    unfolding direction_spec_def by (intro conjI mean median fields(2,3,5) counts pvalue support)
qed

lemma paired_statistics_parts:
  assumes "paired_statistics_of baseline candidate effect = Inr s"
  shows "direction_spec baseline 1 (of_int effect / 1000000) (ps_baseline s)"
    "direction_spec candidate (-1) (of_int effect / 1000000) (ps_candidate s)"
    "ps_reversal_signal s \<longleftrightarrow> ds_supported (ps_baseline s) \<and> ds_supported (ps_candidate s)"
proof -
  from assms have parts: "directional_summary baseline 1 (of_int effect / 1000000) = Inr (ps_baseline s)"
    "directional_summary candidate (-1) (of_int effect / 1000000) = Inr (ps_candidate s)"
    "length candidate = length baseline" "4 \<le> length baseline" "length baseline mod 4 = 0"
    "ps_reversal_signal s \<longleftrightarrow> ds_supported (ps_baseline s) \<and> ds_supported (ps_candidate s)"
    by (auto simp: paired_statistics_of_def block_count_def exact_integer_ok result_simps Let_def)
  then show "direction_spec baseline 1 (of_int effect / 1000000) (ps_baseline s)"
    "direction_spec candidate (-1) (of_int effect / 1000000) (ps_candidate s)"
    "ps_reversal_signal s \<longleftrightarrow> ds_supported (ps_baseline s) \<and> ds_supported (ps_candidate s)"
    using directional_summary_spec by metis+
qed


text \<open>Eight blocks that reverse: the baseline favours the first policy in all of them, the candidate the second.\<close>

definition demo_baseline :: "rat list" where
  "demo_baseline = [3, 3, 3, 3, 3, 3, 3, 3]"

definition demo_candidate :: "rat list" where
  "demo_candidate = [-2, -2, -2, -2, -2, -2, -2, -2]"

lemma demo_tail: "binomial_tail 8 8 = 1 / 256"
  by (simp add: binomial_tail_def)

lemma demo_direction:
  "directional_summary demo_baseline 1 1 = Inr \<lparr>ds_count = 8, ds_direction = 1, ds_mean = 3, ds_median = 3, ds_min = 3,
     ds_max = 3, ds_exceedances = 8, ds_at_margin = 0, ds_opposite_or_below = 0, ds_pvalue = 1 / 256, ds_supported = True\<rparr>"
  "directional_summary demo_candidate (-1) 1 = Inr \<lparr>ds_count = 8, ds_direction = -1, ds_mean = -2, ds_median = -2, ds_min = -2,
     ds_max = -2, ds_exceedances = 8, ds_at_margin = 0, ds_opposite_or_below = 0, ds_pvalue = 1 / 256, ds_supported = True\<rparr>"
  by (simp_all add: directional_summary_def demo_baseline_def demo_candidate_def Let_def finite_float_def
      demo_tail [unfolded eval_nat_numeral BitM.simps One_nat_def] alpha_def)


section \<open>The frozen design\<close>

definition paired_policies :: "string list" where
  "paired_policies = [''round_robin'', ''least_busy'', ''cache_only'', ''cache_plus_load'']"

definition williams_rows :: "nat list list" where
  "williams_rows = [[0, 1, 3, 2], [1, 2, 0, 3], [2, 3, 1, 0], [3, 0, 2, 1]]"

definition option_names :: "string list" where
  "option_names = [''policy_a'', ''policy_b'', ''candidate_parameters'', ''order_seed'',
     ''minimum_effect_microrps'', ''max_scheduling_lag_p95_ns'', ''max_client_queue_p95_ns'', ''model'',
     ''source_revision'', ''environment_sha256'', ''reset_procedure_sha256'']"

record paired_options =
  pp_policy_a :: string
  pp_policy_b :: string
  pp_parameters :: members
  pp_order_seed :: int
  pp_minimum_effect :: int
  pp_max_lag :: int
  pp_max_queue :: int
  pp_model :: py_text
  pp_source_revision :: py_text
  pp_environment :: py_text
  pp_reset_procedure :: py_text

definition read_policy :: "json \<Rightarrow> string checked" where
  "read_policy v =
     (case find (\<lambda>p. v = jstr p) paired_policies of
        None \<Rightarrow> Inl (Refused ''paired policy is unsupported'') | Some p \<Rightarrow> Inr p)"

text \<open>Code points that \<open>str.strip\<close> removes.\<close>

definition py_space :: "nat \<Rightarrow> bool" where
  "py_space c \<longleftrightarrow> 9 \<le> c \<and> c \<le> 13 \<or> 28 \<le> c \<and> c \<le> 32
     \<or> c \<in> {0x85, 0xA0, 0x1680, 0x2028, 0x2029, 0x202F, 0x205F, 0x3000} \<or> 0x2000 \<le> c \<and> c \<le> 0x200A"

definition model_text :: "py_text \<Rightarrow> bool" where
  "model_text t \<longleftrightarrow> t \<noteq> [] \<and> length t \<le> 200 \<and> \<not> py_space (hd t) \<and> \<not> py_space (last t)
     \<and> list_all (\<lambda>c. 32 \<le> c \<and> c \<noteq> 127) t"

definition read_text :: "(py_text \<Rightarrow> bool) \<Rightarrow> string \<Rightarrow> json \<Rightarrow> py_text checked" where
  "read_text ok label v =
     (case v of JStr t \<Rightarrow> if ok t then Inr t else Inl (Refused label) | _ \<Rightarrow> Inl (Refused label))"

text \<open>The keyword arguments of \<open>make_protocol\<close>; a missing or unknown one is a TypeError.\<close>

definition read_options :: "members \<Rightarrow> paired_options checked" where
  "read_options options =
     rbind (raise_if (\<not> same_fields options option_names) Python_Error) (\<lambda>_.
     rbind (read_policy (get_null options ''policy_a'')) (\<lambda>a.
     rbind (read_policy (get_null options ''policy_b'')) (\<lambda>b.
     rbind (raise_if (a = b) (Refused ''paired policies must differ'')) (\<lambda>_.
     case get_null options ''candidate_parameters'' of
       JObj parameters \<Rightarrow>
         rbind (raise_if (\<not> same_fields parameters parameter_names) ParameterFields) (\<lambda>_.
         rbind (exact_integer (get_null options ''order_seed'') 0 (2 ^ 32 - 1) ''order_seed'') (\<lambda>seed.
         rbind (exact_integer (get_null options ''minimum_effect_microrps'') 0 max_minimum_effect
             ''minimum_effect_microrps'') (\<lambda>effect.
         rbind (exact_integer (get_null options ''max_scheduling_lag_p95_ns'') 0 max_exact_integer
             ''max_scheduling_lag_p95_ns'') (\<lambda>lag.
         rbind (exact_integer (get_null options ''max_client_queue_p95_ns'') 0 max_exact_integer
             ''max_client_queue_p95_ns'') (\<lambda>queue.
         rbind (read_text model_text ''model'' (get_null options ''model'')) (\<lambda>model.
         rbind (read_text (lower_hex 40) ''source revision'' (get_null options ''source_revision'')) (\<lambda>revision.
         rbind (read_text digest_text ''environment'' (get_null options ''environment_sha256'')) (\<lambda>environment.
         rbind (read_text digest_text ''reset procedure'' (get_null options ''reset_procedure_sha256'')) (\<lambda>reset.
         Inr \<lparr>pp_policy_a = a, pp_policy_b = b, pp_parameters = parameters, pp_order_seed = seed,
              pp_minimum_effect = effect, pp_max_lag = lag, pp_max_queue = queue, pp_model = model,
              pp_source_revision = revision, pp_environment = environment, pp_reset_procedure = reset\<rparr>)))))))))
     | _ \<Rightarrow> Inl ParameterFields))))"

text \<open>\<open>_common_plan\<close>: what the plans of one protocol must share.\<close>

definition common_plan :: "codec \<Rightarrow> members \<Rightarrow> py_bytes checked" where
  "common_plan k plan =
     rbind (need plan ''schema'') (\<lambda>schema.
       let excluded = map ascii_text ([''seed'', ''trace_sha256'', ''plan_sha256'']
             @ (if schema = jstr capacity_schema then [''prompt_tokens_by_index''] else []))
       in canonical k (JObj (filter (\<lambda>(key, _). key \<notin> set excluded) plan)))"

text \<open>One turn of the loop over the plans: the contract, the seeds and the timing digests so far.\<close>

definition check_plan ::
  "codec \<Rightarrow> plan_reader \<Rightarrow> members \<Rightarrow> py_bytes option \<times> json list \<times> (string \<times> string) list \<Rightarrow> json
     \<Rightarrow> (py_bytes option \<times> json list \<times> (string \<times> string) list) checked" where
  "check_plan k validate_plan parameters st plan =
     (case st of (common, seeds, hashes) \<Rightarrow>
        rbind (make_timing k validate_plan plan (JInt 1) (JInt 10000) (JInt 0)) (\<lambda>baseline.
        rbind (need (plan_members plan) ''phase'') (\<lambda>phase.
        rbind (raise_if (phase \<notin> {jstr ''fixture'', jstr ''evaluation''}) UnsupportedPhase) (\<lambda>_.
        rbind (common_plan k (plan_members plan)) (\<lambda>contract.
        rbind (raise_if (common \<noteq> None \<and> common \<noteq> Some contract) (Refused ''paired source plans differ'')) (\<lambda>_.
        rbind (need (plan_members plan) ''seed'') (\<lambda>seed.
        rbind (raise_if (seed \<in> set seeds) (Refused ''workload seed repeated'')) (\<lambda>_.
        rbind (make_from_parameters k validate_plan plan parameters) (\<lambda>candidate.
        rbind (raise_if (tm_moved_count candidate = 0) (Refused ''candidate moves nothing'')) (\<lambda>_.
        Inr (Some contract, seed # seeds, hashes @ [(tm_timing_sha256 baseline, tm_timing_sha256 candidate)])))))))))))"

datatype condition = BASELINE | CANDIDATE

definition condition_name :: "condition \<Rightarrow> string" where
  "condition_name c = (case c of BASELINE \<Rightarrow> ''baseline'' | CANDIDATE \<Rightarrow> ''candidate'')"

record trial =
  tr_trial_id :: string
  tr_block :: nat
  tr_position :: nat
  tr_sequence :: nat
  tr_seed :: json
  tr_condition :: condition
  tr_policy :: string
  tr_base_plan_sha256 :: json
  tr_timing_sha256 :: string

definition cells :: "paired_options \<Rightarrow> (condition \<times> string) list" where
  "cells opts = [(BASELINE, pp_policy_a opts), (BASELINE, pp_policy_b opts),
     (CANDIDATE, pp_policy_a opts), (CANDIDATE, pp_policy_b opts)]"

text \<open>
  The rows of one group of four blocks, sorted by digest. Hexadecimal digests of one length sort like
  the bytes they spell.
\<close>

definition row_digest :: "codec \<Rightarrow> int \<Rightarrow> nat \<Rightarrow> nat \<Rightarrow> string checked" where
  "row_digest k order_seed quad row =
     rbind (canonical k (jobj [(''order_seed'', JInt order_seed), (''group'', JInt (int quad)), (''row'', JInt (int row))]))
       (\<lambda>b. Inr (cd_sha256 k b))"

definition group_order :: "codec \<Rightarrow> int \<Rightarrow> nat \<Rightarrow> nat list checked" where
  "group_order k order_seed quad =
     rbind (res_map (row_digest k order_seed quad) [0..<4]) (\<lambda>digests.
       Inr (sort_key (\<lambda>row. digests ! row) [0..<4]))"

definition trial_id :: "nat \<Rightarrow> condition \<Rightarrow> string \<Rightarrow> string" where
  "trial_id block c policy = ''b'' @ zpad 2 block @ ''-'' @ condition_name c @ ''-'' @ policy"

definition make_trial :: "paired_options \<Rightarrow> json \<Rightarrow> json \<Rightarrow> string \<times> string \<Rightarrow> nat \<Rightarrow> nat \<times> nat \<Rightarrow> trial" where
  "make_trial opts seed plan_sha256 hashes index position_cell =
     (case position_cell of (position, cell) \<Rightarrow> case cells opts ! cell of (c, policy) \<Rightarrow>
        \<lparr>tr_trial_id = trial_id (index + 1) c policy, tr_block = index + 1, tr_position = position,
         tr_sequence = 4 * index + position, tr_seed = seed, tr_condition = c, tr_policy = policy,
         tr_base_plan_sha256 = plan_sha256,
         tr_timing_sha256 = (if c = BASELINE then fst hashes else snd hashes)\<rparr>)"

definition block_trials ::
  "codec \<Rightarrow> paired_options \<Rightarrow> nat \<times> json \<times> string \<times> string \<Rightarrow> trial list checked" where
  "block_trials k opts item =
     (case item of (index, plan, hashes) \<Rightarrow>
        rbind (group_order k (pp_order_seed opts) (index div 4)) (\<lambda>order.
        rbind (need (plan_members plan) ''seed'') (\<lambda>seed.
        rbind (need (plan_members plan) ''plan_sha256'') (\<lambda>plan_sha256.
        Inr (map (make_trial opts seed plan_sha256 hashes index)
          (enumerate 1 (williams_rows ! (order ! (index mod 4)))))))))"

record protocol =
  pc_options :: paired_options
  pc_synthetic :: bool
  pc_base_plan_sha256s :: "json list"
  pc_trials :: "trial list"
  pc_mask :: "py_text list option"
  pc_sha256 :: string

definition trial_json :: "trial \<Rightarrow> json" where
  "trial_json t = jobj [(''trial_id'', jstr (tr_trial_id t)), (''block'', JInt (int (tr_block t))),
     (''position'', JInt (int (tr_position t))), (''sequence'', JInt (int (tr_sequence t))),
     (''seed'', tr_seed t), (''condition'', jstr (condition_name (tr_condition t))),
     (''policy'', jstr (tr_policy t)), (''base_plan_sha256'', tr_base_plan_sha256 t),
     (''timing_sha256'', jstr (tr_timing_sha256 t))]"

definition paired_schema :: string where
  "paired_schema = ''inferdrome.vllm-router-paired-protocol.v1''"

definition masked_schema :: string where
  "masked_schema = ''inferdrome.vllm-router-reduced-protocol.v1''"

definition protocol_fields :: "protocol \<Rightarrow> (string \<times> json) list" where
  "protocol_fields p =
     [(''schema'', jstr (if pc_mask p = None then paired_schema else masked_schema)),
      (''scope'', jstr ''EXPLORATORY_SEARCH_ONLY''),
      (''evidence_class'', jstr (if pc_synthetic p then ''SYNTHETIC_ONLY'' else ''LOCAL_MEASUREMENT_ONLY'')),
      (''order_method'', jstr ''SHA256_SORTED_WILLIAMS_FOUR_CELL_V1''),
      (''execution_identity_scope'', jstr ''OPERATOR_DECLARATIONS_NOT_ATTESTATION''),
      (''policy_a'', jstr (pp_policy_a (pc_options p))), (''policy_b'', jstr (pp_policy_b (pc_options p))),
      (''candidate_parameters'', JObj (pp_parameters (pc_options p))),
      (''order_seed'', JInt (pp_order_seed (pc_options p))),
      (''minimum_effect_microrps'', JInt (pp_minimum_effect (pc_options p))),
      (''max_scheduling_lag_p95_ns'', JInt (pp_max_lag (pc_options p))),
      (''max_client_queue_p95_ns'', JInt (pp_max_queue (pc_options p))),
      (''model'', JStr (pp_model (pc_options p))),
      (''source_revision'', JStr (pp_source_revision (pc_options p))),
      (''environment_sha256'', JStr (pp_environment (pc_options p))),
      (''reset_procedure_sha256'', JStr (pp_reset_procedure (pc_options p))),
      (''base_plan_sha256s'', JArr (pc_base_plan_sha256s p)),
      (''trials'', JArr (map trial_json (pc_trials p)))]"

definition mask_fields :: "protocol \<Rightarrow> (string \<times> json) list" where
  "mask_fields p =
     (case pc_mask p of
        None \<Rightarrow> []
      | Some groups \<Rightarrow> [(''retained_groups'', JArr (map JStr groups)),
          (''reduction_scope'', jstr ''WHOLE_ORIGINAL_EPOCH_GROUPS_TIMING_ONLY'')])"

definition protocol_json :: "protocol \<Rightarrow> json" where
  "protocol_json p = jobj (protocol_fields p @ [(''protocol_sha256'', jstr (pc_sha256 p))] @ mask_fields p)"

definition build_protocol ::
  "codec \<Rightarrow> paired_options \<Rightarrow> json list \<Rightarrow> (string \<times> string) list \<Rightarrow> protocol checked" where
  "build_protocol k opts plans hashes =
     rbind (res_map (block_trials k opts) (enumerate 0 (zip plans hashes))) (\<lambda>trials.
     rbind (res_map (\<lambda>plan. need (plan_members plan) ''plan_sha256'') plans) (\<lambda>shas.
     rbind (need (plan_members (hd plans)) ''phase'') (\<lambda>phase.
     let p = \<lparr>pc_options = opts, pc_synthetic = (phase = jstr ''fixture''), pc_base_plan_sha256s = shas,
           pc_trials = concat trials, pc_mask = None, pc_sha256 = []\<rparr>
     in rbind (artifact_digest k (jobj (protocol_fields p))) (\<lambda>d.
        Inr (p\<lparr>pc_sha256 := d\<rparr>)))))"

definition make_protocol ::
  "codec \<Rightarrow> plan_reader \<Rightarrow> json list \<Rightarrow> members \<Rightarrow> protocol checked" where
  "make_protocol k validate_plan plans options =
     rbind (raise_if (\<not> same_fields options option_names) Python_Error) (\<lambda>_.
     rbind (block_count (length plans)) (\<lambda>_.
     rbind (read_options options) (\<lambda>opts.
     rbind (res_fold (check_plan k validate_plan (pp_parameters opts)) (None, [], []) plans) (\<lambda>(_, _, hashes).
     build_protocol k opts plans hashes))))"

text \<open>\<open>make_reduced_protocol\<close>: the same design with the timings of a mask.\<close>

definition pin_timing :: "(timing \<times> reduced_timing) list \<Rightarrow> trial \<Rightarrow> trial" where
  "pin_timing timings t =
     t\<lparr>tr_timing_sha256 := (case timings ! (tr_block t - 1) of (baseline, candidate) \<Rightarrow>
        if tr_condition t = BASELINE then tm_timing_sha256 baseline else rt_timing_sha256 candidate)\<rparr>"

definition make_reduced_protocol ::
  "codec \<Rightarrow> plan_reader \<Rightarrow> json list \<Rightarrow> json \<Rightarrow> members \<Rightarrow> protocol checked" where
  "make_reduced_protocol k validate_plan plans retained_groups options =
     guarded ''reduced protocol input''
       (rbind (make_protocol k validate_plan plans options) (\<lambda>source.
        let parameters = JObj (pp_parameters (pc_options source))
        in rbind (group_universe k validate_plan plans parameters) (\<lambda>universe.
           rbind (check_mask retained_groups universe) (\<lambda>retained.
           rbind (all_timings k validate_plan plans parameters retained) (\<lambda>timings.
           let p = source\<lparr>pc_mask := Some retained, pc_trials := map (pin_timing timings) (pc_trials source)\<rparr>
           in rbind (artifact_digest k (jobj (protocol_fields p @ mask_fields p))) (\<lambda>d.
              Inr (p\<lparr>pc_sha256 := d\<rparr>)))))))"

section \<open>Validation\<close>

text \<open>
  An accepted artifact has the canonical bytes of the regenerated protocol, so that what the callers go
  on to read of it is the record returned here.
\<close>

definition pick_options :: "members \<Rightarrow> members checked" where
  "pick_options ms =
     res_map (\<lambda>key. rbind (need ms key) (\<lambda>v. Inr (ascii_text key, v))) option_names"

definition validate_reduced_protocol ::
  "codec \<Rightarrow> plan_reader \<Rightarrow> json list \<Rightarrow> json \<Rightarrow> protocol checked" where
  "validate_reduced_protocol k validate_plan plans artifact =
     guarded ''reduced protocol''
       (case artifact of
          JObj ms \<Rightarrow>
            rbind (artifact_types False [] artifact) (\<lambda>_.
            rbind (pick_options ms) (\<lambda>options.
            rbind (need ms ''retained_groups'') (\<lambda>retained.
            rbind (make_reduced_protocol k validate_plan plans retained options) (\<lambda>expected.
            rbind (require_same k artifact (protocol_json expected) (NotRegenerated ''reduced protocol'')) (\<lambda>_.
            Inr expected)))))
        | _ \<Rightarrow> Inl (NotAnArtifact ''reduced protocol''))"

definition validate_paired_protocol ::
  "codec \<Rightarrow> plan_reader \<Rightarrow> json list \<Rightarrow> json \<Rightarrow> protocol checked" where
  "validate_paired_protocol k validate_plan plans artifact =
     guarded ''paired protocol''
       (case artifact of
          JObj ms \<Rightarrow>
            rbind (artifact_types False [] artifact) (\<lambda>_.
            rbind (pick_options ms) (\<lambda>options.
            rbind (make_protocol k validate_plan plans options) (\<lambda>expected.
            rbind (require_same k artifact (protocol_json expected) (NotRegenerated ''paired protocol'')) (\<lambda>_.
            Inr expected))))
        | _ \<Rightarrow> Inl (NotAnArtifact ''paired protocol''))"

definition validate_protocol :: "codec \<Rightarrow> plan_reader \<Rightarrow> json list \<Rightarrow> json \<Rightarrow> protocol checked" where
  "validate_protocol k validate_plan plans artifact =
     (case artifact of
        JObj ms \<Rightarrow>
          if get_null ms ''schema'' = jstr masked_schema
          then validate_reduced_protocol k validate_plan plans artifact
          else validate_paired_protocol k validate_plan plans artifact
      | _ \<Rightarrow> validate_paired_protocol k validate_plan plans artifact)"

section \<open>The design is balanced\<close>

definition block_cells :: "protocol \<Rightarrow> nat \<Rightarrow> (condition \<times> string) list" where
  "block_cells p block =
     map (\<lambda>t. (tr_condition t, tr_policy t)) (filter (\<lambda>t. tr_block t = block) (pc_trials p))"

text \<open>
  Four blocks that balance positions and first-order carry-over: each block runs the four cells, each
  cell is run once at each position and each cell directly follows every other cell once.
\<close>

definition balanced_rows :: "'c list \<Rightarrow> 'c list list \<Rightarrow> bool" where
  "balanced_rows cs rows \<longleftrightarrow>
     list_all (\<lambda>r. mset r = mset cs) rows
     \<and> list_all (\<lambda>q. mset (map (\<lambda>r. r ! q) rows) = mset cs) [0..<4]
     \<and> mset (concat (map (\<lambda>r. zip r (tl r)) rows)) = mset (filter (\<lambda>(x, y). x \<noteq> y) (List.product cs cs))"

definition balanced_design :: "nat \<Rightarrow> protocol \<Rightarrow> bool" where
  "balanced_design n p \<longleftrightarrow>
     map tr_sequence (pc_trials p) = [1..<4 * n + 1]
     \<and> distinct (map tr_trial_id (pc_trials p))
     \<and> distinct (cells (pc_options p))
     \<and> list_all (\<lambda>quad. balanced_rows (cells (pc_options p)) (map (block_cells p) [4 * quad + 1..<4 * quad + 5]))
         [0..<n div 4]"

lemma mset_map_perm: "mset xs = mset ys \<Longrightarrow> mset (map f xs) = mset (map f ys)"
  by simp

lemma mset_concat_perm: "mset xs = mset ys \<Longrightarrow> mset (concat (map f xs)) = mset (concat (map f ys))"
  by (metis mset_concat mset_map sum_mset_sum_list)

lemma list_all_perm: "mset xs = mset ys \<Longrightarrow> list_all P xs = list_all P ys"
  by (metis list_all_iff set_mset_mset)

lemma four_rows: "[0..<4] = [0, 1, 2, 3 :: nat]"
  by (simp add: upt_rec)

lemma williams_balanced:
  assumes "distinct [a, b, c, d]" and "mset order = mset [0..<4]"
  shows "balanced_rows [a, b, c, d] (map (\<lambda>row. map ((!) [a, b, c, d]) (williams_rows ! row)) order)"
proof -
  define f where "f = (\<lambda>row. map ((!) [a, b, c, d]) (williams_rows ! row))"
  have rows: "f 0 = [a, b, d, c]" "f 1 = [b, c, a, d]" "f 2 = [c, d, b, a]" "f 3 = [d, a, c, b]"
    by (simp_all add: f_def williams_rows_def)
  note perm = assms(2) [unfolded four_rows]
  have "list_all (\<lambda>r. mset r = mset [a, b, c, d]) (map f order)"
    using list_all_perm [OF mset_map_perm [OF perm, of f]] by (simp add: rows [simplified])
  moreover have "mset (map (\<lambda>r. r ! q) (map f order)) = mset [a, b, c, d]" if "q \<in> {0, 1, 2, 3}" for q
    using mset_map_perm [OF perm, of "\<lambda>row. f row ! q"] that by (auto simp: rows [simplified] comp_def)
  moreover have "mset (concat (map (\<lambda>r. zip r (tl r)) (map f order)))
      = mset (filter (\<lambda>(x, y). x \<noteq> y) (List.product [a, b, c, d] [a, b, c, d]))"
    using mset_concat_perm [OF perm, of "\<lambda>row. zip (f row) (tl (f row))"] assms(1)
    by (auto simp: rows [simplified] comp_def)
  ultimately show ?thesis by (simp add: balanced_rows_def four_rows f_def [symmetric])
qed

lemma four_cells_balanced:
  assumes "distinct cs" "length cs = 4" and "mset order = mset [0..<4]"
  shows "balanced_rows cs (map (\<lambda>row. map ((!) cs) (williams_rows ! row)) order)"
proof -
  from assms(2) obtain a b c d where "cs = [a, b, c, d]"
    by (auto simp: eval_nat_numeral length_Suc_conv)
  then show ?thesis using williams_balanced [of a b c d order] assms(1,3) by simp
qed

text \<open>Trials by block.\<close>

lemma filter_concat_nth:
  assumes "i < length xss" and "\<And>j x. j < length xss \<Longrightarrow> x \<in> set (xss ! j) \<Longrightarrow> P x \<longleftrightarrow> j = i"
  shows "filter P (concat xss) = xss ! i"
proof -
  have parts: "concat xss = concat (take i xss) @ xss ! i @ concat (drop (Suc i) xss)"
    using assms(1) by (metis concat.simps(2) concat_append id_take_nth_drop)
  have "x \<notin> set (concat (take i xss))" if "P x" for x
  proof
    assume "x \<in> set (concat (take i xss))"
    then obtain xs where "xs \<in> set (take i xss)" "x \<in> set xs" by auto
    then obtain j where "j < i" "x \<in> set (xss ! j)" using assms(1) by (auto simp: in_set_conv_nth [of xs])
    then show False using assms(2) [of j x] assms(1) that by simp
  qed
  moreover have "x \<notin> set (concat (drop (Suc i) xss))" if "P x" for x
  proof
    assume "x \<in> set (concat (drop (Suc i) xss))"
    then obtain xs where "xs \<in> set (drop (Suc i) xss)" "x \<in> set xs" by auto
    then obtain j where "j < length (drop (Suc i) xss)" "xs = drop (Suc i) xss ! j"
      by (auto simp: in_set_conv_nth [of xs])
    with \<open>x \<in> set xs\<close> have "Suc i + j < length xss" "x \<in> set (xss ! (Suc i + j))" by auto
    then show False using assms(2) [of "Suc i + j" x] that by simp
  qed
  moreover have "filter P (xss ! i) = xss ! i" using assms by (auto simp: filter_id_conv)
  ultimately have "filter P (concat (take i xss)) = []" "filter P (concat (drop (Suc i) xss)) = []"
    "filter P (xss ! i) = xss ! i" by (auto simp: filter_empty_conv)
  then show ?thesis unfolding parts filter_append by simp
qed

lemma concat_fours: "concat (map (\<lambda>i. [4 * i + 1..<4 * i + 5]) [0..<n]) = [1..<4 * n + 1]"
proof (induction n)
  case (Suc n)
  then show ?case using upt_add_eq_append [of 1 "4 * n + 1" 4] by (simp add: add.commute)
qed simp

text \<open>The trials of one block.\<close>

definition row_of :: "codec \<Rightarrow> paired_options \<Rightarrow> nat \<Rightarrow> nat list" where
  "row_of k opts index =
     williams_rows ! ((case group_order k (pp_order_seed opts) (index div 4) of Inr order \<Rightarrow> order) ! (index mod 4))"

lemma group_order_perm: "group_order k seed quad = Inr order \<Longrightarrow> mset order = mset [0..<4]"
  by (auto simp: group_order_def result_simps)

lemma williams_row:
  assumes "r < 4"
  shows "length (williams_rows ! r) = 4" "set (williams_rows ! r) = {0, 1, 2, 3}" "distinct (williams_rows ! r)"
proof -
  have "r \<in> {0, 1, 2, 3}" using assms by auto
  then show "length (williams_rows ! r) = 4" "set (williams_rows ! r) = {0, 1, 2, 3}" "distinct (williams_rows ! r)"
    by (auto simp: williams_rows_def)
qed

lemma order_nth:
  assumes "group_order k seed quad = Inr order" "i < 4"
  shows "order ! i < 4" "length order = 4"
proof -
  note perm = group_order_perm [OF assms(1)]
  have length: "length order = 4" using arg_cong [OF perm, of size] by simp
  then show "length order = 4" .
  from length assms(2) have "order ! i \<in> set order" by simp
  also have "set order = {0..<4}" using arg_cong [OF perm, of set_mset] by simp
  finally show "order ! i < 4" by simp
qed

lemma block_trials_ok:
  assumes "block_trials k opts (i, plan, hashes) = Inr ts"
  shows "map tr_sequence ts = [4 * i + 1..<4 * i + 5]"
    and "map (\<lambda>t. (tr_condition t, tr_policy t)) ts = map ((!) (cells opts)) (row_of k opts i)"
    and "t \<in> set ts \<Longrightarrow> tr_block t = i + 1 \<and> tr_trial_id t = trial_id (i + 1) (tr_condition t) (tr_policy t)
       \<and> tr_timing_sha256 t = (if tr_condition t = BASELINE then fst hashes else snd hashes)"
    and "mset (row_of k opts i) = mset [0..<4]"
proof -
  from assms obtain order seed sha where order: "group_order k (pp_order_seed opts) (i div 4) = Inr order"
    and ts: "ts = map (make_trial opts seed sha hashes i) (enumerate 1 (williams_rows ! (order ! (i mod 4))))"
    by (auto simp: block_trials_def result_simps)
  have row: "row_of k opts i = williams_rows ! (order ! (i mod 4))" by (simp add: row_of_def order)
  note bound = williams_row [OF order_nth(1) [OF order, of "i mod 4"]]
  have length: "length (row_of k opts i) = 4" unfolding row by (rule bound) simp
  have made: "tr_sequence (make_trial opts seed sha hashes i (q, c)) = 4 * i + q"
    "(tr_condition (make_trial opts seed sha hashes i (q, c)), tr_policy (make_trial opts seed sha hashes i (q, c))) = cells opts ! c"
    "tr_block (make_trial opts seed sha hashes i (q, c)) = i + 1" for q c
    by (simp_all add: make_trial_def split: prod.splits)
  show "map tr_sequence ts = [4 * i + 1..<4 * i + 5]"
    unfolding ts row [symmetric] using length
    by (intro nth_equalityI) (auto simp: nth_enumerate_eq made)
  show "map (\<lambda>t. (tr_condition t, tr_policy t)) ts = map ((!) (cells opts)) (row_of k opts i)"
    unfolding ts row [symmetric] by (intro nth_equalityI) (auto simp: nth_enumerate_eq made)
  show "t \<in> set ts \<Longrightarrow> tr_block t = i + 1 \<and> tr_trial_id t = trial_id (i + 1) (tr_condition t) (tr_policy t)
       \<and> tr_timing_sha256 t = (if tr_condition t = BASELINE then fst hashes else snd hashes)"
    unfolding ts by (auto simp: make_trial_def split: prod.splits)
  have "mset (williams_rows ! r) = mset [0..<4]" if "r < 4" for r
  proof -
    have "r \<in> {0, 1, 2, 3}" using that by auto
    then show ?thesis by (auto simp: williams_rows_def four_rows)
  qed
  then show "mset (row_of k opts i) = mset [0..<4]" unfolding row using order_nth(1) [OF order] by simp
qed

lemma build_protocol_ok:
  assumes "build_protocol k opts plans hashes = Inr p" and "length hashes = length plans"
  obtains tss where "pc_trials p = concat tss" "length tss = length plans" "pc_options p = opts"
    "\<And>i. i < length plans \<Longrightarrow> block_trials k opts (i, plans ! i, hashes ! i) = Inr (tss ! i)"
proof -
  from assms(1) obtain tss where tss: "res_map (block_trials k opts) (enumerate 0 (zip plans hashes)) = Inr tss"
    and p: "pc_trials p = concat tss" "pc_options p = opts"
    by (auto simp: build_protocol_def result_simps Let_def)
  then have all: "list_all2 (\<lambda>x ts. block_trials k opts x = Inr ts) (enumerate 0 (zip plans hashes)) tss"
    by (simp add: res_map_eq_Inr)
  have length: "length tss = length plans" using list_all2_lengthD [OF all] assms(2) by simp
  have "block_trials k opts (i, plans ! i, hashes ! i) = Inr (tss ! i)" if "i < length plans" for i
    using list_all2_nthD [OF all, of i] that assms(2) by (simp add: nth_enumerate_eq)
  with p length show thesis by (intro that)
qed

lemma block_count_ok: "block_count n = Inr u \<Longrightarrow> n \<le> 32 \<and> n mod 4 = 0"
  by (auto simp: block_count_def exact_integer_ok result_simps)

lemma check_plan_hashes:
  assumes "res_fold (check_plan k vp ps) (common, seeds, hashes) plans = Inr (common', seeds', hashes')"
  shows "length hashes' = length hashes + length plans"
  using assms
proof (induction plans arbitrary: common seeds hashes)
  case (Cons plan plans)
  from Cons.prems obtain c s h where "check_plan k vp ps (common, seeds, hashes) plan = Inr (c, s, h)"
    "res_fold (check_plan k vp ps) (c, s, h) plans = Inr (common', seeds', hashes')"
    by (auto simp: result_simps)
  moreover from this(1) have "length h = length hashes + 1"
    by (auto simp: check_plan_def result_simps)
  ultimately show ?case using Cons.IH by simp
qed simp

lemma trial_id_inject:
  assumes "trial_id b c p = trial_id b' c' p'" and "b < 100" "b' < 100"
  shows "b = b'" "c = c'" "p = p'"
proof -
  have "length (zpad 2 b) = length (zpad 2 b')" using assms(2,3) by (simp add: length_zpad)
  with assms(1) have "zpad 2 b = zpad 2 b'" "condition_name c @ ''-'' @ p = condition_name c' @ ''-'' @ p'"
    by (auto simp: trial_id_def)
  then show "b = b'" "c = c'" "p = p'"
    by (auto simp: condition_name_def split: condition.splits)
qed

lemma read_options_policies: "read_options options = Inr opts \<Longrightarrow> distinct (cells opts)"
  by (cases "get_null options ''candidate_parameters''") (auto simp: read_options_def result_simps cells_def)

lemma make_protocol_parts:
  assumes "make_protocol k vp plans options = Inr p"
  obtains tss hashes where "pc_trials p = concat tss" "length tss = length plans" "distinct (cells (pc_options p))"
    "\<And>i. i < length plans \<Longrightarrow> block_trials k (pc_options p) (i, plans ! i, hashes ! i) = Inr (tss ! i)"
    "length plans \<le> 32" "length plans mod 4 = 0"
proof -
  from assms obtain opts hashes x where parts: "block_count (length plans) = Inr ()" "read_options options = Inr opts"
    "res_fold (check_plan k vp (pp_parameters opts)) (None, [], []) plans = Inr (x, hashes)"
    "build_protocol k opts plans (snd hashes) = Inr p"
    by (auto simp: make_protocol_def result_simps)
  have "length (snd hashes) = length plans"
    using check_plan_hashes [of k vp "pp_parameters opts" None "[]" "[]" plans x "fst hashes" "snd hashes"] parts(3) by simp
  from build_protocol_ok [OF parts(4) this] read_options_policies [OF parts(2)] parts(1) that show thesis
    by (metis (no_types, lifting) block_count_ok)
qed

lemma block_trials_order:
  "block_trials k opts item = Inr ts \<Longrightarrow> \<exists>order. group_order k (pp_order_seed opts) (fst item div 4) = Inr order"
  by (cases item) (auto simp: block_trials_def result_simps)

text \<open>The design of a list of blocks.\<close>

lemma blocks_balanced:
  assumes "pc_trials p = concat tss" "length tss = n" "distinct (cells (pc_options p))" "n \<le> 32"
    and trials: "\<And>i. i < n \<Longrightarrow> block_trials k (pc_options p) (item i) = Inr (tss ! i)"
    and item: "\<And>i. fst (item i) = i"
  shows "balanced_design n p"
proof -
  have facts: "map tr_sequence (tss ! i) = [4 * i + 1..<4 * i + 5]"
    "map (\<lambda>t. (tr_condition t, tr_policy t)) (tss ! i) = map ((!) (cells (pc_options p))) (row_of k (pc_options p) i)"
    "t \<in> set (tss ! i) \<Longrightarrow> tr_block t = i + 1 \<and> tr_trial_id t = trial_id (i + 1) (tr_condition t) (tr_policy t)"
    "mset (row_of k (pc_options p) i) = mset [0..<4]"
    if "i < n" for i t
    using block_trials_ok [of k "pc_options p" i "fst (snd (item i))" "snd (snd (item i))" "tss ! i"]
      trials [OF that] item [of i] by (cases "item i"; simp)+
  have "map ((!) tss) [0..<n] = tss" using assms(2) map_nth [of tss] by simp
  then have "map tr_sequence (pc_trials p) = concat (map (map tr_sequence) (map ((!) tss) [0..<n]))"
    using assms(1) by (simp only: map_concat)
  also have "map (map tr_sequence) (map ((!) tss) [0..<n]) = map (\<lambda>i. [4 * i + 1..<4 * i + 5]) [0..<n]"
    using facts(1) by simp
  finally have sequence: "map tr_sequence (pc_trials p) = [1..<4 * n + 1]" by (simp only: concat_fours)
  have cells: "block_cells p (i + 1) = map ((!) (cells (pc_options p))) (row_of k (pc_options p) i)" if "i < n" for i
  proof -
    have "filter (\<lambda>t. tr_block t = i + 1) (concat tss) = tss ! i"
      by (rule filter_concat_nth) (use that assms(2) facts(3) in auto)
    then show ?thesis using facts(2) [OF that] by (simp add: block_cells_def assms(1))
  qed
  have row: "inj_on (\<lambda>t. (tr_condition t, tr_policy t)) (set (tss ! i))" if "i < n" for i
  proof -
    have "distinct (row_of k (pc_options p) i)" "set (row_of k (pc_options p) i) = {0..<4}"
      using facts(4) [OF that] by (metis distinct_upt mset_eq_imp_distinct_iff, metis set_mset_mset set_upt)
    moreover have "inj_on ((!) (cells (pc_options p))) {0..<4}"
      using assms(3) by (intro inj_on_nth) (auto simp: cells_def)
    ultimately have "distinct (map (\<lambda>t. (tr_condition t, tr_policy t)) (tss ! i))"
      unfolding facts(2) [OF that] by (simp add: distinct_map)
    then show ?thesis by (simp add: distinct_map)
  qed
  have "inj_on tr_trial_id (set (pc_trials p))"
  proof (rule inj_onI)
    fix t u assume t: "t \<in> set (pc_trials p)" and u: "u \<in> set (pc_trials p)" and id: "tr_trial_id t = tr_trial_id u"
    from t obtain i where i: "i < n" "t \<in> set (tss ! i)" using assms(1,2) by (auto simp: in_set_conv_nth [of _ tss])
    from u obtain j where j: "j < n" "u \<in> set (tss ! j)" using assms(1,2) by (auto simp: in_set_conv_nth [of _ tss])
    have "trial_id (i + 1) (tr_condition t) (tr_policy t) = trial_id (j + 1) (tr_condition u) (tr_policy u)"
      using facts(3) [OF i] facts(3) [OF j] id by simp
    from trial_id_inject [OF this] i(1) j(1) assms(4)
    have "i = j" "tr_condition t = tr_condition u" "tr_policy t = tr_policy u" by simp_all
    then show "t = u" using inj_onD [OF row [OF i(1)]] i(2) j(2) by simp
  qed
  moreover have "distinct (pc_trials p)" using sequence by (metis distinct_map distinct_upt)
  ultimately have ids: "distinct (map tr_trial_id (pc_trials p))" by (simp add: distinct_map)
  have "balanced_rows (cells (pc_options p)) (map (block_cells p) [4 * q + 1..<4 * q + 5])" if "q < n div 4" for q
  proof -
    define order where "order = (case group_order k (pp_order_seed (pc_options p)) q of Inr order \<Rightarrow> order)"
    have bound: "4 * q + j < n" if "j < 4" for j using \<open>q < n div 4\<close> that by linarith
    from block_trials_order [OF trials [OF bound [of 0]]] item
    have order: "group_order k (pp_order_seed (pc_options p)) q = Inr order" by (auto simp: order_def)
    have "map (block_cells p) [4 * q + 1..<4 * q + 5] = map (\<lambda>j. block_cells p (4 * q + j + 1)) [0..<4]"
      by (simp add: upt_rec)
    also have "\<dots> = map (\<lambda>j. map ((!) (cells (pc_options p))) (williams_rows ! (order ! j))) [0..<4]"
      using cells [OF bound] by (auto simp: row_of_def order_def)
    also have "\<dots> = map (\<lambda>row. map ((!) (cells (pc_options p))) (williams_rows ! row)) (map ((!) order) [0..<4])"
      by simp
    also have "map ((!) order) [0..<4] = order"
      using order_nth(2) [OF order, of 0] by (metis map_nth zero_less_numeral)
    finally have rows: "map (block_cells p) [4 * q + 1..<4 * q + 5]
      = map (\<lambda>row. map ((!) (cells (pc_options p))) (williams_rows ! row)) order" .
    show ?thesis
      unfolding rows by (rule four_cells_balanced [OF assms(3) _ group_order_perm [OF order]]) (simp add: cells_def)
  qed
  with sequence ids assms(3) show ?thesis by (simp add: balanced_design_def list_all_iff)
qed

lemma make_protocol_balanced:
  assumes "make_protocol k vp plans options = Inr p"
  shows "balanced_design (length plans) p"
proof -
  from assms show ?thesis
  proof (rule make_protocol_parts)
    fix tss hashes
    assume tss: "pc_trials p = concat tss" "length tss = length plans" "distinct (cells (pc_options p))"
      and trials: "\<And>i. i < length plans \<Longrightarrow> block_trials k (pc_options p) (i, plans ! i, hashes ! i) = Inr (tss ! i)"
      and "length plans \<le> 32" "length plans mod 4 = 0"
    show ?thesis
      by (rule blocks_balanced [where item = "\<lambda>i. (i, plans ! i, hashes ! i)", OF tss \<open>length plans \<le> 32\<close> trials])
        simp_all
  qed
qed

lemma reduced_protocol_parts:
  assumes "make_reduced_protocol k vp plans retained options = Inr p"
  obtains source m ts d where "make_protocol k vp plans options = Inr source"
    "p = source\<lparr>pc_mask := Some m, pc_trials := map (pin_timing ts) (pc_trials source), pc_sha256 := d\<rparr>"
  using assms by (auto simp: make_reduced_protocol_def Let_def result_simps)

text \<open>Pinning other timings does not touch the design.\<close>

lemma pin_timing_fields [simp]:
  "tr_trial_id (pin_timing ts t) = tr_trial_id t" "tr_sequence (pin_timing ts t) = tr_sequence t"
  "tr_block (pin_timing ts t) = tr_block t" "tr_condition (pin_timing ts t) = tr_condition t"
  "tr_policy (pin_timing ts t) = tr_policy t"
  by (simp_all add: pin_timing_def)

lemma balanced_pinned:
  assumes "balanced_design n p" "pc_options q = pc_options p" "pc_trials q = map (pin_timing ts) (pc_trials p)"
  shows "balanced_design n q"
proof -
  have "block_cells q = block_cells p"
    by (rule ext) (simp add: block_cells_def assms(3) filter_map comp_def)
  then show ?thesis using assms by (simp add: balanced_design_def comp_def)
qed

lemma reduced_protocol_balanced:
  assumes "make_reduced_protocol k vp plans retained options = Inr p"
  shows "balanced_design (length plans) p"
proof -
  from assms obtain source m ts d where source: "make_protocol k vp plans options = Inr source"
    and p: "p = source\<lparr>pc_mask := Some m, pc_trials := map (pin_timing ts) (pc_trials source), pc_sha256 := d\<rparr>"
    by (rule reduced_protocol_parts)
  show ?thesis
    by (rule balanced_pinned [where ts = ts, OF make_protocol_balanced [OF source]]) (simp_all add: p)
qed

lemma validated_protocol:
  assumes "validate_protocol k vp plans artifact = Inr p"
  shows "balanced_design (length plans) p" "4 \<le> length plans" "length plans mod 4 = 0"
proof -
  from assms have either: "\<exists>options retained. make_protocol k vp plans options = Inr p
      \<or> make_reduced_protocol k vp plans retained options = Inr p"
    by (auto simp: validate_protocol_def validate_paired_protocol_def validate_reduced_protocol_def result_simps
        split: json.splits if_splits)
  then show "balanced_design (length plans) p"
    using make_protocol_balanced reduced_protocol_balanced by blast
  from either obtain options source where made: "make_protocol k vp plans options = Inr source"
    by (blast elim: reduced_protocol_parts)
  show "4 \<le> length plans" "length plans mod 4 = 0"
    using made by (auto simp: make_protocol_def block_count_def result_simps exact_integer_ok)
qed

text \<open>
  C11: every protocol of the code, with or without a mask, is a balanced design: its trials are numbered in
  execution order with distinct identities, each block runs the four cells once, and within every four
  blocks each cell is run once at each position and directly follows every other cell exactly once -
  whatever order the digests put the rows in.
\<close>

theorem protocol_balanced:
  assumes "make_protocol k vp plans options = Inr p
    \<or> make_reduced_protocol k vp plans retained options = Inr p"
  shows "balanced_design (length plans) p"
  using assms make_protocol_balanced reduced_protocol_balanced by blast

section \<open>A protocol is an artifact that regenerates itself\<close>

lemma plain_object: "plain_value (JObj ms) \<longleftrightarrow> list_all (\<lambda>(_, v). plain_value v) ms"
proof -
  have "artifact_members False [] ms = Inr () \<longleftrightarrow> list_all (\<lambda>(_, v). plain_value v) ms"
    by (induction ms) (auto simp: result_simps plain_value_def artifact_types_path(1) [of "[_]" _ "[]"])
  then show ?thesis by (simp add: plain_value_def)
qed

lemma source_member_plain:
  assumes "source_offers k vp plan = Inr os" "need (plan_members plan) key = Inr v" "[ascii_text key] \<notin> set flag_paths"
  shows "plain_value v"
proof -
  from assms(1) obtain ms where ms: "plan = JObj ms" "read_offers k vp ms = Inr os" by (auto simp: source_offers_ok)
  then have "plan_members plan = ms" by (simp add: plan_members_def)
  then show ?thesis
    using plain_member [OF read_offers_ok(2) [OF ms(2)] _ assms(3)] assms(2) by (simp add: need_def split: option.splits)
qed

lemma checked_plans:
  assumes "res_fold (check_plan k vp parameters) start plans = Inr st" "plan \<in> set plans"
  shows "\<exists>os t. source_offers k vp plan = Inr os \<and> make_from_parameters k vp plan parameters = Inr t"
  using assms
proof (induction plans arbitrary: start)
  case (Cons x xs)
  then obtain st1 where step: "check_plan k vp parameters start x = Inr st1"
    and rest: "res_fold (check_plan k vp parameters) st1 xs = Inr st" by (auto simp: result_simps)
  show ?case
  proof (cases "plan = x")
    case True
    obtain c seeds hs where start: "start = (c, seeds, hs)" by (cases start)
    from step obtain b t where "make_timing k vp x (JInt 1) (JInt 10000) (JInt 0) = Inr b"
      "make_from_parameters k vp x parameters = Inr t" by (auto simp: check_plan_def start elim!: rbind_okE)
    with True make_timing_parts [OF this(1)] show ?thesis by metis
  next
    case False
    with Cons.IH [OF rest] Cons.prems(2) show ?thesis by simp
  qed
qed simp

lemma parameters_plain:
  assumes "make_from_parameters k vp plan parameters = Inr t" "same_fields parameters parameter_names"
    and "distinct (map fst parameters)"
  shows "plain_value (JObj parameters)"
proof -
  from assms(1) have "plain_value (get_null parameters ''group_size'')"
    "plain_value (get_null parameters ''retained_spacing_bps'')" "plain_value (get_null parameters ''max_advance_ns'')"
  proof (unfold make_from_parameters_def, goal_cases)
    case (1)
    then obtain os g b m d where parts: "source_offers k vp plan = Inr os" "get_null parameters ''group_size'' = JInt g"
      "1 \<le> g" "g \<le> 1024" "get_null parameters ''retained_spacing_bps'' = JInt b" "0 \<le> b" "b \<le> 10000"
      "get_null parameters ''max_advance_ns'' = JInt m" "0 \<le> m" "m \<le> d"
      "get_null (plan_members plan) ''duration_ns'' = JInt d" by (rule make_timing_parts)
    then show ?case by (simp add: max_exact_integer_def)
  next
    case 2
    then obtain b where "get_null parameters ''retained_spacing_bps'' = JInt b" "0 \<le> b" "b \<le> 10000"
      by (rule make_timing_parts)
    then show ?case by (simp add: max_exact_integer_def)
  next
    case 3
    then obtain os m d where parts: "source_offers k vp plan = Inr os" "get_null parameters ''max_advance_ns'' = JInt m"
      "0 \<le> m" "m \<le> d" "get_null (plan_members plan) ''duration_ns'' = JInt d" by (rule make_timing_parts)
    from parts(1) obtain ms where ms: "plan = JObj ms" "read_offers k vp ms = Inr os" by (auto simp: source_offers_ok)
    with read_offers_ok(3) [OF ms(2)] parts show ?case by (auto simp: plan_members_def max_exact_integer_def)
  qed
  moreover have "v = get_null parameters key" if "(ascii_text key, v) \<in> set parameters" for key v
    using that assms(3) by (simp add: get_null_def json_get_def)
  moreover have "fst x \<in> set (map ascii_text parameter_names)" if "x \<in> set parameters" for x
    using assms(2) that by (auto simp: same_fields_def)
  ultimately show ?thesis
    unfolding plain_object list_all_iff by (fastforce simp: parameter_names_def)
qed

lemma read_policy_ok: "read_policy v = Inr a \<Longrightarrow> v = jstr a"
  by (auto simp: read_policy_def find_Some_iff split: option.splits)

lemma read_text_ok: "read_text ok label v = Inr t \<Longrightarrow> v = JStr t"
  by (auto simp: read_text_def split: json.splits if_splits)

text \<open>The options a protocol was made from are the ones its artifact spells.\<close>

definition options_read :: "members \<Rightarrow> paired_options \<Rightarrow> bool" where
  "options_read options opts \<longleftrightarrow>
     same_fields options option_names
     \<and> get_null options ''policy_a'' = jstr (pp_policy_a opts)
     \<and> get_null options ''policy_b'' = jstr (pp_policy_b opts)
     \<and> get_null options ''candidate_parameters'' = JObj (pp_parameters opts)
     \<and> same_fields (pp_parameters opts) parameter_names
     \<and> get_null options ''order_seed'' = JInt (pp_order_seed opts)
     \<and> 0 \<le> pp_order_seed opts
     \<and> pp_order_seed opts < 2 ^ 32
     \<and> get_null options ''minimum_effect_microrps'' = JInt (pp_minimum_effect opts)
     \<and> 0 \<le> pp_minimum_effect opts
     \<and> pp_minimum_effect opts \<le> max_minimum_effect
     \<and> get_null options ''max_scheduling_lag_p95_ns'' = JInt (pp_max_lag opts)
     \<and> 0 \<le> pp_max_lag opts
     \<and> pp_max_lag opts \<le> max_exact_integer
     \<and> get_null options ''max_client_queue_p95_ns'' = JInt (pp_max_queue opts)
     \<and> 0 \<le> pp_max_queue opts
     \<and> pp_max_queue opts \<le> max_exact_integer
     \<and> get_null options ''model'' = JStr (pp_model opts)
     \<and> get_null options ''source_revision'' = JStr (pp_source_revision opts)
     \<and> get_null options ''environment_sha256'' = JStr (pp_environment opts)
     \<and> get_null options ''reset_procedure_sha256'' = JStr (pp_reset_procedure opts)"

lemma read_options_read:
  assumes "read_options options = Inr opts"
  shows "options_read options opts"
proof -
  from assms obtain parameters where parameters: "get_null options ''candidate_parameters'' = JObj parameters"
    by (cases "get_null options ''candidate_parameters''") (auto simp: read_options_def elim!: rbind_okE)
  show ?thesis
    using assms unfolding read_options_def parameters json.case
    by - (elim rbind_okE, drule Inr_inject, drule read_policy_ok, drule read_policy_ok, (drule read_text_ok)+,
      simp only: exact_integer_ok raise_if_eq_Inr not_not, clarsimp simp: options_read_def parameters)
qed

definition trial_plain :: "trial \<Rightarrow> bool" where
  "trial_plain t \<longleftrightarrow> plain_value (tr_seed t) \<and> plain_value (tr_base_plan_sha256 t)
     \<and> tr_block t \<le> 32 \<and> tr_position t \<le> 128 \<and> tr_sequence t \<le> 128"

lemma trial_plain_json: "trial_plain t \<Longrightarrow> plain_value (trial_json t)"
  by (simp add: trial_plain_def trial_json_def max_exact_integer_def)

lemma block_trials_plain:
  assumes "block_trials k opts (i, plan, hashes) = Inr ts" "source_offers k vp plan = Inr os" "i < 32" "t \<in> set ts"
  shows "trial_plain t"
proof -
  from assms(1) obtain order seed sha where order: "group_order k (pp_order_seed opts) (i div 4) = Inr order"
    and seed: "need (plan_members plan) ''seed'' = Inr seed" and sha: "need (plan_members plan) ''plan_sha256'' = Inr sha"
    and ts: "ts = map (make_trial opts seed sha hashes i) (enumerate 1 (williams_rows ! (order ! (i mod 4))))"
    by (auto simp: block_trials_def result_simps)
  have "length (williams_rows ! (order ! (i mod 4))) = 4"
    using williams_row [OF order_nth(1) [OF order, of "i mod 4"]] by simp
  then have "q \<le> 4" if "(q, c) \<in> set (enumerate 1 (williams_rows ! (order ! (i mod 4))))" for q c
    using that by (auto dest!: in_set_enumerate_eq [THEN iffD1])
  then have "tr_position t \<le> 4" "tr_sequence t = 4 * i + tr_position t" "tr_block t = i + 1"
    "tr_seed t = seed" "tr_base_plan_sha256 t = sha"
    using assms(4) by (auto simp: ts make_trial_def split: prod.splits)
  moreover have "plain_value seed" "plain_value sha"
    using source_member_plain [OF assms(2) seed] source_member_plain [OF assms(2) sha] by (simp_all add: flag_paths_def)
  ultimately show ?thesis using assms(3) by (simp add: trial_plain_def)
qed

lemma read_options_cong:
  assumes "same_fields a option_names \<longleftrightarrow> same_fields b option_names"
    and "\<And>key. key \<in> set option_names \<Longrightarrow> get_null a key = get_null b key"
  shows "read_options a = read_options b"
proof -
  have read: "get_null a ''policy_a'' = get_null b ''policy_a''"
    "get_null a ''policy_b'' = get_null b ''policy_b''"
    "get_null a ''candidate_parameters'' = get_null b ''candidate_parameters''"
    "get_null a ''order_seed'' = get_null b ''order_seed''"
    "get_null a ''minimum_effect_microrps'' = get_null b ''minimum_effect_microrps''"
    "get_null a ''max_scheduling_lag_p95_ns'' = get_null b ''max_scheduling_lag_p95_ns''"
    "get_null a ''max_client_queue_p95_ns'' = get_null b ''max_client_queue_p95_ns''"
    "get_null a ''model'' = get_null b ''model''"
    "get_null a ''source_revision'' = get_null b ''source_revision''"
    "get_null a ''environment_sha256'' = get_null b ''environment_sha256''"
    "get_null a ''reset_procedure_sha256'' = get_null b ''reset_procedure_sha256''"
    by (rule assms(2), simp add: option_names_def)+
  show ?thesis unfolding read_options_def assms(1) read ..
qed

lemma make_protocol_steps:
  assumes "make_protocol k vp plans options = Inr p"
  obtains hashes st where "same_fields options option_names" "block_count (length plans) = Inr ()"
    "read_options options = Inr (pc_options p)"
    "res_fold (check_plan k vp (pp_parameters (pc_options p))) (None, [], []) plans = Inr st" "hashes = snd (snd st)"
    "build_protocol k (pc_options p) plans hashes = Inr p" "pc_mask p = None"
  using assms by (fastforce simp: make_protocol_def build_protocol_def result_simps Let_def)

lemma make_protocol_cong:
  assumes "make_protocol k vp plans options = Inr p" "same_fields options' option_names"
    and "\<And>key. key \<in> set option_names \<Longrightarrow> get_null options' key = get_null options key"
  shows "make_protocol k vp plans options' = Inr p"
proof -
  from assms(1) have "same_fields options option_names" by (rule make_protocol_steps)
  then have "read_options options' = read_options options" using assms(2,3) by (intro read_options_cong) simp_all
  with assms(1) \<open>same_fields options option_names\<close> assms(2) show ?thesis unfolding make_protocol_def by simp
qed

definition protocol_members :: "protocol \<Rightarrow> members" where
  "protocol_members p = plan_members (protocol_json p)"

lemma protocol_json_members: "protocol_json p = JObj (protocol_members p)"
  by (simp add: protocol_members_def protocol_json_def jobj_def plan_members_def)

lemma protocol_member: "json_get (protocol_members p) key
    = map_of (protocol_fields p @ [(''protocol_sha256'', jstr (pc_sha256 p))] @ mask_fields p) key"
  unfolding protocol_members_def protocol_json_def jobj_def plan_members_def json.case by (rule json_get_jobj)

lemma map_of_pairs: "x \<in> set xs \<Longrightarrow> map_of (map (\<lambda>k. (k, f k)) xs) x = Some (f x)"
  by (induction xs) auto

text \<open>The options picked from the artifact give the protocol again.\<close>

lemma picked_options:
  assumes "make_protocol k vp plans options = Inr source" "pc_options p = pc_options source"
  obtains picked where "pick_options (protocol_members p) = Inr picked" "make_protocol k vp plans picked = Inr source"
proof -
  from assms(1) have "read_options options = Inr (pc_options p)"
    by (rule make_protocol_steps) (simp add: assms(2))
  then have read: "options_read options (pc_options p)" by (rule read_options_read)
  define picked where "picked = map (\<lambda>key. (ascii_text key, get_null options key)) option_names"
  have member: "json_get (protocol_members p) key = Some (get_null options key)" if "key \<in> set option_names" for key
    using that read unfolding protocol_member
    by (auto simp: option_names_def protocol_fields_def options_read_def)
  have "pick_options (protocol_members p) = Inr picked"
    unfolding pick_options_def res_map_eq_Inr picked_def list.rel_map
    by (rule list.rel_refl_strong) (simp add: need_def member)
  moreover have "make_protocol k vp plans picked = Inr source"
  proof (rule make_protocol_cong [OF assms(1)])
    show "same_fields picked option_names" by (simp add: same_fields_def picked_def comp_def)
    have "map_of (map (\<lambda>k. (k, get_null options k)) option_names) key = Some (get_null options key)"
      if "key \<in> set option_names" for key using that by (rule map_of_pairs)
    then show "get_null picked key = get_null options key" if "key \<in> set option_names" for key
      using that get_null_jobj [of "map (\<lambda>k. (k, get_null options k)) option_names" key]
      by (simp add: picked_def comp_def)
  qed
  ultimately show thesis by (rule that)
qed

lemma checked_sources:
  assumes "make_protocol k vp plans options = Inr p" "i < length plans"
  shows "\<exists>os. source_offers k vp (plans ! i) = Inr os"
proof -
  from assms(1) obtain st where "res_fold (check_plan k vp (pp_parameters (pc_options p))) (None, [], []) plans = Inr st"
    by (rule make_protocol_steps)
  from checked_plans [OF this nth_mem [OF assms(2)]] show ?thesis by blast
qed

lemma build_protocol_shas: "build_protocol k opts plans hashes = Inr p \<Longrightarrow>
    res_map (\<lambda>plan. need (plan_members plan) ''plan_sha256'') plans = Inr (pc_base_plan_sha256s p)"
  by (auto simp: build_protocol_def result_simps Let_def)

lemma protocol_parts_plain:
  assumes "make_protocol k vp plans options = Inr p" "distinct (map fst (pp_parameters (pc_options p)))"
  shows "plain_value (JObj (pp_parameters (pc_options p)))" "list_all plain_value (pc_base_plan_sha256s p)"
    "list_all trial_plain (pc_trials p)" "options_read options (pc_options p)"
proof -
  from assms(1) obtain hashes st where steps: "block_count (length plans) = Inr ()"
    "read_options options = Inr (pc_options p)"
    "res_fold (check_plan k vp (pp_parameters (pc_options p))) (None, [], []) plans = Inr st"
    "build_protocol k (pc_options p) plans hashes = Inr p" by (rule make_protocol_steps)
  note sources = checked_plans [OF steps(3)]
  show read: "options_read options (pc_options p)" using steps(2) by (rule read_options_read)
  have "plans \<noteq> []" using steps(1) by (auto simp: block_count_def result_simps exact_integer_ok)
  with sources [of "hd plans"] obtain t where "make_from_parameters k vp (hd plans) (pp_parameters (pc_options p)) = Inr t"
    by auto
  with read assms(2) show "plain_value (JObj (pp_parameters (pc_options p)))"
    by (auto intro: parameters_plain simp: options_read_def)
  note build_protocol_shas [OF steps(4)]
  then have shas: "list_all2 (\<lambda>plan sha. need (plan_members plan) ''plan_sha256'' = Inr sha) plans (pc_base_plan_sha256s p)"
    by (simp add: res_map_eq_Inr)
  show "list_all plain_value (pc_base_plan_sha256s p)"
    unfolding list_all_length
  proof (intro allI impI)
    fix i assume "i < length (pc_base_plan_sha256s p)"
    with shas have i: "i < length plans" "need (plan_members (plans ! i)) ''plan_sha256'' = Inr (pc_base_plan_sha256s p ! i)"
      by (auto simp: list_all2_conv_all_nth)
    from sources [OF nth_mem [OF i(1)]] obtain os where "source_offers k vp (plans ! i) = Inr os" by blast
    from source_member_plain [OF this i(2)] show "plain_value (pc_base_plan_sha256s p ! i)" by (simp add: flag_paths_def)
  qed
  show "list_all trial_plain (pc_trials p)"
    using assms(1)
  proof (rule make_protocol_parts)
    fix tss hs
    assume trials: "pc_trials p = concat tss" "length tss = length plans" "length plans \<le> 32"
      "\<And>i. i < length plans \<Longrightarrow> block_trials k (pc_options p) (i, plans ! i, hs ! i) = Inr (tss ! i)"
    have "trial_plain t" if "ts \<in> set tss" "t \<in> set ts" for ts t
    proof -
      from that(1) obtain i where i: "i < length plans" "ts = tss ! i" using trials(2) by (auto simp: in_set_conv_nth)
      obtain os where "source_offers k vp (plans ! i) = Inr os" using checked_sources [OF assms(1) i(1)] by blast
      with block_trials_plain [OF trials(4) [OF i(1), folded i(2)]] i trials(3) that(2) show ?thesis by simp
    qed
    then show ?thesis by (simp add: trials(1) list_all_iff)
  qed
qed

lemma retained_mask: "check_mask retained universe = Inr m \<Longrightarrow> retained = JArr (map JStr m)"
proof -
  have "json_strings js = Some names \<Longrightarrow> js = map JStr names" for js names
    by (induction js arbitrary: names rule: json_strings.induct) auto
  then show "check_mask retained universe = Inr m \<Longrightarrow> retained = JArr (map JStr m)"
    by (auto simp: check_mask_def split: json.splits option.splits if_splits)
qed

lemma reduced_protocol_source:
  assumes "make_reduced_protocol k vp plans retained options = Inr p"
  obtains source where "make_protocol k vp plans options = Inr source" "pc_options p = pc_options source"
    "pc_base_plan_sha256s p = pc_base_plan_sha256s source" "\<exists>ts. pc_trials p = map (pin_timing ts) (pc_trials source)"
    "\<exists>m. pc_mask p = Some m \<and> retained = JArr (map JStr m)"
    "\<And>options'. make_protocol k vp plans options' = Inr source
       \<Longrightarrow> make_reduced_protocol k vp plans retained options' = Inr p"
proof -
  from assms obtain source m ts d u where parts: "make_protocol k vp plans options = Inr source"
    "check_mask retained u = Inr m"
    "p = source\<lparr>pc_mask := Some m, pc_trials := map (pin_timing ts) (pc_trials source), pc_sha256 := d\<rparr>"
    by (auto simp: make_reduced_protocol_def Let_def result_simps)
  have again: "make_reduced_protocol k vp plans retained options' = Inr p"
    if "make_protocol k vp plans options' = Inr source" for options'
    using assms unfolding make_reduced_protocol_def that parts(1) .
  have "\<exists>ts. pc_trials p = map (pin_timing ts) (pc_trials source)" "\<exists>m. pc_mask p = Some m \<and> retained = JArr (map JStr m)"
    using retained_mask [OF parts(2)] by (auto simp: parts(3))
  then show thesis by (intro that [OF parts(1) _ _ _ _ again]) (simp_all add: parts(3))
qed

text \<open>Parts that make an artifact plain.\<close>

lemma protocol_json_plain:
  assumes "plain_value (JObj (pp_parameters (pc_options p)))" "list_all plain_value (pc_base_plan_sha256s p)"
    "list_all trial_plain (pc_trials p)" "options_read options (pc_options p)"
  shows "plain_value (protocol_json p)"
proof -
  have "list_all plain_value (map trial_json (pc_trials p))"
    using assms(3) by (auto simp: list_all_iff trial_plain_json)
  moreover have "plain_value (JArr (map JStr ts))" for ts by (simp add: list_all_iff)
  moreover have "max_minimum_effect \<le> max_exact_integer" "(2 :: int) ^ 32 \<le> max_exact_integer"
    by (simp_all add: max_minimum_effect_def max_exact_integer_def)
  ultimately show ?thesis
    using assms(1,2,4) unfolding protocol_json_def options_read_def
    by (auto simp: protocol_fields_def mask_fields_def split: option.split)
qed


lemma regenerated_same: "cd_canonical k v \<noteq> None \<Longrightarrow> require_same k v v e = Inr ()"
  by (auto simp: require_same_ok)

lemma plain_protocol_accepted:
  assumes made: "make_protocol k vp plans options = Inr p"
    and "distinct (map fst (pp_parameters (pc_options p)))" and "cd_canonical k (protocol_json p) \<noteq> None"
  shows "validate_protocol k vp plans (protocol_json p) = Inr p"
proof -
  have types: "artifact_types False [] (protocol_json p) = Inr ()"
    using protocol_json_plain [OF protocol_parts_plain [OF made assms(2)]] by (simp add: plain_value_def)
  obtain picked where picked: "pick_options (protocol_members p) = Inr picked" "make_protocol k vp plans picked = Inr p"
    by (rule picked_options [OF made refl])
  have "pc_mask p = None" using made by (rule make_protocol_steps)
  then have schema: "get_null (protocol_members p) ''schema'' \<noteq> jstr masked_schema"
    by (simp add: get_null_def protocol_member protocol_fields_def paired_schema_def masked_schema_def jstr_def)
  show ?thesis
    using types picked regenerated_same [OF assms(3)] schema
    by (simp add: validate_protocol_def validate_paired_protocol_def protocol_json_members)
qed

lemma masked_protocol_accepted:
  assumes made: "make_reduced_protocol k vp plans retained options = Inr p"
    and "distinct (map fst (pp_parameters (pc_options p)))" and "cd_canonical k (protocol_json p) \<noteq> None"
  shows "validate_protocol k vp plans (protocol_json p) = Inr p"
proof -
  from made obtain source ts m where source: "make_protocol k vp plans options = Inr source" "pc_options p = pc_options source"
    "pc_base_plan_sha256s p = pc_base_plan_sha256s source" "pc_trials p = map (pin_timing ts) (pc_trials source)"
    "pc_mask p = Some m" "retained = JArr (map JStr m)"
    and again: "\<And>options'. make_protocol k vp plans options' = Inr source
      \<Longrightarrow> make_reduced_protocol k vp plans retained options' = Inr p"
    by (rule reduced_protocol_source) blast
  note parts = protocol_parts_plain [OF source(1) assms(2) [unfolded source(2)], folded source(2,3)]
  have "list_all trial_plain (pc_trials p)"
    using parts(3) unfolding source(4) by (auto simp: list_all_iff trial_plain_def pin_timing_def)
  with parts have types: "artifact_types False [] (protocol_json p) = Inr ()"
    using protocol_json_plain by (simp add: plain_value_def)
  obtain picked where picked: "pick_options (protocol_members p) = Inr picked" "make_protocol k vp plans picked = Inr source"
    by (rule picked_options [OF source(1,2)])
  have "get_null (protocol_members p) ''schema'' = jstr masked_schema"
    "need (protocol_members p) ''retained_groups'' = Inr retained"
    by (simp_all add: get_null_def need_def protocol_member protocol_fields_def mask_fields_def source(5,6))
  then show ?thesis
    using types picked again [OF picked(2)] regenerated_same [OF assms(3)]
    by (simp add: validate_protocol_def validate_reduced_protocol_def protocol_json_members)
qed

text \<open>
  C35: a protocol round-trips: its artifact, read back against the same plans, regenerates the same protocol
  and is accepted, masked or not. The artifact must have canonical bytes.
\<close>

theorem protocol_roundtrip:
  assumes "make_protocol k vp plans options = Inr p \<or> make_reduced_protocol k vp plans retained options = Inr p"
    and "distinct (map fst (pp_parameters (pc_options p)))" and "cd_canonical k (protocol_json p) \<noteq> None"
  shows "validate_protocol k vp plans (protocol_json p) = Inr p"
  using assms plain_protocol_accepted masked_protocol_accepted by blast

section \<open>A concrete design\<close>

definition demo_hex :: "nat \<Rightarrow> json" where
  "demo_hex n = JStr (replicate n 97)"

definition demo_digest_text :: json where
  "demo_digest_text = JStr (ascii_text ''sha256:'' @ replicate 64 97)"

definition demo_options :: members where
  "demo_options = plan_members (jobj [(''policy_a'', jstr ''round_robin''), (''policy_b'', jstr ''least_busy''),
     (''candidate_parameters'', demo_parameters), (''order_seed'', JInt 7), (''minimum_effect_microrps'', JInt 0),
     (''max_scheduling_lag_p95_ns'', JInt 100), (''max_client_queue_p95_ns'', JInt 100), (''model'', jstr ''m''),
     (''source_revision'', demo_hex 40), (''environment_sha256'', demo_digest_text),
     (''reset_procedure_sha256'', demo_digest_text)])"

lemma demo_option_fields:
  "get_null demo_options key = (case map_of [(''policy_a'', jstr ''round_robin''), (''policy_b'', jstr ''least_busy''),
     (''candidate_parameters'', demo_parameters), (''order_seed'', JInt 7), (''minimum_effect_microrps'', JInt 0),
     (''max_scheduling_lag_p95_ns'', JInt 100), (''max_client_queue_p95_ns'', JInt 100), (''model'', jstr ''m''),
     (''source_revision'', demo_hex 40), (''environment_sha256'', demo_digest_text),
     (''reset_procedure_sha256'', demo_digest_text)] key of None \<Rightarrow> JNull | Some v \<Rightarrow> v)"
  unfolding demo_options_def by (rule demo_fields(1))

lemma demo_same: "same_fields demo_options option_names" "same_fields (plan_members demo_parameters) parameter_names"
  by (simp_all add: same_fields_def demo_options_def plan_members_def jobj_def option_names_def
      demo_parameters_def parameter_names_def insert_commute)

lemma demo_texts:
  "read_text (lower_hex 40) l (demo_hex 40) = Inr (replicate 40 97)"
  "read_text digest_text l demo_digest_text = Inr (ascii_text ''sha256:'' @ replicate 64 97)"
  "read_text model_text l (jstr ''m'') = Inr (ascii_text ''m'')"
  by (simp_all add: read_text_def demo_hex_def demo_digest_text_def digest_text_def lower_hex_def model_text_def
      ascii_text_def jstr_def py_space_def)

lemma demo_policies: "read_policy (jstr ''round_robin'') = Inr ''round_robin''"
  "read_policy (jstr ''least_busy'') = Inr ''least_busy''"
  by (simp_all add: read_policy_def paired_policies_def jstr_def)

definition demo_opts :: paired_options where
  "demo_opts = \<lparr>pp_policy_a = ''round_robin'', pp_policy_b = ''least_busy'', pp_parameters = plan_members demo_parameters,
     pp_order_seed = 7, pp_minimum_effect = 0, pp_max_lag = 100, pp_max_queue = 100, pp_model = ascii_text ''m'',
     pp_source_revision = replicate 40 97, pp_environment = ascii_text ''sha256:'' @ replicate 64 97,
     pp_reset_procedure = ascii_text ''sha256:'' @ replicate 64 97\<rparr>"

lemma demo_read: "read_options demo_options = Inr demo_opts"
proof -
  have parameters: "demo_parameters = JObj (plan_members demo_parameters)"
    by (simp add: demo_parameters_def plan_members_def jobj_def)
  have ints: "exact_integer (JInt 7) 0 (2 ^ 32 - 1) l = Inr 7" "exact_integer (JInt 0) 0 max_minimum_effect l = Inr 0"
    "exact_integer (JInt 100) 0 max_exact_integer l = Inr 100" for l
    by (simp_all add: exact_integer_def max_minimum_effect_def max_exact_integer_def)
  show ?thesis
    unfolding read_options_def demo_option_fields
    by (subst (2) parameters) (simp add: demo_same demo_policies demo_texts ints [simplified] demo_opts_def)
qed

definition demo_contract :: py_bytes where
  "demo_contract = demo_bytes (JObj (filter
     (\<lambda>(key, _). key \<notin> set (map ascii_text [''seed'', ''trace_sha256'', ''plan_sha256''])) (plan_members (demo_block 1))))"

lemma demo_common: "common_plan demo_codec (plan_members (demo_block seed)) = Inr demo_contract"
proof -
  have schema: "jstr study_schema \<noteq> jstr capacity_schema" by (simp add: jstr_def study_schema_def capacity_schema_def)
  have kept: "filter (\<lambda>(key, _). key \<notin> set (map ascii_text [''seed'', ''trace_sha256'', ''plan_sha256'']))
      (plan_members (demo_block seed))
    = filter (\<lambda>(key, _). key \<notin> set (map ascii_text [''seed'', ''trace_sha256'', ''plan_sha256'']))
      (plan_members (demo_block 1))"
    by (simp add: demo_block_def plan_members_def jobj_def)
  show ?thesis
    unfolding common_plan_def demo_needed rbind.simps Let_def demo_contract_def demo_canonical
    using kept by (simp only: schema if_False append_Nil2)
qed

lemma demo_check:
  assumes "0 \<le> seed" "seed < 2 ^ 32" "JInt seed \<notin> set seeds" "common = None \<or> common = Some demo_contract"
  shows "check_plan demo_codec demo_reader (plan_members demo_parameters) (common, seeds, hashes) (demo_block seed)
    = Inr (Some demo_contract, JInt seed # seeds, hashes @ [(''sha256:00'', ''sha256:00'')])"
proof -
  obtain t where t: "make_timing demo_codec demo_reader (demo_block seed) (JInt 1) (JInt 10000) (JInt 0) = Inr t"
    "tm_timing_sha256 t = ''sha256:00''" using demo_baseline_made [OF assms(1,2)] by blast
  have made: "make_from_parameters demo_codec demo_reader (demo_block seed) (plan_members demo_parameters) = Inr (demo_timing seed)"
    by (simp add: make_from_parameters_def demo_parameters_def demo_fields demo_made_seed [OF assms(1,2)])
  show ?thesis
    using assms(3,4) by (auto simp: check_plan_def t made demo_common demo_needed demo_timing_def)
qed

definition demo_seeds :: "int list \<Rightarrow> bool" where
  "demo_seeds seeds \<longleftrightarrow> distinct seeds \<and> list_all (\<lambda>s. 0 \<le> s \<and> s < 2 ^ 32) seeds
     \<and> 4 \<le> length seeds \<and> length seeds \<le> 32 \<and> length seeds mod 4 = 0"

lemma demo_checked_from:
  assumes "list_all (\<lambda>s. 0 \<le> s \<and> s < 2 ^ 32) seeds" "distinct seeds" "list_all (\<lambda>s. JInt s \<notin> set used) seeds"
    and "common = None \<or> common = Some demo_contract"
  shows "res_fold (check_plan demo_codec demo_reader (plan_members demo_parameters)) (common, used, hashes)
      (map demo_block seeds)
    = Inr (if seeds = [] then common else Some demo_contract, rev (map JInt seeds) @ used,
        hashes @ replicate (length seeds) (''sha256:00'', ''sha256:00''))"
  using assms
proof (induction seeds arbitrary: common used hashes)
  case (Cons s seeds)
  have rest: "list_all (\<lambda>x. 0 \<le> x \<and> x < 2 ^ 32) seeds" "distinct seeds"
    "list_all (\<lambda>x. JInt x \<notin> set (JInt s # used)) seeds" using Cons.prems by (auto simp: list_all_iff)
  have step: "check_plan demo_codec demo_reader (plan_members demo_parameters) (common, used, hashes) (demo_block s)
      = Inr (Some demo_contract, JInt s # used, hashes @ [(''sha256:00'', ''sha256:00'')])"
    using Cons.prems by (intro demo_check) simp_all
  show ?case
    unfolding list.map res_fold.simps step rbind.simps Cons.IH [OF rest disjI2 [OF refl]] by simp
qed simp

lemma demo_checked_plans:
  assumes "demo_seeds seeds"
  shows "res_fold (check_plan demo_codec demo_reader (plan_members demo_parameters)) (None, [], []) (map demo_block seeds)
     = Inr (Some demo_contract, rev (map JInt seeds), replicate (length seeds) (''sha256:00'', ''sha256:00''))"
proof -
  have "seeds \<noteq> []" using assms by (auto simp: demo_seeds_def)
  then show ?thesis using assms by (simp add: demo_checked_from demo_seeds_def list_all_iff)
qed

lemma demo_block_count:
  assumes "demo_seeds seeds"
  shows "block_count (length (map demo_block seeds)) = Inr ()"
  using assms by (simp add: block_count_def exact_integer_def demo_seeds_def)

lemma protocol_not_timed [simp]: "\<not> marked_document (jobj (protocol_fields p))"
  "\<not> marked_document (jobj (protocol_fields p @ rest))"
  by (simp_all add: protocol_fields_def)

lemma demo_order: "group_order demo_codec seed quad = Inr [0, 1, 2, 3]"
  by (simp add: group_order_def row_digest_def demo_canonical four_rows)

lemma demo_protocol:
  assumes "demo_seeds seeds"
  shows "\<exists>p. make_protocol demo_codec demo_reader (map demo_block seeds) demo_options = Inr p
    \<and> pc_options p = demo_opts"
proof -
  have opts: "pp_parameters demo_opts = plan_members demo_parameters" by (simp add: demo_opts_def)
  define plans where "plans = map demo_block seeds"
  define hashes where "hashes = replicate (length seeds) (''sha256:00'', ''sha256:00'')"
  obtain tss where tss: "res_map (block_trials demo_codec demo_opts) (enumerate 0 (zip plans hashes)) = Inr tss"
  proof -
    have "\<exists>ts. block_trials demo_codec demo_opts x = Inr ts" if "x \<in> set (enumerate 0 (zip plans hashes))" for x
    proof -
      obtain i plan h where x: "x = (i, plan, h)" by (cases x)
      from that have "plan \<in> set plans" unfolding x by (auto dest!: in_set_enumerate_eq [THEN iffD1] set_zip_leftD nth_mem)
      then obtain seed where "plan = demo_block seed" by (auto simp: plans_def)
      then show ?thesis by (simp add: x block_trials_def demo_order demo_needed)
    qed
    with res_map_total that show thesis by blast
  qed
  have shas: "res_map (\<lambda>plan. need (plan_members plan) ''plan_sha256'') plans
      = Inr (map (\<lambda>seed. jstr (demo_plan_sha seed)) seeds)"
    unfolding plans_def by (induction seeds) (simp_all add: demo_needed)
  have "hd plans = demo_block (hd seeds)" using assms by (cases seeds) (simp_all add: plans_def demo_seeds_def)
  then have "\<exists>p. build_protocol demo_codec demo_opts plans hashes = Inr p \<and> pc_options p = demo_opts"
    by (simp add: build_protocol_def tss shas demo_needed demo_digest Let_def)
  then show ?thesis
    unfolding make_protocol_def demo_block_count [OF assms] demo_read rbind.simps opts demo_checked_plans [OF assms]
      plans_def hashes_def
    by (simp add: demo_same)
qed

lemma demo_first_seeds: "demo_seeds [1, 2, 3, 4]"
  by (simp add: demo_seeds_def)

lemma protocol_balanced_witness:
  "\<exists>p. make_protocol demo_codec demo_reader (map demo_block [1, 2, 3, 4]) demo_options = Inr p
     \<and> balanced_design (length (map demo_block [1, 2, 3, 4])) p"
proof -
  obtain p where p: "make_protocol demo_codec demo_reader (map demo_block [1, 2, 3, 4]) demo_options = Inr p"
    using demo_protocol [OF demo_first_seeds] by blast
  from protocol_balanced [OF disjI1 [OF p]] p show ?thesis by blast
qed

lemma demo_distinct: "distinct (map fst (pp_parameters demo_opts))"
  by (simp add: demo_opts_def plan_members_def demo_parameters_def jobj_def)


lemma protocol_roundtrip_witness:
  "\<exists>p. make_protocol demo_codec demo_reader (map demo_block [1, 2, 3, 4]) demo_options = Inr p
     \<and> validate_protocol demo_codec demo_reader (map demo_block [1, 2, 3, 4]) (protocol_json p) = Inr p"
proof -
  obtain p where p: "make_protocol demo_codec demo_reader (map demo_block [1, 2, 3, 4]) demo_options = Inr p"
    "pc_options p = demo_opts" using demo_protocol [OF demo_first_seeds] by blast
  with protocol_roundtrip [OF disjI1 [OF p(1)]] demo_distinct show ?thesis by (simp add: demo_canonical)
qed

text \<open>The masked design of the demonstration: every plan moves the one group that the mask retains.\<close>

lemma demo_universe:
  assumes "demo_seeds seeds"
  shows "group_universe demo_codec demo_reader (map demo_block seeds) demo_parameters = Inr [ascii_text ''e0-g0000'']"
proof -
  have "list_all (\<lambda>s. 0 \<le> s \<and> s < 2 ^ 32) seeds" using assms by (simp add: demo_seeds_def)
  then have groups: "res_map (active_groups demo_codec demo_reader demo_parameters) (map demo_block seeds)
      = Inr (replicate (length seeds) [ascii_text ''e0-g0000''])"
    by (induction seeds) (simp_all add: demo_active)
  have one: "remdups (concat (replicate (Suc n) [x])) = [x]" for n and x :: py_text by (induction n) auto
  obtain n where n: "length seeds = Suc n" using assms by (cases seeds) (simp_all add: demo_seeds_def)
  show ?thesis unfolding group_universe_def groups rbind.simps n one using assms by (simp add: demo_seeds_def n)
qed

lemma demo_masked:
  assumes "demo_seeds seeds"
  shows "\<exists>p. make_reduced_protocol demo_codec demo_reader (map demo_block seeds) demo_mask demo_options = Inr p
    \<and> pc_options p = demo_opts \<and> pc_mask p = Some [ascii_text ''e0-g0000'']"
proof -
  obtain source where source: "make_protocol demo_codec demo_reader (map demo_block seeds) demo_options = Inr source"
    "pc_options source = demo_opts" using demo_protocol [OF assms] by blast
  have parameters: "JObj (pp_parameters demo_opts) = demo_parameters"
    by (simp add: demo_opts_def demo_parameters_def plan_members_def jobj_def)
  have mask: "check_mask demo_mask [ascii_text ''e0-g0000''] = Inr [ascii_text ''e0-g0000'']"
    by (simp add: check_mask_def demo_mask_def)
  have "\<exists>x. block_timings demo_codec demo_reader demo_parameters [ascii_text ''e0-g0000''] plan = Inr x"
    if "plan \<in> set (map demo_block seeds)" for plan
  proof -
    from that assms obtain seed where "plan = demo_block seed" "0 \<le> seed" "seed < 2 ^ 32"
      by (auto simp: demo_seeds_def list_all_iff)
    then show ?thesis using demo_block_timings by simp
  qed
  then obtain timings where timings: "all_timings demo_codec demo_reader (map demo_block seeds) demo_parameters
      [ascii_text ''e0-g0000''] = Inr timings" unfolding all_timings_def using res_map_total by metis
  show ?thesis
    unfolding make_reduced_protocol_def source(1) rbind.simps Let_def source(2) parameters demo_universe [OF assms] mask timings
    by (simp add: demo_digest guarded_def source(2))
qed

text \<open>The trials of the demonstration: one block for each seed, both policies, one timing.\<close>

lemma demo_trial_fields:
  assumes "demo_seeds seeds" "make_protocol demo_codec demo_reader (map demo_block seeds) demo_options = Inr p"
    and "t \<in> set (pc_trials p)"
  shows "tr_block t \<in> {1..length seeds}" "tr_policy t \<in> {''round_robin'', ''least_busy''}"
    "tr_timing_sha256 t = ''sha256:00''"
proof -
  from assms(2) obtain hashes st where steps: "read_options demo_options = Inr (pc_options p)"
    "res_fold (check_plan demo_codec demo_reader (pp_parameters (pc_options p))) (None, [], []) (map demo_block seeds) = Inr st"
    "hashes = snd (snd st)" "build_protocol demo_codec (pc_options p) (map demo_block seeds) hashes = Inr p"
    by (rule make_protocol_steps)
  have opts: "pc_options p = demo_opts" using steps(1) demo_read by simp
  then have parameters: "pp_parameters (pc_options p) = plan_members demo_parameters" by (simp add: demo_opts_def)
  have hashes: "hashes = replicate (length seeds) (''sha256:00'', ''sha256:00'')"
    using steps(2,3) unfolding parameters demo_checked_plans [OF assms(1)] by auto
  from steps(4) obtain tss where tss: "res_map (block_trials demo_codec demo_opts)
      (enumerate 0 (zip (map demo_block seeds) hashes)) = Inr tss" "pc_trials p = concat tss"
    by (auto simp: build_protocol_def result_simps Let_def opts)
  from assms(3) tss(2) obtain i where i: "i < length tss" "t \<in> set (tss ! i)" by (auto simp: in_set_conv_nth [of _ tss])
  have len: "length tss = length seeds" using res_map_length [OF tss(1)] by (simp add: hashes)
  define plan where "plan = map demo_block seeds ! i"
  from list_all2_nthD [OF tss(1) [unfolded res_map_eq_Inr], of i] i(1) len
  have row: "block_trials demo_codec demo_opts (i, plan, (''sha256:00'', ''sha256:00'')) = Inr (tss ! i)"
    by (simp add: nth_enumerate_eq hashes plan_def)
  then obtain seed sha where trials: "tss ! i = map (make_trial demo_opts seed sha (''sha256:00'', ''sha256:00'') i)
      (enumerate 1 (williams_rows ! ([0, 1, 2, 3] ! (i mod 4))))"
    by (auto simp: block_trials_def result_simps demo_order dest: sym)
  have "c \<in> {0, 1, 2, 3}" if "(q, c) \<in> set (enumerate 1 (williams_rows ! ([0, 1, 2, 3] ! (i mod 4))))" for q c
  proof -
    have "i mod 4 \<in> {0, 1, 2, 3}" by auto
    then have "[0, 1, 2, 3] ! (i mod 4) \<in> {0, 1, 2, 3 :: nat}" by auto
    then show ?thesis using that by (auto simp: williams_rows_def)
  qed
  then show "tr_block t \<in> {1..length seeds}" "tr_policy t \<in> {''round_robin'', ''least_busy''}"
    "tr_timing_sha256 t = ''sha256:00''"
    using i len unfolding trials by (fastforce simp: make_trial_def cells_def demo_opts_def)+
qed

end
