(* ===== verification/Reduction.thy ===== *)
theory Reduction
  imports Pairing
begin

text \<open>
  The witness reducer of \<open>vllm_witness_reducer.py\<close>: the budget of its plan, the accounting of trial
  evidence, and the ordered complement removal that proposes smaller and smaller sets of original
  groups. The loop is a partial function of a step, so that its termination is a theorem. A paired
  protocol and the comparison of its trials are functions of the configuration that may raise: what
  is shown holds whatever they answer. \<open>compare\<close> rechecks every artifact before it is accounted for, so
  a trial is a record.
\<close>

section \<open>Evidence\<close>

datatype reduction_fault =
    Artifact artifact_fault
  | CompareRejected string
  | ResultReused
  | IdentityReused
  | UnplannedTrial
  | BudgetExceeded
  | ProposalOrder
  | EvidenceAfterCompletion

record trial_input =
  ti_trial_id :: string
  ti_result_sha256 :: string
  ti_request_ids :: "string list"
  ti_started_ns :: int
  ti_terminal_ns :: "int list"

record trial_protocol =
  tp_sha256 :: string
  tp_blocks :: "(string \<times> nat) list"

record comparison =
  cm_status :: comparison_status
  cm_result_sha256 :: string

text \<open>What \<open>_track\<close> has accounted for.\<close>

record accounted =
  ac_requests :: "string list"
  ac_results :: "string list"
  ac_previous_end :: int

definition nothing_accounted :: accounted where
  "nothing_accounted = \<lparr>ac_requests = [], ac_results = [], ac_previous_end = 0\<rparr>"

text \<open>
  A later trial of the same identity shadows an earlier one, and block 0 would be the last plan, as
  \<open>plans[-1]\<close> is.
\<close>

definition window_end :: "trial_protocol \<Rightarrow> int list \<Rightarrow> trial_input \<Rightarrow> (reduction_fault, int) res" where
  "window_end p durations t =
     (case map_of (rev (tp_blocks p)) (ti_trial_id t) of
        None \<Rightarrow> Inl UnplannedTrial
      | Some block \<Rightarrow>
          let i = (if block = 0 then length durations - 1 else block - 1)
          in if length durations \<le> i then Inl UnplannedTrial
             else Inr (ti_started_ns t + fold max (ti_terminal_ns t) (durations ! i)))"

definition track_trial ::
  "trial_protocol \<Rightarrow> int list \<Rightarrow> accounted \<times> int list \<times> int list \<Rightarrow> trial_input
     \<Rightarrow> (reduction_fault, accounted \<times> int list \<times> int list) res" where
  "track_trial p durations st t =
     (case st of (a, starts, ends) \<Rightarrow>
        if ti_result_sha256 t \<in> set (ac_results a) then Inl ResultReused
        else if set (ac_requests a) \<inter> set (ti_request_ids t) \<noteq> {} then Inl IdentityReused
        else rbind (window_end p durations t) (\<lambda>finish.
          Inr (a\<lparr>ac_results := ac_results a @ [ti_result_sha256 t],
                 ac_requests := ac_requests a @ remdups (ti_request_ids t)\<rparr>,
               starts @ [ti_started_ns t], ends @ [finish])))"

definition track ::
  "trial_protocol \<Rightarrow> int list \<Rightarrow> trial_input list \<Rightarrow> accounted \<Rightarrow> (reduction_fault, accounted \<times> bool) res" where
  "track p durations inputs a =
     rbind (res_fold (track_trial p durations) (a, [], []) inputs) (\<lambda>(a', starts, ends).
       Inr (a'\<lparr>ac_previous_end := fold max ends (ac_previous_end a)\<rparr>,
            starts \<noteq> [] \<and> list_ex (\<lambda>s. s < ac_previous_end a) starts))"

section \<open>The plan\<close>

record reduction_plan =
  rp_source_groups :: "py_text list"
  rp_max_comparisons :: int
  rp_max_trial_slots :: int
  rp_slots_per_comparison :: int
  rp_comparison_limit :: int

text \<open>
  \<open>_make_plan\<close>: the bounds, the mask domain and the budget; what else it records are identities of its
  inputs.
\<close>

definition make_reduction_plan ::
  "codec \<Rightarrow> plan_reader \<Rightarrow> json list \<Rightarrow> json \<Rightarrow> json \<Rightarrow> json \<Rightarrow> reduction_plan checked" where
  "make_reduction_plan k validate_plan plans parameters max_comparisons max_trial_slots =
     rbind (exact_integer max_comparisons 1 128 ''max comparisons'') (\<lambda>c.
     rbind (exact_integer max_trial_slots 1 16384 ''max trial slots'') (\<lambda>t.
     let slots = 4 * int (length plans)
     in rbind (group_universe k validate_plan plans parameters) (\<lambda>groups.
        Inr \<lparr>rp_source_groups = groups, rp_max_comparisons = c, rp_max_trial_slots = t,
             rp_slots_per_comparison = slots, rp_comparison_limit = min c (t div slots)\<rparr>)))"

section \<open>Proposals\<close>

record proposal =
  po_retained :: "py_text list"
  po_removed :: "py_text list"
  po_parent :: "py_text list"
  po_granularity :: nat

record attempt =
  at_proposal_id :: string
  at_proposal :: proposal
  at_protocol_sha256 :: string
  at_comparison :: comparison
  at_overlaps :: bool
  at_status :: comparison_status
  at_accepted :: bool

datatype incumbent_source = FROM_SEARCH | FROM_REDUCTION string

record incumbent =
  ic_retained :: "py_text list"
  ic_comparison_sha256 :: string
  ic_protocol_sha256 :: string
  ic_source :: incumbent_source

record proposal_evidence =
  ox_proposal_id :: string
  ox_inputs :: "trial_input list"

text \<open>The arguments of \<open>_reduce\<close> that do not change, and the local variables of its loop.\<close>

record reducer =
  rd_plan :: reduction_plan
  rd_active :: "py_text list list"
  rd_durations :: "int list"
  rd_protocol :: "py_text list \<Rightarrow> (reduction_fault, trial_protocol) res"
  rd_compare :: "trial_protocol \<Rightarrow> trial_input list \<Rightarrow> (reduction_fault, comparison) res"

record loop_state =
  ls_incumbent :: incumbent
  ls_granularity :: nat
  ls_cursor :: nat
  ls_attempts :: "attempt list"
  ls_skips :: "(proposal \<times> nat list) list"
  ls_cached :: nat
  ls_tested :: "py_text list list"
  ls_accounted :: accounted
  ls_observations :: "proposal_evidence list"

datatype reduction_status = REDUCTION_COMPLETE | BUDGET_EXHAUSTED | AWAITING_EVIDENCE

record next_action =
  na_proposal_id :: string
  na_proposal :: proposal
  na_protocol :: trial_protocol

datatype turn = Again loop_state | Finished reduction_status "next_action option" loop_state

definition proposal_id :: "nat \<Rightarrow> string" where
  "proposal_id n = CHR ''r'' # zpad 3 n"

text \<open>The groups removed at a cursor: \<open>groups[size * cursor // g : size * (cursor + 1) // g]\<close>.\<close>

definition slice :: "nat \<Rightarrow> nat \<Rightarrow> 'a list \<Rightarrow> 'a list" where
  "slice g cursor xs =
     (let n = length xs; low = n * cursor div g; high = n * (cursor + 1) div g
      in take (high - low) (drop low xs))"

definition propose :: "py_text list \<Rightarrow> nat \<Rightarrow> nat \<Rightarrow> proposal" where
  "propose groups g cursor =
     (let removed = slice g cursor groups
      in \<lparr>po_retained = filter (\<lambda>x. x \<notin> set removed) groups, po_removed = removed, po_parent = groups,
          po_granularity = g\<rparr>)"

text \<open>The blocks, counted from 1, in which a mask moves nothing.\<close>

definition empty_blocks :: "py_text list list \<Rightarrow> py_text list \<Rightarrow> nat list" where
  "empty_blocks active retained =
     map (\<lambda>i. i + 1) (filter (\<lambda>i. set (active ! i) \<inter> set retained = {}) [0..<length active])"

text \<open>The verdict on a proposal: its attempt is recorded and an accepted one becomes the incumbent.\<close>

definition settle ::
  "trial_protocol \<Rightarrow> proposal \<Rightarrow> comparison \<Rightarrow> accounted \<Rightarrow> bool \<Rightarrow> loop_state \<Rightarrow> loop_state" where
  "settle p prop c acc overlaps s =
     (let pid = proposal_id (length (ls_attempts s) + 1);
          status = (if overlaps then INELIGIBLE else cm_status c);
          accepted = (status = REVERSAL_CANDIDATE);
          a = \<lparr>at_proposal_id = pid, at_proposal = prop, at_protocol_sha256 = tp_sha256 p,
               at_comparison = c, at_overlaps = overlaps, at_status = status, at_accepted = accepted\<rparr>;
          s' = s\<lparr>ls_attempts := ls_attempts s @ [a], ls_tested := po_retained prop # ls_tested s,
                 ls_accounted := acc, ls_observations := tl (ls_observations s)\<rparr>
      in if accepted
         then s'\<lparr>ls_incumbent := \<lparr>ic_retained = po_retained prop, ic_comparison_sha256 = cm_result_sha256 c,
                   ic_protocol_sha256 = tp_sha256 p, ic_source = FROM_REDUCTION pid\<rparr>,
                 ls_granularity := max 2 (ls_granularity s - 1), ls_cursor := 0\<rparr>
         else s')"

text \<open>The evidence of one proposal: the comparison and its accounting.\<close>

definition judge ::
  "reducer \<Rightarrow> trial_protocol \<Rightarrow> proposal \<Rightarrow> proposal_evidence \<Rightarrow> loop_state \<Rightarrow> (reduction_fault, loop_state) res" where
  "judge r p prop ob s =
     (if ox_proposal_id ob \<noteq> proposal_id (length (ls_attempts s) + 1) then Inl ProposalOrder
      else rbind (rd_compare r p (ox_inputs ob)) (\<lambda>c.
        rbind (track p (rd_durations r) (ox_inputs ob) (ls_accounted s)) (\<lambda>(acc, overlaps).
        Inr (settle p prop c acc overlaps s))))"

definition try_proposal :: "reducer \<Rightarrow> proposal \<Rightarrow> loop_state \<Rightarrow> (reduction_fault, turn) res" where
  "try_proposal r prop s =
     (if empty_blocks (rd_active r) (po_retained prop) \<noteq> []
      then Inr (Again (s\<lparr>ls_skips := ls_skips s @ [(prop, empty_blocks (rd_active r) (po_retained prop))]\<rparr>))
      else if po_retained prop \<in> set (ls_tested s) then Inr (Again (s\<lparr>ls_cached := ls_cached s + 1\<rparr>))
      else if int (length (ls_attempts s)) = rp_comparison_limit (rd_plan r)
      then Inr (Finished BUDGET_EXHAUSTED None s)
      else rbind (rd_protocol r (po_retained prop)) (\<lambda>p.
        case ls_observations s of
          [] \<Rightarrow> Inr (Finished AWAITING_EVIDENCE
            (Some \<lparr>na_proposal_id = proposal_id (length (ls_attempts s) + 1), na_proposal = prop,
                   na_protocol = p\<rparr>) s)
        | ob # _ \<Rightarrow> rbind (judge r p prop ob s) (\<lambda>s. Inr (Again s))))"

text \<open>One turn of the loop.\<close>

definition reduce_turn :: "reducer \<Rightarrow> loop_state \<Rightarrow> (reduction_fault, turn) res" where
  "reduce_turn r s =
     (let groups = ic_retained (ls_incumbent s); size = length groups
      in if size \<le> 1 then Inr (Finished REDUCTION_COMPLETE None s)
         else let g = min (ls_granularity s) size; s = s\<lparr>ls_granularity := g\<rparr>
         in if ls_cursor s = g
            then (if g = size then Inr (Finished REDUCTION_COMPLETE None s)
                  else Inr (Again (s\<lparr>ls_granularity := min size (g * 2), ls_cursor := 0\<rparr>)))
            else try_proposal r (propose groups g (ls_cursor s)) (s\<lparr>ls_cursor := ls_cursor s + 1\<rparr>))"

partial_function (option) reduce_loop ::
  "reducer \<Rightarrow> loop_state
     \<Rightarrow> (reduction_fault, reduction_status \<times> next_action option \<times> loop_state) res option" where
  "reduce_loop r s =
     (case reduce_turn r s of
        Inl e \<Rightarrow> Some (Inl e)
      | Inr (Finished status action s') \<Rightarrow> Some (Inr (status, action, s'))
      | Inr (Again s') \<Rightarrow> reduce_loop r s')"

declare reduce_loop.simps [code]

section \<open>The run\<close>

text \<open>The evidence of the search the reduction starts from, with the protocol of each candidate.\<close>

fun track_source ::
  "int list \<Rightarrow> ((reduction_fault, trial_protocol) res \<times> trial_input list) list \<Rightarrow> accounted
     \<Rightarrow> (reduction_fault, accounted) res" where
  "track_source durations [] a = Inr a"
| "track_source durations ((protocol, inputs) # rest) a =
     rbind protocol (\<lambda>p. rbind (track p durations inputs a) (\<lambda>(a', _). track_source durations rest a'))"

definition first_state ::
  "reducer \<Rightarrow> string \<Rightarrow> string \<Rightarrow> accounted \<Rightarrow> proposal_evidence list \<Rightarrow> loop_state" where
  "first_state r comparison_sha256 protocol_sha256 a obs =
     \<lparr>ls_incumbent = \<lparr>ic_retained = rp_source_groups (rd_plan r), ic_comparison_sha256 = comparison_sha256,
        ic_protocol_sha256 = protocol_sha256, ic_source = FROM_SEARCH\<rparr>,
      ls_granularity = 2, ls_cursor = 0, ls_attempts = [], ls_skips = [], ls_cached = 0, ls_tested = [],
      ls_accounted = a, ls_observations = obs\<rparr>"

record source_evidence =
  se_comparison_sha256 :: string
  se_protocol_sha256 :: string
  se_candidates :: "((reduction_fault, trial_protocol) res \<times> trial_input list) list"

record reduction_report =
  rr_status :: reduction_status
  rr_action :: "next_action option"
  rr_attempts :: "attempt list"
  rr_incumbent :: incumbent
  rr_skips :: "(proposal \<times> nat list) list"
  rr_cached :: nat
  rr_slots_reserved :: int
  rr_remaining_comparisons :: int
  rr_remaining_slots :: int
  rr_accepted :: nat
  rr_ineligible :: nat
  rr_inconclusive :: nat

definition report_of ::
  "reducer \<Rightarrow> reduction_status \<Rightarrow> next_action option \<Rightarrow> loop_state \<Rightarrow> reduction_report" where
  "report_of r status action s =
     (let count = int (length (ls_attempts s)); slots = rp_slots_per_comparison (rd_plan r)
      in \<lparr>rr_status = status, rr_action = action, rr_attempts = ls_attempts s, rr_incumbent = ls_incumbent s,
          rr_skips = ls_skips s, rr_cached = ls_cached s, rr_slots_reserved = count * slots,
          rr_remaining_comparisons = rp_comparison_limit (rd_plan r) - count,
          rr_remaining_slots = rp_max_trial_slots (rd_plan r) - count * slots,
          rr_accepted = length (filter at_accepted (ls_attempts s)),
          rr_ineligible = length (filter (\<lambda>a. at_status a = INELIGIBLE) (ls_attempts s)),
          rr_inconclusive = length (filter (\<lambda>a. at_status a = INCONCLUSIVE) (ls_attempts s))\<rparr>)"

definition run_reduction ::
  "reducer \<Rightarrow> source_evidence \<Rightarrow> proposal_evidence list \<Rightarrow> (reduction_fault, reduction_report) res option" where
  "run_reduction r src obs =
     (if rp_comparison_limit (rd_plan r) < int (length obs) then Some (Inl BudgetExceeded)
      else case track_source (rd_durations r) (se_candidates src) nothing_accounted of
        Inl e \<Rightarrow> Some (Inl e)
      | Inr a \<Rightarrow>
          (case reduce_loop r (first_state r (se_comparison_sha256 src) (se_protocol_sha256 src) a obs) of
             None \<Rightarrow> None
           | Some (Inl e) \<Rightarrow> Some (Inl e)
           | Some (Inr (status, action, s)) \<Rightarrow>
               if ls_observations s \<noteq> [] then Some (Inl EvidenceAfterCompletion)
               else Some (Inr (report_of r status action s))))"

section \<open>Slices remove something\<close>

lemma slice_bounds:
  fixes n c g :: nat
  assumes "c < g" "g \<le> n"
  shows "n * c div g < n * (c + 1) div g" "n * c div g < n"
proof -
  have g: "0 < g" using assms(1) by simp
  have "n * c div g + 1 = (n * c + g) div g" using g div_add_self2 [of g "n * c"] by simp
  also have "\<dots> \<le> (n * c + n) div g" by (rule div_le_mono) (use assms in simp)
  finally show "n * c div g < n * (c + 1) div g" by (simp add: add.commute)
  have "n * c < n * g" using assms by simp
  then show "n * c div g < n" using g by (simp add: less_mult_imp_div_less)
qed

lemma slice_nonempty: "c < g \<Longrightarrow> g \<le> length xs \<Longrightarrow> slice g c xs \<noteq> []"
  using slice_bounds [of c g "length xs"] by (simp add: slice_def Let_def)

lemma set_slice: "set (slice g c xs) \<subseteq> set xs"
  unfolding slice_def Let_def by (meson order_trans set_drop_subset set_take_subset)

lemma slice_single: "c < length xs \<Longrightarrow> slice (length xs) c xs = [xs ! c]"
proof -
  assume c: "c < length xs"
  have "length xs * c div length xs = c" "length xs * (c + 1) div length xs = c + 1" using c by auto
  then show ?thesis using c by (simp add: slice_def take_Suc_conv_app_nth Cons_nth_drop_Suc [symmetric] del: mult_Suc_right)
qed

lemma propose_shorter:
  assumes "c < g" "g \<le> length groups"
  shows "length (po_retained (propose groups g c)) < length groups"
proof -
  obtain x where "x \<in> set (slice g c groups)" using slice_nonempty [OF assms] by (cases "slice g c groups") auto
  with set_slice [of g c groups] show ?thesis
    by (auto simp: propose_def Let_def intro!: length_filter_less [of x])
qed

lemma propose_subset: "set (po_retained (propose groups g c)) \<subseteq> set groups" "po_parent (propose groups g c) = groups"
  by (auto simp: propose_def Let_def)

section \<open>Termination\<close>

definition loop_size :: "loop_state \<Rightarrow> nat" where
  "loop_size s = length (ic_retained (ls_incumbent s))"

definition loop_granularity :: "loop_state \<Rightarrow> nat" where
  "loop_granularity s = min (ls_granularity s) (loop_size s)"

definition cursor_ok :: "loop_state \<Rightarrow> bool" where
  "cursor_ok s \<longleftrightarrow> 1 \<le> ls_granularity s \<and> ls_cursor s \<le> loop_granularity s"

definition loop_order :: "(loop_state \<times> loop_state) set" where
  "loop_order = measures [loop_size, \<lambda>s. loop_size s - loop_granularity s,
     \<lambda>s. loop_granularity s - ls_cursor s]"

text \<open>The three ways a turn continues.\<close>

lemma judge_cases:
  assumes "judge r p prop ob s = Inr s'"
  obtains c acc overlaps where "ox_proposal_id ob = proposal_id (length (ls_attempts s) + 1)"
    "rd_compare r p (ox_inputs ob) = Inr c" "track p (rd_durations r) (ox_inputs ob) (ls_accounted s) = Inr (acc, overlaps)"
    "ls_attempts s' = ls_attempts s @ [\<lparr>at_proposal_id = proposal_id (length (ls_attempts s) + 1),
       at_proposal = prop, at_protocol_sha256 = tp_sha256 p, at_comparison = c, at_overlaps = overlaps,
       at_status = (if overlaps then INELIGIBLE else cm_status c),
       at_accepted = (\<not> overlaps \<and> cm_status c = REVERSAL_CANDIDATE)\<rparr>]"
    "ls_tested s' = po_retained prop # ls_tested s" "ls_accounted s' = acc"
    "ls_observations s' = tl (ls_observations s)" "ls_skips s' = ls_skips s"
    "\<not> overlaps \<and> cm_status c = REVERSAL_CANDIDATE \<longrightarrow>
       ls_incumbent s' = \<lparr>ic_retained = po_retained prop, ic_comparison_sha256 = cm_result_sha256 c,
         ic_protocol_sha256 = tp_sha256 p, ic_source = FROM_REDUCTION (proposal_id (length (ls_attempts s) + 1))\<rparr>
       \<and> ls_granularity s' = max 2 (ls_granularity s - 1) \<and> ls_cursor s' = 0"
    "\<not> (\<not> overlaps \<and> cm_status c = REVERSAL_CANDIDATE) \<longrightarrow>
       ls_incumbent s' = ls_incumbent s \<and> ls_granularity s' = ls_granularity s \<and> ls_cursor s' = ls_cursor s"
proof -
  from assms obtain c acc overlaps where parts: "ox_proposal_id ob = proposal_id (length (ls_attempts s) + 1)"
    "rd_compare r p (ox_inputs ob) = Inr c"
    "track p (rd_durations r) (ox_inputs ob) (ls_accounted s) = Inr (acc, overlaps)"
    and s': "s' = settle p prop c acc overlaps s"
    by (auto simp: judge_def result_simps split: if_splits)
  show thesis
    by (rule that [OF parts]) (auto simp: s' settle_def Let_def)
qed

lemma judge_attempt:
  assumes "judge r p prop ob s = Inr s'"
  obtains a where "ls_attempts s' = ls_attempts s @ [a]" "ls_tested s' = po_retained prop # ls_tested s"
    "at_proposal a = prop" "at_proposal_id a = proposal_id (length (ls_attempts s) + 1)"
    "rd_compare r p (ox_inputs ob) = Inr (at_comparison a)"
    "at_accepted a \<longleftrightarrow> \<not> at_overlaps a \<and> cm_status (at_comparison a) = REVERSAL_CANDIDATE"
    "track p (rd_durations r) (ox_inputs ob) (ls_accounted s) = Inr (ls_accounted s', at_overlaps a)"
    "ls_observations s' = tl (ls_observations s)"
    "at_accepted a \<longrightarrow> ic_retained (ls_incumbent s') = po_retained prop
       \<and> ls_granularity s' = max 2 (ls_granularity s - 1) \<and> ls_cursor s' = 0"
    "\<not> at_accepted a \<longrightarrow>
       ls_incumbent s' = ls_incumbent s \<and> ls_granularity s' = ls_granularity s \<and> ls_cursor s' = ls_cursor s"
proof (rule judge_cases [OF assms], goal_cases)
  case (1 c acc overlaps)
  show ?case
    by (rule that [of "\<lparr>at_proposal_id = proposal_id (length (ls_attempts s) + 1),
       at_proposal = prop, at_protocol_sha256 = tp_sha256 p, at_comparison = c, at_overlaps = overlaps,
       at_status = (if overlaps then INELIGIBLE else cm_status c),
       at_accepted = (\<not> overlaps \<and> cm_status c = REVERSAL_CANDIDATE)\<rparr>"])
      (use 1 in simp_all)
qed

lemma turn_again_cases:
  assumes "reduce_turn r s = Inr (Again s')" and "cursor_ok s"
  obtains
    (refine) "loop_granularity s < loop_size s" "ls_cursor s = loop_granularity s"
      "s' = s\<lparr>ls_granularity := min (loop_size s) (loop_granularity s * 2), ls_cursor := 0\<rparr>"
  | (skip) "ls_cursor s < loop_granularity s" "2 \<le> loop_size s"
      "empty_blocks (rd_active r) (po_retained (propose (ic_retained (ls_incumbent s)) (loop_granularity s) (ls_cursor s))) \<noteq> []"
      "s' = s\<lparr>ls_granularity := loop_granularity s, ls_cursor := ls_cursor s + 1,
        ls_skips := ls_skips s @ [(propose (ic_retained (ls_incumbent s)) (loop_granularity s) (ls_cursor s),
          empty_blocks (rd_active r) (po_retained (propose (ic_retained (ls_incumbent s)) (loop_granularity s) (ls_cursor s))))]\<rparr>"
  | (cached) "ls_cursor s < loop_granularity s" "2 \<le> loop_size s"
      "po_retained (propose (ic_retained (ls_incumbent s)) (loop_granularity s) (ls_cursor s)) \<in> set (ls_tested s)"
      "s' = s\<lparr>ls_granularity := loop_granularity s, ls_cursor := ls_cursor s + 1, ls_cached := ls_cached s + 1\<rparr>"
      "empty_blocks (rd_active r) (po_retained (propose (ic_retained (ls_incumbent s)) (loop_granularity s) (ls_cursor s))) = []"
  | (judged) p ob obs where "ls_cursor s < loop_granularity s" "2 \<le> loop_size s"
      "po_retained (propose (ic_retained (ls_incumbent s)) (loop_granularity s) (ls_cursor s)) \<notin> set (ls_tested s)"
      "int (length (ls_attempts s)) \<noteq> rp_comparison_limit (rd_plan r)"
      "rd_protocol r (po_retained (propose (ic_retained (ls_incumbent s)) (loop_granularity s) (ls_cursor s))) = Inr p"
      "ls_observations s = ob # obs"
      "judge r p (propose (ic_retained (ls_incumbent s)) (loop_granularity s) (ls_cursor s)) ob
        (s\<lparr>ls_granularity := loop_granularity s, ls_cursor := ls_cursor s + 1\<rparr>) = Inr s'"
      "empty_blocks (rd_active r) (po_retained (propose (ic_retained (ls_incumbent s)) (loop_granularity s) (ls_cursor s))) = []"
proof -
  have size: "2 \<le> loop_size s" using assms(1) by (auto simp: reduce_turn_def Let_def loop_size_def split: if_splits)
  show thesis
  proof (cases "ls_cursor s = loop_granularity s")
    case True
    then have "loop_granularity s < loop_size s" "ls_cursor s = loop_granularity s"
      "s' = s\<lparr>ls_granularity := min (loop_size s) (loop_granularity s * 2), ls_cursor := 0\<rparr>"
      using assms(1) size
      by (auto simp: reduce_turn_def Let_def loop_size_def loop_granularity_def min_def split: if_splits)
    then show thesis by (rule refine)
  next
    case False
    then have cursor: "ls_cursor s < loop_granularity s" using assms(2) by (simp add: cursor_ok_def)
    have tried: "try_proposal r (propose (ic_retained (ls_incumbent s)) (loop_granularity s) (ls_cursor s))
        (s\<lparr>ls_granularity := loop_granularity s, ls_cursor := ls_cursor s + 1\<rparr>) = Inr (Again s')"
      using assms(1) size False
      by (simp add: reduce_turn_def Let_def loop_size_def loop_granularity_def)
    show thesis
    proof (cases "ls_observations s")
      case Nil
      with tried show thesis unfolding try_proposal_def
        by (auto simp: result_simps split: if_splits intro: skip [OF cursor size] cached [OF cursor size])
    next
      case (Cons ob obs)
      with tried show thesis unfolding try_proposal_def
        by (auto simp: result_simps split: if_splits
            intro: skip [OF cursor size] cached [OF cursor size] judged [OF cursor size])
    qed
  qed
qed

lemma turn_again_progress:
  assumes "reduce_turn r s = Inr (Again s')" and "cursor_ok s"
  shows "cursor_ok s' \<and> (s', s) \<in> loop_order"
  using assms
proof (cases rule: turn_again_cases)
  case refine
  have "1 \<le> loop_granularity s" using refine assms(2) by (auto simp: cursor_ok_def loop_granularity_def min_def split: if_splits)
  then show ?thesis using refine
    by (auto simp: cursor_ok_def loop_order_def loop_granularity_def loop_size_def min_def split: if_splits)
next
  case skip
  then show ?thesis using assms(2)
    by (auto simp: cursor_ok_def loop_order_def loop_granularity_def loop_size_def min_def split: if_splits)
next
  case cached
  then show ?thesis using assms(2)
    by (auto simp: cursor_ok_def loop_order_def loop_granularity_def loop_size_def min_def split: if_splits)
next
  case (judged p ob obs)
  define pr where "pr = propose (ic_retained (ls_incumbent s)) (loop_granularity s) (ls_cursor s)"
  have shorter: "length (po_retained pr) < loop_size s"
    unfolding pr_def loop_size_def
    by (rule propose_shorter) (use judged in \<open>auto simp: loop_granularity_def loop_size_def\<close>)
  have base: "1 \<le> loop_granularity s" "loop_granularity s \<le> loop_size s"
    using judged assms(2) by (auto simp: loop_granularity_def)
  from judged(7) [folded pr_def] have
    "(ls_incumbent s' = ls_incumbent s \<and> ls_granularity s' = loop_granularity s \<and> ls_cursor s' = ls_cursor s + 1)
     \<or> (ic_retained (ls_incumbent s') = po_retained pr \<and> ls_granularity s' = max 2 (loop_granularity s - 1)
         \<and> ls_cursor s' = 0)"
    by (rule judge_cases) auto
  then show ?thesis using shorter base judged(1)
    by (auto simp: cursor_ok_def loop_order_def loop_granularity_def loop_size_def min_def split: if_splits)
qed

lemma wf_loop_order: "wf loop_order"
  by (simp add: loop_order_def)

lemma reduce_loop_returns: "cursor_ok s \<Longrightarrow> \<exists>x. reduce_loop r s = Some x"
proof (induction s rule: wf_induct_rule [OF wf_loop_order])
  case (1 s)
  show ?case
  proof (cases "reduce_turn r s")
    case (Inl e)
    then show ?thesis by (subst reduce_loop.simps) simp
  next
    case (Inr t)
    show ?thesis
    proof (cases t)
      case (Again s')
      with Inr have "cursor_ok s' \<and> (s', s) \<in> loop_order" using turn_again_progress 1(2) by blast
      with 1 have "\<exists>x. reduce_loop r s' = Some x" by blast
      then show ?thesis by (subst reduce_loop.simps) (simp add: Inr Again)
    next
      case (Finished status action s')
      then show ?thesis by (subst reduce_loop.simps) (simp add: Inr)
    qed
  qed
qed

lemma cursor_ok_first: "cursor_ok (first_state r c p a obs)"
  by (simp add: cursor_ok_def first_state_def)

text \<open>
  C21: the reduction always returns. Whatever the groups, the budget, the evidence and the answers of the
  comparison, the loop ends with a report or an error.
\<close>

theorem run_reduction_returns: "\<exists>x. run_reduction r src obs = Some x"
proof -
  have "\<exists>x. reduce_loop r (first_state r c p a obs) = Some x" for c p a
    by (rule reduce_loop_returns [OF cursor_ok_first])
  then show ?thesis
    unfolding run_reduction_def
    by (auto split: sum.split option.split prod.split) (metis option.distinct(1))
qed

text \<open>An invariant of the turns holds where the loop stops.\<close>

lemma reduce_loop_invariant:
  assumes "reduce_loop r s = Some (Inr (status, action, s'))" and "I s" and "cursor_ok s"
    and step: "\<And>s t. I s \<Longrightarrow> cursor_ok s \<Longrightarrow> reduce_turn r s = Inr (Again t) \<Longrightarrow> I t"
  shows "\<exists>t. I t \<and> cursor_ok t \<and> reduce_turn r t = Inr (Finished status action s')"
  using assms(3,1,2)
proof (induction s rule: wf_induct_rule [OF wf_loop_order])
  case (1 s)
  show ?case
  proof (cases "reduce_turn r s")
    case (Inl e)
    with 1(3) show ?thesis by (simp add: reduce_loop.simps [of r s])
  next
    case (Inr t)
    show ?thesis
    proof (cases t)
      case (Again s1)
      with Inr have s1: "cursor_ok s1" "(s1, s) \<in> loop_order" using turn_again_progress 1(2) by blast+
      have "reduce_loop r s1 = Some (Inr (status, action, s'))"
        using 1(3) by (simp add: reduce_loop.simps [of r s] Inr Again)
      with 1(1) [OF s1(2) s1(1)] step 1(2,4) Inr Again show ?thesis by blast
    next
      case (Finished status1 action1 s1)
      with 1(3) Inr show ?thesis using 1(2,4) by (auto simp: reduce_loop.simps [of r s])
    qed
  qed
qed

section \<open>A completed reduction is one-minimal\<close>

definition tried :: "reducer \<Rightarrow> loop_state \<Rightarrow> py_text list \<Rightarrow> bool" where
  "tried r s groups \<longleftrightarrow> empty_blocks (rd_active r) groups \<noteq> [] \<or> groups \<in> set (ls_tested s)"

definition complement :: "'a \<Rightarrow> 'a list \<Rightarrow> 'a list" where
  "complement x xs = filter (\<lambda>y. y \<noteq> x) xs"

definition sweeping :: "reducer \<Rightarrow> loop_state \<Rightarrow> bool" where
  "sweeping r s \<longleftrightarrow>
     set (ls_tested s) = (po_retained \<circ> at_proposal) ` set (ls_attempts s)
     \<and> (\<forall>a \<in> set (ls_attempts s). at_accepted a \<longrightarrow> loop_size s \<le> length (po_retained (at_proposal a)))
     \<and> (loop_granularity s = loop_size s \<longrightarrow>
         (\<forall>i < ls_cursor s. tried r s (complement (ic_retained (ls_incumbent s) ! i) (ic_retained (ls_incumbent s)))))"

lemma propose_single:
  "c < length groups \<Longrightarrow> po_retained (propose groups (length groups) c) = complement (groups ! c) groups"
  by (simp add: propose_def slice_single complement_def)

text \<open>Moving the cursor past a mask that has been tried.\<close>

lemma sweeping_advance:
  assumes "sweeping r s" and "ls_cursor s < loop_granularity s"
    and "tried r s (po_retained (propose (ic_retained (ls_incumbent s)) (loop_granularity s) (ls_cursor s)))"
    and "loop_granularity t = loop_granularity s" "ls_cursor t = ls_cursor s + 1"
    and "ls_incumbent t = ls_incumbent s" "ls_tested t = ls_tested s" "ls_attempts t = ls_attempts s"
  shows "sweeping r t"
proof -
  have size: "loop_size t = loop_size s" using assms(6) by (simp add: loop_size_def)
  have "tried r t (complement (ic_retained (ls_incumbent t) ! i) (ic_retained (ls_incumbent t)))"
    if "loop_granularity t = loop_size t" "i < ls_cursor t" for i
  proof (cases "i = ls_cursor s")
    case True
    have "tried r s (complement (ic_retained (ls_incumbent s) ! i) (ic_retained (ls_incumbent s)))"
      using assms(2,3) that(1) size assms(4) True propose_single [of i "ic_retained (ls_incumbent s)"]
      by (simp add: loop_size_def)
    then show ?thesis using assms by (simp add: tried_def)
  next
    case False
    with that assms(5) have "i < ls_cursor s" by simp
    then show ?thesis using assms that size by (auto simp: sweeping_def tried_def)
  qed
  then show ?thesis using assms size by (auto simp: sweeping_def)
qed

lemma sweeping_turn:
  assumes "reduce_turn r s = Inr (Again s')" and "cursor_ok s" and "sweeping r s"
  shows "sweeping r s'"
  using assms(1,2)
proof (cases rule: turn_again_cases)
  case refine
  then show ?thesis using assms(3) by (simp add: sweeping_def loop_size_def)
next
  case skip
  show ?thesis
    by (rule sweeping_advance [OF assms(3) skip(1)])
      (use skip in \<open>simp_all add: tried_def loop_granularity_def loop_size_def\<close>)
next
  case cached
  show ?thesis
    by (rule sweeping_advance [OF assms(3) cached(1)])
      (use cached in \<open>simp_all add: tried_def loop_granularity_def loop_size_def\<close>)
next
  case (judged p ob obs)
  define pr where "pr = propose (ic_retained (ls_incumbent s)) (loop_granularity s) (ls_cursor s)"
  have shorter: "length (po_retained pr) < loop_size s"
    unfolding pr_def loop_size_def
    by (rule propose_shorter) (use judged in \<open>auto simp: loop_granularity_def loop_size_def\<close>)
  have single: "po_retained pr = complement (ic_retained (ls_incumbent s) ! ls_cursor s) (ic_retained (ls_incumbent s))"
    if "loop_granularity s = loop_size s"
    unfolding pr_def using that judged(1) propose_single by (simp add: loop_size_def)
  from judged(7) [folded pr_def] obtain a where a: "at_proposal a = pr" "ls_attempts s' = ls_attempts s @ [a]"
    "ls_tested s' = po_retained pr # ls_tested s"
    "at_accepted a \<longrightarrow> ic_retained (ls_incumbent s') = po_retained pr \<and> ls_cursor s' = 0"
    "\<not> at_accepted a \<longrightarrow> ls_incumbent s' = ls_incumbent s \<and> ls_granularity s' = loop_granularity s
       \<and> ls_cursor s' = ls_cursor s + 1"
    by (rule judge_attempt) simp
  show ?thesis
  proof (cases "at_accepted a")
    case True
    then show ?thesis using a shorter assms(3) by (auto simp: sweeping_def loop_size_def)
  next
    case False
    with a have inc: "ls_incumbent s' = ls_incumbent s" "loop_size s' = loop_size s"
      "loop_granularity s' = loop_granularity s" "ls_cursor s' = ls_cursor s + 1"
      by (auto simp: loop_size_def loop_granularity_def)
    have "tried r s' (complement (ic_retained (ls_incumbent s) ! i) (ic_retained (ls_incumbent s)))"
      if "loop_granularity s = loop_size s" "i < ls_cursor s + 1" for i
      using that assms(3) single a(3) by (cases "i = ls_cursor s") (auto simp: sweeping_def tried_def)
    then show ?thesis using a False inc assms(3) by (auto simp: sweeping_def)
  qed
qed

lemma try_not_complete: "try_proposal r prop s \<noteq> Inr (Finished REDUCTION_COMPLETE action s')"
  by (cases "ls_observations s") (auto simp: try_proposal_def result_simps split: if_splits)

lemma complete_turn:
  assumes "reduce_turn r s = Inr (Finished REDUCTION_COMPLETE action s')"
  shows "loop_size s \<le> 1 \<or> ls_cursor s = loop_size s \<and> loop_granularity s = loop_size s"
    and "ls_incumbent s' = ls_incumbent s" "ls_attempts s' = ls_attempts s"
  using assms
  by (auto simp: reduce_turn_def try_not_complete Let_def loop_size_def loop_granularity_def split: if_splits)

lemma run_reduction_parts:
  assumes "run_reduction r src obs = Some (Inr rep)"
  obtains a status action s where "track_source (rd_durations r) (se_candidates src) nothing_accounted = Inr a"
    "reduce_loop r (first_state r (se_comparison_sha256 src) (se_protocol_sha256 src) a obs)
       = Some (Inr (status, action, s))"
    "ls_observations s = []" "rep = report_of r status action s"
    "int (length obs) \<le> rp_comparison_limit (rd_plan r)"
  using assms by (auto simp: run_reduction_def split: if_splits sum.splits option.splits)

text \<open>
  C22: a completed reduction is one-minimal with respect to its evidence: unless at most one group is
  left, taking any single group out of the retained ones either leaves some block without a moved offer
  or was submitted as a proposal of its own and not accepted.
\<close>

theorem complete_reduction_one_minimal:
  assumes "run_reduction r src obs = Some (Inr rep)" and "rr_status rep = REDUCTION_COMPLETE"
  shows "length (ic_retained (rr_incumbent rep)) \<le> 1
     \<or> list_all (\<lambda>x. 0 < length (empty_blocks (rd_active r) (complement x (ic_retained (rr_incumbent rep))))
          \<or> list_ex (\<lambda>a. po_retained (at_proposal a) = complement x (ic_retained (rr_incumbent rep))
               \<and> \<not> at_accepted a) (rr_attempts rep))
        (ic_retained (rr_incumbent rep))"
proof -
  from assms(1) obtain a status action s where run:
    "reduce_loop r (first_state r (se_comparison_sha256 src) (se_protocol_sha256 src) a obs)
       = Some (Inr (status, action, s))" "rep = report_of r status action s"
    by (rule run_reduction_parts)
  have status: "status = REDUCTION_COMPLETE" using assms(2) run(2) by (simp add: report_of_def Let_def)
  have "sweeping r (first_state r c p a obs)" for c p by (simp add: sweeping_def first_state_def)
  from reduce_loop_invariant [where I = "sweeping r", OF run(1) this cursor_ok_first] sweeping_turn
  obtain t where t: "sweeping r t" "reduce_turn r t = Inr (Finished REDUCTION_COMPLETE action s)"
    unfolding status by blast
  define gs where "gs = ic_retained (ls_incumbent t)"
  note ended = complete_turn [OF t(2)]
  have rep: "ic_retained (rr_incumbent rep) = gs" "rr_attempts rep = ls_attempts t"
    using ended(2,3) run(2) by (simp_all add: report_of_def Let_def gs_def)
  show ?thesis
  proof (cases "loop_size t \<le> 1")
    case True
    then show ?thesis by (simp add: rep loop_size_def gs_def)
  next
    case False
    with ended(1) have at_end: "ls_cursor t = length gs" "loop_granularity t = loop_size t"
      by (auto simp: loop_size_def gs_def)
    have "0 < length (empty_blocks (rd_active r) (complement x gs))
        \<or> list_ex (\<lambda>a. po_retained (at_proposal a) = complement x gs \<and> \<not> at_accepted a) (ls_attempts t)"
      if "x \<in> set gs" for x
    proof (rule disjCI, rule ccontr)
      assume no_attempt: "\<not> list_ex (\<lambda>a. po_retained (at_proposal a) = complement x gs \<and> \<not> at_accepted a) (ls_attempts t)"
      assume no_skip: "\<not> 0 < length (empty_blocks (rd_active r) (complement x gs))"
      from that obtain i where "i < length gs" "x = gs ! i" by (metis in_set_conv_nth)
      with t(1) at_end no_skip have "complement x gs \<in> set (ls_tested t)"
        by (auto simp: sweeping_def tried_def gs_def)
      then obtain a where a: "a \<in> set (ls_attempts t)" "po_retained (at_proposal a) = complement x gs"
        using t(1) by (auto simp: sweeping_def)
      have "length (complement x gs) < length gs"
        unfolding complement_def using that by (intro length_filter_less) auto
      with a t(1) have "\<not> at_accepted a" by (auto simp: sweeping_def loop_size_def gs_def)
      with a no_attempt show False by (auto simp: list_ex_iff)
    qed
    then show ?thesis by (simp add: rep list_all_iff)
  qed
qed

section \<open>Attempts follow the evidence\<close>

text \<open>The groups left by a sequence of attempts: those of its last accepted one.\<close>

fun survivors :: "py_text list \<Rightarrow> attempt list \<Rightarrow> py_text list" where
  "survivors groups [] = groups"
| "survivors groups (a # rest) = survivors (if at_accepted a then po_retained (at_proposal a) else groups) rest"

lemma survivors_snoc:
  "survivors groups (as @ [a]) = (if at_accepted a then po_retained (at_proposal a) else survivors groups as)"
  by (induction as arbitrary: groups) auto

text \<open>An attempt after others: its identity, its parent, what it removes and why it was accepted.\<close>

definition attempt_ok :: "reducer \<Rightarrow> attempt list \<Rightarrow> attempt \<Rightarrow> bool" where
  "attempt_ok r before a \<longleftrightarrow>
     at_proposal_id a = proposal_id (length before + 1)
     \<and> po_parent (at_proposal a) = survivors (rp_source_groups (rd_plan r)) before
     \<and> po_removed (at_proposal a) \<noteq> []
     \<and> set (po_removed (at_proposal a)) \<subseteq> set (po_parent (at_proposal a))
     \<and> po_retained (at_proposal a)
         = filter (\<lambda>x. x \<notin> set (po_removed (at_proposal a))) (po_parent (at_proposal a))
     \<and> empty_blocks (rd_active r) (po_retained (at_proposal a)) = []
     \<and> at_accepted a = (\<not> at_overlaps a \<and> cm_status (at_comparison a) = REVERSAL_CANDIDATE)"

definition attempts_ok :: "reducer \<Rightarrow> attempt list \<Rightarrow> bool" where
  "attempts_ok r as \<longleftrightarrow>
     list_all (\<lambda>i. attempt_ok r (take i as) (as ! i)) [0..<length as]
     \<and> distinct (map (po_retained \<circ> at_proposal) as)"

lemma attempts_ok_snoc:
  "attempts_ok r (as @ [a]) \<longleftrightarrow>
     attempts_ok r as \<and> attempt_ok r as a \<and> po_retained (at_proposal a) \<notin> (po_retained \<circ> at_proposal) ` set as"
  by (auto simp: attempts_ok_def list_all_iff nth_append)

definition following :: "reducer \<Rightarrow> proposal_evidence list \<Rightarrow> loop_state \<Rightarrow> bool" where
  "following r obs s \<longleftrightarrow>
     attempts_ok r (ls_attempts s)
     \<and> ic_retained (ls_incumbent s) = survivors (rp_source_groups (rd_plan r)) (ls_attempts s)
     \<and> set (ls_tested s) = (po_retained \<circ> at_proposal) ` set (ls_attempts s)
     \<and> ls_observations s = drop (length (ls_attempts s)) obs \<and> length (ls_attempts s) \<le> length obs"

lemma following_turn:
  assumes "reduce_turn r s = Inr (Again s')" and "cursor_ok s" and "following r obs s"
  shows "following r obs s'"
  using assms(1,2)
proof (cases rule: turn_again_cases)
  case refine
  then show ?thesis using assms(3) by (simp add: following_def)
next
  case skip
  then show ?thesis using assms(3) by (simp add: following_def)
next
  case cached
  then show ?thesis using assms(3) by (simp add: following_def)
next
  case (judged p ob rest)
  define pr where "pr = propose (ic_retained (ls_incumbent s)) (loop_granularity s) (ls_cursor s)"
  have filled: "empty_blocks (rd_active r) (po_retained pr) = []"
    unfolding pr_def by (rule judged(8))
  have removed: "po_removed pr \<noteq> []" "set (po_removed pr) \<subseteq> set (po_parent pr)"
    "po_retained pr = filter (\<lambda>x. x \<notin> set (po_removed pr)) (po_parent pr)"
    "po_parent pr = ic_retained (ls_incumbent s)"
    unfolding pr_def using slice_nonempty [OF judged(1), of "ic_retained (ls_incumbent s)"]
    by (auto simp: propose_def Let_def loop_size_def loop_granularity_def dest: subsetD [OF set_slice])
  have new: "length (ls_attempts s) < length obs" and
    rest: "drop (length (ls_attempts s)) obs = ob # rest"
    using assms(3) judged(6) by (auto simp: following_def not_le intro: ccontr)
  from judged(7) [folded pr_def] obtain a where a: "at_proposal a = pr" "ls_attempts s' = ls_attempts s @ [a]"
    "ls_tested s' = po_retained pr # ls_tested s" "at_proposal_id a = proposal_id (length (ls_attempts s) + 1)"
    "at_accepted a \<longleftrightarrow> \<not> at_overlaps a \<and> cm_status (at_comparison a) = REVERSAL_CANDIDATE"
    "ls_observations s' = tl (ls_observations s)"
    "at_accepted a \<longrightarrow> ic_retained (ls_incumbent s') = po_retained pr"
    "\<not> at_accepted a \<longrightarrow> ls_incumbent s' = ls_incumbent s"
    by (rule judge_attempt) simp
  have ok: "attempt_ok r (ls_attempts s) a"
    using a removed filled assms(3) by (simp add: attempt_ok_def following_def)
  have "po_retained pr \<notin> (po_retained \<circ> at_proposal) ` set (ls_attempts s)"
    using assms(3) judged(3) by (simp add: following_def pr_def)
  with ok a assms(3) new show ?thesis
    by (auto simp: following_def attempts_ok_snoc survivors_snoc drop_Suc tl_drop)
qed

lemma following_first: "following r obs (first_state r c p a obs)"
  by (simp add: following_def first_state_def attempts_ok_def)

lemma turn_finished:
  assumes "reduce_turn r s = Inr (Finished status action s')"
  shows "ls_attempts s' = ls_attempts s" "ls_incumbent s' = ls_incumbent s"
    "ls_observations s' = ls_observations s" "ls_accounted s' = ls_accounted s"
  using assms
  by (cases "ls_observations s";
      auto simp: reduce_turn_def try_proposal_def Let_def result_simps split: if_splits)+

lemma reduction_following:
  assumes "run_reduction r src obs = Some (Inr rep)"
  shows "attempts_ok r (rr_attempts rep)"
    and "ic_retained (rr_incumbent rep) = survivors (rp_source_groups (rd_plan r)) (rr_attempts rep)"
    and "length (rr_attempts rep) = length obs"
    and "int (length (rr_attempts rep)) \<le> rp_comparison_limit (rd_plan r)"
proof -
  from assms obtain a status action s where run:
    "reduce_loop r (first_state r (se_comparison_sha256 src) (se_protocol_sha256 src) a obs)
       = Some (Inr (status, action, s))" "rep = report_of r status action s" "ls_observations s = []"
    "int (length obs) \<le> rp_comparison_limit (rd_plan r)"
    by (rule run_reduction_parts)
  from reduce_loop_invariant [where I = "following r obs", OF run(1) following_first cursor_ok_first]
    following_turn
  obtain t where "following r obs t" "reduce_turn r t = Inr (Finished status action s)" by blast
  with run turn_finished show "attempts_ok r (rr_attempts rep)"
    "ic_retained (rr_incumbent rep) = survivors (rp_source_groups (rd_plan r)) (rr_attempts rep)"
    "length (rr_attempts rep) = length obs" "int (length (rr_attempts rep)) \<le> rp_comparison_limit (rd_plan r)"
    by (simp_all add: following_def report_of_def Let_def)
qed

lemmas reduction_count = reduction_following(3)


section \<open>No evidence is used twice\<close>

definition results_of :: "trial_input list \<Rightarrow> string list" where
  "results_of inputs = map ti_result_sha256 inputs"

definition requests_of :: "trial_input list \<Rightarrow> string list" where
  "requests_of inputs = concat (map (\<lambda>t. remdups (ti_request_ids t)) inputs)"

lemma evidence_append [simp]:
  "results_of [] = []" "requests_of [] = []"
  "results_of (xs @ ys) = results_of xs @ results_of ys"
  "requests_of (xs @ ys) = requests_of xs @ requests_of ys"
  by (simp_all add: results_of_def requests_of_def)

definition accounts_for :: "accounted \<Rightarrow> trial_input list \<Rightarrow> bool" where
  "accounts_for a inputs \<longleftrightarrow>
     ac_results a = results_of inputs \<and> ac_requests a = requests_of inputs
     \<and> distinct (ac_results a) \<and> distinct (ac_requests a)"

lemma accounts_for_nothing: "accounts_for nothing_accounted []"
  by (simp add: accounts_for_def nothing_accounted_def)

lemma track_trial_accounts:
  assumes "track_trial p d (a, starts, ends) t = Inr (a', starts', ends')" and "accounts_for a inputs"
  shows "accounts_for a' (inputs @ [t])"
  using assms
  by (auto simp: track_trial_def result_simps accounts_for_def results_of_def requests_of_def split: if_splits)

lemma track_trials_account:
  assumes "res_fold (track_trial p d) (a, starts, ends) new = Inr (a', starts', ends')" and "accounts_for a inputs"
  shows "accounts_for a' (inputs @ new)"
  using assms
proof (induction new arbitrary: a starts ends inputs)
  case Nil
  then show ?case by simp
next
  case (Cons t new)
  from Cons.prems(1) obtain a1 starts1 ends1 where "track_trial p d (a, starts, ends) t = Inr (a1, starts1, ends1)"
    "res_fold (track_trial p d) (a1, starts1, ends1) new = Inr (a', starts', ends')"
    by (auto simp: result_simps)
  with Cons.IH track_trial_accounts Cons.prems(2) have "accounts_for a' ((inputs @ [t]) @ new)" by blast
  then show ?case by simp
qed

lemma track_accounts:
  assumes "track p d new a = Inr (a', overlaps)" and "accounts_for a inputs"
  shows "accounts_for a' (inputs @ new)"
proof -
  from assms(1) obtain a1 starts ends where "res_fold (track_trial p d) (a, [], []) new = Inr (a1, starts, ends)"
    "a' = a1\<lparr>ac_previous_end := fold max ends (ac_previous_end a)\<rparr>"
    by (auto simp: track_def result_simps)
  with track_trials_account [OF this(1) assms(2)] show ?thesis by (auto simp: accounts_for_def simp del: evidence_append)
qed

lemma track_source_accounts:
  assumes "track_source d candidates a = Inr a'" and "accounts_for a inputs"
  shows "accounts_for a' (inputs @ concat (map snd candidates))"
  using assms
proof (induction d candidates a arbitrary: inputs rule: track_source.induct)
  case (1 d a)
  then show ?case by simp
next
  case (2 d protocol new rest a)
  from 2(2) obtain p a1 overlaps where "protocol = Inr p" "track p d new a = Inr (a1, overlaps)"
    "track_source d rest a1 = Inr a'" by (auto simp: result_simps)
  with 2(1) [of p "(a1, overlaps)" a1 overlaps "inputs @ new"] track_accounts 2(3) show ?case by simp
qed

definition all_evidence :: "source_evidence \<Rightarrow> proposal_evidence list \<Rightarrow> trial_input list" where
  "all_evidence src obs = concat (map snd (se_candidates src)) @ concat (map ox_inputs obs)"

definition accounting :: "source_evidence \<Rightarrow> proposal_evidence list \<Rightarrow> loop_state \<Rightarrow> bool" where
  "accounting src obs s \<longleftrightarrow>
     (\<exists>used. obs = used @ ls_observations s \<and> accounts_for (ls_accounted s) (all_evidence src used))"

lemma accounting_turn:
  assumes "reduce_turn r s = Inr (Again s')" and "cursor_ok s" and "accounting src obs s"
  shows "accounting src obs s'"
  using assms(1,2)
proof (cases rule: turn_again_cases)
  case refine
  then show ?thesis using assms(3) by (simp add: accounting_def)
next
  case skip
  then show ?thesis using assms(3) by (simp add: accounting_def)
next
  case cached
  then show ?thesis using assms(3) by (simp add: accounting_def)
next
  case (judged p ob rest)
  from assms(3) obtain used where used: "obs = used @ ob # rest"
    "accounts_for (ls_accounted s) (all_evidence src used)"
    by (auto simp: accounting_def judged(6))
  from judged(7) obtain overlaps where
    "track p (rd_durations r) (ox_inputs ob) (ls_accounted s) = Inr (ls_accounted s', overlaps)"
    "ls_observations s' = rest"
    by (rule judge_attempt) (simp add: judged(6))
  with used track_accounts have "accounts_for (ls_accounted s') (all_evidence src used @ ox_inputs ob)"
    "obs = (used @ [ob]) @ ls_observations s'" by auto
  then show ?thesis
    unfolding accounting_def by (intro exI [of _ "used @ [ob]"]) (simp add: all_evidence_def)
qed

text \<open>
  C33: no evidence is used twice. Over the source search and every observation together, the trial
  results are pairwise different and no request identity occurs in two of them.
\<close>

theorem evidence_never_reused:
  assumes "run_reduction r src obs = Some (Inr rep)"
  shows "distinct (results_of (all_evidence src obs)) \<and> distinct (requests_of (all_evidence src obs))"
proof -
  from assms obtain a status action s where run:
    "track_source (rd_durations r) (se_candidates src) nothing_accounted = Inr a"
    "reduce_loop r (first_state r (se_comparison_sha256 src) (se_protocol_sha256 src) a obs)
       = Some (Inr (status, action, s))" "ls_observations s = []"
    by (rule run_reduction_parts)
  from track_source_accounts [OF run(1) accounts_for_nothing]
  have "accounting src obs (first_state r (se_comparison_sha256 src) (se_protocol_sha256 src) a obs)"
    by (simp add: accounting_def first_state_def all_evidence_def)
  from reduce_loop_invariant [where I = "accounting src obs", OF run(2) this cursor_ok_first] accounting_turn
  obtain t where "accounting src obs t" "reduce_turn r t = Inr (Finished status action s)" by blast
  with run(3) turn_finished(3) have "\<exists>a. accounts_for a (all_evidence src obs)" by (auto simp: accounting_def)
  then show ?thesis by (auto simp: accounts_for_def)
qed

section \<open>Replaying a prefix of the evidence\<close>

text \<open>A state that has seen only the first \<open>n\<close> observations.\<close>

definition shortened :: "nat \<Rightarrow> loop_state \<Rightarrow> loop_state" where
  "shortened n s = s\<lparr>ls_observations := take (n - length (ls_attempts s)) (ls_observations s)\<rparr>"

lemma shortened_simps [simp]:
  "ls_attempts (shortened n s) = ls_attempts s" "ls_incumbent (shortened n s) = ls_incumbent s"
  "ls_accounted (shortened n s) = ls_accounted s"
  "ls_observations (shortened n s) = take (n - length (ls_attempts s)) (ls_observations s)"
  "ls_granularity (shortened n s) = ls_granularity s" "ls_cursor (shortened n s) = ls_cursor s" "ls_tested (shortened n s) = ls_tested s"
  "shortened n (s\<lparr>ls_granularity := g, ls_cursor := c\<rparr>) = (shortened n s)\<lparr>ls_granularity := g, ls_cursor := c\<rparr>"
  by (simp_all add: shortened_def)

lemma settle_cut: "settle p prop c acc overlaps (shortened n s) = shortened n (settle p prop c acc overlaps s)"
  by (simp add: shortened_def settle_def Let_def tl_take)

lemma judge_cut: "judge r p prop ob s = Inr s' \<Longrightarrow> judge r p prop ob (shortened n s) = Inr (shortened n s')"
  by (auto simp: judge_def result_simps settle_cut split: if_splits)

lemma turn_cut_again:
  assumes "reduce_turn r s = Inr (Again s')" and "cursor_ok s" and "length (ls_attempts s) < n"
  shows "reduce_turn r (shortened n s) = Inr (Again (shortened n s'))"
  using assms(1,2)
proof (cases rule: turn_again_cases)
  case refine
  with assms(1) show ?thesis
    by (auto simp: reduce_turn_def shortened_def Let_def loop_size_def loop_granularity_def split: if_splits)
next
  case skip
  then show ?thesis
    by (auto simp: reduce_turn_def try_proposal_def shortened_def Let_def loop_size_def loop_granularity_def)
next
  case cached
  then show ?thesis using assms(1)
    by (auto simp: reduce_turn_def try_proposal_def shortened_def Let_def loop_size_def loop_granularity_def split: if_splits)
next
  case (judged p ob rest)
  have "ls_observations (shortened n s) = ob # take (n - Suc (length (ls_attempts s))) rest"
    using judged(6) assms(3) by (simp add: shortened_def take_Cons' Suc_diff_Suc)
  with judged judge_cut [OF judged(7), of n] assms(3) show ?thesis
    by (auto simp: reduce_turn_def try_proposal_def Let_def loop_size_def loop_granularity_def result_simps)
qed

text \<open>Where the shortened evidence ends, the turn that would have judged a proposal asks for it.\<close>

lemma turn_cut_stop:
  assumes "reduce_turn r s = Inr (Again s')" and "cursor_ok s" and "length (ls_attempts s) = n"
  shows "reduce_turn r (shortened n s) = Inr (Again (shortened n s')) \<and> ls_attempts s' = ls_attempts s
    \<or> (\<exists>a na t. reduce_turn r (shortened n s) = Inr (Finished AWAITING_EVIDENCE (Some na) t)
        \<and> ls_attempts s' = ls_attempts s @ [a] \<and> na_proposal na = at_proposal a
        \<and> na_proposal_id na = at_proposal_id a \<and> ls_attempts t = ls_attempts s \<and> ls_observations t = [])"
  using assms(1,2)
proof (cases rule: turn_again_cases)
  case refine
  with assms(1) show ?thesis
    by (auto simp: reduce_turn_def shortened_def Let_def loop_size_def loop_granularity_def split: if_splits)
next
  case skip
  then show ?thesis
    by (auto simp: reduce_turn_def try_proposal_def shortened_def Let_def loop_size_def loop_granularity_def)
next
  case cached
  then show ?thesis
    by (auto simp: reduce_turn_def try_proposal_def shortened_def Let_def loop_size_def loop_granularity_def)
next
  case (judged p ob rest)
  define pr where "pr = propose (ic_retained (ls_incumbent s)) (loop_granularity s) (ls_cursor s)"
  define t where "t = (shortened n s)\<lparr>ls_granularity := loop_granularity s, ls_cursor := ls_cursor s + 1\<rparr>"
  from judged(7) [folded pr_def] obtain a where a: "ls_attempts s' = ls_attempts s @ [a]" "at_proposal a = pr"
    "at_proposal_id a = proposal_id (n + 1)"
    by (rule judge_attempt) (simp add: assms(3))
  have "reduce_turn r (shortened n s) = Inr (Finished AWAITING_EVIDENCE
      (Some \<lparr>na_proposal_id = proposal_id (n + 1), na_proposal = pr, na_protocol = p\<rparr>) t)"
    using judged assms(3) unfolding pr_def t_def
    by (auto simp: reduce_turn_def try_proposal_def Let_def loop_size_def loop_granularity_def shortened_def)
  moreover have "ls_attempts t = ls_attempts s" "ls_observations t = []" using assms(3) by (simp_all add: t_def)
  ultimately show ?thesis using a by fastforce
qed

lemma attempts_grow:
  assumes "reduce_loop r s = Some (Inr (status, action, t))" and "cursor_ok s"
  shows "\<exists>new. ls_attempts t = ls_attempts s @ new"
proof -
  have step: "\<exists>new. ls_attempts u' = ls_attempts s @ new"
    if "\<exists>new. ls_attempts u = ls_attempts s @ new" "cursor_ok u" "reduce_turn r u = Inr (Again u')" for u u'
    using turn_cut_stop [OF that(3,2) refl] that(1) by auto
  from reduce_loop_invariant [where I = "\<lambda>u. \<exists>new. ls_attempts u = ls_attempts s @ new", OF assms(1) _ assms(2)] step
  obtain u where "\<exists>new. ls_attempts u = ls_attempts s @ new" "reduce_turn r u = Inr (Finished status action t)"
    by auto
  with turn_finished show ?thesis by simp
qed

lemma reduce_loop_again: "reduce_turn r s = Inr (Again s') \<Longrightarrow> reduce_loop r s = reduce_loop r s'"
  by (subst reduce_loop.simps) simp

lemma reduce_loop_finished:
  "reduce_turn r s = Inr (Finished status action s') \<Longrightarrow> reduce_loop r s = Some (Inr (status, action, s'))"
  by (subst reduce_loop.simps) simp

lemma reduce_loop_cut:
  assumes "reduce_loop r s = Some (Inr (status, action, u))" and "cursor_ok s"
    and "length (ls_attempts s) \<le> n" and "n < length (ls_attempts u)"
  shows "\<exists>na t. reduce_loop r (shortened n s) = Some (Inr (AWAITING_EVIDENCE, Some na, t))
    \<and> ls_attempts t = take n (ls_attempts u) \<and> na_proposal na = at_proposal (ls_attempts u ! n)
    \<and> na_proposal_id na = at_proposal_id (ls_attempts u ! n) \<and> ls_observations t = []"
  using assms(2,1,3)
proof (induction s rule: wf_induct_rule [OF wf_loop_order])
  case (1 s)
  obtain s' where s': "reduce_turn r s = Inr (Again s')"
  proof (cases "reduce_turn r s")
    case (Inl e)
    with 1(3) show ?thesis by (simp add: reduce_loop.simps [of r s])
  next
    case (Inr x)
    show ?thesis
    proof (cases x)
      case (Again y)
      with Inr that show ?thesis by blast
    next
      case (Finished st ac y)
      with Inr 1(3) have "y = u" by (simp add: reduce_loop.simps [of r s])
      with Inr Finished turn_finished(1) 1(4) assms(4) show ?thesis by fastforce
    qed
  qed
  have rest: "reduce_loop r s' = Some (Inr (status, action, u))"
    using 1(3) s' by (simp add: reduce_loop.simps [of r s])
  from turn_again_progress [OF s' 1(2)] have next_ok: "cursor_ok s'" "(s', s) \<in> loop_order" by blast+
  have go_on: ?case if "reduce_turn r (shortened n s) = Inr (Again (shortened n s'))" "length (ls_attempts s') \<le> n"
    unfolding reduce_loop_again [OF that(1)] by (rule 1(1) [OF next_ok(2,1) rest that(2)])
  show ?case
  proof (cases "length (ls_attempts s) < n")
    case True
    from turn_cut_stop [OF s' 1(2) refl] True have "length (ls_attempts s') \<le> n" by auto
    with turn_cut_again [OF s' 1(2) True] go_on show ?thesis by blast
  next
    case False
    then have n: "length (ls_attempts s) = n" using 1(4) by simp
    from turn_cut_stop [OF s' 1(2) n] show ?thesis
    proof
      assume "reduce_turn r (shortened n s) = Inr (Again (shortened n s')) \<and> ls_attempts s' = ls_attempts s"
      with go_on n show ?thesis by simp
    next
      assume "\<exists>a na t. reduce_turn r (shortened n s) = Inr (Finished AWAITING_EVIDENCE (Some na) t)
        \<and> ls_attempts s' = ls_attempts s @ [a] \<and> na_proposal na = at_proposal a
        \<and> na_proposal_id na = at_proposal_id a \<and> ls_attempts t = ls_attempts s \<and> ls_observations t = []"
      then obtain a na t where stop: "reduce_turn r (shortened n s) = Inr (Finished AWAITING_EVIDENCE (Some na) t)"
        "ls_attempts s' = ls_attempts s @ [a]" "na_proposal na = at_proposal a"
        "na_proposal_id na = at_proposal_id a" "ls_attempts t = ls_attempts s" "ls_observations t = []" by blast
      obtain new where "ls_attempts u = ls_attempts s @ a # new"
        using attempts_grow [OF rest next_ok(1)] stop(2) by auto
      then have "ls_attempts u ! n = a" "take n (ls_attempts u) = ls_attempts s" using n by auto
      with stop(3-) show ?thesis unfolding reduce_loop_finished [OF stop(1)] by simp
    qed
  qed
qed

text \<open>
  C34: replay is deterministic on prefixes. A reduction that accepts its observations also accepts every
  proper prefix of them: it makes the same first attempts, ends by asking for the next piece of evidence
  and names the very proposal that the longer run then judged.
\<close>

theorem reduction_replays_prefixes:
  assumes "run_reduction r src obs = Some (Inr rep)" and "n < length obs"
  shows "\<exists>part na. run_reduction r src (take n obs) = Some (Inr part)
     \<and> rr_status part = AWAITING_EVIDENCE \<and> rr_action part = Some na
     \<and> rr_attempts part = take n (rr_attempts rep)
     \<and> na_proposal na = at_proposal (rr_attempts rep ! n)
     \<and> na_proposal_id na = at_proposal_id (rr_attempts rep ! n)"
proof -
  define c p where "c = se_comparison_sha256 src" and "p = se_protocol_sha256 src"
  from assms(1) obtain a status action s where run:
    "track_source (rd_durations r) (se_candidates src) nothing_accounted = Inr a"
    "reduce_loop r (first_state r c p a obs) = Some (Inr (status, action, s))"
    "rep = report_of r status action s" "int (length obs) \<le> rp_comparison_limit (rd_plan r)"
    unfolding c_def p_def by (rule run_reduction_parts)
  have attempts: "rr_attempts rep = ls_attempts s" by (simp add: run(3) report_of_def Let_def)
  with reduction_count [OF assms(1)] have len: "length (ls_attempts s) = length obs" by simp
  have "shortened n (first_state r c p a obs) = first_state r c p a (take n obs)"
    by (simp add: shortened_def first_state_def)
  with reduce_loop_cut [OF run(2) cursor_ok_first, of n] len assms(2)
  obtain na t where "reduce_loop r (first_state r c p a (take n obs)) = Some (Inr (AWAITING_EVIDENCE, Some na, t))"
    "ls_attempts t = take n (ls_attempts s)" "na_proposal na = at_proposal (ls_attempts s ! n)"
    "na_proposal_id na = at_proposal_id (ls_attempts s ! n)" "ls_observations t = []"
    by (auto simp: first_state_def)
  with run(1,4) attempts show ?thesis
    by (simp add: run_reduction_def c_def p_def report_of_def Let_def)
qed

section \<open>A reduction of two groups in one block\<close>

definition demo_reducer :: reducer where
  "demo_reducer = \<lparr>
     rd_plan = \<lparr>rp_source_groups = [[1], [2]], rp_max_comparisons = 4, rp_max_trial_slots = 64,
       rp_slots_per_comparison = 4, rp_comparison_limit = 4\<rparr>,
     rd_active = [[[1], [2]]], rd_durations = [10],
     rd_protocol = (\<lambda>groups. Inr \<lparr>tp_sha256 = ''p'', tp_blocks = [(''t'', 1)]\<rparr>),
     rd_compare = (\<lambda>p inputs. Inr \<lparr>cm_status =
       (if list_ex (\<lambda>t. ti_result_sha256 t = ''yes'') inputs then REVERSAL_CANDIDATE else INCONCLUSIVE),
       cm_result_sha256 = tp_sha256 p\<rparr>)\<rparr>"

definition demo_trial :: "string \<Rightarrow> int \<Rightarrow> trial_input" where
  "demo_trial result start = \<lparr>ti_trial_id = ''t'', ti_result_sha256 = result, ti_request_ids = [''q'' @ result],
     ti_started_ns = start, ti_terminal_ns = [start + 5]\<rparr>"

definition demo_source :: source_evidence where
  "demo_source = \<lparr>se_comparison_sha256 = ''c'', se_protocol_sha256 = ''p'',
     se_candidates = [(Inr \<lparr>tp_sha256 = ''p'', tp_blocks = [(''t'', 1)]\<rparr>, [demo_trial ''s'' 0])]\<rparr>"

definition demo_observations :: "proposal_evidence list" where
  "demo_observations = [\<lparr>ox_proposal_id = ''r001'', ox_inputs = [demo_trial ''x'' 100]\<rparr>,
     \<lparr>ox_proposal_id = ''r002'', ox_inputs = [demo_trial ''y'' 200]\<rparr>]"

lemma summary_eq: "map_option (map_sum id f) x = Some (Inr v) \<longleftrightarrow> (\<exists>y. x = Some (Inr y) \<and> f y = v)"
  by (auto simp: map_sum_def split: sum.splits) (metis old.sum.exhaust)

lemma demo_run: "map_option (map_sum id (\<lambda>rep. (rr_status rep, ic_retained (rr_incumbent rep), length (rr_attempts rep))))
    (run_reduction demo_reducer demo_source demo_observations) = Some (Inr (REDUCTION_COMPLETE, [[1], [2]], 2))"
  by code_simp

lemma complete_reduction_one_minimal_witness:
  "\<exists>rep. run_reduction demo_reducer demo_source demo_observations = Some (Inr rep)
     \<and> rr_status rep = REDUCTION_COMPLETE \<and> length (ic_retained (rr_incumbent rep)) = 2
     \<and> list_all (\<lambda>x. 0 < length (empty_blocks (rd_active demo_reducer) (complement x (ic_retained (rr_incumbent rep))))
          \<or> list_ex (\<lambda>a. po_retained (at_proposal a) = complement x (ic_retained (rr_incumbent rep))
               \<and> \<not> at_accepted a) (rr_attempts rep))
        (ic_retained (rr_incumbent rep))"
proof -
  from demo_run [unfolded summary_eq]
  obtain rep where run: "run_reduction demo_reducer demo_source demo_observations = Some (Inr rep)"
    and rep: "rr_status rep = REDUCTION_COMPLETE" "ic_retained (rr_incumbent rep) = [[1], [2]]" by auto
  from complete_reduction_one_minimal [OF run rep(1)] run rep show ?thesis by auto
qed


lemma evidence_never_reused_witness:
  "\<exists>rep. run_reduction demo_reducer demo_source demo_observations = Some (Inr rep)
     \<and> results_of (all_evidence demo_source demo_observations) = [''s'', ''x'', ''y'']
     \<and> distinct (results_of (all_evidence demo_source demo_observations))
     \<and> distinct (requests_of (all_evidence demo_source demo_observations))"
proof -
  from demo_run [unfolded summary_eq]
  obtain rep where run: "run_reduction demo_reducer demo_source demo_observations = Some (Inr rep)" by blast
  have "results_of (all_evidence demo_source demo_observations) = [''s'', ''x'', ''y'']" by code_simp
  with evidence_never_reused [OF run] run show ?thesis by blast
qed

lemma reduction_replays_prefixes_witness:
  "\<exists>rep part na. run_reduction demo_reducer demo_source demo_observations = Some (Inr rep)
     \<and> run_reduction demo_reducer demo_source (take 1 demo_observations) = Some (Inr part)
     \<and> rr_status part = AWAITING_EVIDENCE \<and> rr_action part = Some na
     \<and> rr_attempts part = take 1 (rr_attempts rep)
     \<and> na_proposal na = at_proposal (rr_attempts rep ! 1)
     \<and> na_proposal_id na = at_proposal_id (rr_attempts rep ! 1)"
proof -
  from demo_run [unfolded summary_eq]
  obtain rep where run: "run_reduction demo_reducer demo_source demo_observations = Some (Inr rep)" by blast
  from reduction_replays_prefixes [OF run, of 1] run show ?thesis
    by (simp add: demo_observations_def)
qed

end
