(* ===== verification/TimedResults.thy ===== *)
theory TimedResults
  imports Complex_Main Links Timing
begin

text \<open>
  Timed client results: the client rows and the checks of \<open>vllm_timed_result.py\<close>, with \<open>summarize\<close> and the
  token certificates of \<open>vllm_router_study.py\<close>. A row is read into a record after its types have been
  checked; a summary the code builds is a record with its encoder. Rendering a double
  is an argument. Lemmas: an accepted row is ordered and complete, and the groups of a summary partition
  its population and its window.
\<close>

section \<open>Client rows\<close>

record client_row =
  cr_index :: int
  cr_scheduled_ns :: int
  cr_epoch :: int
  cr_traffic_class :: py_text
  cr_tenant :: py_text
  cr_ready_ns :: "int option"
  cr_dispatch_ns :: "int option"
  cr_response_headers_ns :: "int option"
  cr_first_body_byte_ns :: "int option"
  cr_first_content_ns :: "int option"
  cr_terminal_ns :: int
  cr_max_content_gap_ns :: "int option"
  cr_outcome :: py_text
  cr_http_status :: "int option"
  cr_prompt_tokens :: "int option"
  cr_completion_tokens :: "int option"

definition row_names :: "string list" where
  "row_names = [''index'', ''scheduled_ns'', ''epoch'', ''traffic_class'', ''tenant'', ''dispatch_ns'',
     ''response_headers_ns'', ''first_body_byte_ns'', ''first_content_ns'', ''terminal_ns'',
     ''max_content_gap_ns'', ''outcome'', ''http_status'', ''prompt_tokens'', ''completion_tokens'',
     ''ready_ns'', ''document_id'']"

definition client_outcomes :: "string list" where
  "client_outcomes = [''error'', ''completed'', ''rejected'', ''http_error'', ''protocol_error'',
     ''prompt_length_mismatch'', ''output_length_mismatch'', ''timeout'', ''cancelled'', ''transport_error'']"

text \<open>The planned fields of a row: equal types and equal canonical bytes.\<close>

definition planned_fields :: "offer \<Rightarrow> (string \<times> json) list" where
  "planned_fields x =
     [(''index'', JInt (of_index x)), (''scheduled_ns'', JInt (of_scheduled_ns x)), (''epoch'', JInt (of_epoch x)),
      (''traffic_class'', jstr (of_traffic_class x)), (''tenant'', jstr (of_tenant x)),
      (''document_id'', (case of_document_id x of None \<Rightarrow> JNull | Some d \<Rightarrow> JInt d))]"

fun same_type :: "json \<Rightarrow> json \<Rightarrow> bool" where
  "same_type JNull JNull = True"
| "same_type (JBool _) (JBool _) = True"
| "same_type (JInt _) (JInt _) = True"
| "same_type (JFloat _) (JFloat _) = True"
| "same_type (JStr _) (JStr _) = True"
| "same_type (JArr _) (JArr _) = True"
| "same_type (JObj _) (JObj _) = True"
| "same_type _ _ = False"

definition check_planned :: "codec \<Rightarrow> members \<Rightarrow> offer \<Rightarrow> unit checked" where
  "check_planned k raw x =
     rbind (raise_if (\<not> list_all (\<lambda>(key, v). same_type (get_null raw key) v) (planned_fields x))
         (Refused ''timed client row differs from planned offer'')) (\<lambda>_.
       require_same k (jobj (map (\<lambda>(key, _). (key, get_null raw key)) (planned_fields x))) (jobj (planned_fields x))
         (Refused ''timed client row differs from planned offer''))"

text \<open>A non-negative integer or null.\<close>

definition optional_count :: "json \<Rightarrow> int option checked" where
  "optional_count v =
     (case v of
        JNull \<Rightarrow> Inr None
      | JInt n \<Rightarrow> if 0 \<le> n then Inr (Some n) else Inl (Refused ''timestamp or token count'')
      | _ \<Rightarrow> Inl (Refused ''timestamp or token count''))"

definition optional_status :: "json \<Rightarrow> int option checked" where
  "optional_status v =
     (case v of
        JNull \<Rightarrow> Inr None
      | JInt n \<Rightarrow> if 100 \<le> n \<and> n \<le> 599 then Inr (Some n) else Inl (Refused ''client observations'')
      | _ \<Rightarrow> Inl (Refused ''client observations''))"

definition json_int :: "json \<Rightarrow> int" where
  "json_int v = (case v of JInt n \<Rightarrow> n | _ \<Rightarrow> 0)"

definition json_text :: "json \<Rightarrow> py_text" where
  "json_text v = (case v of JStr t \<Rightarrow> t | _ \<Rightarrow> [])"

definition stamps :: "client_row \<Rightarrow> int list" where
  "stamps r = List.map_filter id [cr_ready_ns r, cr_dispatch_ns r, cr_response_headers_ns r, cr_first_body_byte_ns r,
     cr_first_content_ns r, Some (cr_terminal_ns r)]"

definition outcome_is :: "client_row \<Rightarrow> string \<Rightarrow> bool" where
  "outcome_is r name \<longleftrightarrow> cr_outcome r = ascii_text name"

definition observations_ok :: "client_row \<Rightarrow> bool" where
  "observations_ok r \<longleftrightarrow>
     \<not> (cr_dispatch_ns r \<noteq> None \<and> cr_ready_ns r = None)
     \<and> \<not> (cr_first_body_byte_ns r \<noteq> None \<and> cr_response_headers_ns r = None)
     \<and> \<not> (cr_first_content_ns r \<noteq> None \<and> cr_first_body_byte_ns r = None)
     \<and> (cr_http_status r = None \<longleftrightarrow> cr_response_headers_ns r = None)
     \<and> cr_outcome r \<in> set (map ascii_text client_outcomes)
     \<and> \<not> (outcome_is r ''rejected'' \<and> cr_http_status r \<noteq> Some 503)
     \<and> \<not> (outcome_is r ''http_error'' \<and> cr_http_status r \<in> {None, Some 200, Some 503})
     \<and> \<not> (cr_outcome r \<in> set (map ascii_text [''protocol_error'', ''prompt_length_mismatch'', ''output_length_mismatch''])
          \<and> cr_http_status r \<noteq> Some 200)"

text \<open>
  The types are checked in one expression before the order of the timestamps and the observations, but
  the status is only checked with the observations.
\<close>

definition read_client_row :: "members \<Rightarrow> client_row checked" where
  "read_client_row raw =
     (case get_null raw ''terminal_ns'' of
        JInt terminal \<Rightarrow>
          rbind (raise_if (terminal < 0) (Refused ''timestamp or token count'')) (\<lambda>_.
          rbind (optional_count (get_null raw ''ready_ns'')) (\<lambda>ready.
          rbind (optional_count (get_null raw ''dispatch_ns'')) (\<lambda>dispatch.
          rbind (optional_count (get_null raw ''response_headers_ns'')) (\<lambda>headers.
          rbind (optional_count (get_null raw ''first_body_byte_ns'')) (\<lambda>first_byte.
          rbind (optional_count (get_null raw ''first_content_ns'')) (\<lambda>first_content.
          rbind (optional_count (get_null raw ''max_content_gap_ns'')) (\<lambda>gap.
          rbind (optional_count (get_null raw ''prompt_tokens'')) (\<lambda>prompt.
          rbind (optional_count (get_null raw ''completion_tokens'')) (\<lambda>completion.
          Inr \<lparr>cr_index = json_int (get_null raw ''index''), cr_scheduled_ns = json_int (get_null raw ''scheduled_ns''),
               cr_epoch = json_int (get_null raw ''epoch''), cr_traffic_class = json_text (get_null raw ''traffic_class''),
               cr_tenant = json_text (get_null raw ''tenant''), cr_ready_ns = ready, cr_dispatch_ns = dispatch,
               cr_response_headers_ns = headers, cr_first_body_byte_ns = first_byte,
               cr_first_content_ns = first_content, cr_terminal_ns = terminal, cr_max_content_gap_ns = gap,
               cr_outcome = json_text (get_null raw ''outcome''), cr_http_status = None,
               cr_prompt_tokens = prompt, cr_completion_tokens = completion\<rparr>)))))))))
      | _ \<Rightarrow> Inl (Refused ''timestamp or token count''))"

definition optional_json :: "int option \<Rightarrow> json" where
  "optional_json v = (case v of None \<Rightarrow> JNull | Some n \<Rightarrow> JInt n)"

text \<open>\<open>_client_row\<close>\<close>

definition client_row_of :: "codec \<Rightarrow> members \<Rightarrow> json \<times> offer \<Rightarrow> client_row checked" where
  "client_row_of k plan item =
     (case item of (raw, x) \<Rightarrow> case raw of
        JObj ms \<Rightarrow>
          rbind (raise_if (\<not> same_fields ms row_names) (Refused ''timed client row fields mismatch'')) (\<lambda>_.
          rbind (check_planned k ms x) (\<lambda>_.
          rbind (read_client_row ms) (\<lambda>row.
          rbind (raise_if (\<not> sorted (stamps row)
              \<or> (case cr_ready_ns row of None \<Rightarrow> False | Some t \<Rightarrow> t < cr_scheduled_ns row))
              (Refused ''timed client timestamp order invalid'')) (\<lambda>_.
          rbind (optional_status (get_null ms ''http_status'')) (\<lambda>status.
          let row = row\<lparr>cr_http_status := status\<rparr>
          in rbind (raise_if (\<not> observations_ok row) (Refused ''timed client observations invalid'')) (\<lambda>_.
             rbind (expected_tokens plan x) (\<lambda>tokens.
             rbind (if outcome_is row ''completed'' then need plan ''max_tokens'' else Inr JNull) (\<lambda>max_tokens.
             rbind (raise_if (outcome_is row ''completed'' \<and> (cr_http_status row \<noteq> Some 200
                 \<or> cr_first_content_ns row = None \<or> optional_json (cr_prompt_tokens row) \<noteq> tokens
                 \<or> optional_json (cr_completion_tokens row) \<noteq> max_tokens))
                 (Refused ''timed completed request token or HTTP mismatch'')) (\<lambda>_.
             Inr row)))))))))
      | _ \<Rightarrow> Inl Python_Error)"

section \<open>Reductions\<close>

text \<open>
  \<open>_quantile(values, 0.95)\<close>: \<open>int((n - 1) * 0.95 + 0.5)\<close> in doubles is the exact quotient below for
  every population a plan may have.
\<close>

definition p95 :: "int list \<Rightarrow> int option" where
  "p95 values =
     (let n = length values in if n = 0 then None else Some (sort values ! min (n - 1) ((19 * (n - 1) + 10) div 20)))"

record metric =
  me_count :: int
  me_p95 :: "int option"

definition metric_of :: "int list \<Rightarrow> metric" where
  "metric_of values = \<lparr>me_count = int (length values), me_p95 = p95 values\<rparr>"

record outcome_group =
  og_offered :: int
  og_outcomes :: "(py_text \<times> int) list"
  og_slo_good :: int
  og_denominator_ns :: int
  og_scope :: string
  og_completed :: int
  og_first_content :: metric
  og_terminal :: metric
  og_gap :: metric
  og_completion_tokens :: int

definition plan_int :: "members \<Rightarrow> string \<Rightarrow> int checked" where
  "plan_int plan key =
     rbind (need plan key) (\<lambda>v. case v of JInt n \<Rightarrow> Inr n | _ \<Rightarrow> Inl Python_Error)"

definition slo_good :: "members \<Rightarrow> client_row \<Rightarrow> bool checked" where
  "slo_good plan r =
     (case cr_first_content_ns r of
        None \<Rightarrow> Inr False
      | Some t \<Rightarrow>
          rbind (plan_int plan ''first_content_slo_ns'') (\<lambda>first.
          if t - cr_scheduled_ns r \<le> first
          then rbind (plan_int plan ''completion_slo_ns'') (\<lambda>completion.
            Inr (cr_terminal_ns r - cr_scheduled_ns r \<le> completion))
          else Inr False))"

text \<open>\<open>dict(Counter(...))\<close>\<close>

definition tally :: "'a list \<Rightarrow> ('a \<times> int) list" where
  "tally xs = map (\<lambda>x. (x, int (count_list xs x))) (rev (remdups (rev xs)))"

definition outcome_group_of :: "members \<Rightarrow> int \<Rightarrow> string \<Rightarrow> client_row list \<Rightarrow> outcome_group checked" where
  "outcome_group_of plan denominator scope part =
     (let completed = filter (\<lambda>r. outcome_is r ''completed'') part
      in rbind (res_filter (slo_good plan) completed) (\<lambda>good.
         Inr \<lparr>og_offered = int (length part), og_outcomes = tally (map cr_outcome part),
           og_slo_good = int (length good), og_denominator_ns = denominator, og_scope = scope,
           og_completed = int (length completed),
           og_first_content = metric_of (List.map_filter
             (\<lambda>r. map_option (\<lambda>t. t - cr_scheduled_ns r) (cr_first_content_ns r)) completed),
           og_terminal = metric_of (map (\<lambda>r. cr_terminal_ns r - cr_scheduled_ns r) completed),
           og_gap = metric_of (List.map_filter cr_max_content_gap_ns completed),
           og_completion_tokens = (\<Sum>r \<leftarrow> completed. case cr_completion_tokens r of None \<Rightarrow> 0 | Some n \<Rightarrow> n)\<rparr>))"

definition epoch_window_ns :: "int \<Rightarrow> int \<Rightarrow> int" where
  "epoch_window_ns window epoch = ((epoch + 1) * window + 2) div 3 - (epoch * window + 2) div 3"

record client_timing =
  ct_lag :: metric
  ct_queue :: metric
  ct_never_dispatched :: int

record summary =
  sm_all :: outcome_group
  sm_epochs :: "(int \<times> outcome_group) list"
  sm_classes :: "(string \<times> outcome_group) list"
  sm_tenants :: "(string \<times> outcome_group) list"
  sm_client_timing :: "client_timing option"

definition client_timing_of :: "client_row list \<Rightarrow> client_timing" where
  "client_timing_of rows =
     \<lparr>ct_lag = metric_of (List.map_filter
        (\<lambda>r. map_option (\<lambda>t. max 0 (t - cr_scheduled_ns r)) (cr_ready_ns r)) rows),
      ct_queue = metric_of (List.map_filter (\<lambda>r. case (cr_dispatch_ns r, cr_ready_ns r) of
        (Some d, Some t) \<Rightarrow> Some (max 0 (d - t)) | _ \<Rightarrow> None) rows),
      ct_never_dispatched = int (length (filter (\<lambda>r. cr_dispatch_ns r = None) rows))\<rparr>"

text \<open>One dict comprehension of \<open>summarize\<close>: a group for each key.\<close>

definition groups_by ::
  "members \<Rightarrow> ('k \<Rightarrow> client_row \<Rightarrow> bool) \<Rightarrow> ('k \<Rightarrow> int) \<Rightarrow> string \<Rightarrow> client_row list \<Rightarrow> 'k list
     \<Rightarrow> ('k \<times> outcome_group) list checked" where
  "groups_by plan belongs window scope rows keys =
     res_map (\<lambda>x. rbind (outcome_group_of plan (window x) scope (filter (belongs x) rows)) (\<lambda>g. Inr (x, g))) keys"

definition traffic_classes :: "bool \<Rightarrow> string list" where
  "traffic_classes capacity = (if capacity then [''hot'', ''cycle''] else [''hot'', ''warm'', ''unique''])"

definition tenants :: "bool \<Rightarrow> string list" where
  "tenants capacity =
     (if capacity then [''tenant-0'', ''tenant-1'', ''tenant-2'', ''tenant-3'']
      else [''tenant-a'', ''tenant-b'', ''tenant-control''])"

definition summarize :: "members \<Rightarrow> client_row list \<Rightarrow> bool \<Rightarrow> summary checked" where
  "summarize plan rows include_client_timing =
     rbind (need plan ''offered_count'') (\<lambda>offered.
     rbind (raise_if (offered \<noteq> JInt (int (length rows))
         \<or> set (map cr_index rows) \<noteq> set [0..int (length rows) - 1]) (Refused ''incomplete offered population'')) (\<lambda>_.
     rbind (plan_int plan ''duration_ns'') (\<lambda>window.
     rbind (need plan ''schema'') (\<lambda>schema.
     let capacity = (schema = jstr capacity_schema)
     in rbind (outcome_group_of plan window ''FULL_OFFERED_WINDOW'' rows) (\<lambda>all_offered.
        rbind (groups_by plan (\<lambda>e r. cr_epoch r = e) (epoch_window_ns window) ''EPOCH_OFFERED_WINDOW'' rows [0, 1, 2]) (\<lambda>epochs.
        rbind (groups_by plan (\<lambda>c r. cr_traffic_class r = ascii_text c) (\<lambda>_. window)
            ''FULL_OFFERED_WINDOW_CONTRIBUTION'' rows (traffic_classes capacity)) (\<lambda>classes.
        rbind (groups_by plan (\<lambda>t r. cr_tenant r = ascii_text t) (\<lambda>_. window)
            ''FULL_OFFERED_WINDOW_CONTRIBUTION'' rows (tenants capacity)) (\<lambda>by_tenant.
        Inr \<lparr>sm_all = all_offered, sm_epochs = epochs, sm_classes = classes, sm_tenants = by_tenant,
             sm_client_timing = (if capacity \<or> include_client_timing then Some (client_timing_of rows) else None)\<rparr>))))))))"

section \<open>The summary artifact\<close>

text \<open>
  The arguments a study needs beside the codec: the recipe of a plan, the compact \<open>json.dumps\<close> of a
  ledger, the literal of the double nearest to a fraction and the integer a float literal denotes, if it
  denotes one. \<open>good * 1e9 / denominator\<close> is such a double: the product and the denominator are exact.
\<close>

record study =
  st_codec :: codec
  st_plan_reader :: plan_reader
  st_dumps :: "json list \<Rightarrow> py_bytes option"
  st_double :: "rat \<Rightarrow> string"
  st_integral :: "string \<Rightarrow> int option"

definition metric_json :: "metric \<Rightarrow> json" where
  "metric_json m = jobj [(''count'', JInt (me_count m)), (''p95_ns'', optional_json (me_p95 m))]"

definition group_json :: "study \<Rightarrow> outcome_group \<Rightarrow> json" where
  "group_json st g = jobj
     [(''offered'', JInt (og_offered g)),
      (''outcomes'', JObj (map (\<lambda>(outcome, n). (outcome, JInt n)) (og_outcomes g))),
      (''slo_good'', JInt (og_slo_good g)),
      (''slo_goodput_rps'', JFloat (st_double st (of_int (og_slo_good g) * 1000000000 / of_int (og_denominator_ns g)))),
      (''goodput_denominator_ns'', JInt (og_denominator_ns g)), (''goodput_scope'', jstr (og_scope g)),
      (''successful_only'', jobj
        [(''population'', jstr ''COMPLETED_REQUESTS_ONLY''), (''completed_count'', JInt (og_completed g)),
         (''scheduled_to_first_content'', metric_json (og_first_content g)),
         (''scheduled_to_terminal'', metric_json (og_terminal g)), (''max_content_gap'', metric_json (og_gap g))]),
      (''completion_tokens_total'', JInt (og_completion_tokens g))]"

definition client_timing_json :: "client_timing \<Rightarrow> json" where
  "client_timing_json t = jobj
     [(''scheduling_lag'', metric_json (ct_lag t)), (''client_queue_delay'', metric_json (ct_queue t)),
      (''never_dispatched'', JInt (ct_never_dispatched t)),
      (''population'', jstr ''ALL_OFFERS_WITH_OBSERVED_STAGE_TIMES'')]"

definition summary_json :: "study \<Rightarrow> summary \<Rightarrow> json" where
  "summary_json st s = jobj
     ([(''all_offered'', group_json st (sm_all s)),
       (''by_epoch'', jobj (map (\<lambda>(e, g). (str_int e, group_json st g)) (sm_epochs s))),
       (''by_class'', jobj (map (\<lambda>(c, g). (c, group_json st g)) (sm_classes s))),
       (''by_tenant'', jobj (map (\<lambda>(t, g). (t, group_json st g)) (sm_tenants s))),
       (''latency_origin'', jstr ''SCHEDULED_ARRIVAL_INCLUDES_CLIENT_AND_ROUTER_WAIT''),
       (''content_timing'', jstr ''COMPLETE_SSE_CONTENT_FRAMES_NOT_WIRE_OR_TOKEN_TIMING'')]
      @ (case sm_client_timing s of None \<Rightarrow> [] | Some t \<Rightarrow> [(''client_timing'', client_timing_json t)]))"

section \<open>Token certificates\<close>

text \<open>
  Python's \<open>==\<close> between a decoded value and one without floats: an integral float and a boolean equal
  the integer they denote.
\<close>

definition py_integer :: "(string \<Rightarrow> int option) \<Rightarrow> json \<Rightarrow> int option" where
  "py_integer integral v =
     (case v of JInt n \<Rightarrow> Some n | JBool b \<Rightarrow> Some (if b then 1 else 0) | JFloat f \<Rightarrow> integral f | _ \<Rightarrow> None)"

fun py_equal :: "(string \<Rightarrow> int option) \<Rightarrow> json \<Rightarrow> json \<Rightarrow> bool" where
  "py_equal integral (JArr xs) (JArr ys) \<longleftrightarrow> list_all2 (py_equal integral) xs ys"
| "py_equal integral (JObj xs) (JObj ys) \<longleftrightarrow>
     length xs = length ys
     \<and> list_all (\<lambda>(key, x). list_ex (\<lambda>(key', y). key' = key \<and> py_equal integral x y) ys) xs"
| "py_equal integral x y \<longleftrightarrow>
     x = y \<or> (py_integer integral x \<noteq> None \<and> py_integer integral x = py_integer integral y)"

definition tokenizer_facts :: "(string \<times> json) list" where
  "tokenizer_facts = [(''tokenizers_version'', jstr ''0.22.1''),
     (''tokenizer_json_sha256'', jstr ''sha256:aeb13307a71acd8fe81861d94ad54ab689df773318809eed3cbe794b4492dae4''),
     (''tokenizer_config_sha256'', jstr ''sha256:d5d09f07b48c3086c508b30d1c9114bd1189145b74e982a265350c923acd8101'')]"

definition certificate_bound :: "study \<Rightarrow> members \<Rightarrow> (string \<times> json) list \<Rightarrow> bool" where
  "certificate_bound st unsigned expected \<longleftrightarrow>
     same_fields unsigned (map fst expected)
     \<and> list_all (\<lambda>(key, v). py_equal (st_integral st) (get_null unsigned key) v) expected"

text \<open>\<open>d["certificate_sha256"] != _digest(unsigned)\<close>\<close>

definition certificate_signed :: "study \<Rightarrow> members \<Rightarrow> bool checked" where
  "certificate_signed st certificate =
     rbind (artifact_digest (st_codec st) (JObj (without ''certificate_sha256'' certificate))) (\<lambda>d.
       Inr (get_null certificate ''certificate_sha256'' = jstr d))"

text \<open>
  The conditions are joined by \<open>or\<close>: the fields first, then the digest, then the values, each read from
  the plan only when those before it hold.
\<close>

fun bind_values :: "study \<Rightarrow> members \<Rightarrow> (string \<times> json checked) list \<Rightarrow> unit checked" where
  "bind_values st unsigned [] = Inr ()"
| "bind_values st unsigned ((key, v) # rest) =
     rbind v (\<lambda>w. if py_equal (st_integral st) (get_null unsigned key) w then bind_values st unsigned rest
       else Inl (Refused ''token certificate does not bind the study plan''))"

definition token_certificate_values :: "members \<Rightarrow> (string \<times> json checked) list" where
  "token_certificate_values plan =
     [(''schema'', Inr (jstr ''inferdrome.vllm-router-token-certificate.v1'')),
      (''plan_sha256'', need plan ''plan_sha256''), (''trace_sha256'', need plan ''trace_sha256''),
      (''offered_count'', need plan ''offered_count''), (''prompt_tokens'', need plan ''expected_prompt_tokens''),
      (''max_tokens'', need plan ''max_tokens''), (''context_length'', need plan ''context_length'')]
     @ map (\<lambda>(key, v). (key, Inr v)) tokenizer_facts"

definition validate_token_certificate :: "study \<Rightarrow> members \<Rightarrow> members \<Rightarrow> unit checked" where
  "validate_token_certificate st plan certificate =
     (let unsigned = without ''certificate_sha256'' certificate; values = token_certificate_values plan
      in rbind (raise_if (\<not> same_fields unsigned (map fst values))
           (Refused ''token certificate does not bind the study plan'')) (\<lambda>_.
         rbind (certificate_signed st certificate) (\<lambda>signed.
         rbind (raise_if (\<not> signed) (Refused ''token certificate does not bind the study plan'')) (\<lambda>_.
         bind_values st unsigned values))))"

text \<open>\<open>min\<close> and \<open>max\<close> of the token counts, which \<open>validate_plan\<close> has regenerated as a list of integers.\<close>

fun json_ints :: "json list \<Rightarrow> int list option" where
  "json_ints [] = Some []"
| "json_ints (JInt n # js) = map_option ((#) n) (json_ints js)"
| "json_ints (_ # js) = None"

definition token_range :: "json \<Rightarrow> (int \<times> int) checked" where
  "token_range v =
     (case v of
        JArr js \<Rightarrow>
          (case json_ints js of
             None \<Rightarrow> Inl Python_Error
           | Some [] \<Rightarrow> Inl EmptySequence
           | Some (n # ns) \<Rightarrow> Inr (fold min ns n, fold max ns n))
      | _ \<Rightarrow> Inl Python_Error)"

definition capacity_certificate_values :: "study \<Rightarrow> members \<Rightarrow> (string \<times> json) list checked" where
  "capacity_certificate_values st plan =
     rbind (need plan ''plan_sha256'') (\<lambda>plan_sha256.
     rbind (need plan ''trace_sha256'') (\<lambda>trace_sha256.
     rbind (need plan ''offered_count'') (\<lambda>offered.
     rbind (need plan ''prompt_tokens_by_index'') (\<lambda>tokens.
     rbind (artifact_digest (st_codec st) tokens) (\<lambda>lengths.
     rbind (token_range tokens) (\<lambda>(low, high).
     rbind (need plan ''max_tokens'') (\<lambda>max_tokens.
     rbind (need plan ''context_length'') (\<lambda>context_length.
     Inr ([(''schema'', jstr ''inferdrome.vllm-router-capacity-certificate.v2''),
        (''plan_sha256'', plan_sha256), (''trace_sha256'', trace_sha256), (''offered_count'', offered),
        (''prompt_lengths_sha256'', jstr lengths), (''prompt_tokens_min'', JInt low),
        (''prompt_tokens_max'', JInt high), (''max_tokens'', max_tokens), (''context_length'', context_length)]
       @ tokenizer_facts)))))))))"

definition validate_capacity_certificate :: "study \<Rightarrow> members \<Rightarrow> members \<Rightarrow> unit checked" where
  "validate_capacity_certificate st plan certificate =
     rbind (certificate_signed st certificate) (\<lambda>signed.
     rbind (raise_if (\<not> signed) (Refused ''capacity certificate does not bind the study plan'')) (\<lambda>_.
     rbind (capacity_certificate_values st plan) (\<lambda>values.
     raise_if (\<not> certificate_bound st (without ''certificate_sha256'' certificate) values)
       (Refused ''capacity certificate does not bind the study plan''))))"

section \<open>Verification\<close>

definition lift_artifact :: "'a checked \<Rightarrow> 'a linked" where
  "lift_artifact r = (case r of Inl e \<Rightarrow> Inl (Encoding e) | Inr x \<Rightarrow> Inr x)"

definition refuse_if :: "bool \<Rightarrow> string \<Rightarrow> unit linked" where
  "refuse_if b label = raise_if b (Encoding (Refused label))"

definition measurement_names :: "string list" where
  "measurement_names = [''schema'', ''plan_sha256'', ''trace_sha256'', ''token_certificate_sha256'', ''policy'',
     ''model'', ''router_origin'', ''started_unix_ns'', ''evidence_class'', ''router_accounting_valid'', ''status'',
     ''comparison_valid'', ''router_stats_after'', ''rows'', ''summary'', ''base_plan_schema'',
     ''base_plan_sha256'', ''base_trace_sha256'', ''token_certificate_scope'', ''arrival_timing_scope'',
     ''result_sha256'']"

definition provenance :: "members \<Rightarrow> members \<Rightarrow> (string \<times> json) list checked" where
  "provenance plan timing =
     rbind (need timing ''timing_sha256'') (\<lambda>timing_sha256.
     rbind (need timing ''transformed_trace_sha256'') (\<lambda>transformed.
     rbind (need plan ''schema'') (\<lambda>schema.
     rbind (need plan ''plan_sha256'') (\<lambda>plan_sha256.
     rbind (need plan ''trace_sha256'') (\<lambda>trace_sha256.
     rbind (need plan ''phase'') (\<lambda>phase.
     Inr [(''schema'', jstr ''inferdrome.vllm-router-timed-result.v1''), (''plan_sha256'', timing_sha256),
          (''trace_sha256'', transformed), (''base_plan_schema'', schema), (''base_plan_sha256'', plan_sha256),
          (''base_trace_sha256'', trace_sha256),
          (''token_certificate_scope'', jstr ''BASE_WORKLOAD_UNCHANGED_TIMING_ONLY''),
          (''arrival_timing_scope'', jstr ''PLANNED_OFFERS_NOT_OBSERVED_ARRIVALS''),
          (''evidence_class'', jstr (if phase = jstr ''fixture'' then ''SYNTHETIC_ONLY''
             else ''LOCAL_MEASUREMENT_ONLY''))]))))))"

text \<open>The certificate is None or an object; anything else has no \<open>items\<close>.\<close>

definition check_certificate :: "study \<Rightarrow> members \<Rightarrow> json \<Rightarrow> unit checked" where
  "check_certificate st plan certificate =
     rbind (need plan ''schema'') (\<lambda>schema.
     rbind (need plan ''phase'') (\<lambda>phase.
     case certificate of
       JNull \<Rightarrow> raise_if (phase \<noteq> jstr ''fixture'') (Refused ''timed measurement requires the base token certificate'')
     | JObj ms \<Rightarrow> if schema = jstr capacity_schema then validate_capacity_certificate st plan ms
         else validate_token_certificate st plan ms
     | _ \<Rightarrow> Inl Python_Error))"

definition certificate_sha256 :: "json \<Rightarrow> json" where
  "certificate_sha256 certificate =
     (case certificate of JObj ms \<Rightarrow> get_null ms ''certificate_sha256'' | _ \<Rightarrow> JNull)"

definition expected_stats :: "members \<Rightarrow> int \<Rightarrow> (string \<times> json) list" where
  "expected_stats measurement offered =
     [(''policy'', get_null measurement ''policy''), (''offered'', JInt offered), (''terminal'', JInt offered),
      (''ledger_rows'', JInt offered), (''in_flight'', JInt 0), (''pending'', JInt 0), (''active'', JInt 0),
      (''busy'', JArr [JInt 0, JInt 0]), (''accounting_failed'', JBool False)]"

definition accounting_valid :: "codec \<Rightarrow> members \<Rightarrow> int \<Rightarrow> bool checked" where
  "accounting_valid k measurement offered =
     (case get_null measurement ''router_stats_after'' of
        JObj after \<Rightarrow>
          rbind (canonical k (jobj (map (\<lambda>(key, _). (key, get_null after key)) (expected_stats measurement offered)))) (\<lambda>a.
          rbind (canonical k (jobj (expected_stats measurement offered))) (\<lambda>b.
          Inr (a = b)))
      | _ \<Rightarrow> Inr False)"

definition accounting_consistent :: "members \<Rightarrow> bool \<Rightarrow> client_row list \<Rightarrow> bool" where
  "accounting_consistent measurement valid rows \<longleftrightarrow>
     get_null measurement ''router_accounting_valid'' = JBool valid
     \<and> get_null measurement ''status'' \<in> set (map jstr [''COMPLETED'', ''INTERRUPTED'', ''DRAIN_TIMEOUT''])
     \<and> \<not> (valid \<and> list_ex (\<lambda>r. cr_dispatch_ns r = None) rows)
     \<and> \<not> (get_null measurement ''status'' = jstr ''COMPLETED'' \<and> list_ex (\<lambda>r. outcome_is r ''cancelled'') rows)"

definition comparison_valid :: "members \<Rightarrow> bool \<Rightarrow> client_row list \<Rightarrow> bool" where
  "comparison_valid measurement valid rows \<longleftrightarrow>
     get_null measurement ''status'' = jstr ''COMPLETED'' \<and> valid
     \<and> \<not> list_ex (\<lambda>r. outcome_is r ''prompt_length_mismatch'' \<or> outcome_is r ''output_length_mismatch'') rows"

record timing_check =
  tc_base_plan_sha256 :: json
  tc_timing_sha256 :: json
  tc_population_sha256 :: json
  tc_transformed_trace_sha256 :: json
  tc_correlated_result_sha256 :: json
  tc_measurement_sha256 :: json
  tc_offered :: int
  tc_denominator_ns :: json
  tc_comparison_valid :: bool
  tc_result_sha256 :: string

definition timing_check_json :: "timing_check \<Rightarrow> json" where
  "timing_check_json c = jobj
     [(''schema'', jstr ''inferdrome.vllm-router-timed-result-check.v1''),
      (''scope'', jstr ''TIMING_AND_CLIENT_ACCOUNTING_ONLY''), (''status'', jstr ''VERIFIED''),
      (''base_plan_sha256'', tc_base_plan_sha256 c), (''timing_sha256'', tc_timing_sha256 c),
      (''population_sha256'', tc_population_sha256 c),
      (''transformed_trace_sha256'', tc_transformed_trace_sha256 c),
      (''correlated_result_sha256'', tc_correlated_result_sha256 c),
      (''measurement_sha256'', tc_measurement_sha256 c), (''offered'', JInt (tc_offered c)),
      (''goodput_denominator_ns'', tc_denominator_ns c),
      (''measurement_comparison_valid'', JBool (tc_comparison_valid c)),
      (''router_ledger_verification'', jstr ''REQUIRES_SEPARATE_REQUEST_LINK_CHECK'')]"

text \<open>The part of \<open>verify_timed_result\<close> up to the rows, and the part that accounts for them.\<close>

definition timed_rows ::
  "study \<Rightarrow> json \<Rightarrow> json \<Rightarrow> json \<Rightarrow> json \<Rightarrow> (members \<times> offer list \<times> client_row list) linked" where
  "timed_rows st plan timing result certificate =
     rbind (lift_artifact (validate_timing (st_codec st) (st_plan_reader st) plan timing)) (\<lambda>offers.
     rbind (validate_correlated_result (st_codec st) result) (\<lambda>(measurement, raw_rows, _).
     rbind (refuse_if (\<not> same_fields measurement measurement_names) ''timed measurement fields invalid'') (\<lambda>_.
     rbind (lift_artifact (provenance (plan_members plan) (object_members timing))) (\<lambda>expected.
     rbind (refuse_if (\<not> list_all (\<lambda>(key, v). py_equal (st_integral st) (get_null measurement key) v) expected)
         ''timed measurement provenance mismatch'') (\<lambda>_.
     rbind (lift_artifact (check_certificate st (plan_members plan) certificate)) (\<lambda>_.
     rbind (refuse_if (get_null measurement ''token_certificate_sha256'' \<noteq> certificate_sha256 certificate)
         ''timed measurement token certificate mismatch'') (\<lambda>_.
     rbind (refuse_if (length raw_rows \<noteq> length offers) ''timed client population mismatch'') (\<lambda>_.
     rbind (lift_artifact (res_map (client_row_of (st_codec st) (plan_members plan)) (zip raw_rows offers))) (\<lambda>rows.
     Inr (measurement, offers, rows))))))))))"

definition check_accounting ::
  "study \<Rightarrow> json \<Rightarrow> members \<Rightarrow> int \<Rightarrow> client_row list \<Rightarrow> bool linked" where
  "check_accounting st plan measurement offered rows =
     rbind (lift_artifact (summarize (plan_members plan) rows True)) (\<lambda>s.
     rbind (lift_artifact (require_same (st_codec st) (get_null measurement ''summary'') (summary_json st s)
         (Refused ''timed client summary mismatch''))) (\<lambda>_.
     rbind (lift_artifact (accounting_valid (st_codec st) measurement offered)) (\<lambda>valid.
     rbind (refuse_if (\<not> accounting_consistent measurement valid rows) ''timed client accounting status mismatch'') (\<lambda>_.
     rbind (refuse_if (get_null measurement ''comparison_valid'' \<noteq> JBool (comparison_valid measurement valid rows))
         ''timed client comparison flag mismatch'') (\<lambda>_.
     Inr (comparison_valid measurement valid rows))))))"

definition verify_timed_result :: "study \<Rightarrow> json \<Rightarrow> json \<Rightarrow> json \<Rightarrow> json \<Rightarrow> timing_check linked" where
  "verify_timed_result st plan timing result certificate =
     rbind (timed_rows st plan timing result certificate) (\<lambda>(measurement, offers, rows).
     rbind (check_accounting st plan measurement (int (length offers)) rows) (\<lambda>valid.
     rbind (lift_artifact (need (object_members timing) ''population_sha256'')) (\<lambda>population.
     rbind (lift_artifact (need (plan_members plan) ''duration_ns'')) (\<lambda>duration.
     let c = \<lparr>tc_base_plan_sha256 = get_null (plan_members plan) ''plan_sha256'',
           tc_timing_sha256 = get_null (object_members timing) ''timing_sha256'', tc_population_sha256 = population,
           tc_transformed_trace_sha256 = get_null (object_members timing) ''transformed_trace_sha256'',
           tc_correlated_result_sha256 = get_null (object_members result) ''result_sha256'',
           tc_measurement_sha256 = get_null measurement ''result_sha256'', tc_offered = int (length offers),
           tc_denominator_ns = duration, tc_comparison_valid = valid, tc_result_sha256 = []\<rparr>
     in rbind (link_digest (st_codec st) (timing_check_json c)) (\<lambda>d. Inr (c\<lparr>tc_result_sha256 := d\<rparr>))))))"

section \<open>What a summary says\<close>

lemma sorted_nth_below:
  fixes xs :: "int list"
  assumes "sorted xs" "i < length xs"
  shows "i + 1 \<le> length (filter (\<lambda>x. x \<le> xs ! i) xs)" "length xs - i \<le> length (filter (\<lambda>x. xs ! i \<le> x) xs)"
proof -
  have "list_all (\<lambda>x. x \<le> xs ! i) (take (i + 1) xs)" "list_all (\<lambda>x. xs ! i \<le> x) (drop i xs)"
    using assms by (auto simp: list_all_length sorted_nth_mono)
  then have kept: "filter (\<lambda>x. x \<le> xs ! i) (take (i + 1) xs) = take (i + 1) xs"
    "filter (\<lambda>x. xs ! i \<le> x) (drop i xs) = drop i xs"
    by (simp_all add: list_all_iff)
  have "filter (\<lambda>x. x \<le> xs ! i) xs = filter (\<lambda>x. x \<le> xs ! i) (take (i + 1) xs) @ filter (\<lambda>x. x \<le> xs ! i) (drop (i + 1) xs)"
    "filter (\<lambda>x. xs ! i \<le> x) xs = filter (\<lambda>x. xs ! i \<le> x) (take i xs) @ filter (\<lambda>x. xs ! i \<le> x) (drop i xs)"
    by (metis append_take_drop_id filter_append)+
  then show "i + 1 \<le> length (filter (\<lambda>x. x \<le> xs ! i) xs)" "length xs - i \<le> length (filter (\<lambda>x. xs ! i \<le> x) xs)"
    using assms(2) by (simp_all add: kept [unfolded Suc_eq_plus1 [symmetric]])
qed

lemma p95_rank:
  fixes m :: nat
  defines "i \<equiv> min m ((19 * m + 10) div 20)"
  shows "19 * (m + 1) \<le> 20 * (i + 1) + 8" "m + 10 \<le> 20 * (m + 1 - i)"
proof -
  define d where "d = (19 * m + 10) div 20"
  have d: "20 * d \<le> 19 * m + 10" "19 * m + 10 < 20 * d + 20" unfolding d_def by linarith+
  have "i = m \<and> m \<le> d \<or> i = d \<and> d \<le> m" by (auto simp: i_def d_def [symmetric])
  with d show "19 * (m + 1) \<le> 20 * (i + 1) + 8" "m + 10 \<le> 20 * (m + 1 - i)" by auto
qed

lemma length_filter_sorted: "length (filter P (sort xs)) = length (filter P xs)"
  by (metis filter_sort length_sort)

text \<open>A quantile is an observed value with 95 of 100 values below it, up to half a rank.\<close>

definition metric_spec :: "int list \<Rightarrow> metric \<Rightarrow> bool" where
  "metric_spec values m \<longleftrightarrow>
     me_count m = int (length values)
     \<and> (case me_p95 m of
          None \<Rightarrow> values = []
        | Some v \<Rightarrow> v \<in> set values
            \<and> 19 * length values \<le> 20 * length (filter (\<lambda>x. x \<le> v) values) + 8
            \<and> length values + 9 \<le> 20 * length (filter (\<lambda>x. v \<le> x) values))"

lemma metric_of_spec: "metric_spec values (metric_of values)"
proof (cases "values = []")
  case True
  then show ?thesis by (simp add: metric_spec_def metric_of_def p95_def)
next
  case False
  define n where "n = length values"
  define i where "i = min (n - 1) ((19 * (n - 1) + 10) div 20)"
  have n: "1 \<le> n" using False by (simp add: n_def Suc_le_eq)
  then have i: "i < length (sort values)" "i < n" by (simp_all add: i_def n_def [symmetric])
  have rank: "19 * n \<le> 20 * (i + 1) + 8" "n + 9 \<le> 20 * (n - i)"
    using p95_rank [of "n - 1"] n by (simp_all add: i_def)
  note below = sorted_nth_below [OF sorted_sort i(1)]
  have "19 * n \<le> 20 * length (filter (\<lambda>x. x \<le> sort values ! i) values) + 8"
    using order_trans [OF rank(1) add_right_mono [OF mult_le_mono2 [OF below(1)]]] unfolding length_filter_sorted .
  moreover have "n + 9 \<le> 20 * length (filter (\<lambda>x. sort values ! i \<le> x) values)"
    using order_trans [OF rank(2) mult_le_mono2 [OF below(2) [unfolded length_sort n_def [symmetric]]]]
    unfolding length_filter_sorted .
  moreover have "sort values ! i \<in> set values" using nth_mem [OF i(1)] by simp
  ultimately show ?thesis
    using False n by (simp add: metric_spec_def metric_of_def p95_def Let_def n_def [symmetric] i_def [symmetric] del: One_nat_def)
qed

lemma sum_tally: "sum_list (map snd (tally xs)) = int (length xs)"
proof -
  have "sum_list (map snd (tally xs)) = int (\<Sum>x \<leftarrow> rev (remdups (rev xs)). count_list xs x)"
    by (simp add: tally_def comp_def sum_list_of_nat [symmetric])
  also have "(\<Sum>x \<leftarrow> rev (remdups (rev xs)). count_list xs x) = (\<Sum>x \<in> set xs. count_list xs x)"
    by (subst sum_list_distinct_conv_sum_set) simp_all
  also have "\<dots> = length xs" by (rule sum_count_set) simp_all
  finally show ?thesis .
qed

definition completed_rows :: "client_row list \<Rightarrow> client_row list" where
  "completed_rows rows = filter (\<lambda>r. outcome_is r ''completed'') rows"

definition good_rows :: "members \<Rightarrow> client_row list \<Rightarrow> client_row list" where
  "good_rows plan rows = filter (\<lambda>r. slo_good plan r = Inr True) (completed_rows rows)"

definition group_spec :: "members \<Rightarrow> client_row list \<Rightarrow> outcome_group \<Rightarrow> bool" where
  "group_spec plan part g \<longleftrightarrow>
     og_offered g = int (length part)
     \<and> sum_list (map snd (og_outcomes g)) = og_offered g
     \<and> og_completed g = int (length (completed_rows part))
     \<and> og_slo_good g = int (length (good_rows plan part))
     \<and> metric_spec (map (\<lambda>r. cr_terminal_ns r - cr_scheduled_ns r) (completed_rows part)) (og_terminal g)"

lemma outcome_group_spec:
  assumes "outcome_group_of plan d scope part = Inr g"
  shows "group_spec plan part g" "og_denominator_ns g = d"
  using assms
  by (auto simp: outcome_group_of_def result_simps res_filter_eq_Inr group_spec_def sum_tally Let_def metric_of_spec
      completed_rows_def good_rows_def)

lemma groups_by_spec:
  assumes "groups_by plan belongs window scope rows keys = Inr gs"
  shows "map fst gs = keys"
    and "list_all (\<lambda>(x, g). group_spec plan (filter (belongs x) rows) g \<and> og_denominator_ns g = window x) gs"
  using assms unfolding groups_by_def
  by (induction keys arbitrary: gs) (auto simp: result_simps outcome_group_spec)

text \<open>Rows split by a key of three values.\<close>

lemma length_by_epoch:
  assumes "list_all (\<lambda>r. cr_epoch r \<in> {0, 1, 2}) rows"
  shows "(\<Sum>e \<leftarrow> [0, 1, 2]. int (length (filter P (filter (\<lambda>r. cr_epoch r = e) rows)))) = int (length (filter P rows))"
  using assms by (induction rows) auto

lemma epoch_windows: "(\<Sum>e \<leftarrow> [0, 1, 2]. epoch_window_ns w e) = w"
  by (simp add: epoch_window_ns_def)

lemma index_population:
  assumes "set (map f rows) = set [0..int (length rows) - 1]"
  shows "distinct (map f rows)"
proof (rule card_distinct)
  show "card (set (map f rows)) = length (map f rows)" unfolding assms by simp
qed

lemma summarize_parts:
  assumes "summarize plan rows client = Inr s"
  obtains window where "get_null plan ''duration_ns'' = JInt window"
    "set (map cr_index rows) = set [0..int (length rows) - 1]"
    "outcome_group_of plan window ''FULL_OFFERED_WINDOW'' rows = Inr (sm_all s)"
    "groups_by plan (\<lambda>e r. cr_epoch r = e) (epoch_window_ns window) ''EPOCH_OFFERED_WINDOW'' rows [0, 1, 2] = Inr (sm_epochs s)"
    "client \<longrightarrow> sm_client_timing s = Some (client_timing_of rows)"
  using assms
  by (auto simp: summarize_def result_simps plan_int_def need_def get_null_def Let_def split: option.splits json.splits)


section \<open>What a verified result says\<close>

lemma optional_count_ok: "optional_count v = Inr m \<longleftrightarrow> v = optional_json m \<and> (\<forall>n. m = Some n \<longrightarrow> 0 \<le> n)"
  by (cases v) (auto simp: optional_count_def optional_json_def split: option.splits if_splits)

lemma optional_json_null [simp]: "optional_json m = JNull \<longleftrightarrow> m = None"
  by (simp add: optional_json_def split: option.split)

lemma lift_artifact_ok [simp]: "lift_artifact r = Inr x \<longleftrightarrow> r = Inr x"
  by (cases r) (simp_all add: lift_artifact_def)

lemma refuse_if_ok [simp]: "refuse_if b label = Inr u \<longleftrightarrow> \<not> b"
  by (simp add: refuse_if_def)

text \<open>The stages of a row: each follows those before it, and none is skipped up to the first content.\<close>

definition timeline :: "client_row \<Rightarrow> bool" where
  "timeline r \<longleftrightarrow>
     (case (cr_ready_ns r, cr_dispatch_ns r, cr_response_headers_ns r, cr_first_body_byte_ns r, cr_first_content_ns r) of
        (Some a, Some b, Some c, Some d, Some e) \<Rightarrow>
          cr_scheduled_ns r \<le> a \<and> a \<le> b \<and> b \<le> c \<and> c \<le> d \<and> d \<le> e \<and> e \<le> cr_terminal_ns r
      | (Some a, Some b, Some c, Some d, None) \<Rightarrow>
          cr_scheduled_ns r \<le> a \<and> a \<le> b \<and> b \<le> c \<and> c \<le> d \<and> d \<le> cr_terminal_ns r
      | (Some a, Some b, Some c, None, None) \<Rightarrow> cr_scheduled_ns r \<le> a \<and> a \<le> b \<and> b \<le> c \<and> c \<le> cr_terminal_ns r
      | (Some a, Some b, None, None, None) \<Rightarrow> cr_scheduled_ns r \<le> a \<and> a \<le> b \<and> b \<le> cr_terminal_ns r
      | (Some a, None, None, None, None) \<Rightarrow> cr_scheduled_ns r \<le> a \<and> a \<le> cr_terminal_ns r
      | (None, None, None, None, None) \<Rightarrow> True
      | _ \<Rightarrow> False)"

definition answered :: "client_row \<Rightarrow> bool" where
  "answered r \<longleftrightarrow> cr_http_status r = Some 200 \<and> cr_first_content_ns r \<noteq> None"

definition answers :: "offer \<Rightarrow> client_row \<Rightarrow> bool" where
  "answers x r \<longleftrightarrow> cr_index r = of_index x \<and> cr_scheduled_ns r = of_scheduled_ns x \<and> cr_epoch r = of_epoch x
     \<and> cr_traffic_class r = ascii_text (of_traffic_class x) \<and> cr_tenant r = ascii_text (of_tenant x)"

definition row_checked :: "members \<Rightarrow> offer \<Rightarrow> client_row \<Rightarrow> bool" where
  "row_checked plan x r \<longleftrightarrow>
     answers x r \<and> timeline r
     \<and> (cr_http_status r = None \<longleftrightarrow> cr_response_headers_ns r = None)
     \<and> (if outcome_is r ''completed''
        then answered r \<and> expected_tokens plan x = Inr (optional_json (cr_prompt_tokens r))
          \<and> need plan ''max_tokens'' = Inr (optional_json (cr_completion_tokens r))
        else if outcome_is r ''rejected'' then cr_http_status r = Some 503
        else cr_outcome r \<in> set (map ascii_text client_outcomes))"

lemma read_client_row_ok:
  assumes "read_client_row ms = Inr r"
  shows "get_null ms ''dispatch_ns'' = optional_json (cr_dispatch_ns r)"
    "get_null ms ''response_headers_ns'' = optional_json (cr_response_headers_ns r)"
    "cr_index r = json_int (get_null ms ''index'')" "cr_scheduled_ns r = json_int (get_null ms ''scheduled_ns'')"
    "cr_epoch r = json_int (get_null ms ''epoch'')" "cr_traffic_class r = json_text (get_null ms ''traffic_class'')"
    "cr_tenant r = json_text (get_null ms ''tenant'')"
  using assms by (auto simp: read_client_row_def result_simps optional_count_ok split: json.splits)

lemma same_document_typed:
  assumes "same_document a v" "same_type a v" "v \<in> range JInt \<union> range JStr \<union> {JNull}"
  shows "a = v"
  using assms by (cases a) (auto elim: same_documentE)

text \<open>With a faithful encoding a row's planned fields are those of its offer.\<close>

lemma check_planned_ok:
  assumes "codec_faithful k" "check_planned k ms x = Inr u" "(key, v) \<in> set (planned_fields x)"
  shows "get_null ms key = v"
proof -
  let ?raw = "map (\<lambda>(key, _). (key, get_null ms key)) (planned_fields x)"
  have types: "same_type (get_null ms key) v" and same: "require_same k (jobj ?raw) (jobj (planned_fields x))
      (Refused ''timed client row differs from planned offer'') = Inr u"
    using assms(2,3) by (auto simp: check_planned_def result_simps list_all_iff)
  have unique: "distinct (map fst (planned_fields x))" by (simp add: planned_fields_def)
  then have planned: "map_of (planned_fields x) key = Some v" using assms(3) by simp
  have raw: "map_of ?raw key = Some (get_null ms key)"
    using unique assms(3) by (intro map_of_is_SomeI) (force simp: comp_def split_def image_iff)+
  have "same_document (get_null ms key) v"
    using same_members(2) [OF require_same_documents [OF assms(1) same, unfolded jobj_def], of key]
    unfolding get_null_jobj raw planned by simp
  moreover have "v \<in> range JInt \<union> range JStr \<union> {JNull}"
    using assms(3) by (auto simp: planned_fields_def jstr_def split: option.splits)
  ultimately show ?thesis using same_document_typed [OF _ types] by blast
qed

lemma client_row_of_ok:
  assumes "client_row_of k plan (raw, x) = Inr r"
  shows "get_null (object_members raw) ''dispatch_ns'' = optional_json (cr_dispatch_ns r)"
    "get_null (object_members raw) ''response_headers_ns'' = optional_json (cr_response_headers_ns r)"
    "sorted (stamps r)" "\<forall>t. cr_ready_ns r = Some t \<longrightarrow> cr_scheduled_ns r \<le> t" "observations_ok r"
    "outcome_is r ''completed'' \<longrightarrow> answered r \<and> expected_tokens plan x = Inr (optional_json (cr_prompt_tokens r))
        \<and> need plan ''max_tokens'' = Inr (optional_json (cr_completion_tokens r))"
    "codec_faithful k \<longrightarrow> answers x r"
proof -
  from assms obtain ms where raw: "raw = JObj ms" by (auto simp: client_row_of_def split: json.splits)
  from assms obtain u r0 status tokens max_tokens where read: "check_planned k ms x = Inr u" "read_client_row ms = Inr r0"
    "Inr (r0\<lparr>cr_http_status := status\<rparr>) = (Inr r :: client_row checked)" and parts: "sorted (stamps r0)"
    "\<not> (case cr_ready_ns r0 of None \<Rightarrow> False | Some t \<Rightarrow> t < cr_scheduled_ns r0)" "observations_ok r" "expected_tokens plan x = Inr tokens"
    "(if outcome_is r ''completed'' then need plan ''max_tokens'' else Inr JNull) = Inr max_tokens"
    "\<not> (outcome_is r ''completed'' \<and> (cr_http_status r \<noteq> Some 200 \<or> cr_first_content_ns r = None
       \<or> optional_json (cr_prompt_tokens r) \<noteq> tokens \<or> optional_json (cr_completion_tokens r) \<noteq> max_tokens))"
    unfolding client_row_of_def raw prod.case json.case Let_def
    by (elim rbind_okE) (rule that, assumption, assumption, assumption, simp_all, auto)
  have r: "r = r0\<lparr>cr_http_status := status\<rparr>" using read(3) by simp
  show "get_null (object_members raw) ''dispatch_ns'' = optional_json (cr_dispatch_ns r)"
    "get_null (object_members raw) ''response_headers_ns'' = optional_json (cr_response_headers_ns r)"
    by (simp_all add: raw object_members_def r read_client_row_ok [OF read(2)])
  show "sorted (stamps r)" using parts(1) by (simp add: r stamps_def)
  show "\<forall>t. cr_ready_ns r = Some t \<longrightarrow> cr_scheduled_ns r \<le> t" using parts(2) by (auto simp: r)
  show "observations_ok r" by (rule parts(3))
  show "outcome_is r ''completed'' \<longrightarrow> answered r \<and> expected_tokens plan x = Inr (optional_json (cr_prompt_tokens r))
        \<and> need plan ''max_tokens'' = Inr (optional_json (cr_completion_tokens r))"
    using parts(4-6) by (auto simp: answered_def)
  show "codec_faithful k \<longrightarrow> answers x r"
  proof
    assume "codec_faithful k"
    then have "get_null ms key = v" if "(key, v) \<in> set (planned_fields x)" for key v
      using check_planned_ok read(1) that by blast
    then have "get_null ms ''index'' = JInt (of_index x)" "get_null ms ''scheduled_ns'' = JInt (of_scheduled_ns x)"
      "get_null ms ''epoch'' = JInt (of_epoch x)" "get_null ms ''traffic_class'' = jstr (of_traffic_class x)"
      "get_null ms ''tenant'' = jstr (of_tenant x)" by (simp_all add: planned_fields_def)
    then show "answers x r"
      by (simp add: answers_def r read_client_row_ok [OF read(2)] json_int_def json_text_def jstr_def)
  qed
qed

lemma row_timeline:
  assumes "sorted (stamps r)" "\<forall>t. cr_ready_ns r = Some t \<longrightarrow> cr_scheduled_ns r \<le> t" "observations_ok r"
    and "cr_response_headers_ns r \<noteq> None \<longrightarrow> cr_dispatch_ns r \<noteq> None"
  shows "timeline r"
  using assms
  by (cases "cr_ready_ns r"; cases "cr_dispatch_ns r"; cases "cr_response_headers_ns r";
      cases "cr_first_body_byte_ns r"; cases "cr_first_content_ns r")
    (auto simp: timeline_def stamps_def observations_ok_def map_filter_simps)

lemma check_links_dispatched:
  assumes "check_links i seen (zip rows links) = Inr ()" "length links = length rows" "row \<in> set rows"
    and "get_null (object_members row) ''response_headers_ns'' \<noteq> JNull"
  shows "get_null (object_members row) ''dispatch_ns'' \<noteq> JNull"
  using assms
proof (induction rows arbitrary: i seen links)
  case (Cons a rows)
  then obtain l ls where links: "links = l # ls" "length ls = length rows" by (cases links) auto
  have head: "check_link i seen a l = Inr ()"
    and rest: "check_links (i + 1) (identity_of l # seen) (zip rows ls) = Inr ()"
    using Cons.prems(1) by (auto simp: links result_simps identity_of_def)
  show ?case
  proof (cases "row = a")
    case True
    with head Cons.prems(4) show ?thesis
      by (auto simp: check_link_def result_simps object_members_def split: json.splits if_splits)
  next
    case False
    with Cons.prems(3) have "row \<in> set rows" by simp
    from Cons.IH [OF rest links(2) this Cons.prems(4)] show ?thesis .
  qed
qed simp

lemma client_rows_checked:
  assumes "codec_faithful k" "res_map (client_row_of k plan) (zip raws offers) = Inr rows" "length raws = length offers"
    and "\<forall>raw \<in> set raws. get_null (object_members raw) ''response_headers_ns'' \<noteq> JNull
        \<longrightarrow> get_null (object_members raw) ''dispatch_ns'' \<noteq> JNull"
  shows "list_all2 (row_checked plan) offers rows"
proof -
  have len: "length rows = length offers" using res_map_length [OF assms(2)] assms(3) by simp
  show ?thesis
  proof (rule list_all2_all_nthI)
    fix i assume i: "i < length offers"
    then have "client_row_of k plan (raws ! i, offers ! i) = Inr (rows ! i)"
      using assms(2,3) unfolding res_map_eq_Inr by (auto simp: list_all2_conv_all_nth)
    note row = client_row_of_ok [OF this]
    have "raws ! i \<in> set raws" using i assms(3) by simp
    with assms(4) row(1,2) have "cr_response_headers_ns (rows ! i) \<noteq> None \<longrightarrow> cr_dispatch_ns (rows ! i) \<noteq> None"
      by (metis optional_json_null)
    with row_timeline [OF row(3-5)] row(5-7) assms(1) show "row_checked plan (offers ! i) (rows ! i)"
      by (auto simp: row_checked_def observations_ok_def)
  qed (simp add: len)
qed

lemma timed_rows_ok:
  assumes "timed_rows st plan timing result certificate = Inr (measurement, offers, rows)"
  shows "validate_timing (st_codec st) (st_plan_reader st) plan timing = Inr offers"
    "\<exists>raws links. validate_correlated_result (st_codec st) result = Inr (measurement, raws, links)
       \<and> length raws = length offers
       \<and> res_map (client_row_of (st_codec st) (plan_members plan)) (zip raws offers) = Inr rows"
  using assms by (auto simp: timed_rows_def result_simps)

lemma timed_rows_checked:
  assumes "codec_faithful (st_codec st)" "timed_rows st plan timing result certificate = Inr (measurement, offers, rows)"
  shows "list_all2 (row_checked (plan_members plan)) offers rows"
proof -
  from timed_rows_ok(2) [OF assms(2)] obtain raws links where found:
    "validate_correlated_result (st_codec st) result = Inr (measurement, raws, links)"
    "length raws = length offers"
    "res_map (client_row_of (st_codec st) (plan_members plan)) (zip raws offers) = Inr rows" by blast
  note links = validated_links [OF found(1)]
  show ?thesis
    by (rule client_rows_checked [OF assms(1) found(3,2)]) (use check_links_dispatched [OF links(3,1)] in blast)
qed

lemma check_accounting_ok:
  assumes "check_accounting st plan measurement offered rows = Inr valid"
  shows "\<exists>s. summarize (plan_members plan) rows True = Inr s
      \<and> (\<exists>b. cd_canonical (st_codec st) (get_null measurement ''summary'') = Some b
          \<and> cd_canonical (st_codec st) (summary_json st s) = Some b)"
    "get_null measurement ''comparison_valid'' = JBool valid"
    "valid \<longrightarrow> list_all (\<lambda>r. cr_dispatch_ns r \<noteq> None
       \<and> cr_outcome r \<notin> set (map ascii_text [''cancelled'', ''prompt_length_mismatch'', ''output_length_mismatch''])) rows"
  using assms
  by (auto simp: check_accounting_def result_simps require_same_ok comparison_valid_def accounting_consistent_def
      list_all_iff list_ex_iff outcome_is_def)

lemma verify_timed_result_parts:
  assumes "verify_timed_result st plan timing result certificate = Inr c"
  obtains measurement offers rows where
    "timed_rows st plan timing result certificate = Inr (measurement, offers, rows)"
    "check_accounting st plan measurement (int (length offers)) rows = Inr (tc_comparison_valid c)"
    "tc_offered c = int (length offers)" "need (plan_members plan) ''duration_ns'' = Inr (tc_denominator_ns c)"
  using assms by (auto simp: verify_timed_result_def result_simps Let_def)


section \<open>A concrete result\<close>

definition demo_study :: study where
  "demo_study = \<lparr>st_codec = demo_codec, st_plan_reader = demo_reader, st_dumps = \<lambda>_. Some [],
     st_double = \<lambda>_. ''0.0'', st_integral = \<lambda>_. None\<rparr>"

text \<open>At most the first request completed, in time; the router had no capacity for the others.\<close>

definition timed_row :: "int \<Rightarrow> int \<Rightarrow> int \<Rightarrow> bool \<Rightarrow> json" where
  "timed_row i t e ok = jobj
     [(''index'', JInt i), (''scheduled_ns'', JInt t), (''epoch'', JInt e), (''traffic_class'', jstr ''hot''),
      (''tenant'', jstr ''tenant-a''), (''dispatch_ns'', JInt (t + 1)), (''response_headers_ns'', JInt (t + 2)),
      (''first_body_byte_ns'', if ok then JInt (t + 3) else JNull),
      (''first_content_ns'', if ok then JInt (t + 4) else JNull), (''terminal_ns'', JInt (t + 9)),
      (''max_content_gap_ns'', JNull), (''outcome'', jstr (if ok then ''completed'' else ''rejected'')),
      (''http_status'', JInt (if ok then 200 else 503)), (''prompt_tokens'', if ok then JInt 5 else JNull),
      (''completion_tokens'', if ok then JInt 7 else JNull), (''ready_ns'', JInt t), (''document_id'', JNull)]"

definition timed_client_row :: "int \<Rightarrow> int \<Rightarrow> int \<Rightarrow> bool \<Rightarrow> client_row" where
  "timed_client_row i t e ok = \<lparr>cr_index = i, cr_scheduled_ns = t, cr_epoch = e, cr_traffic_class = ascii_text ''hot'',
     cr_tenant = ascii_text ''tenant-a'', cr_ready_ns = Some t, cr_dispatch_ns = Some (t + 1),
     cr_response_headers_ns = Some (t + 2), cr_first_body_byte_ns = (if ok then Some (t + 3) else None),
     cr_first_content_ns = (if ok then Some (t + 4) else None), cr_terminal_ns = t + 9, cr_max_content_gap_ns = None,
     cr_outcome = ascii_text (if ok then ''completed'' else ''rejected''),
     cr_http_status = Some (if ok then 200 else 503), cr_prompt_tokens = (if ok then Some 5 else None),
     cr_completion_tokens = (if ok then Some 7 else None)\<rparr>"

lemma same_bytes_demo [simp]: "require_same demo_codec a a e = Inr ()"
  by (simp add: require_same_ok demo_canonical)

lemma demo_tokens:
  "expected_tokens (plan_members (demo_block seed)) x = Inr (JInt 5)"
  "need (plan_members (demo_block seed)) ''max_tokens'' = Inr (JInt 7)"
  by (simp_all add: expected_tokens_def demo_needed study_schema_def capacity_schema_def jstr_def)
    (simp_all add: demo_block_def demo_fields)

lemma timed_row_read:
  assumes "0 \<le> t"
  shows "client_row_of demo_codec (plan_members (demo_block seed)) (timed_row i t e ok, demo_offer i t e)
    = Inr (timed_client_row i t e ok)"
proof -
  define ms where "ms = plan_members (timed_row i t e ok)"
  have raw: "timed_row i t e ok = JObj ms" by (simp add: ms_def timed_row_def jobj_def plan_members_def)
  have fields: "same_fields ms row_names"
    by (simp add: ms_def timed_row_def jobj_def plan_members_def same_fields_def row_names_def)
  have planned: "check_planned demo_codec ms (demo_offer i t e) = Inr ()"
    by (simp add: check_planned_def planned_fields_def ms_def timed_row_def demo_fields demo_offer_def jstr_def)
  have read: "read_client_row ms = Inr ((timed_client_row i t e ok)\<lparr>cr_http_status := None\<rparr>)"
    using assms by (simp add: read_client_row_def ms_def timed_row_def demo_fields optional_count_def json_int_def
      json_text_def jstr_def timed_client_row_def)
  have status: "optional_status (get_null ms ''http_status'') = Inr (Some (if ok then 200 else 503))"
    by (simp add: ms_def timed_row_def demo_fields optional_status_def)
  have order: "sorted (stamps (timed_client_row i t e ok))" by (simp add: stamps_def timed_client_row_def map_filter_simps)
  have observed: "observations_ok (timed_client_row i t e ok)"
    by (simp add: observations_ok_def timed_client_row_def outcome_is_def client_outcomes_def)
  have row: "(timed_client_row i t e ok)\<lparr>cr_http_status := None\<rparr>\<lparr>cr_http_status := Some (if ok then 200 else 503)\<rparr>
      = timed_client_row i t e ok" by (simp add: timed_client_row_def)
  show ?thesis
    unfolding client_row_of_def raw prod.case json.case planned read status Let_def rbind.simps row
    using order observed
    by (simp add: fields stamps_def demo_tokens outcome_is_def timed_client_row_def optional_json_def)
qed

definition timed_rows_json :: "bool \<Rightarrow> json list" where
  "timed_rows_json good = [timed_row 0 0 0 good, timed_row 1 20 0 False, timed_row 2 90 0 False, timed_row 3 120 1 False]"

definition timed_client_rows :: "bool \<Rightarrow> client_row list" where
  "timed_client_rows good = [timed_client_row 0 0 0 good, timed_client_row 1 20 0 False, timed_client_row 2 90 0 False,
     timed_client_row 3 120 1 False]"

text \<open>The request identities of trial \<open>n\<close>.\<close>

definition trial_identity :: "nat \<Rightarrow> char \<Rightarrow> json" where
  "trial_identity n c = jstr (zpad 31 n @ [c])"

definition timed_links :: "nat \<Rightarrow> json list" where
  "timed_links n = map (\<lambda>(i, c). demo_link i (trial_identity n c) (trial_identity n c))
     [(0, CHR ''a''), (1, CHR ''b''), (2, CHR ''c''), (3, CHR ''d'')]"

definition demo_summary :: "int \<Rightarrow> bool \<Rightarrow> summary" where
  "demo_summary seed good = (case summarize (plan_members (demo_block seed)) (timed_client_rows good) True of Inr s \<Rightarrow> s)"

lemma demo_slo:
  "plan_int (plan_members (demo_block seed)) ''duration_ns'' = Inr 300"
  "plan_int (plan_members (demo_block seed)) ''first_content_slo_ns'' = Inr 50"
  "plan_int (plan_members (demo_block seed)) ''completion_slo_ns'' = Inr 100"
  "need (plan_members (demo_block seed)) ''offered_count'' = Inr (JInt 4)"
  by (simp_all add: plan_int_def demo_needed) (simp_all add: demo_block_def demo_fields)

lemma demo_good: "slo_good (plan_members (demo_block seed)) (timed_client_row i t e True) = Inr True"
  by (simp add: slo_good_def demo_slo timed_client_row_def)

lemma demo_group: "\<exists>g. outcome_group_of (plan_members (demo_block seed)) w scope part = Inr g"
proof -
  have "is_ok (slo_good (plan_members (demo_block seed)) r)" for r
    by (simp add: slo_good_def demo_slo split: option.split)
  then show ?thesis by (simp add: outcome_group_of_def Let_def res_filter_eq_Inr result_simps)
qed

lemma demo_groups_by: "\<exists>gs. groups_by (plan_members (demo_block seed)) belongs window scope rows keys = Inr gs"
  unfolding groups_by_def
proof (rule res_map_total)
  fix x
  show "\<exists>y. rbind (outcome_group_of (plan_members (demo_block seed)) (window x) scope (filter (belongs x) rows))
      (\<lambda>g. Inr (x, g)) = Inr y" using demo_group by (metis rbind.simps(2))
qed

lemma demo_summarized: "\<exists>s. summarize (plan_members (demo_block seed)) (timed_client_rows good) True = Inr s"
proof -
  have population: "set (map cr_index (timed_client_rows good)) = set [0..int (length (timed_client_rows good)) - 1]"
    "length (timed_client_rows good) = 4"
    by (simp_all add: timed_client_rows_def timed_client_row_def upto_rec1)
  obtain a where a: "outcome_group_of (plan_members (demo_block seed)) 300 ''FULL_OFFERED_WINDOW'' (timed_client_rows good) = Inr a"
    using demo_group by blast
  obtain es where es: "groups_by (plan_members (demo_block seed)) (\<lambda>e r. cr_epoch r = e) (epoch_window_ns 300)
      ''EPOCH_OFFERED_WINDOW'' (timed_client_rows good) [0, 1, 2] = Inr es" using demo_groups_by by blast
  obtain cs where cs: "groups_by (plan_members (demo_block seed)) (\<lambda>c r. cr_traffic_class r = ascii_text c) (\<lambda>_. 300)
      ''FULL_OFFERED_WINDOW_CONTRIBUTION'' (timed_client_rows good) (traffic_classes False) = Inr cs" using demo_groups_by by blast
  obtain ts where ts: "groups_by (plan_members (demo_block seed)) (\<lambda>t r. cr_tenant r = ascii_text t) (\<lambda>_. 300)
      ''FULL_OFFERED_WINDOW_CONTRIBUTION'' (timed_client_rows good) (tenants False) = Inr ts" using demo_groups_by by blast
  have schema: "jstr study_schema \<noteq> jstr capacity_schema" by (simp add: jstr_def study_schema_def capacity_schema_def)
  show ?thesis
    unfolding summarize_def demo_slo demo_needed rbind.simps Let_def
    using population by (simp add: a es cs ts schema)
qed


definition demo_stats :: "string \<Rightarrow> json" where
  "demo_stats policy = jobj
     [(''policy'', jstr policy), (''offered'', JInt 4), (''terminal'', JInt 4), (''ledger_rows'', JInt 4),
      (''in_flight'', JInt 0), (''pending'', JInt 0), (''active'', JInt 0),
      (''busy'', JArr [JInt 0, JInt 0]), (''accounting_failed'', JBool False)]"

text \<open>The measurement of trial \<open>n\<close> on one plan, under one policy; trials start one after the other.\<close>

definition start_digits :: "nat \<Rightarrow> py_text" where
  "start_digits n = [49, 48 + n div 10, 48 + n mod 10, 48, 48, 48]"

definition timed_measurement :: "int \<Rightarrow> string \<Rightarrow> nat \<Rightarrow> bool \<Rightarrow> (string \<times> json) list" where
  "timed_measurement seed policy n good =
     [(''schema'', jstr ''inferdrome.vllm-router-timed-result.v1''), (''plan_sha256'', jstr ''sha256:00''),
      (''trace_sha256'', jstr ''sha256:00''), (''token_certificate_sha256'', JNull), (''policy'', jstr policy),
      (''model'', jstr ''m''), (''router_origin'', jstr ''o''), (''started_unix_ns'', JStr (start_digits n)),
      (''evidence_class'', jstr ''SYNTHETIC_ONLY''), (''router_accounting_valid'', JBool True),
      (''status'', jstr ''COMPLETED''), (''comparison_valid'', JBool True), (''router_stats_after'', demo_stats policy),
      (''rows'', JArr (timed_rows_json good)), (''summary'', summary_json demo_study (demo_summary seed good)),
      (''base_plan_schema'', jstr study_schema), (''base_plan_sha256'', jstr (demo_plan_sha seed)),
      (''base_trace_sha256'', jstr (demo_trace seed)), (''token_certificate_scope'', jstr ''BASE_WORKLOAD_UNCHANGED_TIMING_ONLY''),
      (''arrival_timing_scope'', jstr ''PLANNED_OFFERS_NOT_OBSERVED_ARRIVALS''), (''result_sha256'', jstr ''sha256:00'')]"

definition timed_body :: "int \<Rightarrow> string \<Rightarrow> nat \<Rightarrow> bool \<Rightarrow> (string \<times> json) list" where
  "timed_body seed policy n good =
     [(''schema'', jstr correlated_schema), (''measurement'', jobj (timed_measurement seed policy n good)),
      (''request_links'', JArr (timed_links n))]"

definition timed_sha256 :: "int \<Rightarrow> string \<Rightarrow> nat \<Rightarrow> bool \<Rightarrow> string" where
  "timed_sha256 seed policy n good = ''sha256:'' @ json_bytes (jobj (timed_body seed policy n good))"

definition timed_result :: "int \<Rightarrow> string \<Rightarrow> nat \<Rightarrow> bool \<Rightarrow> json" where
  "timed_result seed policy n good = jobj (timed_body seed policy n good @ [(''result_sha256'', jstr (timed_sha256 seed policy n good))])"

lemma demo_check_digest:
  "get_null ms ''result_sha256'' = jstr ''sha256:00'' \<Longrightarrow> \<not> marked_document (JObj (without ''result_sha256'' ms))
     \<Longrightarrow> check_digest demo_codec label ms = Inr ()"
  by (simp add: check_digest_def link_digest_def demo_digest)

lemma jstr_eq [simp]: "jstr s = jstr t \<longleftrightarrow> s = t"
  by (simp add: jstr_def)

lemma trial_identity_distinct [simp]: "trial_identity n c = trial_identity m d \<longleftrightarrow> n = m \<and> c = d"
  by (simp add: trial_identity_def)

lemma trial_identity_hex:
  assumes "n \<le> 99" "c \<in> set ''0123456789abcdef''"
  shows "is_identity (trial_identity n c)"
proof -
  have dec_digits: "list_all (\<lambda>c. 48 \<le> (of_char c :: nat) \<and> of_char c \<le> (57 :: nat)) (dec m)" for m
  proof (induction m rule: dec.induct)
    case (1 m)
    have "m mod 10 < 10" by simp
    then have "m mod 10 \<le> 9" by linarith
    with 1 show ?case by (subst dec.simps) (simp add: digit_char_def)
  qed
  have digits: "list_all (\<lambda>c. 48 \<le> (of_char c :: nat) \<and> of_char c \<le> (57 :: nat)) (zpad 31 n)"
    using dec_digits [of n] by (auto simp: zpad_def list_all_iff)
  have "n < 10 ^ 31" using assms(1) by simp
  then have "length (zpad 31 n) = 31" by (rule length_zpad) simp
  moreover have "set (ascii_text ''0123456789abcdef'') = {48..57} \<union> {97..102}"
    by (simp add: ascii_text_def atLeastAtMostSuc_conv eval_nat_numeral insert_commute)
  ultimately show ?thesis using digits assms(2)
    by (auto simp: is_identity_def trial_identity_def jstr_def identity_text_def lower_hex_def ascii_text_def list_all_iff)
qed

lemma timed_link_checked:
  assumes "c \<in> set ''0123456789abcdef''" "trial_identity n c \<notin> set seen" "0 \<le> t" "n \<le> 99"
  shows "check_link i seen (timed_row i t e ok) (demo_link i (trial_identity n c) (trial_identity n c)) = Inr ()"
proof -
  have named: "nonempty_text (jstr ''completed'')" "nonempty_text (jstr ''rejected'')"
    by (simp_all add: nonempty_text_def jstr_def ascii_text_def)
  show ?thesis
    using assms
    by (simp add: check_link_def timed_row_def demo_link_def jobj_def same_fields_def link_fields_def
        trial_identity_hex named insert_commute optional_stamp_def)
qed

lemma link_identity [simp]: "identity_of (demo_link i v r) = v" "get_null (object_members (demo_link i v r)) ''request_id'' = v"
  by (simp_all add: identity_of_def demo_link_def jobj_def object_members_def)

lemma timed_links_checked: "n \<le> 99 \<Longrightarrow> check_links 0 [] (zip (timed_rows_json good) (timed_links n)) = Inr ()"
  by (simp add: timed_rows_json_def timed_links_def timed_link_checked trial_identity_distinct)

lemma demo_members: "object_members (jobj ms) = plan_members (jobj ms)"
  by (simp add: object_members_def plan_members_def jobj_def)

lemma measured:
  assumes "M = plan_members (jobj (timed_measurement seed policy n good))"
  shows "get_null M key = (case map_of (timed_measurement seed policy n good) key of None \<Rightarrow> JNull | Some v \<Rightarrow> v)"
    "get_null M ''schema'' = jstr ''inferdrome.vllm-router-timed-result.v1''" "get_null M ''policy'' = jstr policy"
    "get_null M ''rows'' = JArr (timed_rows_json good)" "get_null M ''comparison_valid'' = JBool True"
    "get_null M ''result_sha256'' = jstr ''sha256:00''" "get_null M ''token_certificate_sha256'' = JNull"
    "get_null M ''status'' = jstr ''COMPLETED''" "get_null M ''router_accounting_valid'' = JBool True"
    "get_null M ''router_stats_after'' = demo_stats policy"
    "get_null M ''summary'' = summary_json demo_study (demo_summary seed good)"
    "get_null M ''model'' = jstr ''m''" "get_null M ''started_unix_ns'' = JStr (start_digits n)"
  unfolding assms demo_fields by (simp_all add: timed_measurement_def)

lemma measurement_unmarked: "\<not> marked_document (JObj (without ''result_sha256'' (plan_members (jobj (timed_measurement seed policy n good)))))"
  by (simp add: timed_measurement_def plan_members_def jobj_def without_def jstr_def)

lemma timed_body_digest: "artifact_digest demo_codec (jobj (timed_body seed policy n good)) = Inr (timed_sha256 seed policy n good)"
proof -
  have "marked_document (jobj (timed_body seed policy n good))"
    by (simp add: timed_body_def timed_measurement_def jobj_def)
  then show ?thesis by (simp add: artifact_digest_def demo_canonical timed_sha256_def)
qed

lemma timed_result_fields:
  assumes "ms = plan_members (timed_result seed policy n good)"
  shows "timed_result seed policy n good = JObj ms" "same_fields ms [''schema'', ''measurement'', ''request_links'', ''result_sha256'']"
    "get_null ms ''schema'' = jstr correlated_schema" "get_null ms ''measurement'' = jobj (timed_measurement seed policy n good)"
    "get_null ms ''request_links'' = JArr (timed_links n)" "get_null ms ''result_sha256'' = jstr (timed_sha256 seed policy n good)"
    "JObj (without ''result_sha256'' ms) = jobj (timed_body seed policy n good)"
  unfolding assms
  by (simp_all add: timed_result_def timed_body_def jobj_def plan_members_def same_fields_def without_def)

lemma timed_result_read:
  assumes "policy \<in> set supported_policies" "n \<le> 99"
  shows "validate_correlated_result demo_codec (timed_result seed policy n good)
    = Inr (plan_members (jobj (timed_measurement seed policy n good)), (timed_rows_json good), timed_links n)"
proof -
  define ms where "ms = plan_members (timed_result seed policy n good)"
  define M where "M = plan_members (jobj (timed_measurement seed policy n good))"
  note r = timed_result_fields [OF ms_def]
  have inner: "jobj (timed_measurement seed policy n good) = JObj M" by (simp add: M_def jobj_def plan_members_def)
  note m = measured(2-6) [OF M_def]
  have digests: "check_digest demo_codec l ms = Inr ()" "check_digest demo_codec l M = Inr ()" for l
    using measurement_unmarked [of seed policy n good, folded M_def]
    by (simp_all add: check_digest_def r(6,7) link_digest_def timed_body_digest m demo_digest)
  have population: "(timed_rows_json good) \<noteq> []" "length (timed_links n) = length (timed_rows_json good)"
    by (simp_all add: timed_rows_json_def timed_links_def)
  have known: "jstr ''inferdrome.vllm-router-timed-result.v1'' \<in> set (map jstr measurement_schemas)"
    "jstr policy \<in> set (map jstr supported_policies)"
    using assms by (simp_all add: measurement_schemas_def)
  show ?thesis
    unfolding validate_correlated_result_def r(1,3-6) json.case inner m M_def [symmetric]
    using r(2) known population
    by (simp add: digests is_bool_def timed_links_checked [OF assms(2)] plan_members_def)
qed

lemma measured_same: "same_fields (plan_members (jobj (timed_measurement seed policy n good))) measurement_names"
  by (simp add: same_fields_def plan_members_def jobj_def timed_measurement_def measurement_names_def)

lemma py_equal_refl [simp]: "py_equal integral (JStr t) (JStr t)" "py_equal integral (jstr s) (jstr s)"
  by (simp_all add: jstr_def)

lemma timing_descriptor: "object_members (timing_json t) = plan_members (timing_json t)"
  by (simp add: timing_json_def demo_members)

lemma demo_descriptor:
  "need (plan_members (timing_json (demo_timing seed))) ''timing_sha256'' = Inr (jstr ''sha256:00'')"
  "need (plan_members (timing_json (demo_timing seed))) ''transformed_trace_sha256'' = Inr (jstr ''sha256:00'')"
  "need (plan_members (timing_json (demo_timing seed))) ''population_sha256'' = Inr (jstr ''sha256:00'')"
  by (simp_all add: timing_json_def timing_fields_def demo_fields demo_timing_def)

definition timed_offers :: "offer list" where
  "timed_offers = [demo_offer 0 0 0, demo_offer 1 20 0, demo_offer 2 90 0, demo_offer 3 120 1]"

text \<open>A seed that the plan recipe takes, a policy the router has, one of at most a hundred trials.\<close>

definition demo_trial :: "int \<Rightarrow> string \<Rightarrow> nat \<Rightarrow> bool" where
  "demo_trial seed policy n \<longleftrightarrow> 0 \<le> seed \<and> seed < 2 ^ 32 \<and> policy \<in> set supported_policies \<and> n \<le> 99"

lemma timed_rows_demo:
  assumes "demo_trial seed policy n"
  shows "timed_rows demo_study (demo_block seed) (timing_json (demo_timing seed)) (timed_result seed policy n good) JNull
    = Inr (plan_members (jobj (timed_measurement seed policy n good)), timed_offers, (timed_client_rows good))"
proof -
  have timing: "validate_timing demo_codec demo_reader (demo_block seed) (timing_json (demo_timing seed)) = Inr timed_offers"
    unfolding timed_offers_def using assms by (intro demo_timing_accepted) (simp_all add: demo_trial_def)
  have rows: "res_map (client_row_of demo_codec (plan_members (demo_block seed))) (zip (timed_rows_json good) timed_offers)
      = Inr (timed_client_rows good)"
    by (simp add: timed_rows_json_def timed_client_rows_def timed_row_read timed_offers_def)
  have certificate: "check_certificate demo_study (plan_members (demo_block seed)) JNull = Inr ()"
    by (simp add: check_certificate_def demo_needed)
  have population: "length (timed_rows_json good) = length timed_offers"
    by (simp add: timed_rows_json_def timed_offers_def)
  have bound: "\<exists>expected. provenance (plan_members (demo_block seed)) (plan_members (timing_json (demo_timing seed))) = Inr expected
      \<and> list_all (\<lambda>(key, v). py_equal (st_integral demo_study)
          (get_null (plan_members (jobj (timed_measurement seed policy n good))) key) v) expected"
    unfolding provenance_def demo_needed demo_descriptor rbind.simps measured(1) [OF refl]
    by (simp add: timed_measurement_def)
  have known: "policy \<in> set supported_policies" "n \<le> 99" using assms by (simp_all add: demo_trial_def)
  have study: "st_codec demo_study = demo_codec" "st_plan_reader demo_study = demo_reader"
    by (simp_all add: demo_study_def)
  show ?thesis
    using bound
    unfolding timed_rows_def study timing timed_result_read [OF known] timing_descriptor
    by (auto simp: lift_artifact_def certificate rows refuse_if_def measured_same measured(2-) [OF refl]
        certificate_sha256_def population)
qed

lemma timed_accounting:
  "check_accounting demo_study (demo_block seed) (plan_members (jobj (timed_measurement seed policy n good))) 4 (timed_client_rows good) = Inr True"
proof -
  obtain s where s: "summarize (plan_members (demo_block seed)) (timed_client_rows good) True = Inr s" using demo_summarized by blast
  then have summary: "demo_summary seed good = s" by (simp add: demo_summary_def)
  have after: "demo_stats policy = JObj (plan_members (demo_stats policy))"
    by (simp add: demo_stats_def jobj_def plan_members_def)
  have read: "map (\<lambda>(key, _). (key, get_null (plan_members (demo_stats policy)) key))
      (expected_stats (plan_members (jobj (timed_measurement seed policy n good))) 4)
    = expected_stats (plan_members (jobj (timed_measurement seed policy n good))) 4"
    unfolding expected_stats_def measured(2-) [OF refl] by (simp add: demo_stats_def demo_fields)
  have stats: "accounting_valid demo_codec (plan_members (jobj (timed_measurement seed policy n good))) 4 = Inr True"
    unfolding accounting_valid_def measured(2-) [OF refl]
    by (subst after) (simp add: read demo_canonical)
  have rows: "\<not> list_ex (\<lambda>r. cr_dispatch_ns r = None) (timed_client_rows good)"
    "\<not> list_ex (\<lambda>r. outcome_is r ''cancelled'') (timed_client_rows good)"
    "\<not> list_ex (\<lambda>r. outcome_is r ''prompt_length_mismatch'' \<or> outcome_is r ''output_length_mismatch'') (timed_client_rows good)"
    by (simp_all add: timed_client_rows_def timed_client_row_def outcome_is_def)
  have codec: "st_codec demo_study = demo_codec" by (simp add: demo_study_def)
  show ?thesis
    using rows by (simp add: check_accounting_def s codec summary lift_artifact_def stats accounting_consistent_def
        comparison_valid_def measured(2-) [OF refl] refuse_if_def)
qed

lemma timing_check_unmarked [simp]: "\<not> marked_document (timing_check_json c)"
  by (simp add: timing_check_json_def)

lemma timed_verified:
  assumes "demo_trial seed policy n"
  shows "\<exists>c. verify_timed_result demo_study (demo_block seed) (timing_json (demo_timing seed)) (timed_result seed policy n good) JNull = Inr c
    \<and> tc_comparison_valid c \<and> tc_offered c = 4"
proof -
  have study: "st_codec demo_study = demo_codec" by (simp add: demo_study_def)
  have offered: "int (length timed_offers) = 4" by (simp add: timed_offers_def)
  show ?thesis
    unfolding verify_timed_result_def timed_rows_demo [OF assms] rbind.simps prod.case offered timed_accounting
      timing_descriptor demo_descriptor demo_needed study Let_def
    by (simp add: lift_artifact_def link_digest_def demo_digest timing_check_unmarked)
qed


end
