(* ===== verification/Comparing.thy ===== *)
theory Comparing
  imports Pairing TimedResults
begin

text \<open>
  The comparison of two routing policies over paired trials, \<open>vllm_paired_comparison.py\<close>: every supplied
  trial is checked against its frozen protocol, its client result and its router ledger, the reasons that
  make it ineligible are collected, and only a comparison without any reason gets statistics. Lemmas:
  supplied trials follow the protocol and share no evidence, and a verdict rests on every planned block.
\<close>

section \<open>State of the comparison\<close>

datatype reason =
    WINDOWS_OVERLAP
  | RESET_NOT_DECLARED
  | NOT_COMPARISON_VALID
  | INCOMPLETE_RECEIPTS
  | OPERATIONAL_ERROR
  | SCHEDULING_LAG_EXCEEDED
  | CLIENT_QUEUE_EXCEEDED
  | MISSING_TRIAL

definition reason_name :: "reason \<Rightarrow> string" where
  "reason_name r =
     (case r of
        WINDOWS_OVERLAP \<Rightarrow> ''REPORTED_TRIAL_WINDOWS_OVERLAP_OR_REORDERED''
      | RESET_NOT_DECLARED \<Rightarrow> ''RESET_NOT_DECLARED_COMPLETE''
      | NOT_COMPARISON_VALID \<Rightarrow> ''MEASUREMENT_NOT_COMPARISON_VALID''
      | INCOMPLETE_RECEIPTS \<Rightarrow> ''INCOMPLETE_ROUTER_RECEIPTS''
      | OPERATIONAL_ERROR \<Rightarrow> ''OPERATIONAL_ERROR_OR_OUTCOME_DISAGREEMENT''
      | SCHEDULING_LAG_EXCEEDED \<Rightarrow> ''CLIENT_SCHEDULING_LAG_EXCEEDS_LIMIT''
      | CLIENT_QUEUE_EXCEEDED \<Rightarrow> ''CLIENT_QUEUE_DELAY_EXCEEDS_LIMIT''
      | MISSING_TRIAL \<Rightarrow> ''MISSING_TRIAL'')"

record trial_report =
  xr_trial :: trial
  xr_slo_good :: json
  xr_offered :: json
  xr_denominator_ns :: json
  xr_goodput_rps :: json
  xr_client_timing :: json
  xr_comparison_valid :: bool
  xr_eligible :: bool
  xr_result_sha256 :: json
  xr_measurement_sha256 :: json
  xr_certificate_sha256 :: json
  xr_timing_check_sha256 :: string
  xr_link_check_sha256 :: string
  xr_ledger_rows_sha256 :: string
  xr_execution_sha256 :: string

type_synonym cell_key = "nat \<times> condition \<times> string"

text \<open>The local variables of \<open>_compare\<close> that the loop over the inputs updates.\<close>

record comparing =
  cg_seen :: "string list"
  cg_results :: "json list"
  cg_requests :: "json list"
  cg_sequence :: nat
  cg_end :: int
  cg_reasons :: "(string \<times> reason) list"
  cg_trials :: "trial_report list"
  cg_counts :: "cell_key \<Rightarrow> json option"

definition comparing_start :: comparing where
  "comparing_start = \<lparr>cg_seen = [], cg_results = [], cg_requests = [], cg_sequence = 0, cg_end = 0,
     cg_reasons = [], cg_trials = [], cg_counts = Map.empty\<rparr>"

section \<open>One trial\<close>

definition input_fields :: "string list" where
  "input_fields = [''trial_id'', ''timing'', ''result'', ''ledger_rows'', ''token_certificate'', ''execution'']"

definition execution_fields :: "string list" where
  "execution_fields = [''source_revision'', ''environment_sha256'', ''reset_procedure_sha256'', ''reset_completed'']"

text \<open>\<open>_fields\<close>\<close>

definition fields_of :: "json \<Rightarrow> string list \<Rightarrow> string \<Rightarrow> members linked" where
  "fields_of v expected label =
     (case v of
        JObj ms \<Rightarrow> if same_fields ms expected then Inr ms else Inl (Encoding (Refused label))
      | _ \<Rightarrow> Inl (Encoding (Refused label)))"

text \<open>The planned trial an input names; of two trials with one identity a dict keeps the last.\<close>

definition find_trial :: "protocol \<Rightarrow> json \<Rightarrow> trial option" where
  "find_trial p name = find (\<lambda>t. jstr (tr_trial_id t) = name) (rev (pc_trials p))"

text \<open>The identity, the order and the timing of an input, and its execution declaration.\<close>

definition planned_trial :: "protocol \<Rightarrow> comparing \<Rightarrow> members \<Rightarrow> trial linked" where
  "planned_trial p s item =
     (case find_trial p (get_null item ''trial_id'') of
        None \<Rightarrow> Inl (Encoding (Refused ''duplicate or unplanned trial''))
      | Some t \<Rightarrow>
          rbind (refuse_if (tr_trial_id t \<in> set (cg_seen s)) ''duplicate or unplanned trial'') (\<lambda>_.
          rbind (refuse_if (tr_sequence t \<le> cg_sequence s)
              ''trial inputs differ from the frozen execution order'') (\<lambda>_.
          case get_null item ''timing'' of
            JObj timing \<Rightarrow>
              rbind (refuse_if (get_null timing ''timing_sha256'' \<noteq> jstr (tr_timing_sha256 t))
                ''trial timing differs from protocol'') (\<lambda>_. Inr t)
          | _ \<Rightarrow> Inl (Encoding (Refused ''trial timing differs from protocol'')))))"

definition declared_reset :: "protocol \<Rightarrow> members \<Rightarrow> (members \<times> bool) linked" where
  "declared_reset p item =
     rbind (fields_of (get_null item ''execution'') execution_fields ''execution declaration'') (\<lambda>execution.
     rbind (refuse_if
         (get_null execution ''source_revision'' \<noteq> JStr (pp_source_revision (pc_options p))
          \<or> get_null execution ''environment_sha256'' \<noteq> JStr (pp_environment (pc_options p))
          \<or> get_null execution ''reset_procedure_sha256'' \<noteq> JStr (pp_reset_procedure (pc_options p)))
         ''execution declaration differs from protocol'') (\<lambda>_.
     case get_null execution ''reset_completed'' of
       JBool b \<Rightarrow> Inr (execution, b)
     | _ \<Rightarrow> Inl (Encoding (Refused ''reset_completed must be boolean''))))"

text \<open>\<open>re.fullmatch(r"[1-9][0-9]{0,19}", started)\<close> and \<open>int(started)\<close>\<close>

definition start_text :: "py_text \<Rightarrow> bool" where
  "start_text t \<longleftrightarrow> t \<noteq> [] \<and> length t \<le> 20 \<and> hd t \<noteq> 48 \<and> list_all (\<lambda>c. 48 \<le> c \<and> c \<le> 57) t"

definition decimal_value :: "py_text \<Rightarrow> int" where
  "decimal_value t = foldl (\<lambda>v c. 10 * v + (int c - 48)) 0 t"

definition started_ns :: "json \<Rightarrow> int linked" where
  "started_ns v =
     (case v of
        JStr t \<Rightarrow> if start_text t then Inr (decimal_value t)
          else Inl (Encoding (Refused ''trial start must be a positive decimal nanosecond string''))
      | _ \<Rightarrow> Inl (Encoding (Refused ''trial start must be a positive decimal nanosecond string'')))"

text \<open>\<open>v[key]\<close> of any decoded value, and an integer among its items.\<close>

definition item_of :: "json \<Rightarrow> string \<Rightarrow> json linked" where
  "item_of v key = (case v of JObj ms \<Rightarrow> lift_artifact (need ms key) | _ \<Rightarrow> Inl (Encoding Python_Error))"

definition int_item :: "json \<Rightarrow> string \<Rightarrow> int linked" where
  "int_item v key = rbind (item_of v key) (\<lambda>w. case w of JInt n \<Rightarrow> Inr n | _ \<Rightarrow> Inl (Encoding Python_Error))"

text \<open>The reported end of a trial: its start and the longest of its plan and its rows.\<close>

definition trial_end :: "json \<Rightarrow> json list \<Rightarrow> int \<Rightarrow> int linked" where
  "trial_end plan rows start =
     rbind (int_item plan ''duration_ns'') (\<lambda>duration.
     rbind (res_map (\<lambda>row. int_item row ''terminal_ns'') rows) (\<lambda>terminals.
     Inr (start + fold max terminals duration)))"

text \<open>Completed work, or work both sides agree was rejected for lack of capacity.\<close>

definition clean_outcome :: "joined_link \<Rightarrow> bool" where
  "clean_outcome l \<longleftrightarrow>
     jl_client_outcome l = jstr ''completed'' \<and> jl_router_outcome l = jstr ''completed''
     \<or> jl_client_outcome l = jstr ''rejected''
       \<and> jl_router_outcome l \<in> set (map jstr [''rejected_capacity'', ''rejected_queue_timeout''])"

text \<open>One limit on the client: every row observed, and the quantile not above the protocol's bound.\<close>

definition exceeds_limit :: "study \<Rightarrow> json \<Rightarrow> string \<Rightarrow> int \<Rightarrow> nat \<Rightarrow> bool linked" where
  "exceeds_limit st client_timing metric limit n =
     rbind (item_of client_timing metric) (\<lambda>observed.
     rbind (item_of observed ''count'') (\<lambda>v.
     if \<not> py_equal (st_integral st) v (JInt (int n)) then Inr True
     else rbind (item_of observed ''p95_ns'') (\<lambda>q.
       if q = JNull then Inr True
       else case py_integer (st_integral st) q of
           None \<Rightarrow> Inl (Encoding Python_Error)
         | Some m \<Rightarrow> Inr (limit < m))))"

definition request_ids :: "json \<Rightarrow> json list" where
  "request_ids result =
     (case get_null (object_members result) ''request_links'' of JArr links \<Rightarrow> map identity_of links | _ \<Rightarrow> [])"

text \<open>What one input is checked for before it is accounted for.\<close>

record checked_trial =
  kt_trial :: trial
  kt_execution :: members
  kt_reset :: bool
  kt_timing_check :: timing_check
  kt_links :: link_report
  kt_measurement :: json
  kt_rows :: "json list"
  kt_result_sha256 :: json
  kt_request_ids :: "json list"
  kt_start :: int

text \<open>The result, its ledger and its start, after the timing has been verified.\<close>

definition check_evidence ::
  "study \<Rightarrow> protocol \<Rightarrow> comparing \<Rightarrow> trial \<Rightarrow> members \<times> bool \<Rightarrow> timing_check \<Rightarrow> json \<Rightarrow> json list \<Rightarrow> checked_trial linked" where
  "check_evidence st p s t declared timing_check result ledger =
     rbind (verify_links (st_codec st) (st_dumps st) result ledger) (\<lambda>links.
     rbind (item_of result ''measurement'') (\<lambda>measurement.
     rbind (item_of measurement ''policy'') (\<lambda>policy.
     rbind (item_of measurement ''model'') (\<lambda>model.
     rbind (refuse_if (policy \<noteq> jstr (tr_policy t) \<or> model \<noteq> JStr (pp_model (pc_options p)))
         ''trial policy or model differs from protocol'') (\<lambda>_.
     rbind (item_of result ''result_sha256'') (\<lambda>result_sha256.
     rbind (refuse_if (result_sha256 \<in> set (cg_results s)) ''reused trial result'') (\<lambda>_.
     rbind (refuse_if (set (cg_requests s) \<inter> set (request_ids result) \<noteq> {})
         ''request identity reused across trials'') (\<lambda>_.
     rbind (item_of measurement ''started_unix_ns'') (\<lambda>started.
     rbind (started_ns started) (\<lambda>start.
     rbind (item_of measurement ''rows'') (\<lambda>rows.
     Inr \<lparr>kt_trial = t, kt_execution = fst declared, kt_reset = snd declared, kt_timing_check = timing_check,
          kt_links = links, kt_measurement = measurement, kt_rows = (case rows of JArr js \<Rightarrow> js | _ \<Rightarrow> []),
          kt_result_sha256 = result_sha256, kt_request_ids = request_ids result, kt_start = start\<rparr>)))))))))))"

definition check_trial :: "study \<Rightarrow> protocol \<Rightarrow> json list \<Rightarrow> comparing \<Rightarrow> json \<Rightarrow> checked_trial linked" where
  "check_trial st p plans s v =
     rbind (fields_of v input_fields ''trial input'') (\<lambda>item.
     rbind (planned_trial p s item) (\<lambda>t.
     rbind (declared_reset p item) (\<lambda>declared.
     rbind (verify_timed_result st (plans ! (tr_block t - 1)) (get_null item ''timing'') (get_null item ''result'')
         (get_null item ''token_certificate'')) (\<lambda>timing_check.
     case get_null item ''ledger_rows'' of
       JArr ledger \<Rightarrow> check_evidence st p s t declared timing_check (get_null item ''result'') ledger
     | _ \<Rightarrow> Inl (Encoding (Refused ''router ledger must be a list''))))))"

text \<open>The reasons of one trial, in the order the code appends them.\<close>

definition trial_reasons :: "study \<Rightarrow> protocol \<Rightarrow> comparing \<Rightarrow> checked_trial \<Rightarrow> json \<Rightarrow> reason list linked" where
  "trial_reasons st p s c client_timing =
     rbind (exceeds_limit st client_timing ''scheduling_lag'' (pp_max_lag (pc_options p)) (length (kt_rows c))) (\<lambda>lag.
     rbind (exceeds_limit st client_timing ''client_queue_delay'' (pp_max_queue (pc_options p)) (length (kt_rows c)))
       (\<lambda>queue.
     Inr (map fst (filter snd
       [(WINDOWS_OVERLAP, kt_start c < cg_end s),
        (RESET_NOT_DECLARED, \<not> kt_reset c),
        (NOT_COMPARISON_VALID, \<not> tc_comparison_valid (kt_timing_check c)),
        (INCOMPLETE_RECEIPTS, lk_matched (kt_links c) \<noteq> int (length (kt_rows c))
           \<or> lk_not_dispatched (kt_links c) \<noteq> 0 \<or> \<not> lk_verified (kt_links c)),
        (OPERATIONAL_ERROR, \<not> list_all clean_outcome (lk_links (kt_links c))),
        (SCHEDULING_LAG_EXCEEDED, lag), (CLIENT_QUEUE_EXCEEDED, queue)]))))"

definition account_trial :: "study \<Rightarrow> protocol \<Rightarrow> json list \<Rightarrow> comparing \<Rightarrow> checked_trial \<Rightarrow> comparing linked" where
  "account_trial st p plans s c =
     (let t = kt_trial c; plan = plans ! (tr_block t - 1)
      in rbind (trial_end plan (kt_rows c) (kt_start c)) (\<lambda>finish.
         rbind (item_of (kt_measurement c) ''summary'') (\<lambda>summary.
         rbind (item_of summary ''client_timing'') (\<lambda>client_timing.
         rbind (trial_reasons st p s c client_timing) (\<lambda>reasons.
         rbind (item_of summary ''all_offered'') (\<lambda>all_offered.
         rbind (item_of all_offered ''slo_good'') (\<lambda>good.
         rbind (item_of all_offered ''offered'') (\<lambda>offered.
         rbind (item_of plan ''duration_ns'') (\<lambda>duration.
         rbind (item_of all_offered ''slo_goodput_rps'') (\<lambda>goodput.
         rbind (item_of (kt_measurement c) ''result_sha256'') (\<lambda>measurement_sha256.
         rbind (item_of (kt_measurement c) ''token_certificate_sha256'') (\<lambda>certificate.
         rbind (link_digest (st_codec st) (JObj (kt_execution c))) (\<lambda>execution.
         Inr \<lparr>cg_seen = cg_seen s @ [tr_trial_id t], cg_results = cg_results s @ [kt_result_sha256 c],
              cg_requests = cg_requests s @ kt_request_ids c, cg_sequence = tr_sequence t,
              cg_end = max (cg_end s) finish,
              cg_reasons = cg_reasons s @ map (Pair (tr_trial_id t)) reasons,
              cg_trials = cg_trials s @ [\<lparr>xr_trial = t, xr_slo_good = good, xr_offered = offered,
                xr_denominator_ns = duration, xr_goodput_rps = goodput, xr_client_timing = client_timing,
                xr_comparison_valid = tc_comparison_valid (kt_timing_check c), xr_eligible = (reasons = []),
                xr_result_sha256 = kt_result_sha256 c, xr_measurement_sha256 = measurement_sha256,
                xr_certificate_sha256 = certificate,
                xr_timing_check_sha256 = tc_result_sha256 (kt_timing_check c),
                xr_link_check_sha256 = lk_report_sha256 (kt_links c),
                xr_ledger_rows_sha256 = lk_ledger_rows_sha256 (kt_links c), xr_execution_sha256 = execution\<rparr>],
              cg_counts = (cg_counts s)((tr_block t, tr_condition t, tr_policy t) \<mapsto> good)\<rparr>)))))))))))))"

definition compare_trial :: "study \<Rightarrow> protocol \<Rightarrow> json list \<Rightarrow> comparing \<Rightarrow> json \<Rightarrow> comparing linked" where
  "compare_trial st p plans s v = rbind (check_trial st p plans s v) (account_trial st p plans s)"

section \<open>Blocks and verdict\<close>

record block_cell =
  bc_policy_a :: int
  bc_policy_b :: int
  bc_delta :: rat

record block_report =
  br_block :: nat
  br_seed :: json
  br_denominator_ns :: json
  br_baseline :: "block_cell option"
  br_candidate :: "block_cell option"

text \<open>\<open>counts.get(key)\<close>; a count that is null reads like a missing one.\<close>

definition cell_count :: "comparing \<Rightarrow> cell_key \<Rightarrow> json option" where
  "cell_count s key = (case cg_counts s key of Some JNull \<Rightarrow> None | v \<Rightarrow> v)"

text \<open>A difference of counts: an integer less an integer, or a float that \<open>Fraction\<close> refuses.\<close>

definition whole_count :: "json \<Rightarrow> int linked" where
  "whole_count v =
     (case v of JInt n \<Rightarrow> Inr n | JBool b \<Rightarrow> Inr (if b then 1 else 0) | _ \<Rightarrow> Inl (Encoding Python_Error))"

definition cell_of :: "protocol \<Rightarrow> comparing \<Rightarrow> nat \<Rightarrow> json \<Rightarrow> condition \<Rightarrow> block_cell option linked" where
  "cell_of p s block plan c =
     (case (cell_count s (block, c, pp_policy_a (pc_options p)), cell_count s (block, c, pp_policy_b (pc_options p))) of
        (Some x, Some y) \<Rightarrow>
          rbind (whole_count x) (\<lambda>a.
          rbind (whole_count y) (\<lambda>b.
          rbind (int_item plan ''duration_ns'') (\<lambda>duration.
          let delta = of_int ((a - b) * 1000000000) / of_int duration
          in rbind (raise_if (\<not> finite_float delta) (Encoding Python_Error)) (\<lambda>_.
             Inr (Some \<lparr>bc_policy_a = a, bc_policy_b = b, bc_delta = delta\<rparr>)))))
      | _ \<Rightarrow> Inr None)"

definition block_of :: "protocol \<Rightarrow> comparing \<Rightarrow> nat \<times> json \<Rightarrow> block_report linked" where
  "block_of p s numbered =
     (case numbered of (block, plan) \<Rightarrow>
        rbind (cell_of p s block plan BASELINE) (\<lambda>baseline.
        rbind (cell_of p s block plan CANDIDATE) (\<lambda>candidate.
        rbind (item_of plan ''seed'') (\<lambda>seed.
        rbind (item_of plan ''duration_ns'') (\<lambda>duration.
        Inr \<lparr>br_block = block, br_seed = seed, br_denominator_ns = duration, br_baseline = baseline,
             br_candidate = candidate\<rparr>)))))"

definition deltas_of :: "(block_report \<Rightarrow> block_cell option) \<Rightarrow> block_report list \<Rightarrow> rat list" where
  "deltas_of cell blocks = map bc_delta (List.map_filter cell blocks)"

record comparison_report =
  cp_status :: comparison_status
  cp_protocol :: protocol
  cp_supplied :: nat
  cp_missing :: "string list"
  cp_reasons :: "(string \<times> reason) list"
  cp_trials :: "trial_report list"
  cp_blocks :: "block_report list"
  cp_statistics :: "paired_statistics option"
  cp_result_sha256 :: string

definition missing_trials :: "protocol \<Rightarrow> comparing \<Rightarrow> string list" where
  "missing_trials p s = filter (\<lambda>name. name \<notin> set (cg_seen s)) (map tr_trial_id (pc_trials p))"

section \<open>The report\<close>

definition fraction_json :: "rat \<Rightarrow> json" where
  "fraction_json v = (case quotient_of v of (n, d) \<Rightarrow>
     jobj [(''numerator'', jstr (str_int n)), (''denominator'', jstr (str_int d))])"

definition direction_json :: "study \<Rightarrow> direction_summary \<Rightarrow> json" where
  "direction_json st d = jobj
     [(''block_count'', JInt (int (ds_count d))),
      (''direction'', jstr (if ds_direction d = 1 then ''POLICY_A_ADVANTAGE'' else ''POLICY_B_ADVANTAGE'')),
      (''mean_rps'', JFloat (st_double st (ds_mean d))), (''median_rps'', JFloat (st_double st (ds_median d))),
      (''min_rps'', JFloat (st_double st (ds_min d))), (''max_rps'', JFloat (st_double st (ds_max d))),
      (''exact_rps'', jobj [(''mean'', fraction_json (ds_mean d)), (''median'', fraction_json (ds_median d)),
         (''min'', fraction_json (ds_min d)), (''max'', fraction_json (ds_max d))]),
      (''exceedances'', JInt (int (ds_exceedances d))), (''at_margin'', JInt (int (ds_at_margin d))),
      (''opposite_or_below'', JInt (int (ds_opposite_or_below d))), (''pvalue'', fraction_json (ds_pvalue d)),
      (''alpha'', fraction_json alpha), (''direction_supported'', JBool (ds_supported d))]"

definition statistics_json :: "study \<Rightarrow> paired_statistics \<Rightarrow> json" where
  "statistics_json st s = jobj
     [(''replication_unit'', jstr ''MATCHED_FOUR_TRIAL_BLOCK''),
      (''contrast'', jstr ''POLICY_A_MINUS_POLICY_B_SLO_GOODPUT''),
      (''minimum_effect_microrps'', JInt (ps_minimum_effect s)),
      (''minimum_effect_rps'', JFloat (st_double st (of_int (ps_minimum_effect s) / 1000000))),
      (''baseline'', direction_json st (ps_baseline s)), (''candidate'', direction_json st (ps_candidate s)),
      (''reversal_signal'', JBool (ps_reversal_signal s)),
      (''test'', jstr ''EXACT_ONE_SIDED_BINOMIAL_MARGIN_EXCEEDANCE''),
      (''null_exceedance_probability'', fraction_json (1 / 2)), (''planned_familywise_alpha'', fraction_json (1 / 20)),
      (''multiplicity_scope'', jstr ''TWO_PREDECLARED_DIRECTIONS_FOR_ONE_CANDIDATE_ONLY''),
      (''ties'', jstr ''AT_MARGIN_COUNTS_AS_FAILURE_WITH_ALL_PLANNED_BLOCKS_RETAINED''),
      (''assumptions'', JArr (map jstr [''INDEPENDENT_BLOCKS'',
         ''NULL_DIRECTIONAL_MARGIN_EXCEEDANCE_PROBABILITY_AT_MOST_ONE_HALF'', ''DIRECTIONS_AND_MARGIN_PREDECLARED''])),
      (''inference_scope'', jstr ''EXCEEDANCE_PROBABILITY_NOT_POPULATION_MEAN''),
      (''independent_execution'', jstr ''UNVERIFIED''), (''search_multiplicity'', jstr ''UNCONTROLLED''),
      (''confidence_interval'', JNull)]"

text \<open>\<open>{**expected, ...}\<close>: the members of the planned trial come first.\<close>

definition trial_report_json :: "trial_report \<Rightarrow> json" where
  "trial_report_json x = JObj (object_members (trial_json (xr_trial x)) @ object_members (jobj
     [(''slo_good'', xr_slo_good x), (''offered'', xr_offered x), (''goodput_denominator_ns'', xr_denominator_ns x),
      (''slo_goodput_rps'', xr_goodput_rps x), (''client_timing'', xr_client_timing x),
      (''measurement_comparison_valid'', JBool (xr_comparison_valid x)),
      (''eligible_for_search'', JBool (xr_eligible x)),
      (''sources'', jobj [(''correlated_result_sha256'', xr_result_sha256 x),
         (''measurement_sha256'', xr_measurement_sha256 x), (''token_certificate_sha256'', xr_certificate_sha256 x),
         (''timing_check_sha256'', jstr (xr_timing_check_sha256 x)),
         (''request_link_check_sha256'', jstr (xr_link_check_sha256 x)),
         (''ledger_rows_sha256'', jstr (xr_ledger_rows_sha256 x)),
         (''ledger_rows_encoding'', jstr ''PYTHON_JSON_SORTED_COMPACT_UTF8_V1''),
         (''execution_declaration_sha256'', jstr (xr_execution_sha256 x))])]))"

definition cell_json :: "study \<Rightarrow> block_cell option \<Rightarrow> json" where
  "cell_json st cell =
     (case cell of
        None \<Rightarrow> JNull
      | Some c \<Rightarrow> jobj [(''policy_a_slo_good'', JInt (bc_policy_a c)), (''policy_b_slo_good'', JInt (bc_policy_b c)),
          (''a_minus_b_slo_good'', JInt (bc_policy_a c - bc_policy_b c)),
          (''a_minus_b_goodput_rps'', JFloat (st_double st (bc_delta c)))])"

definition block_json :: "study \<Rightarrow> block_report \<Rightarrow> json" where
  "block_json st b = jobj [(''block'', JInt (int (br_block b))), (''seed'', br_seed b),
     (''goodput_denominator_ns'', br_denominator_ns b), (''baseline'', cell_json st (br_baseline b)),
     (''candidate'', cell_json st (br_candidate b))]"

definition limitations :: "string list" where
  "limitations =
     [''A block is one replicate; requests within a block are not independent replicates.'',
      ''Planned timing is not observed router arrival timing; p95 limits do not bound every request.'',
      ''Hashes verify consistency, not GPU execution, source authorship, reset state or independence.'',
      ''The protocol hash does not prove it was fixed before observing results.'',
      ''The directional noise screen is exploratory; adaptive search multiplicity is uncontrolled.'',
      ''No confidence interval, causal attribution, held-out confirmation or customer acceptance is established.'',
      ''INCONCLUSIVE does not establish equivalence or absence of a reversal.'']"

definition status_name :: "comparison_status \<Rightarrow> string" where
  "status_name s = (case s of INELIGIBLE \<Rightarrow> ''INELIGIBLE'' | REVERSAL_CANDIDATE \<Rightarrow> ''REVERSAL_CANDIDATE''
     | INCONCLUSIVE \<Rightarrow> ''INCONCLUSIVE'')"

definition comparison_json :: "study \<Rightarrow> comparison_report \<Rightarrow> json" where
  "comparison_json st r =
     (let opts = pc_options (cp_protocol r)
      in jobj
       [(''schema'', jstr ''inferdrome.vllm-router-paired-comparison.v1''),
        (''scope'', jstr ''EXPLORATORY_SEARCH_ONLY''), (''status'', jstr (status_name (cp_status r))),
        (''evidence_class'', jstr (if pc_synthetic (cp_protocol r) then ''SYNTHETIC_ONLY'' else ''LOCAL_MEASUREMENT_ONLY'')),
        (''evidence_eligible'', JBool False), (''independent_execution'', jstr ''UNVERIFIED''),
        (''held_out_confirmation'', jstr ''NOT_IMPLEMENTED''),
        (''protocol_sha256'', jstr (pc_sha256 (cp_protocol r))),
        (''declared_source_revision'', JStr (pp_source_revision opts)),
        (''declared_environment_sha256'', JStr (pp_environment opts)),
        (''declared_reset_procedure_sha256'', JStr (pp_reset_procedure opts)),
        (''execution_declarations_scope'', jstr ''OPERATOR_SUPPLIED_NOT_AUTHENTICATED''),
        (''chronology_scope'', jstr ''REPORTED_CLIENT_CLOCKS_NOT_TRUSTED_CHRONOLOGY''),
        (''planned_trials'', JInt (int (card (set (map tr_trial_id (pc_trials (cp_protocol r))))))),
        (''supplied_trials'', JInt (int (cp_supplied r))), (''missing_trials'', JArr (map jstr (cp_missing r))),
        (''ineligibility_reasons'', JArr (map (\<lambda>(name, why). jobj [(''trial_id'', jstr name),
           (''reason'', jstr (reason_name why))]) (cp_reasons r))),
        (''trials'', JArr (map trial_report_json (cp_trials r))),
        (''blocks'', JArr (map (block_json st) (cp_blocks r))),
        (''statistics'', (case cp_statistics r of None \<Rightarrow> JNull | Some s \<Rightarrow> statistics_json st s)),
        (''limitations'', JArr (map jstr limitations))])"

definition conclude :: "study \<Rightarrow> protocol \<Rightarrow> json list \<Rightarrow> nat \<Rightarrow> comparing \<Rightarrow> comparison_report linked" where
  "conclude st p plans supplied s =
     (let missing = missing_trials p s; reasons = cg_reasons s @ map (\<lambda>name. (name, MISSING_TRIAL)) missing
      in rbind (res_map (block_of p s) (enumerate 1 plans)) (\<lambda>blocks.
         rbind (if reasons \<noteq> [] then Inr None
             else rbind (lift_artifact (paired_statistics_of (deltas_of br_baseline blocks)
               (deltas_of br_candidate blocks) (pp_minimum_effect (pc_options p)))) (\<lambda>x. Inr (Some x))) (\<lambda>statistics.
         let r = \<lparr>cp_status = (if reasons \<noteq> [] then INELIGIBLE
               else (case statistics of
                   None \<Rightarrow> INCONCLUSIVE
                 | Some x \<Rightarrow> if ps_reversal_signal x then REVERSAL_CANDIDATE else INCONCLUSIVE)),
               cp_protocol = p, cp_supplied = supplied, cp_missing = missing, cp_reasons = reasons,
               cp_trials = cg_trials s, cp_blocks = blocks, cp_statistics = statistics, cp_result_sha256 = []\<rparr>
         in rbind (link_digest (st_codec st) (comparison_json st r)) (\<lambda>d. Inr (r\<lparr>cp_result_sha256 := d\<rparr>)))))"

definition guarded_link :: "string \<Rightarrow> 'a linked \<Rightarrow> 'a linked" where
  "guarded_link label r =
     (case r of Inl (Encoding Python_Error) \<Rightarrow> Inl (Encoding (Malformed label)) | _ \<Rightarrow> r)"

definition compare_inputs :: "study \<Rightarrow> json \<Rightarrow> json list \<Rightarrow> json \<Rightarrow> comparison_report linked" where
  "compare_inputs st artifact plans inputs =
     rbind (lift_artifact (validate_protocol (st_codec st) (st_plan_reader st) plans artifact)) (\<lambda>p.
     case inputs of
       JArr items \<Rightarrow>
         rbind (res_fold (compare_trial st p plans) comparing_start items) (\<lambda>s.
           conclude st p plans (length items) s)
     | _ \<Rightarrow> Inl (Encoding (Refused ''trial inputs must be a list'')))"

definition compare :: "study \<Rightarrow> json \<Rightarrow> json list \<Rightarrow> json \<Rightarrow> comparison_report linked" where
  "compare st artifact plans inputs = guarded_link ''paired comparison input'' (compare_inputs st artifact plans inputs)"

section \<open>What one accepted trial says\<close>

definition trial_key :: "trial \<Rightarrow> cell_key" where
  "trial_key t = (tr_block t, tr_condition t, tr_policy t)"

definition trial_plan :: "json list \<Rightarrow> trial \<Rightarrow> json" where
  "trial_plan plans t = plans ! (tr_block t - 1)"

text \<open>The number of good requests that the checked rows of a trial give.\<close>

definition trial_count :: "study \<Rightarrow> json list \<Rightarrow> trial_report \<Rightarrow> int \<Rightarrow> bool" where
  "trial_count st plans x n \<longleftrightarrow>
     (\<exists>timing result certificate measurement offers rows s.
        timed_rows st (trial_plan plans (xr_trial x)) timing result certificate = Inr (measurement, offers, rows)
        \<and> list_all2 (row_checked (plan_members (trial_plan plans (xr_trial x)))) offers rows
        \<and> summarize (plan_members (trial_plan plans (xr_trial x))) rows True = Inr s
        \<and> n = og_slo_good (sm_all s))"

text \<open>An eligible trial was verified, valid for a comparison, and every offer of it was received and settled.\<close>

definition trial_clean :: "study \<Rightarrow> json list \<Rightarrow> trial_report \<Rightarrow> bool" where
  "trial_clean st plans x \<longleftrightarrow>
     (\<exists>timing result certificate ledger c rep.
        verify_timed_result st (trial_plan plans (xr_trial x)) timing result certificate = Inr c
        \<and> verify_links (st_codec st) (st_dumps st) result ledger = Inr rep
        \<and> tc_comparison_valid c \<and> lk_verified rep \<and> lk_not_dispatched rep = 0
        \<and> list_all clean_outcome (lk_links rep))"

lemma find_trial_ok:
  assumes "find_trial p name = Some t"
  shows "t \<in> set (pc_trials p)"
  using assms unfolding find_trial_def find_Some_iff by (metis nth_mem set_rev)

lemma planned_trial_ok:
  assumes "planned_trial p s item = Inr t"
  shows "t \<in> set (pc_trials p)" "tr_trial_id t \<notin> set (cg_seen s)" "cg_sequence s < tr_sequence t"
  using assms find_trial_ok
  by (auto simp: planned_trial_def result_simps split: option.splits json.splits)

lemma item_of_ok: "item_of v key = Inr w \<Longrightarrow> w = get_null (object_members v) key"
  by (auto simp: item_of_def need_def get_null_def object_members_def split: json.splits option.splits)

lemma check_evidence_ok:
  assumes "check_evidence st p s t declared timing_check result ledger = Inr c"
  shows "kt_trial c = t" "kt_timing_check c = timing_check" "kt_result_sha256 c \<notin> set (cg_results s)"
    "set (cg_requests s) \<inter> set (kt_request_ids c) = {}" "kt_request_ids c = request_ids result"
    "verify_links (st_codec st) (st_dumps st) result ledger = Inr (kt_links c)"
    "kt_measurement c = get_null (object_members result) ''measurement''"
  using assms unfolding check_evidence_def
  by (auto elim!: rbind_okE dest: item_of_ok)

text \<open>The evidence an accepted input rests on.\<close>

definition backed :: "study \<Rightarrow> json list \<Rightarrow> checked_trial \<Rightarrow> bool" where
  "backed st plans c \<longleftrightarrow>
     (\<exists>timing result certificate ledger.
        verify_timed_result st (trial_plan plans (kt_trial c)) timing result certificate = Inr (kt_timing_check c)
        \<and> verify_links (st_codec st) (st_dumps st) result ledger = Inr (kt_links c)
        \<and> kt_measurement c = get_null (object_members result) ''measurement''
        \<and> kt_request_ids c = request_ids result)"

lemma check_trial_ok:
  assumes "check_trial st p plans s v = Inr c"
  shows "kt_trial c \<in> set (pc_trials p)" "tr_trial_id (kt_trial c) \<notin> set (cg_seen s)"
    "cg_sequence s < tr_sequence (kt_trial c)" "kt_result_sha256 c \<notin> set (cg_results s)"
    "set (cg_requests s) \<inter> set (kt_request_ids c) = {}" "backed st plans c"
proof -
  from assms obtain item t declared timing_check ledger where parts: "planned_trial p s item = Inr t"
    "verify_timed_result st (plans ! (tr_block t - 1)) (get_null item ''timing'') (get_null item ''result'')
       (get_null item ''token_certificate'') = Inr timing_check"
    "check_evidence st p s t declared timing_check (get_null item ''result'') ledger = Inr c"
    unfolding check_trial_def by (auto elim!: rbind_okE split: json.splits)
  note evidence = check_evidence_ok [OF parts(3)]
  show "kt_trial c \<in> set (pc_trials p)" "tr_trial_id (kt_trial c) \<notin> set (cg_seen s)"
    "cg_sequence s < tr_sequence (kt_trial c)" "kt_result_sha256 c \<notin> set (cg_results s)"
    "set (cg_requests s) \<inter> set (kt_request_ids c) = {}"
    using planned_trial_ok [OF parts(1)] evidence by auto
  show "backed st plans c"
    unfolding backed_def trial_plan_def evidence(1,2) using parts(2) evidence(5-7) by blast
qed

definition reported_good :: "json \<Rightarrow> json" where
  "reported_good measurement =
     get_null (object_members (get_null (object_members (get_null (object_members measurement) ''summary''))
       ''all_offered'')) ''slo_good''"

definition clean_evidence :: "checked_trial \<Rightarrow> bool" where
  "clean_evidence c \<longleftrightarrow> tc_comparison_valid (kt_timing_check c) \<and> lk_verified (kt_links c)
     \<and> lk_not_dispatched (kt_links c) = 0 \<and> list_all clean_outcome (lk_links (kt_links c))"

lemma trial_reasons_clean: "trial_reasons st p s c ct = Inr [] \<Longrightarrow> clean_evidence c"
  by (auto simp: trial_reasons_def result_simps clean_evidence_def filter_empty_conv split: if_splits)

lemma account_trial_ok:
  assumes "account_trial st p plans s c = Inr s'"
  obtains x reasons where "cg_seen s' = cg_seen s @ [tr_trial_id (kt_trial c)]"
    "cg_results s' = cg_results s @ [kt_result_sha256 c]" "cg_requests s' = cg_requests s @ kt_request_ids c"
    "cg_sequence s' = tr_sequence (kt_trial c)"
    "cg_reasons s' = cg_reasons s @ map (Pair (tr_trial_id (kt_trial c))) reasons"
    "cg_trials s' = cg_trials s @ [x]" "xr_trial x = kt_trial c" "xr_result_sha256 x = kt_result_sha256 c"
    "xr_eligible x \<longleftrightarrow> reasons = []" "xr_slo_good x = reported_good (kt_measurement c)"
    "cg_counts s' = (cg_counts s)(trial_key (kt_trial c) \<mapsto> xr_slo_good x)" "xr_eligible x \<longrightarrow> clean_evidence c"
  using assms [unfolded account_trial_def Let_def]
proof (elim rbind_okE, goal_cases)
  case (1 finish summary ct reasons all_offered good offered duration goodput measurement certificate execution)
  have "reported_good (kt_measurement c) = good"
    using 1(3,6,7) by (auto simp: reported_good_def dest!: item_of_ok)
  then show ?case
    using 1(14) trial_reasons_clean [of st p s c ct] 1(5)
    by (intro 1(1) [of reasons "last (cg_trials s')"]) (auto simp: trial_key_def)
qed

lemma correlated_parts:
  assumes "validate_correlated_result k result = Inr (measurement, rows, links)"
  shows "get_null (object_members result) ''measurement'' = JObj measurement" "request_ids result = map identity_of links"
  using assms
  by (auto simp: validate_correlated_result_def result_simps object_members_def request_ids_def split: json.splits if_splits)

lemma same_item:
  assumes "same_document v (jobj ms)"
  shows "same_document (get_null (object_members v) key) (case map_of ms key of None \<Rightarrow> JNull | Some w \<Rightarrow> w)"
proof -
  from assms obtain xs where v: "v = JObj xs" unfolding jobj_def by (auto elim: same_documentE)
  with same_members(2) [OF assms [unfolded v jobj_def], of key] show ?thesis
    by (simp add: object_members_def get_null_jobj)
qed

text \<open>The count a trial reports is the count of its checked rows.\<close>

lemma reported_count:
  assumes "codec_faithful (st_codec st)" "backed st plans c" "xr_trial x = kt_trial c"
  shows "\<exists>n. trial_count st plans x n \<and> same_document (reported_good (kt_measurement c)) (JInt n)"
proof -
  from assms(2) obtain timing result certificate where
    verified: "verify_timed_result st (trial_plan plans (kt_trial c)) timing result certificate = Inr (kt_timing_check c)"
    and measured: "kt_measurement c = get_null (object_members result) ''measurement''" by (auto simp: backed_def)
  show ?thesis
  proof (rule verify_timed_result_parts [OF verified])
    fix measurement offers rows
    let ?plan = "trial_plan plans (kt_trial c)"
    assume parts: "timed_rows st ?plan timing result certificate = Inr (measurement, offers, rows)"
      "check_accounting st ?plan measurement (int (length offers)) rows = Inr (tc_comparison_valid (kt_timing_check c))"
    from timed_rows_ok(2) [OF parts(1)] have "kt_measurement c = JObj measurement"
      unfolding measured using correlated_parts(1) by blast
    then have members: "object_members (kt_measurement c) = measurement" by (simp add: object_members_def)
    from check_accounting_ok(1) [OF parts(2)] obtain s where s: "summarize (plan_members ?plan) rows True = Inr s"
      and "cd_canonical (st_codec st) (get_null measurement ''summary'') = cd_canonical (st_codec st) (summary_json st s)"
        "cd_canonical (st_codec st) (get_null measurement ''summary'') \<noteq> None" by auto
    with assms(1) have "same_document (get_null measurement ''summary'') (summary_json st s)"
      by (simp add: codec_faithful_def)
    from same_item [OF this [unfolded summary_json_def], of "''all_offered''"]
    have "same_document (get_null (object_members (get_null measurement ''summary'')) ''all_offered'') (group_json st (sm_all s))"
      by simp
    from same_item [OF this [unfolded group_json_def], of "''slo_good''"]
    have "same_document (reported_good (kt_measurement c)) (JInt (og_slo_good (sm_all s)))"
      by (simp add: reported_good_def members)
    moreover have "trial_count st plans x (og_slo_good (sm_all s))"
      unfolding trial_count_def assms(3) using parts(1) s timed_rows_checked [OF assms(1) parts(1)] by blast
    ultimately show ?thesis by blast
  qed
qed

section \<open>The invariant of the comparison\<close>

definition accounts :: "study \<Rightarrow> protocol \<Rightarrow> json list \<Rightarrow> comparing \<Rightarrow> bool" where
  "accounts st p plans s \<longleftrightarrow>
     cg_seen s = map (\<lambda>x. tr_trial_id (xr_trial x)) (cg_trials s)
     \<and> cg_results s = map xr_result_sha256 (cg_trials s)
     \<and> distinct (cg_seen s) \<and> distinct (cg_results s) \<and> distinct (cg_requests s)
     \<and> set (map xr_trial (cg_trials s)) \<subseteq> set (pc_trials p)
     \<and> sorted_wrt (<) (map (\<lambda>x. tr_sequence (xr_trial x)) (cg_trials s))
     \<and> (\<forall>x \<in> set (cg_trials s). tr_sequence (xr_trial x) \<le> cg_sequence s)
     \<and> set (map fst (cg_reasons s)) = set (map (\<lambda>x. tr_trial_id (xr_trial x)) (filter (\<lambda>x. \<not> xr_eligible x) (cg_trials s)))
     \<and> (\<forall>x \<in> set (cg_trials s). xr_eligible x \<longrightarrow> trial_clean st plans x)
     \<and> (\<forall>x \<in> set (cg_trials s). \<exists>n. trial_count st plans x n \<and> same_document (xr_slo_good x) (JInt n))
     \<and> cg_counts s = map_of (rev (map (\<lambda>x. (trial_key (xr_trial x), xr_slo_good x)) (cg_trials s)))"

lemma accounts_start: "accounts st p plans comparing_start"
  by (simp add: accounts_def comparing_start_def)

lemma request_ids_distinct:
  assumes "backed st plans c"
  shows "distinct (kt_request_ids c)"
proof -
  from assms obtain timing result certificate where
    verified: "verify_timed_result st (trial_plan plans (kt_trial c)) timing result certificate = Inr (kt_timing_check c)"
    and ids: "kt_request_ids c = request_ids result" by (auto simp: backed_def)
  show ?thesis
  proof (rule verify_timed_result_parts [OF verified])
    fix measurement offers rows
    assume "timed_rows st (trial_plan plans (kt_trial c)) timing result certificate = Inr (measurement, offers, rows)"
    from timed_rows_ok(2) [OF this] obtain raws links where
      result: "validate_correlated_result (st_codec st) result = Inr (measurement, raws, links)" by blast
    note valid = validated_links [OF result]
    show ?thesis
      using check_links_distinct [OF valid(3,1)] by (simp add: ids correlated_parts(2) [OF result])
  qed
qed

lemma clean_trial:
  assumes "backed st plans c" "clean_evidence c" "xr_trial x = kt_trial c"
  shows "trial_clean st plans x"
  using assms(1,2) unfolding backed_def clean_evidence_def trial_clean_def assms(3) by blast

lemma compare_trial_accounts:
  assumes "codec_faithful (st_codec st)" "accounts st p plans s" "compare_trial st p plans s v = Inr s'"
  shows "accounts st p plans s'" "length (cg_trials s') = Suc (length (cg_trials s))"
proof -
  from assms(3) obtain c where check: "check_trial st p plans s v = Inr c" and account: "account_trial st p plans s c = Inr s'"
    unfolding compare_trial_def by (rule rbind_okE)
  note c = check_trial_ok [OF check]
  from account obtain x reasons where s': "cg_seen s' = cg_seen s @ [tr_trial_id (kt_trial c)]"
    "cg_results s' = cg_results s @ [kt_result_sha256 c]" "cg_requests s' = cg_requests s @ kt_request_ids c"
    "cg_sequence s' = tr_sequence (kt_trial c)"
    "cg_reasons s' = cg_reasons s @ map (Pair (tr_trial_id (kt_trial c))) reasons"
    "cg_trials s' = cg_trials s @ [x]" "xr_trial x = kt_trial c" "xr_result_sha256 x = kt_result_sha256 c"
    "xr_eligible x \<longleftrightarrow> reasons = []" "xr_slo_good x = reported_good (kt_measurement c)"
    "cg_counts s' = (cg_counts s)(trial_key (kt_trial c) \<mapsto> xr_slo_good x)" "xr_eligible x \<longrightarrow> clean_evidence c"
    by (rule account_trial_ok)
  show "length (cg_trials s') = Suc (length (cg_trials s))" by (simp add: s'(6))
  have sequence: "\<forall>y \<in> set (cg_trials s). tr_sequence (xr_trial y) < tr_sequence (kt_trial c)"
    using assms(2) c(3) unfolding accounts_def by (meson le_less_trans)
  then have ordered: "sorted_wrt (<) (map (\<lambda>x. tr_sequence (xr_trial x)) (cg_trials s'))"
    "\<forall>y \<in> set (cg_trials s'). tr_sequence (xr_trial y) \<le> cg_sequence s'"
    using assms(2) by (auto simp: accounts_def s' sorted_wrt_append)
  have named: "set (map fst (cg_reasons s')) = set (map (\<lambda>x. tr_trial_id (xr_trial x)) (filter (\<lambda>x. \<not> xr_eligible x) (cg_trials s')))"
    using assms(2) by (cases reasons) (auto simp: accounts_def s' image_Un)
  have backed: "\<forall>y \<in> set (cg_trials s'). xr_eligible y \<longrightarrow> trial_clean st plans y"
    "\<forall>y \<in> set (cg_trials s'). \<exists>n. trial_count st plans y n \<and> same_document (xr_slo_good y) (JInt n)"
    using assms(2) clean_trial [OF c(6) _ s'(7)] reported_count [OF assms(1) c(6) s'(7)] s'(12)
    by (auto simp: accounts_def s'(6,10))
  show "accounts st p plans s'"
    using assms(2) c(1,2,4,5) request_ids_distinct [OF c(6)] ordered named backed
    unfolding accounts_def by (auto simp: s')
qed

lemma comparison_accounts:
  assumes "codec_faithful (st_codec st)" "accounts st p plans s" "res_fold (compare_trial st p plans) s items = Inr s'"
  shows "accounts st p plans s' \<and> length (cg_trials s') = length (cg_trials s) + length items"
  using assms(2,3)
proof (induction items arbitrary: s)
  case (Cons v items)
  then obtain t where t: "compare_trial st p plans s v = Inr t" and rest: "res_fold (compare_trial st p plans) t items = Inr s'"
    by (auto simp: result_simps)
  note step = compare_trial_accounts [OF assms(1) Cons.prems(1) t]
  from Cons.IH [OF step(1) rest] step(2) show ?case by simp
qed simp

section \<open>The cells of a protocol\<close>

lemma block_cells_perm:
  assumes "balanced_design n p" "n mod 4 = 0" "i < n"
  shows "mset (block_cells p (i + 1)) = mset (cells (pc_options p))"
proof -
  define quad where "quad = i div 4"
  have quad: "quad \<in> set [0..<n div 4]" using assms(2,3) by (auto simp: quad_def)
  have "i + 1 \<in> set [4 * quad + 1..<4 * quad + 5]" by (auto simp: quad_def)
  moreover have "balanced_rows (cells (pc_options p)) (map (block_cells p) [4 * quad + 1..<4 * quad + 5])"
    using assms(1) quad by (auto simp: balanced_design_def list_all_iff)
  then have "list_all (\<lambda>j. mset (block_cells p j) = mset (cells (pc_options p))) [4 * quad + 1..<4 * quad + 5]"
    unfolding balanced_rows_def list.pred_map comp_def by blast
  ultimately show ?thesis unfolding list_all_iff by blast
qed

lemma cell_planned:
  assumes "balanced_design n p" "n mod 4 = 0" "i < n" "(c, policy) \<in> set (cells (pc_options p))"
  shows "\<exists>t \<in> set (pc_trials p). trial_key t = (i + 1, c, policy)"
proof -
  have "(c, policy) \<in> set (block_cells p (i + 1))"
    using block_cells_perm [OF assms(1-3)] assms(4) by (metis set_mset_mset)
  then show ?thesis by (auto simp: block_cells_def trial_key_def)
qed

lemma trial_blocks:
  assumes "balanced_design n p" "t \<in> set (pc_trials p)"
  shows "tr_sequence t \<in> set [1..<4 * n + 1]"
  using assms by (metis balanced_design_def image_eqI list.set_map)

lemma cells_member: "(c, pp_policy_a opts) \<in> set (cells opts)" "(c, pp_policy_b opts) \<in> set (cells opts)"
  by (cases c; simp add: cells_def)+

lemma keys_distinct:
  assumes "balanced_design n p" "n mod 4 = 0" "t \<in> set (pc_trials p)" "u \<in> set (pc_trials p)"
    and "trial_key t = trial_key u" "tr_block t = i + 1" "i < n"
  shows "t = u"
proof -
  have "distinct (block_cells p (i + 1))"
    using block_cells_perm [OF assms(1,2,7)] assms(1) by (metis balanced_design_def mset_eq_imp_distinct_iff)
  then have "inj_on (\<lambda>t. (tr_condition t, tr_policy t)) (set (filter (\<lambda>t. tr_block t = i + 1) (pc_trials p)))"
    unfolding block_cells_def distinct_map by blast
  then show ?thesis using assms(3-6) by (auto simp: trial_key_def inj_on_def)
qed

lemma sequence_inj:
  assumes "balanced_design n p"
  shows "inj_on tr_sequence (set (pc_trials p))" "inj_on tr_trial_id (set (pc_trials p))"
    "sorted_wrt (<) (map tr_sequence (pc_trials p))"
proof -
  have design: "map tr_sequence (pc_trials p) = [1..<4 * n + 1]" "distinct (map tr_trial_id (pc_trials p))"
    using assms by (simp_all add: balanced_design_def)
  then show "inj_on tr_trial_id (set (pc_trials p))" by (simp add: distinct_map)
  have "distinct (map tr_sequence (pc_trials p))" unfolding design(1) by simp
  then show "inj_on tr_sequence (set (pc_trials p))" by (simp add: distinct_map)
  show "sorted_wrt (<) (map tr_sequence (pc_trials p))" unfolding design(1) by (rule sorted_wrt_upt)
qed

text \<open>Trials supplied in sequence without a missing one are the planned trials.\<close>

lemma all_supplied:
  assumes "balanced_design n p" "accounts st p plans s" "missing_trials p s = []"
  shows "map xr_trial (cg_trials s) = pc_trials p"
proof -
  note inj = sequence_inj [OF assms(1)]
  have subset: "set (map xr_trial (cg_trials s)) \<subseteq> set (pc_trials p)" using assms(2) by (simp add: accounts_def)
  have "t \<in> set (map xr_trial (cg_trials s))" if t: "t \<in> set (pc_trials p)" for t
  proof -
    have "tr_trial_id t \<in> set (cg_seen s)" using assms(3) t by (simp add: missing_trials_def filter_empty_conv)
    then obtain x where x: "x \<in> set (cg_trials s)" "tr_trial_id (xr_trial x) = tr_trial_id t"
      using assms(2) by (auto simp: accounts_def)
    with subset have "xr_trial x \<in> set (pc_trials p)" by auto
    with inj(2) x(2) t have "xr_trial x = t" by (simp add: inj_on_def)
    with x(1) show ?thesis by auto
  qed
  with subset have same: "set (map xr_trial (cg_trials s)) = set (pc_trials p)" by blast
  have "sorted_wrt (<) (map tr_sequence (map xr_trial (cg_trials s)))"
    using assms(2) by (simp add: accounts_def comp_def)
  with inj(3) have "map tr_sequence (map xr_trial (cg_trials s)) = map tr_sequence (pc_trials p)"
    by (intro strict_sorted_equal) (simp_all add: same del: map_map, metis same set_map)
  then show ?thesis by (rule map_inj_on) (use inj(1) same in auto)
qed

section \<open>What a report says\<close>

lemma guarded_link_ok [simp]: "guarded_link label r = Inr x \<longleftrightarrow> r = Inr x"
  by (cases r) (auto simp: guarded_link_def split: link_fault.splits artifact_fault.splits)

lemma compare_parts:
  assumes "codec_faithful (st_codec st)" "compare st artifact plans inputs = Inr r"
  obtains p items s where "validate_protocol (st_codec st) (st_plan_reader st) plans artifact = Inr p"
    "inputs = JArr items" "accounts st p plans s" "length (cg_trials s) = length items"
    "conclude st p plans (length items) s = Inr r"
proof -
  from assms(2) obtain p items s where p: "validate_protocol (st_codec st) (st_plan_reader st) plans artifact = Inr p"
    and items: "inputs = JArr items" and run: "res_fold (compare_trial st p plans) comparing_start items = Inr s"
    and report: "conclude st p plans (length items) s = Inr r"
    unfolding compare_def compare_inputs_def by (cases inputs) (auto simp: result_simps)
  have "accounts st p plans s \<and> length (cg_trials s) = length items"
    using comparison_accounts [OF assms(1) accounts_start run] by (simp add: comparing_start_def)
  with that p items report show thesis by blast
qed

lemma conclude_parts:
  assumes "conclude st p plans n s = Inr r"
  shows "cp_protocol r = p" "cp_supplied r = n" "cp_missing r = missing_trials p s" "cp_trials r = cg_trials s"
    "cp_reasons r = cg_reasons s @ map (\<lambda>name. (name, MISSING_TRIAL)) (missing_trials p s)"
    "cp_status r = INELIGIBLE \<longleftrightarrow> cp_reasons r \<noteq> []"
    "res_map (block_of p s) (enumerate 1 plans) = Inr (cp_blocks r)"
    "cp_reasons r = [] \<longrightarrow> (\<exists>x. paired_statistics_of (deltas_of br_baseline (cp_blocks r))
        (deltas_of br_candidate (cp_blocks r)) (pp_minimum_effect (pc_options p)) = Inr x
       \<and> cp_statistics r = Some x
       \<and> cp_status r = (if ps_reversal_signal x then REVERSAL_CANDIDATE else INCONCLUSIVE))"
  using assms by (auto simp: conclude_def Let_def result_simps split: if_splits)

lemma compared_supplied: "compare st artifact plans (JArr items) = Inr r \<Longrightarrow> cp_supplied r = length items"
  and compared_status: "compare st artifact plans (JArr items) = Inr r \<Longrightarrow> cp_status r = INELIGIBLE \<longleftrightarrow> cp_reasons r \<noteq> []"
  unfolding compare_def compare_inputs_def by (auto elim!: rbind_okE dest: conclude_parts(2,6))


text \<open>A cell of a block: the good requests of the two trials it compares, and their exact difference.\<close>

definition cell_exact ::
  "study \<Rightarrow> json list \<Rightarrow> comparison_report \<Rightarrow> nat \<Rightarrow> condition \<Rightarrow> block_cell option \<Rightarrow> bool" where
  "cell_exact st plans r i c cell \<longleftrightarrow>
     (\<exists>x \<in> set (cp_trials r). \<exists>y \<in> set (cp_trials r). \<exists>a b d.
        trial_key (xr_trial x) = (i + 1, c, pp_policy_a (pc_options (cp_protocol r)))
        \<and> trial_key (xr_trial y) = (i + 1, c, pp_policy_b (pc_options (cp_protocol r)))
        \<and> trial_count st plans x a \<and> trial_count st plans y b
        \<and> get_null (object_members (plans ! i)) ''duration_ns'' = JInt d
        \<and> cell = Some \<lparr>bc_policy_a = a, bc_policy_b = b, bc_delta = of_int ((a - b) * 1000000000) / of_int d\<rparr>)"

lemma int_item_ok: "int_item v key = Inr n \<Longrightarrow> get_null (object_members v) key = JInt n"
  unfolding int_item_def by (elim rbind_okE, drule item_of_ok) (simp split: json.splits)

lemma whole_count_ok: "same_document v (JInt n) \<Longrightarrow> whole_count v = Inr a \<Longrightarrow> v \<noteq> JNull \<and> a = n"
  by (auto simp: whole_count_def elim!: same_documentE(1))

lemma cell_of_exact:
  assumes "cell_of p s (i + 1) (plans ! i) c = Inr cell" and "accounts st p plans s"
    and "cg_trials s = cp_trials r" "cp_protocol r = p"
    and "x \<in> set (cg_trials s)" "trial_key (xr_trial x) = (i + 1, c, pp_policy_a (pc_options p))"
      "cg_counts s (trial_key (xr_trial x)) = Some (xr_slo_good x)"
    and "y \<in> set (cg_trials s)" "trial_key (xr_trial y) = (i + 1, c, pp_policy_b (pc_options p))"
      "cg_counts s (trial_key (xr_trial y)) = Some (xr_slo_good y)"
  shows "cell_exact st plans r i c cell"
proof -
  obtain a b where a: "trial_count st plans x a" "same_document (xr_slo_good x) (JInt a)"
    and b: "trial_count st plans y b" "same_document (xr_slo_good y) (JInt b)"
    using assms(2,5,8) unfolding accounts_def by blast
  then have "xr_slo_good x \<noteq> JNull" "xr_slo_good y \<noteq> JNull" by (auto elim: same_documentE)
  then have counts: "cell_count s (i + 1, c, pp_policy_a (pc_options p)) = Some (xr_slo_good x)"
    "cell_count s (i + 1, c, pp_policy_b (pc_options p)) = Some (xr_slo_good y)"
    using assms(6,7,9,10) by (simp_all add: cell_count_def split: json.split)
  with assms(1) obtain a' b' d where cell: "whole_count (xr_slo_good x) = Inr a'" "whole_count (xr_slo_good y) = Inr b'"
    "int_item (plans ! i) ''duration_ns'' = Inr d"
    "cell = Some \<lparr>bc_policy_a = a', bc_policy_b = b', bc_delta = of_int ((a' - b') * 1000000000) / of_int d\<rparr>"
    by (auto simp: cell_of_def result_simps Let_def)
  then have same: "a' = a" "b' = b" using whole_count_ok a(2) b(2) by blast+
  show ?thesis
    unfolding cell_exact_def
    by (intro bexI [of _ x] bexI [of _ y] exI [of _ a] exI [of _ b] exI [of _ d] conjI)
      (use a(1) b(1) assms(3-6,8,9) int_item_ok [OF cell(3)] cell(4) in \<open>simp_all add: same\<close>)
qed

text \<open>In a comparison without missing trials every cell has its count.\<close>

lemma count_found:
  assumes "balanced_design n p" "n mod 4 = 0" "accounts st p plans s" "map xr_trial (cg_trials s) = pc_trials p"
    and "i < n" "(c, policy) \<in> set (cells (pc_options p))"
  shows "\<exists>x \<in> set (cg_trials s). trial_key (xr_trial x) = (i + 1, c, policy)
    \<and> cg_counts s (trial_key (xr_trial x)) = Some (xr_slo_good x)"
proof -
  obtain t where t: "t \<in> set (pc_trials p)" "trial_key t = (i + 1, c, policy)"
    using cell_planned [OF assms(1,2,5,6)] by blast
  from t(1) obtain x where x: "x \<in> set (cg_trials s)" "xr_trial x = t" unfolding assms(4) [symmetric] by auto
  let ?pairs = "rev (map (\<lambda>x. (trial_key (xr_trial x), xr_slo_good x)) (cg_trials s))"
  obtain g where g: "map_of ?pairs (trial_key t) = Some g" "(trial_key t, g) \<in> set ?pairs"
    using x by (metis (no_types, lifting) image_eqI list.set_map map_of_SomeD set_rev weak_map_of_SomeI)
  then obtain y where y: "y \<in> set (cg_trials s)" "trial_key (xr_trial y) = trial_key t" "g = xr_slo_good y" by auto
  have "xr_trial y \<in> set (pc_trials p)" using y(1) unfolding assms(4) [symmetric] by simp
  with keys_distinct [OF assms(1,2) this t(1) y(2) _ assms(5)] t(2) y(2) have "xr_trial y = t"
    by (simp add: trial_key_def)
  with y g t(2) assms(3) show ?thesis unfolding accounts_def by metis
qed

lemma block_of_ok:
  assumes "block_of p s (j, plan) = Inr b"
  shows "br_block b = j" "cell_of p s j plan BASELINE = Inr (br_baseline b)"
    "cell_of p s j plan CANDIDATE = Inr (br_candidate b)"
  using assms by (auto simp: block_of_def elim!: rbind_okE)

definition block_exact :: "study \<Rightarrow> json list \<Rightarrow> comparison_report \<Rightarrow> nat \<Rightarrow> block_report \<Rightarrow> bool" where
  "block_exact st plans r i b \<longleftrightarrow>
     br_block b = i + 1 \<and> cell_exact st plans r i BASELINE (br_baseline b)
     \<and> cell_exact st plans r i CANDIDATE (br_candidate b)"

lemma blocks_exact:
  assumes "balanced_design (length plans) p" "length plans mod 4 = 0" "accounts st p plans s"
    and "map xr_trial (cg_trials s) = pc_trials p" "cp_trials r = cg_trials s" "cp_protocol r = p"
    and "res_map (block_of p s) (enumerate 1 plans) = Inr (cp_blocks r)"
  shows "length (cp_blocks r) = length plans"
    "i < length plans \<Longrightarrow> block_exact st plans r i (cp_blocks r ! i)"
proof -
  show "length (cp_blocks r) = length plans" using res_map_length [OF assms(7)] by simp
  assume i: "i < length plans"
  then have "enumerate 1 plans ! i = (i + 1, plans ! i)" "i < length (enumerate 1 plans)"
    by (simp_all add: nth_enumerate_eq)
  with list_all2_nthD [OF assms(7) [unfolded res_map_eq_Inr], of i]
  have b: "block_of p s (i + 1, plans ! i) = Inr (cp_blocks r ! i)" by simp
  note found = count_found [OF assms(1-4) i]
  have "cell_exact st plans r i c cell" if cell: "cell_of p s (i + 1) (plans ! i) c = Inr cell" for c cell
  proof -
    obtain x where x: "x \<in> set (cg_trials s)" "trial_key (xr_trial x) = (i + 1, c, pp_policy_a (pc_options p))"
      "cg_counts s (trial_key (xr_trial x)) = Some (xr_slo_good x)" using found [OF cells_member(1)] by blast
    obtain y where y: "y \<in> set (cg_trials s)" "trial_key (xr_trial y) = (i + 1, c, pp_policy_b (pc_options p))"
      "cg_counts s (trial_key (xr_trial y)) = Some (xr_slo_good y)" using found [OF cells_member(2)] by blast
    show ?thesis by (rule cell_of_exact [OF cell assms(3) assms(5) [symmetric] assms(6) x y])
  qed
  then show "block_exact st plans r i (cp_blocks r ! i)"
    unfolding block_exact_def using block_of_ok [OF b] by blast
qed

lemma deltas_complete:
  assumes "list_all (\<lambda>b. cell b \<noteq> None) blocks"
  shows "length (deltas_of cell blocks) = length blocks"
  using assms by (induction blocks) (auto simp: deltas_of_def map_filter_simps)


section \<open>A concrete comparison\<close>

text \<open>The ledger of one trial: the router completed at most the first request and had no capacity for the others.\<close>

definition receipt_members :: "string \<Rightarrow> nat \<Rightarrow> char \<Rightarrow> string \<Rightarrow> json \<Rightarrow> members" where
  "receipt_members policy n c outcome replica = [(ascii_text ''request_id'', trial_identity n c), (ascii_text ''policy'', jstr policy),
     (ascii_text ''outcome'', jstr outcome), (ascii_text ''replica'', replica)]"

definition first_outcome :: "bool \<Rightarrow> string" where
  "first_outcome good = (if good then ''completed'' else ''rejected_capacity'')"

definition first_replica :: "bool \<Rightarrow> json" where
  "first_replica good = (if good then JInt 1 else JNull)"

definition trial_ledger :: "string \<Rightarrow> nat \<Rightarrow> bool \<Rightarrow> json list" where
  "trial_ledger policy n good = map (\<lambda>(c, outcome, replica). JObj (receipt_members policy n c outcome replica))
     [(CHR ''a'', first_outcome good, first_replica good), (CHR ''b'', ''rejected_capacity'', JNull),
      (CHR ''c'', ''rejected_capacity'', JNull), (CHR ''d'', ''rejected_capacity'', JNull)]"

lemma add_demo_receipt:
  assumes "n \<le> 99" "c \<in> set ''0123456789abcdef''" "m (trial_identity n c) = None" "trial_identity n c \<in> set offered"
    and "get_null measurement ''policy'' = jstr policy"
    and "outcome = ''completed'' \<and> replica = JInt 1 \<or> outcome = ''rejected_capacity'' \<and> replica = JNull"
  shows "add_receipt measurement offered m (JObj (receipt_members policy n c outcome replica))
    = Inr (m(trial_identity n c \<mapsto> receipt_members policy n c outcome replica))"
  using assms trial_identity_hex [OF assms(1,2)]
  by (auto simp: add_receipt_def receipt_members_def Let_def router_outcomes_def replica_ok_def)

definition trial_receipts :: "string \<Rightarrow> nat \<Rightarrow> bool \<Rightarrow> receipts" where
  "trial_receipts policy n good =
    [trial_identity n (CHR ''a'') \<mapsto> receipt_members policy n (CHR ''a'') (first_outcome good) (first_replica good),
     trial_identity n (CHR ''b'') \<mapsto> receipt_members policy n (CHR ''b'') ''rejected_capacity'' JNull,
     trial_identity n (CHR ''c'') \<mapsto> receipt_members policy n (CHR ''c'') ''rejected_capacity'' JNull,
     trial_identity n (CHR ''d'') \<mapsto> receipt_members policy n (CHR ''d'') ''rejected_capacity'' JNull]"

lemma trial_receipts_fold:
  assumes "n \<le> 99" "get_null measurement ''policy'' = jstr policy"
  shows "res_fold (add_receipt measurement (map (trial_identity n) ''abcd'')) Map.empty (trial_ledger policy n good)
    = Inr (trial_receipts policy n good)"
  using assms by (simp add: trial_ledger_def add_demo_receipt trial_receipts_def first_outcome_def first_replica_def)

lemma timed_row_object: "object_members (timed_row i t e ok) = plan_members (timed_row i t e ok)"
  by (simp add: timed_row_def demo_members)

lemma joined_demo:
  assumes "n \<le> 99"
  shows "\<exists>js. res_map (join_link (trial_receipts policy n good)) (zip (timed_rows_json good) (timed_links n)) = Inr js
    \<and> length js = 4 \<and> list_all (\<lambda>j. jl_state j = MATCHED \<and> clean_outcome j) js"
  using assms
  by (simp add: timed_rows_json_def timed_links_def join_link_def trial_receipts_def timed_row_object Let_def)
    (simp add: timed_row_def demo_fields receipt_members_def clean_outcome_def first_outcome_def first_replica_def)

lemma demo_links_verified:
  assumes "demo_trial seed policy n"
  shows "\<exists>rep. verify_links demo_codec (\<lambda>_. Some []) (timed_result seed policy n good) (trial_ledger policy n good) = Inr rep
    \<and> lk_matched rep = 4 \<and> lk_not_dispatched rep = 0 \<and> lk_verified rep \<and> list_all clean_outcome (lk_links rep)"
proof -
  have known: "policy \<in> set supported_policies" "n \<le> 99" using assms by (simp_all add: demo_trial_def)
  let ?M = "plan_members (jobj (timed_measurement seed policy n good))"
  have offered: "map (\<lambda>l. get_null (object_members l) ''request_id'') (timed_links n) = map (trial_identity n) ''abcd''"
    by (simp add: timed_links_def)
  have fold: "res_fold (add_receipt ?M (map (trial_identity n) ''abcd'')) Map.empty (trial_ledger policy n good)
      = Inr (trial_receipts policy n good)"
    by (rule trial_receipts_fold [OF known(2) measured(3) [OF refl]])
  obtain js where js: "res_map (join_link (trial_receipts policy n good)) (zip (timed_rows_json good) (timed_links n)) = Inr js"
    "length js = 4" "list_all (\<lambda>j. jl_state j = MATCHED \<and> clean_outcome j) js" using joined_demo [OF known(2)] by blast
  have none: "state_count DISPATCHED_WITHOUT_ROUTER_RECORD js = 0" "state_count NOT_DISPATCHED js = 0"
    using js(3) by (auto simp: state_count_def list_all_iff filter_empty_conv)
  have ledger: "length (trial_ledger policy n good) = 4" by (simp add: trial_ledger_def)
  have clean: "list_all clean_outcome js" using js(3) by (simp add: list_all_iff)
  show ?thesis
    unfolding verify_links_def timed_result_read [OF known] rbind.simps prod.case offered Let_def fold js(1) none ledger
    using clean by (simp add: ledger_digest_def link_digest_def demo_digest)
qed

lemma item_jobj: "item_of (jobj ms) key = (case map_of ms key of None \<Rightarrow> Inl (Encoding Python_Error) | Some v \<Rightarrow> Inr v)"
  by (simp add: item_of_def jobj_def need_def json_get_jobj lift_artifact_def split: option.split)

lemma demo_started:
  assumes "n \<le> 99"
  shows "started_ns (JStr (start_digits n)) = Inr (100000 + 1000 * int n)"
proof -
  have "start_text (start_digits n)" using assms by (auto simp: start_text_def start_digits_def)
  moreover have "int n = 10 * int (n div 10) + int (n mod 10)" by presburger
  then have "decimal_value (start_digits n) = 100000 + 1000 * int n"
    by (simp add: decimal_value_def start_digits_def)
  ultimately show ?thesis by (simp add: started_ns_def)
qed

lemma timed_sha256_number:
  assumes "n \<le> 99" "m \<le> 99" "timed_sha256 seed policy n good = timed_sha256 seed' policy' m good'"
  shows "n = m"
proof -
  have "json_bytes (jobj (timed_body seed policy n good)) @ [] = json_bytes (jobj (timed_body seed' policy' m good')) @ []"
    using assms(3) by (simp add: timed_sha256_def)
  from spelledD [OF spelled_json this] have "timed_links n = timed_links m" by (simp add: timed_body_def jobj_def)
  then have "identity_of (hd (timed_links n)) = identity_of (hd (timed_links m))" by simp
  then show ?thesis by (simp add: timed_links_def)
qed

lemma demo_summary_items:
  "\<exists>ct all. item_of (summary_json demo_study (demo_summary seed good)) ''client_timing'' = Inr ct
     \<and> item_of (summary_json demo_study (demo_summary seed good)) ''all_offered'' = Inr all
     \<and> ct = client_timing_json (client_timing_of (timed_client_rows good))
     \<and> item_of all ''slo_good'' = Inr (JInt (if good then 1 else 0)) \<and> item_of all ''offered'' = Inr (JInt 4)
     \<and> is_ok (item_of all ''slo_goodput_rps'')"
proof -
  obtain s where s: "summarize (plan_members (demo_block seed)) (timed_client_rows good) True = Inr s" using demo_summarized by blast
  then have summary: "demo_summary seed good = s" by (simp add: demo_summary_def)
  have count: "length (good_rows (plan_members (demo_block seed)) (timed_client_rows good)) = (if good then 1 else 0)"
    by (simp add: good_rows_def completed_rows_def timed_client_rows_def outcome_is_def demo_good)
      (simp add: timed_client_row_def)
  have population: "length (timed_client_rows good) = 4" by (simp add: timed_client_rows_def)
  from s obtain window where parts: "sm_client_timing s = Some (client_timing_of (timed_client_rows good))"
    "outcome_group_of (plan_members (demo_block seed)) window ''FULL_OFFERED_WINDOW'' (timed_client_rows good) = Inr (sm_all s)"
    by (rule summarize_parts) simp
  from outcome_group_spec(1) [OF this(2)] have "og_slo_good (sm_all s) = (if good then 1 else 0)" "og_offered (sm_all s) = 4"
    by (simp_all add: group_spec_def count population)
  with parts(1) show ?thesis by (simp add: summary summary_json_def item_jobj group_json_def)
qed

lemma demo_within_limits:
  assumes "metric \<in> {''scheduling_lag'', ''client_queue_delay''}"
  shows "exceeds_limit demo_study (client_timing_json (client_timing_of (timed_client_rows good))) metric 100 4 = Inr False"
proof -
  have "me_count (ct_lag (client_timing_of (timed_client_rows good))) = 4" "me_p95 (ct_lag (client_timing_of (timed_client_rows good))) = Some 0"
    "me_count (ct_queue (client_timing_of (timed_client_rows good))) = 4" "me_p95 (ct_queue (client_timing_of (timed_client_rows good))) = Some 1"
    by (simp_all add: client_timing_of_def timed_client_rows_def timed_client_row_def map_filter_simps metric_of_def p95_def Let_def)
  with assms show ?thesis
    by (auto simp: exceeds_limit_def client_timing_json_def item_jobj metric_json_def optional_json_def py_integer_def)
qed

text \<open>The inputs of the demonstration, in the frozen order.\<close>

definition demo_execution :: members where
  "demo_execution = plan_members (jobj [(''source_revision'', demo_hex 40), (''environment_sha256'', demo_digest_text),
     (''reset_procedure_sha256'', demo_digest_text), (''reset_completed'', JBool True)])"

text \<open>Policy A completes its request under the baseline timing, policy B under the candidate timing.\<close>

definition good_cell :: "condition \<Rightarrow> string \<Rightarrow> bool" where
  "good_cell c policy \<longleftrightarrow> (c = BASELINE) = (policy = ''round_robin'')"

abbreviation good_trial :: "trial \<Rightarrow> bool" where
  "good_trial t \<equiv> good_cell (tr_condition t) (tr_policy t)"

definition trial_members :: "trial \<Rightarrow> (string \<times> json) list" where
  "trial_members t =
     [(''trial_id'', jstr (tr_trial_id t)), (''timing'', timing_json (demo_timing (int (tr_block t)))),
      (''result'', timed_result (int (tr_block t)) (tr_policy t) (tr_sequence t) (good_trial t)),
      (''ledger_rows'', JArr (trial_ledger (tr_policy t) (tr_sequence t) (good_trial t))), (''token_certificate'', JNull),
      (''execution'', JObj demo_execution)]"

definition trial_sha :: "trial \<Rightarrow> string" where
  "trial_sha t = timed_sha256 (int (tr_block t)) (tr_policy t) (tr_sequence t) (good_trial t)"

definition key_count :: "cell_key \<Rightarrow> json" where
  "key_count key = (case key of (block, c, policy) \<Rightarrow> JInt (if good_cell c policy then 1 else 0))"

definition accepted :: "trial list \<Rightarrow> comparing \<Rightarrow> bool" where
  "accepted ts s \<longleftrightarrow>
     cg_seen s = map tr_trial_id ts \<and> cg_results s = map (\<lambda>t. jstr (trial_sha t)) ts
     \<and> cg_requests s = concat (map (\<lambda>t. map (trial_identity (tr_sequence t)) ''abcd'') ts)
     \<and> cg_sequence s = length ts \<and> cg_end s \<le> 100300 + 1000 * int (length ts)
     \<and> cg_reasons s = [] \<and> cg_counts s = (\<lambda>k. if k \<in> trial_key ` set ts then Some (key_count k) else None)"

text \<open>The next trial of a run so far.\<close>

definition next_trial :: "protocol \<Rightarrow> trial list \<Rightarrow> trial \<Rightarrow> bool" where
  "next_trial p ts t \<longleftrightarrow>
     pc_options p = demo_opts \<and> find_trial p (jstr (tr_trial_id t)) = Some t
     \<and> tr_block t \<in> {1..8} \<and> tr_policy t \<in> {''round_robin'', ''least_busy''} \<and> tr_timing_sha256 t = ''sha256:00''
     \<and> tr_sequence t = Suc (length ts) \<and> length ts < 32 \<and> tr_trial_id t \<notin> set (map tr_trial_id ts)
     \<and> list_all (\<lambda>u. tr_sequence u < tr_sequence t) ts"

abbreviation demo_plans :: "json list" where
  "demo_plans \<equiv> map demo_block [1, 2, 3, 4, 5, 6, 7, 8]"

lemma demo_eight_seeds: "demo_seeds [1, 2, 3, 4, 5, 6, 7, 8]"
  by (simp add: demo_seeds_def)

lemma demo_plans_nth: "b \<in> {1..8} \<Longrightarrow> demo_plans ! (b - 1) = demo_block (int b)"
proof -
  assume "b \<in> {1..8}"
  then have "b = 1 \<or> b = 2 \<or> b = 3 \<or> b = 4 \<or> b = 5 \<or> b = 6 \<or> b = 7 \<or> b = 8" by auto
  then show ?thesis by auto
qed

lemma next_trial_fields:
  assumes "next_trial p ts t"
  shows "demo_trial (int (tr_block t)) (tr_policy t) (tr_sequence t)" "tr_sequence t \<le> 99"
    "demo_plans ! (tr_block t - 1) = demo_block (int (tr_block t))"
  using assms demo_plans_nth [of "tr_block t"]
  by (auto simp: next_trial_def demo_trial_def supported_policies_def)

lemma trial_item:
  assumes "item = plan_members (jobj (trial_members t))"
  shows "jobj (trial_members t) = JObj item" "same_fields item input_fields"
    "get_null item ''trial_id'' = jstr (tr_trial_id t)" "get_null item ''timing'' = timing_json (demo_timing (int (tr_block t)))"
    "get_null item ''result'' = timed_result (int (tr_block t)) (tr_policy t) (tr_sequence t) (good_trial t)"
    "get_null item ''ledger_rows'' = JArr (trial_ledger (tr_policy t) (tr_sequence t) (good_trial t))"
    "get_null item ''token_certificate'' = JNull" "get_null item ''execution'' = JObj demo_execution"
  unfolding assms
  by (simp_all add: trial_members_def jobj_def plan_members_def same_fields_def input_fields_def)

lemma demo_planned:
  assumes "accepted ts s" "next_trial p ts t" "item = plan_members (jobj (trial_members t))"
  shows "planned_trial p s item = Inr t" "declared_reset p item = Inr (demo_execution, True)"
proof -
  have timing: "timing_json (demo_timing (int (tr_block t))) = JObj (plan_members (timing_json (demo_timing (int (tr_block t)))))"
    "get_null (plan_members (timing_json (demo_timing (int (tr_block t))))) ''timing_sha256'' = jstr ''sha256:00''"
    by (simp_all add: timing_json_def jobj_def plan_members_def get_null_jobj timing_fields_def demo_timing_def)
  show "planned_trial p s item = Inr t"
    using assms(1,2) by (simp add: planned_trial_def trial_item [OF assms(3)] accepted_def next_trial_def refuse_if_def)
      (subst timing(1), simp add: timing(2) refuse_if_def)
  show "declared_reset p item = Inr (demo_execution, True)"
    using assms(2) by (simp add: declared_reset_def trial_item [OF assms(3)] fields_of_def demo_execution_def demo_fields
        same_fields_def execution_fields_def next_trial_def demo_opts_def demo_hex_def demo_digest_text_def refuse_if_def)
      (simp add: plan_members_def jobj_def)
qed

lemma fresh_requests:
  assumes "accepted ts s" "next_trial p ts t"
  shows "set (cg_requests s) \<inter> set (map (trial_identity (tr_sequence t)) ''abcd'') = {}"
proof -
  have "trial_identity (tr_sequence t) d \<noteq> trial_identity (tr_sequence u) c" if "u \<in> set ts" for u c d
  proof -
    have "tr_sequence u < tr_sequence t" "tr_sequence t \<le> 99"
      using assms(2) that by (auto simp: next_trial_def list_all_iff)
    then show ?thesis by simp
  qed
  then have "set (concat (map (\<lambda>t. map (trial_identity (tr_sequence t)) cs) ts))
      \<inter> set (map (trial_identity (tr_sequence t)) cs) = {}" for cs by auto
  with assms(1) show ?thesis unfolding accepted_def by presburger
qed

lemma fresh_result:
  assumes "accepted ts s" "next_trial p ts t"
  shows "jstr (trial_sha t) \<notin> set (cg_results s)"
proof -
  have "trial_sha u \<noteq> trial_sha t" if "u \<in> set ts" for u
  proof -
    have "tr_sequence u < tr_sequence t" "tr_sequence t \<le> 99"
      using assms(2) that by (auto simp: next_trial_def list_all_iff)
    then show ?thesis using timed_sha256_number [of "tr_sequence u" "tr_sequence t"] unfolding trial_sha_def by fastforce
  qed
  then have "jstr (trial_sha t) \<notin> (\<lambda>t. jstr (trial_sha t)) ` set ts" by (simp add: image_iff) metis
  with assms(1) show ?thesis by (simp add: accepted_def)
qed

lemma result_items:
  "item_of (timed_result seed policy n good) ''measurement'' = Inr (jobj (timed_measurement seed policy n good))"
  "item_of (timed_result seed policy n good) ''result_sha256'' = Inr (jstr (timed_sha256 seed policy n good))"
  "item_of (jobj (timed_measurement seed policy n good)) ''policy'' = Inr (jstr policy)"
  "item_of (jobj (timed_measurement seed policy n good)) ''model'' = Inr (jstr ''m'')"
  "item_of (jobj (timed_measurement seed policy n good)) ''started_unix_ns'' = Inr (JStr (start_digits n))"
  "item_of (jobj (timed_measurement seed policy n good)) ''rows'' = Inr (JArr (timed_rows_json good))"
  "item_of (jobj (timed_measurement seed policy n good)) ''summary'' = Inr (summary_json demo_study (demo_summary seed good))"
  "is_ok (item_of (jobj (timed_measurement seed policy n good)) ''result_sha256'')"
  "is_ok (item_of (jobj (timed_measurement seed policy n good)) ''token_certificate_sha256'')"
  "request_ids (timed_result seed policy n good) = map (trial_identity n) ''abcd''"
  unfolding timed_result_def timed_body_def timed_measurement_def item_jobj
  by (simp_all add: request_ids_def jobj_def object_members_def timed_links_def)

lemma demo_evidence:
  assumes "accepted ts s" "next_trial p ts t"
  shows "\<exists>c. check_trial demo_study p demo_plans s (jobj (trial_members t)) = Inr c
    \<and> kt_trial c = t \<and> kt_execution c = demo_execution \<and> kt_reset c \<and> tc_comparison_valid (kt_timing_check c)
    \<and> lk_matched (kt_links c) = 4 \<and> lk_not_dispatched (kt_links c) = 0 \<and> lk_verified (kt_links c)
    \<and> list_all clean_outcome (lk_links (kt_links c))
    \<and> kt_measurement c = jobj (timed_measurement (int (tr_block t)) (tr_policy t) (tr_sequence t) (good_trial t))
    \<and> kt_rows c = timed_rows_json (good_trial t) \<and> kt_result_sha256 c = jstr (trial_sha t)
    \<and> kt_request_ids c = map (trial_identity (tr_sequence t)) ''abcd'' \<and> kt_start c = 100000 + 1000 * int (tr_sequence t)"
proof -
  note fields = next_trial_fields [OF assms(2)]
  define item where "item = plan_members (jobj (trial_members t))"
  note item = trial_item [OF item_def] and planned = demo_planned [OF assms item_def]
  obtain tc where tc: "verify_timed_result demo_study (demo_block (int (tr_block t))) (timing_json (demo_timing (int (tr_block t))))
      (timed_result (int (tr_block t)) (tr_policy t) (tr_sequence t) (good_trial t)) JNull = Inr tc" "tc_comparison_valid tc"
    using timed_verified [OF fields(1)] by blast
  obtain rep where rep: "verify_links demo_codec (\<lambda>_. Some [])
      (timed_result (int (tr_block t)) (tr_policy t) (tr_sequence t) (good_trial t)) (trial_ledger (tr_policy t) (tr_sequence t) (good_trial t)) = Inr rep"
    "lk_matched rep = 4" "lk_not_dispatched rep = 0" "lk_verified rep" "list_all clean_outcome (lk_links rep)"
    using demo_links_verified [OF fields(1)] by blast
  have study: "st_codec demo_study = demo_codec" "st_dumps demo_study = (\<lambda>_. Some [])" by (simp_all add: demo_study_def)
  have opts: "pp_model (pc_options p) = ascii_text ''m''" using assms(2) by (simp add: next_trial_def demo_opts_def)
  have members: "fields_of (JObj item) input_fields l = Inr item" for l by (simp add: fields_of_def item(2))
  note fresh = fresh_result [OF assms] fresh_requests [OF assms]
  show ?thesis
    unfolding check_trial_def item(1) members rbind.simps planned item(4-7) fields(3) tc(1) json.case
      check_evidence_def study rep(1) result_items demo_started [OF fields(2)]
    using tc(2) rep(2-5) fresh opts
    by (simp add: refuse_if_def jstr_def trial_sha_def [symmetric] del: jstr_eq)
qed

lemma demo_finish:
  "trial_end (demo_block seed) (timed_rows_json good) start = Inr (start + 300)"
  "item_of (demo_block seed) ''duration_ns'' = Inr (JInt 300)" "item_of (demo_block seed) ''seed'' = Inr (JInt seed)"
proof -
  show duration: "item_of (demo_block seed) ''duration_ns'' = Inr (JInt 300)"
    and "item_of (demo_block seed) ''seed'' = Inr (JInt seed)"
    by (simp_all add: demo_block_def item_jobj)
  have row: "int_item (timed_row i t e ok) ''terminal_ns'' = Inr (t + 9)" for i t e ok
    by (simp add: int_item_def timed_row_def item_jobj)
  show "trial_end (demo_block seed) (timed_rows_json good) start = Inr (start + 300)"
    by (simp add: trial_end_def timed_rows_json_def row) (simp add: int_item_def duration)
qed

lemma demo_step:
  assumes "accepted ts s" "next_trial p ts t"
  shows "\<exists>s'. compare_trial demo_study p demo_plans s (jobj (trial_members t)) = Inr s' \<and> accepted (ts @ [t]) s'"
proof -
  from demo_evidence [OF assms] obtain c where check: "check_trial demo_study p demo_plans s (jobj (trial_members t)) = Inr c"
    and c: "kt_trial c = t" "kt_execution c = demo_execution" "kt_reset c" "tc_comparison_valid (kt_timing_check c)"
      "lk_matched (kt_links c) = 4" "lk_not_dispatched (kt_links c) = 0" "lk_verified (kt_links c)"
      "list_all clean_outcome (lk_links (kt_links c))"
      "kt_measurement c = jobj (timed_measurement (int (tr_block t)) (tr_policy t) (tr_sequence t) (good_trial t))"
      "kt_rows c = timed_rows_json (good_trial t)" "kt_result_sha256 c = jstr (trial_sha t)"
      "kt_request_ids c = map (trial_identity (tr_sequence t)) ''abcd''"
      "kt_start c = 100000 + 1000 * int (tr_sequence t)" by blast
  define good where "good = good_trial t"
  note fields = next_trial_fields [OF assms(2)]
  obtain all where items:
    "item_of (summary_json demo_study (demo_summary (int (tr_block t)) good)) ''client_timing''
       = Inr (client_timing_json (client_timing_of (timed_client_rows good)))"
    "item_of (summary_json demo_study (demo_summary (int (tr_block t)) good)) ''all_offered'' = Inr all"
    "item_of all ''slo_good'' = Inr (JInt (if good then 1 else 0))" "item_of all ''offered'' = Inr (JInt 4)"
    "is_ok (item_of all ''slo_goodput_rps'')"
    using demo_summary_items by blast
  have sequence: "tr_sequence t = Suc (length ts)" "pc_options p = demo_opts" using assms(2) by (simp_all add: next_trial_def)
  have rows: "length (timed_rows_json good) = 4" by (simp add: timed_rows_json_def)
  have "kt_start c = 101000 + 1000 * int (length ts)" by (simp add: c(13) sequence(1))
  moreover have "cg_end s \<le> 100300 + 1000 * int (length ts)" using assms(1) by (simp add: accepted_def)
  ultimately have window: "cg_end s \<le> kt_start c"
    "max (cg_end s) (kt_start c + 300) \<le> 100300 + 1000 * int (length (ts @ [t]))"
    by simp_all
  have limits: "exceeds_limit demo_study (client_timing_json (client_timing_of (timed_client_rows good))) metric 100 4 = Inr False"
    if "metric \<in> {''scheduling_lag'', ''client_queue_delay''}" for metric by (rule demo_within_limits [OF that])
  have reasons: "trial_reasons demo_study p s c (client_timing_json (client_timing_of (timed_client_rows good))) = Inr []"
    using window(1) c(3-8)
    by (simp add: trial_reasons_def c(10) good_def [symmetric] rows sequence(2) demo_opts_def limits)
  obtain goodput measurement certificate where rest: "item_of all ''slo_goodput_rps'' = Inr goodput"
    "item_of (kt_measurement c) ''result_sha256'' = Inr measurement"
    "item_of (kt_measurement c) ''token_certificate_sha256'' = Inr certificate"
    using items(5) result_items(8,9) unfolding c(9) is_ok_iff by metis
  obtain execution where execution: "link_digest (st_codec demo_study) (JObj demo_execution) = Inr execution"
    by (cases "marked_document (JObj demo_execution)")
      (simp_all add: link_digest_def artifact_digest_def demo_study_def demo_canonical)
  have key: "(tr_block t, tr_condition t, tr_policy t) = trial_key t" "key_count (trial_key t) = JInt (if good then 1 else 0)"
    by (simp_all add: trial_key_def key_count_def good_def)
  have accounted: "\<exists>s'. account_trial demo_study p demo_plans s c = Inr s' \<and> accepted (ts @ [t]) s'"
    unfolding account_trial_def Let_def c(1,2,10) fields(3) demo_finish(1) rbind.simps c(9) result_items
      good_def [symmetric] items(1-4) reasons rest [unfolded c(9) good_def [symmetric]] demo_finish(2) execution key(1)
    using assms(1) window(2) by (auto simp: accepted_def sequence(1) c(11,12) fun_eq_iff key(2))
  with check show ?thesis by (simp add: compare_trial_def)
qed

lemma find_trial_planned:
  assumes "distinct (map tr_trial_id (pc_trials p))" "t \<in> set (pc_trials p)"
  shows "find_trial p (jstr (tr_trial_id t)) = Some t"
proof (cases "find_trial p (jstr (tr_trial_id t))")
  case None
  with assms(2) have False unfolding find_trial_def find_None_iff by auto
  then show ?thesis ..
next
  case (Some u)
  then have "jstr (tr_trial_id u) = jstr (tr_trial_id t)" unfolding find_trial_def find_Some_iff by blast
  with Some find_trial_ok [OF Some] assms show ?thesis by (simp add: distinct_map inj_on_def)
qed

lemma demo_next:
  assumes "make_protocol demo_codec demo_reader demo_plans demo_options = Inr p" "pc_options p = demo_opts" "m < 32"
  shows "length (pc_trials p) = 32" "next_trial p (take m (pc_trials p)) (pc_trials p ! m)"
proof -
  have design: "map tr_sequence (pc_trials p) = [1..<33]" "distinct (map tr_trial_id (pc_trials p))"
    using make_protocol_balanced [OF assms(1)] by (simp_all add: balanced_design_def)
  show len: "length (pc_trials p) = 32" using arg_cong [OF design(1), of length] by simp
  have sequence: "tr_sequence (pc_trials p ! i) = Suc i" if "i < 32" for i
    using arg_cong [OF design(1), of "\<lambda>xs. xs ! i"] that len by simp
  have member: "pc_trials p ! m \<in> set (pc_trials p)" using assms(3) len by simp
  have "tr_trial_id (pc_trials p ! m) \<notin> set (map tr_trial_id (take m (pc_trials p)))"
  proof -
    have "distinct (take (Suc m) (map tr_trial_id (pc_trials p)))" using design(2) by (rule distinct_take)
    then show ?thesis using assms(3) len by (simp add: take_Suc_conv_app_nth take_map)
  qed
  moreover have "list_all (\<lambda>u. tr_sequence u < Suc m) (take m (pc_trials p))"
    using assms(3) len by (auto simp: list_all_length sequence)
  ultimately show "next_trial p (take m (pc_trials p)) (pc_trials p ! m)"
    using demo_trial_fields [OF demo_eight_seeds assms(1) member] find_trial_planned [OF design(2) member] assms(2,3) sequence [OF assms(3)] len
    by (simp add: next_trial_def)
qed

definition demo_inputs :: "protocol \<Rightarrow> json list" where
  "demo_inputs p = map (\<lambda>t. jobj (trial_members t)) (pc_trials p)"

lemma demo_trials_run:
  assumes "make_protocol demo_codec demo_reader demo_plans demo_options = Inr p" "pc_options p = demo_opts"
  shows "\<exists>s. res_fold (compare_trial demo_study p demo_plans) comparing_start (demo_inputs p) = Inr s \<and> accepted (pc_trials p) s"
proof -
  have len: "length (pc_trials p) = 32" using demo_next(1) [OF assms, of 0] by simp
  have "\<exists>s. res_fold (compare_trial demo_study p demo_plans) comparing_start (take m (demo_inputs p)) = Inr s
      \<and> accepted (take m (pc_trials p)) s" if "m \<le> 32" for m
    using that
  proof (induction m)
    case 0
    then show ?case by (auto simp: accepted_def comparing_start_def)
  next
    case (Suc m)
    then obtain s where s: "res_fold (compare_trial demo_study p demo_plans) comparing_start (take m (demo_inputs p)) = Inr s"
      "accepted (take m (pc_trials p)) s" by auto
    from Suc.prems have m: "m < 32" by simp
    from demo_step [OF s(2) demo_next(2) [OF assms m]] obtain s' where
      "compare_trial demo_study p demo_plans s (jobj (trial_members (pc_trials p ! m))) = Inr s'"
      "accepted (take m (pc_trials p) @ [pc_trials p ! m]) s'" by blast
    with s m len show ?case by (simp add: take_Suc_conv_app_nth demo_inputs_def res_fold_append)
  qed
  from this [of 32] len show ?thesis by (simp add: demo_inputs_def)
qed

lemma demo_statistics:
  "\<exists>x. paired_statistics_of (replicate 8 (10000000 / 3)) (replicate 8 (- 10000000 / 3)) 0 = Inr x \<and> ps_reversal_signal x"
proof -
  have eight: "replicate 8 x = [x, x, x, x, x, x, x, x]" for x :: rat by (simp add: eval_nat_numeral)
  have "\<exists>b. directional_summary (replicate 8 (10000000 / 3)) 1 0 = Inr b \<and> ds_supported b"
    "\<exists>b. directional_summary (replicate 8 (- 10000000 / 3)) (-1) 0 = Inr b \<and> ds_supported b"
    unfolding eight
    by (simp_all add: directional_summary_def Let_def finite_float_def
        demo_tail [unfolded eval_nat_numeral BitM.simps One_nat_def] alpha_def)
  then show ?thesis
    by (auto simp: paired_statistics_of_def block_count_def exact_integer_def max_minimum_effect_def)
qed

lemma demo_concluded:
  assumes "make_protocol demo_codec demo_reader demo_plans demo_options = Inr p" "pc_options p = demo_opts"
    and "accepted (pc_trials p) s"
  shows "\<exists>r. conclude demo_study p demo_plans n s = Inr r \<and> cp_reasons r = [] \<and> cp_status r = REVERSAL_CANDIDATE"
proof -
  have design: "balanced_design 8 p" using make_protocol_balanced [OF assms(1)] by (simp add: eval_nat_numeral)
  have missing: "missing_trials p s = []" "cg_reasons s = []"
    using assms(3) by (simp_all add: missing_trials_def accepted_def filter_empty_conv)
  have count: "cell_count s (i + 1, c, policy) = Some (JInt (if good_cell c policy then 1 else 0))"
    if i: "i < 8" and member: "(c, policy) \<in> set (cells demo_opts)" for i c policy
  proof -
    obtain t where "t \<in> set (pc_trials p)" "trial_key t = (i + 1, c, policy)"
      using cell_planned [OF design _ i] member assms(2) by auto
    then have "(i + 1, c, policy) \<in> trial_key ` set (pc_trials p)" by force
    with assms(3) show ?thesis by (simp add: cell_count_def accepted_def key_count_def)
  qed
  have policies: "pp_policy_a demo_opts = ''round_robin''" "pp_policy_b demo_opts = ''least_busy''"
    by (simp_all add: demo_opts_def)
  have limit: "finite_float (10000000 / 3)" "finite_float (- (10000000 / 3))" by (simp_all add: finite_float_def)
  have cell: "cell_of p s (i + 1) (demo_block seed) BASELINE
        = Inr (Some \<lparr>bc_policy_a = 1, bc_policy_b = 0, bc_delta = 10000000 / 3\<rparr>)"
      "cell_of p s (i + 1) (demo_block seed) CANDIDATE
        = Inr (Some \<lparr>bc_policy_a = 0, bc_policy_b = 1, bc_delta = - (10000000 / 3)\<rparr>)"
    if "i < 8" for i seed
    using count [OF that cells_member(1)] count [OF that cells_member(2)]
    by (simp_all add: cell_of_def assms(2) whole_count_def int_item_def demo_finish Let_def limit good_cell_def policies)
  have block: "block_of p s (i + 1, demo_block seed) = Inr \<lparr>br_block = i + 1, br_seed = JInt seed, br_denominator_ns = JInt 300,
      br_baseline = Some \<lparr>bc_policy_a = 1, bc_policy_b = 0, bc_delta = 10000000 / 3\<rparr>,
      br_candidate = Some \<lparr>bc_policy_a = 0, bc_policy_b = 1, bc_delta = - (10000000 / 3)\<rparr>\<rparr>" if "i < 8" for i seed
    using cell [OF that] by (simp add: block_of_def demo_finish)
  obtain blocks where blocks: "res_map (block_of p s) (enumerate 1 demo_plans) = Inr blocks"
    "deltas_of br_baseline blocks = replicate 8 (10000000 / 3)" "deltas_of br_candidate blocks = replicate 8 (- 10000000 / 3)"
    using block [of 0] block [of 1] block [of 2] block [of 3] block [of 4] block [of 5] block [of 6] block [of 7]
    by (simp add: deltas_of_def map_filter_simps eval_nat_numeral)
  obtain x where x: "paired_statistics_of (replicate 8 (10000000 / 3)) (replicate 8 (- 10000000 / 3)) 0 = Inr x"
    "ps_reversal_signal x" using demo_statistics by blast
  have opts: "pp_minimum_effect (pc_options p) = 0" by (simp add: assms(2) demo_opts_def)
  have unmarked: "\<not> marked_document (comparison_json demo_study r)" for r by (simp add: comparison_json_def Let_def)
  have codec: "st_codec demo_study = demo_codec" by (simp add: demo_study_def)
  show ?thesis
    unfolding conclude_def Let_def missing blocks(1) rbind.simps blocks(2,3) opts x(1) codec
    by (simp add: lift_artifact_def link_digest_def demo_digest [OF unmarked] x(2))
qed

lemma demo_compared:
  "\<exists>p r. make_protocol demo_codec demo_reader demo_plans demo_options = Inr p
     \<and> pc_options p = demo_opts
     \<and> compare demo_study (protocol_json p) demo_plans (JArr (demo_inputs p)) = Inr r \<and> cp_reasons r = []
     \<and> cp_status r = REVERSAL_CANDIDATE"
proof -
  obtain p where p: "make_protocol demo_codec demo_reader demo_plans demo_options = Inr p" "pc_options p = demo_opts"
    using demo_protocol [OF demo_eight_seeds] by blast
  have valid: "validate_protocol demo_codec demo_reader demo_plans (protocol_json p) = Inr p"
    by (rule plain_protocol_accepted [OF p(1)]) (simp_all add: p(2) demo_distinct demo_canonical)
  obtain s where s: "res_fold (compare_trial demo_study p demo_plans) comparing_start (demo_inputs p) = Inr s"
    "accepted (pc_trials p) s" using demo_trials_run [OF p] by blast
  obtain r where r: "conclude demo_study p demo_plans (length (demo_inputs p)) s = Inr r" "cp_reasons r = []"
    "cp_status r = REVERSAL_CANDIDATE" using demo_concluded [OF p s(2)] by blast
  moreover have "st_codec demo_study = demo_codec" "st_plan_reader demo_study = demo_reader" by (simp_all add: demo_study_def)
  ultimately have "compare demo_study (protocol_json p) demo_plans (JArr (demo_inputs p)) = Inr r"
    by (simp add: compare_def compare_inputs_def valid s(1) lift_artifact_def guarded_link_def del: list.map)
  with p r(2,3) show ?thesis by blast
qed



end
