(* ===== verification/Searching.thy ===== *)
theory Searching
  imports Pairing "HOL-Library.Product_Lexorder"
begin

text \<open>
  The frozen grid of a timing search, \<open>vllm_search_plan.py\<close>: recipes of arrival compression that move
  something in every block, grouped by the schedule they produce and ranked by how far they are from the
  source schedule. Lemmas: every recipe of the grid is either excluded or stands for exactly one ranked
  candidate, ranks follow the distance, the budget bounds what is scheduled, and a plan regenerates itself.
\<close>

section \<open>Recipes and options\<close>

record recipe =
  rc_group_size :: int
  rc_spacing_bps :: int
  rc_max_advance_ns :: int

definition recipe_json :: "recipe \<Rightarrow> json" where
  "recipe_json r = jobj [(''group_size'', JInt (rc_group_size r)), (''retained_spacing_bps'', JInt (rc_spacing_bps r)),
     (''max_advance_ns'', JInt (rc_max_advance_ns r))]"

definition max_grid_recipes :: nat where
  "max_grid_recipes = 128"

definition max_grid_offer_work :: int where
  "max_grid_offer_work = 2000000"

definition comparison_option_names :: "string list" where
  "comparison_option_names = [''policy_a'', ''policy_b'', ''order_seed'', ''minimum_effect_microrps'',
     ''max_scheduling_lag_p95_ns'', ''max_client_queue_p95_ns'', ''model'', ''source_revision'',
     ''environment_sha256'', ''reset_procedure_sha256'']"

text \<open>\<open>_axis\<close>\<close>

definition axis :: "json \<Rightarrow> int \<Rightarrow> int \<Rightarrow> string \<Rightarrow> int list checked" where
  "axis v low high label =
     (case v of
        JArr js \<Rightarrow>
          if js = [] \<or> 16 < length js then Inl (Refused label)
          else rbind (res_map (\<lambda>j. exact_integer j low high label) js) (\<lambda>xs.
            rbind (raise_if (\<not> distinct xs) (Refused label)) (\<lambda>_. Inr (sort xs)))
      | _ \<Rightarrow> Inl (Refused label))"

text \<open>\<open>_comparison_options\<close>; the checked dictionary is returned.\<close>

definition comparison_options :: "json \<Rightarrow> members checked" where
  "comparison_options v =
     (case v of
        JObj ms \<Rightarrow>
          rbind (raise_if (\<not> same_fields ms comparison_option_names) (Refused ''search comparison options'')) (\<lambda>_.
          rbind (artifact_types False [] v) (\<lambda>_.
          rbind (read_policy (get_null ms ''policy_a'')) (\<lambda>a.
          rbind (read_policy (get_null ms ''policy_b'')) (\<lambda>b.
          rbind (raise_if (a = b) (Refused ''search policies must differ'')) (\<lambda>_.
          rbind (exact_integer (get_null ms ''order_seed'') 0 (2 ^ 32 - 1) ''order_seed'') (\<lambda>_.
          rbind (exact_integer (get_null ms ''minimum_effect_microrps'') 0 max_minimum_effect
              ''minimum_effect_microrps'') (\<lambda>_.
          rbind (exact_integer (get_null ms ''max_scheduling_lag_p95_ns'') 0 max_exact_integer
              ''max_scheduling_lag_p95_ns'') (\<lambda>_.
          rbind (exact_integer (get_null ms ''max_client_queue_p95_ns'') 0 max_exact_integer
              ''max_client_queue_p95_ns'') (\<lambda>_.
          rbind (read_text model_text ''search model'' (get_null ms ''model'')) (\<lambda>_.
          rbind (read_text (lower_hex 40) ''search source revision'' (get_null ms ''source_revision'')) (\<lambda>_.
          rbind (read_text digest_text ''search environment'' (get_null ms ''environment_sha256'')) (\<lambda>_.
          rbind (read_text digest_text ''search reset procedure'' (get_null ms ''reset_procedure_sha256'')) (\<lambda>_.
          Inr ms)))))))))))))
      | _ \<Rightarrow> Inl (Refused ''search comparison options''))"

section \<open>The source plans\<close>

text \<open>The cheap bounds: offered count and duration of each plan.\<close>

definition plan_bounds :: "json \<Rightarrow> (int \<times> int) checked" where
  "plan_bounds plan =
     (case plan of
        JObj ms \<Rightarrow>
          rbind (exact_integer (get_null ms ''offered_count'') 1 20000 ''offered_count'') (\<lambda>n.
          rbind (exact_integer (get_null ms ''duration_ns'') 3 max_exact_integer ''duration_ns'') (\<lambda>d. Inr (n, d)))
      | _ \<Rightarrow> Inl (Refused ''search source plan must be an object''))"

text \<open>One turn of \<open>_source_plans\<close>: the contract and the seeds so far.\<close>

definition check_source ::
  "codec \<Rightarrow> plan_reader \<Rightarrow> py_bytes option \<times> json list \<Rightarrow> json \<Rightarrow> (py_bytes option \<times> json list) checked" where
  "check_source k validate_plan st plan =
     (case st of (common, seeds) \<Rightarrow>
        rbind (make_timing k validate_plan plan (JInt 1) (JInt 10000) (JInt 0)) (\<lambda>_.
        rbind (need (plan_members plan) ''phase'') (\<lambda>phase.
        rbind (raise_if (phase \<notin> {jstr ''fixture'', jstr ''evaluation''}) UnsupportedPhase) (\<lambda>_.
        rbind (common_plan k (plan_members plan)) (\<lambda>contract.
        rbind (raise_if (common \<noteq> None \<and> common \<noteq> Some contract) (Refused ''search source plans differ'')) (\<lambda>_.
        rbind (need (plan_members plan) ''seed'') (\<lambda>seed.
        rbind (raise_if (seed \<in> set seeds) (Refused ''workload seed repeated'')) (\<lambda>_.
        Inr (Some contract, seed # seeds)))))))))"

section \<open>The grid\<close>

text \<open>\<open>itertools.product\<close> of the three axes.\<close>

definition grid :: "int list \<Rightarrow> int list \<Rightarrow> int list \<Rightarrow> recipe list" where
  "grid groups spacings limits =
     map (\<lambda>(g, s, a). \<lparr>rc_group_size = g, rc_spacing_bps = s, rc_max_advance_ns = a\<rparr>)
       (List.product groups (List.product spacings limits))"

definition recipe_timings :: "codec \<Rightarrow> plan_reader \<Rightarrow> json list \<Rightarrow> recipe \<Rightarrow> timing list checked" where
  "recipe_timings k validate_plan plans r =
     res_map (\<lambda>plan. make_timing k validate_plan plan (JInt (rc_group_size r)) (JInt (rc_spacing_bps r))
       (JInt (rc_max_advance_ns r))) plans"

definition schedule_sha256 :: "codec \<Rightarrow> json list \<Rightarrow> timing list \<Rightarrow> string checked" where
  "schedule_sha256 k plans timings =
     rbind (res_map (\<lambda>(plan, t). rbind (need (plan_members plan) ''plan_sha256'') (\<lambda>sha.
         Inr (jobj [(''base_plan_sha256'', sha), (''transformed_trace_sha256'', jstr (tm_transformed_trace_sha256 t))])))
       (zip plans timings)) (\<lambda>rows. artifact_digest k (JArr rows))"

definition total_advance :: "timing list \<Rightarrow> int" where
  "total_advance timings = (\<Sum>t \<leftarrow> timings. \<Sum>a \<leftarrow> tm_arrivals t. advance_of a)"

record search_candidate =
  sc_parameters :: recipe
  sc_aliases :: "recipe list"
  sc_schedule_sha256 :: string
  sc_timing_sha256s :: "string list"
  sc_protocol_sha256 :: string
  sc_max_advance_ns :: int
  sc_total_advance_ns :: int
  sc_moved_offers :: int

definition candidate_options :: "recipe \<Rightarrow> members \<Rightarrow> members" where
  "candidate_options r options = (ascii_text ''candidate_parameters'', recipe_json r) # options"

definition new_candidate :: "recipe \<Rightarrow> timing list \<Rightarrow> string \<Rightarrow> int \<Rightarrow> protocol \<Rightarrow> search_candidate" where
  "new_candidate r timings sha applied p =
     \<lparr>sc_parameters = r, sc_aliases = [], sc_schedule_sha256 = sha,
      sc_timing_sha256s = map tm_timing_sha256 timings, sc_protocol_sha256 = pc_sha256 p,
      sc_max_advance_ns = applied, sc_total_advance_ns = total_advance timings,
      sc_moved_offers = sum_list (map tm_moved_count timings)\<rparr>"

definition add_alias :: "string \<Rightarrow> recipe \<Rightarrow> search_candidate list \<Rightarrow> search_candidate list" where
  "add_alias sha r cs =
     map (\<lambda>c. if sc_schedule_sha256 c = sha then c\<lparr>sc_aliases := sc_aliases c @ [r]\<rparr> else c) cs"

text \<open>One recipe: the excluded ones and the dictionary of candidates by schedule, in insertion order.\<close>

definition try_recipe ::
  "codec \<Rightarrow> plan_reader \<Rightarrow> json list \<Rightarrow> members \<Rightarrow> recipe list \<times> search_candidate list \<Rightarrow> recipe
     \<Rightarrow> (recipe list \<times> search_candidate list) checked" where
  "try_recipe k validate_plan plans options st r =
     (case st of (excluded, cs) \<Rightarrow>
        rbind (recipe_timings k validate_plan plans r) (\<lambda>timings.
        if list_ex (\<lambda>t. tm_moved_count t = 0) timings then Inr (excluded @ [r], cs)
        else rbind (schedule_sha256 k plans timings) (\<lambda>sha.
          if sha \<in> set (map sc_schedule_sha256 cs) then Inr (excluded, add_alias sha r cs)
          else rbind (make_protocol k validate_plan plans (candidate_options r options)) (\<lambda>p.
            rbind (max_of (map tm_max_applied_advance_ns timings)) (\<lambda>applied.
            Inr (excluded, cs @ [new_candidate r timings sha applied p]))))))"

text \<open>\<open>(max_advance_ns, total_advance_ns, moved_offers, schedule_sha256)\<close>\<close>

definition rank_key :: "search_candidate \<Rightarrow> int \<times> int \<times> int \<times> string" where
  "rank_key c = (sc_max_advance_ns c, sc_total_advance_ns c, sc_moved_offers c, sc_schedule_sha256 c)"

section \<open>The search plan\<close>

record search_plan =
  sp_synthetic :: bool
  sp_options :: members
  sp_groups :: "int list"
  sp_spacings :: "int list"
  sp_advances :: "int list"
  sp_max_candidates :: int
  sp_max_trial_slots :: int
  sp_base_plan_sha256s :: "json list"
  sp_candidates :: "search_candidate list"
  sp_excluded :: "recipe list"
  sp_slots :: int
  sp_sha256 :: string

definition candidate_id :: "nat \<Rightarrow> string" where
  "candidate_id rank = CHR ''c'' # zpad 3 rank"

definition scheduled_count :: "search_plan \<Rightarrow> int" where
  "scheduled_count sp = min (int (length (sp_candidates sp))) (min (sp_max_candidates sp) (sp_max_trial_slots sp div sp_slots sp))"

definition distance_json :: "search_candidate \<Rightarrow> json" where
  "distance_json c = jobj [(''max_advance_ns'', JInt (sc_max_advance_ns c)),
     (''total_advance_ns'', jstr (str_int (sc_total_advance_ns c))), (''moved_offers'', JInt (sc_moved_offers c))]"

definition candidate_json :: "nat \<times> search_candidate \<Rightarrow> json" where
  "candidate_json ranked =
     (case ranked of (rank, c) \<Rightarrow> jobj
        [(''candidate_id'', jstr (candidate_id rank)), (''rank'', JInt (int rank)),
         (''parameters'', recipe_json (sc_parameters c)), (''aliases'', JArr (map recipe_json (sc_aliases c))),
         (''schedule_sha256'', jstr (sc_schedule_sha256 c)),
         (''timing_sha256s'', JArr (map jstr (sc_timing_sha256s c))),
         (''protocol_sha256'', jstr (sc_protocol_sha256 c)), (''distance'', distance_json c)])"

definition search_plan_fields :: "search_plan \<Rightarrow> (string \<times> json) list" where
  "search_plan_fields sp =
     [(''schema'', jstr ''inferdrome.vllm-router-search-plan.v1''), (''scope'', jstr ''EXPLORATORY_SEARCH_ONLY''),
      (''evidence_class'', jstr (if sp_synthetic sp then ''SYNTHETIC_ONLY'' else ''LOCAL_MEASUREMENT_ONLY'')),
      (''comparison_options'', JObj (sp_options sp)),
      (''axes'', jobj [(''group_sizes'', JArr (map JInt (sp_groups sp))),
         (''retained_spacing_bps'', JArr (map JInt (sp_spacings sp))),
         (''max_advances_ns'', JArr (map JInt (sp_advances sp)))]),
      (''max_candidates'', JInt (sp_max_candidates sp)), (''max_trial_slots'', JInt (sp_max_trial_slots sp)),
      (''base_plan_sha256s'', JArr (sp_base_plan_sha256s sp)),
      (''candidates'', JArr (map candidate_json (enumerate 1 (sp_candidates sp)))),
      (''excluded_recipes'', JArr (map (\<lambda>r. jobj [(''parameters'', recipe_json r),
         (''reason'', jstr ''NO_MOVEMENT_IN_ONE_OR_MORE_BLOCKS'')]) (sp_excluded sp))),
      (''grid_recipe_count'', JInt (int (length (sp_groups sp) * length (sp_spacings sp) * length (sp_advances sp)))),
      (''unique_candidate_count'', JInt (int (length (sp_candidates sp)))),
      (''trial_slots_per_candidate'', JInt (sp_slots sp)),
      (''scheduled_candidate_count'', JInt (scheduled_count sp)),
      (''order_method'', jstr ''MINIMUM_APPLIED_ADVANCE_THEN_TOTAL_THEN_MOVED_OFFERS_THEN_SCHEDULE_SHA256''),
      (''stop_rule'', jstr ''FIRST_REVERSAL_CANDIDATE_OR_GRID_OR_BUDGET_EXHAUSTED'')]"

definition search_plan_json :: "search_plan \<Rightarrow> json" where
  "search_plan_json sp = jobj (search_plan_fields sp @ [(''search_plan_sha256'', jstr (sp_sha256 sp))])"

text \<open>The grid of checked axes, and the artifact built from its candidates.\<close>

definition run_grid ::
  "codec \<Rightarrow> plan_reader \<Rightarrow> json list \<Rightarrow> members \<Rightarrow> recipe list \<Rightarrow> (recipe list \<times> search_candidate list) checked" where
  "run_grid k validate_plan plans options recipes =
     rbind (res_fold (check_source k validate_plan) (None, []) plans) (\<lambda>_.
     rbind (res_fold (try_recipe k validate_plan plans options) ([], []) recipes) (\<lambda>(excluded, cs).
     rbind (raise_if (cs = []) (Refused ''search grid has no eligible nonidentity candidate'')) (\<lambda>_.
     Inr (excluded, sort_key rank_key cs))))"

definition build_search_plan ::
  "codec \<Rightarrow> plan_reader \<Rightarrow> json list \<Rightarrow> members \<Rightarrow> int list \<Rightarrow> int list \<Rightarrow> int list \<Rightarrow> int \<Rightarrow> int \<Rightarrow> search_plan checked" where
  "build_search_plan k validate_plan plans options groups spacings limits candidates slots =
     rbind (run_grid k validate_plan plans options (grid groups spacings limits)) (\<lambda>(excluded, ordered).
     rbind (need (plan_members (hd plans)) ''phase'') (\<lambda>phase.
     rbind (res_map (\<lambda>plan. need (plan_members plan) ''plan_sha256'') plans) (\<lambda>shas.
     let sp = \<lparr>sp_synthetic = (phase = jstr ''fixture''), sp_options = options, sp_groups = groups,
           sp_spacings = spacings, sp_advances = limits, sp_max_candidates = candidates,
           sp_max_trial_slots = slots, sp_base_plan_sha256s = shas, sp_candidates = ordered,
           sp_excluded = excluded, sp_slots = 4 * int (length plans), sp_sha256 = []\<rparr>
     in rbind (artifact_digest k (jobj (search_plan_fields sp))) (\<lambda>d. Inr (sp\<lparr>sp_sha256 := d\<rparr>)))))"

definition make_search_plan ::
  "codec \<Rightarrow> plan_reader \<Rightarrow> json list \<Rightarrow> json \<Rightarrow> json \<Rightarrow> json \<Rightarrow> json \<Rightarrow> json \<Rightarrow> json \<Rightarrow> search_plan checked" where
  "make_search_plan k validate_plan plans options group_sizes spacing_bps advances_ns max_candidates max_trial_slots =
     rbind (raise_if (length plans < 4 \<or> 32 < length plans \<or> length plans mod 4 \<noteq> 0) (Refused ''search blocks'')) (\<lambda>_.
     rbind (comparison_options options) (\<lambda>opts.
     rbind (exact_integer max_candidates 1 128 ''max_candidates'') (\<lambda>candidates.
     rbind (exact_integer max_trial_slots 1 16384 ''max_trial_slots'') (\<lambda>slots.
     rbind (res_map plan_bounds plans) (\<lambda>bounds.
     rbind (axis group_sizes 1 1024 ''group_sizes'') (\<lambda>groups.
     rbind (axis spacing_bps 0 10000 ''retained_spacing_bps'') (\<lambda>spacings.
     rbind (axis advances_ns 0 (Min (set (map snd bounds))) ''max_advances_ns'') (\<lambda>limits.
     let recipes = length groups * length spacings * length limits
     in rbind (raise_if (max_grid_recipes < recipes) (Refused ''search grid recipe budget'')) (\<lambda>_.
        rbind (raise_if (max_grid_offer_work < int recipes * sum_list (map fst bounds)) (Refused ''search grid work budget'')) (\<lambda>_.
        build_search_plan k validate_plan plans opts groups spacings limits candidates slots))))))))))"

definition axis_names :: "string list" where
  "axis_names = [''group_sizes'', ''retained_spacing_bps'', ''max_advances_ns'']"

definition validate_search_plan :: "codec \<Rightarrow> plan_reader \<Rightarrow> json list \<Rightarrow> json \<Rightarrow> search_plan checked" where
  "validate_search_plan k validate_plan plans artifact =
     guarded ''search plan''
       (case artifact of
          JObj ms \<Rightarrow>
            (case get_null ms ''axes'' of
               JObj axes \<Rightarrow>
                 rbind (artifact_types False [] artifact) (\<lambda>_.
                 rbind (raise_if (\<not> same_fields axes axis_names) (Refused ''search axes contain unsupported fields'')) (\<lambda>_.
                 rbind (need ms ''comparison_options'') (\<lambda>options.
                 rbind (need ms ''max_candidates'') (\<lambda>max_candidates.
                 rbind (need ms ''max_trial_slots'') (\<lambda>max_trial_slots.
                 rbind (make_search_plan k validate_plan plans options (get_null axes ''group_sizes'')
                     (get_null axes ''retained_spacing_bps'') (get_null axes ''max_advances_ns'')
                     max_candidates max_trial_slots) (\<lambda>expected.
                 rbind (require_same k artifact (search_plan_json expected) (NotRegenerated ''search plan'')) (\<lambda>_.
                 Inr expected)))))))
             | _ \<Rightarrow> Inl (NotAnArtifact ''search plan or axes''))
        | _ \<Rightarrow> Inl (NotAnArtifact ''search plan or axes''))"

section \<open>The protocol of a candidate\<close>

definition find_candidate :: "search_plan \<Rightarrow> json \<Rightarrow> (nat \<times> search_candidate) option" where
  "find_candidate sp name = find (\<lambda>(rank, _). jstr (candidate_id rank) = name) (enumerate 1 (sp_candidates sp))"

text \<open>\<open>_protocol\<close> of \<open>vllm_bounded_search.py\<close> and the end of \<open>_candidate_protocol_unchecked\<close>.\<close>

definition protocol_of_candidate ::
  "codec \<Rightarrow> plan_reader \<Rightarrow> json list \<Rightarrow> search_plan \<Rightarrow> search_candidate \<Rightarrow> protocol checked" where
  "protocol_of_candidate k validate_plan plans sp c =
     rbind (make_protocol k validate_plan plans (candidate_options (sc_parameters c) (sp_options sp))) (\<lambda>p.
     rbind (raise_if (pc_sha256 p \<noteq> sc_protocol_sha256 c) (Refused ''candidate protocol differs from search plan'')) (\<lambda>_.
     Inr p))"

definition candidate_protocol :: "codec \<Rightarrow> plan_reader \<Rightarrow> json \<Rightarrow> json list \<Rightarrow> json \<Rightarrow> protocol checked" where
  "candidate_protocol k validate_plan artifact plans name =
     rbind (validate_search_plan k validate_plan plans artifact) (\<lambda>sp.
     case name of
       JStr _ \<Rightarrow>
         (case find_candidate sp name of
            None \<Rightarrow> Inl (Refused ''candidate ID is absent from the search plan'')
          | Some (rank, c) \<Rightarrow>
              rbind (raise_if (scheduled_count sp < int rank) (Refused ''candidate is outside the declared search budget'')) (\<lambda>_.
              protocol_of_candidate k validate_plan plans sp c))
     | _ \<Rightarrow> Inl (Refused ''candidate ID must be a string''))"

section \<open>What a grid stands for\<close>

definition recipes_of :: "search_candidate \<Rightarrow> recipe list" where
  "recipes_of c = sc_parameters c # sc_aliases c"

text \<open>An excluded recipe leaves some block as it was.\<close>

definition recipe_excluded :: "codec \<Rightarrow> plan_reader \<Rightarrow> json list \<Rightarrow> recipe \<Rightarrow> bool" where
  "recipe_excluded k vp plans r \<longleftrightarrow>
     (\<exists>timings. recipe_timings k vp plans r = Inr timings
        \<and> list_ex (\<lambda>t. list_all (\<lambda>a. advance_of a \<le> 0) (tm_arrivals t)) timings)"

text \<open>A recipe of a candidate moves something in every block and has the schedule of the candidate.\<close>

definition recipe_scheduled :: "codec \<Rightarrow> plan_reader \<Rightarrow> json list \<Rightarrow> string \<Rightarrow> recipe \<Rightarrow> bool" where
  "recipe_scheduled k vp plans sha r \<longleftrightarrow>
     (\<exists>timings. recipe_timings k vp plans r = Inr timings
        \<and> list_all (\<lambda>t. list_ex (\<lambda>a. 0 < advance_of a) (tm_arrivals t)) timings
        \<and> schedule_sha256 k plans timings = Inr sha)"

text \<open>The distance of a candidate is measured over the arrivals of all blocks.\<close>

definition distance_exact :: "timing list \<Rightarrow> search_candidate \<Rightarrow> bool" where
  "distance_exact timings c \<longleftrightarrow>
     (let moves = map advance_of (concat (map tm_arrivals timings))
      in sc_max_advance_ns c = Max (set moves) \<and> sc_total_advance_ns c = sum_list moves
         \<and> sc_moved_offers c = int (length (filter (\<lambda>m. 0 < m) moves)))"

definition candidate_exact :: "codec \<Rightarrow> plan_reader \<Rightarrow> json list \<Rightarrow> members \<Rightarrow> search_candidate \<Rightarrow> bool" where
  "candidate_exact k vp plans options c \<longleftrightarrow>
     list_all (recipe_scheduled k vp plans (sc_schedule_sha256 c)) (recipes_of c)
     \<and> (\<exists>timings p. recipe_timings k vp plans (sc_parameters c) = Inr timings \<and> distance_exact timings c
          \<and> sc_timing_sha256s c = map tm_timing_sha256 timings
          \<and> make_protocol k vp plans (candidate_options (sc_parameters c) options) = Inr p
          \<and> sc_protocol_sha256 c = pc_sha256 p)"

lemma recipe_timings_ok:
  "recipe_timings k vp plans r = Inr ts \<longleftrightarrow>
     list_all2 (\<lambda>plan t. make_timing k vp plan (JInt (rc_group_size r)) (JInt (rc_spacing_bps r))
       (JInt (rc_max_advance_ns r)) = Inr t) plans ts"
  by (simp add: recipe_timings_def res_map_eq_Inr)

text \<open>What the fields of the timings of a recipe say of their arrivals.\<close>

lemma recipe_timing_fields:
  assumes "recipe_timings k vp plans r = Inr ts" "t \<in> set ts"
  shows "tm_moved_count t = moved (tm_arrivals t)" "tm_arrivals t \<noteq> []"
    "tm_max_applied_advance_ns t = Max (set (map advance_of (tm_arrivals t)))"
    "0 \<le> tm_max_applied_advance_ns t" "tm_max_applied_advance_ns t \<le> max_exact_integer"
proof -
  from assms obtain plan where "make_timing k vp plan (JInt (rc_group_size r)) (JInt (rc_spacing_bps r))
      (JInt (rc_max_advance_ns r)) = Inr t" unfolding recipe_timings_ok by (meson list_all2_right)
  then obtain os d m where made: "m \<le> d" "d \<le> max_exact_integer" "list_all2 (advances d m) os (tm_arrivals t)"
    "tm_arrivals t \<noteq> []" "tm_max_applied_advance_ns t = Max (set (map advance_of (tm_arrivals t)))"
    "tm_moved_count t = moved (tm_arrivals t)" by (rule made_advances)
  with list_all2_advances_max [OF made(3,4)] show "tm_moved_count t = moved (tm_arrivals t)" "tm_arrivals t \<noteq> []"
    "tm_max_applied_advance_ns t = Max (set (map advance_of (tm_arrivals t)))"
    "0 \<le> tm_max_applied_advance_ns t" "tm_max_applied_advance_ns t \<le> max_exact_integer" by auto
qed

lemma moved_none: "moved as = 0 \<longleftrightarrow> list_all (\<lambda>a. advance_of a \<le> 0) as"
  by (auto simp: moved_def list_all_iff filter_empty_conv)

lemma Max_concat:
  assumes "xss \<noteq> []" "list_all (\<lambda>xs. xs \<noteq> []) xss"
  shows "Max (set (map (\<lambda>xs. Max (set xs)) xss)) = Max (set (concat xss) :: int set)"
  using assms
proof (induction xss)
  case (Cons xs xss)
  show ?case
  proof (cases "xss = []")
    case False
    then have "concat xss \<noteq> []" using Cons.prems(2) by (cases xss) auto
    then have "Max (set xs \<union> set (concat xss)) = max (Max (set xs)) (Max (set (concat xss)))"
      using Cons.prems(2) by (intro Max_Un) auto
    moreover have "Max (set (map (\<lambda>xs. Max (set xs)) (xs # xss)))
        = max (Max (set xs)) (Max (set (map (\<lambda>xs. Max (set xs)) xss)))" using False by simp
    ultimately show ?thesis using Cons False by simp
  qed simp
qed simp

lemma new_candidate_exact:
  assumes "recipe_timings k vp plans r = Inr ts" "max_of (map tm_max_applied_advance_ns ts) = Inr applied"
  shows "distance_exact ts (new_candidate r ts sha applied p)"
proof -
  note fields = recipe_timing_fields [OF assms(1)]
  have ts: "ts \<noteq> []" "applied = Max (set (map tm_max_applied_advance_ns ts))"
    using assms(2) by (auto simp: max_of_def split: if_splits)
  have "map tm_max_applied_advance_ns ts = map (\<lambda>xs. Max (set xs)) (map (\<lambda>t. map advance_of (tm_arrivals t)) ts)"
    using fields(3) by simp
  then have "applied = Max (set (concat (map (\<lambda>t. map advance_of (tm_arrivals t)) ts)))"
    unfolding ts(2) using ts(1) fields(2) by (subst Max_concat [symmetric]) (auto simp: list_all_iff)
  moreover have "concat (map (\<lambda>t. map advance_of (tm_arrivals t)) ts) = map advance_of (concat (map tm_arrivals ts))"
    by (simp add: map_concat comp_def)
  moreover have "total_advance ts = sum_list (map advance_of (concat (map tm_arrivals ts)))"
    unfolding total_advance_def by (induction ts) simp_all
  moreover have "map tm_moved_count ts = map (\<lambda>t. moved (tm_arrivals t)) ts" using fields(1) by simp
  then have "sum_list (map tm_moved_count ts)
      = int (length (filter (\<lambda>m. 0 < m) (map advance_of (concat (map tm_arrivals ts)))))"
    by (simp only:) (induction ts, simp_all add: moved_def filter_map comp_def)
  ultimately show ?thesis by (simp add: distance_exact_def new_candidate_def Let_def)
qed

section \<open>The invariant of the grid loop\<close>

definition grid_exact ::
  "codec \<Rightarrow> plan_reader \<Rightarrow> json list \<Rightarrow> members \<Rightarrow> recipe multiset \<Rightarrow> recipe list \<times> search_candidate list \<Rightarrow> bool" where
  "grid_exact k vp plans options tried st \<longleftrightarrow>
     mset (fst st @ concat (map recipes_of (snd st))) = tried
     \<and> distinct (map sc_schedule_sha256 (snd st))
     \<and> list_all (recipe_excluded k vp plans) (fst st)
     \<and> list_all (candidate_exact k vp plans options) (snd st)"

lemma add_alias_fields:
  "map sc_schedule_sha256 (add_alias sha r cs) = map sc_schedule_sha256 cs"
  by (simp add: add_alias_def comp_def if_distrib cong: if_cong)

lemma add_alias_recipes:
  assumes "distinct (map sc_schedule_sha256 cs)" "sha \<in> set (map sc_schedule_sha256 cs)"
  shows "mset (concat (map recipes_of (add_alias sha r cs))) = add_mset r (mset (concat (map recipes_of cs)))"
  using assms
proof (induction cs)
  case (Cons c cs)
  show ?case
  proof (cases "sc_schedule_sha256 c = sha")
    case True
    then have "sc_schedule_sha256 x \<noteq> sha" if "x \<in> set cs" for x
      using Cons.prems(1) that by (auto simp: image_iff)
    then have "add_alias sha r cs = cs" by (simp add: add_alias_def map_idI)
    with True show ?thesis by (simp add: add_alias_def recipes_of_def)
  next
    case False
    with Cons show ?thesis by (simp add: add_alias_def)
  qed
qed simp

lemma aliased_exact:
  assumes "candidate_exact k vp plans options c" "recipe_scheduled k vp plans (sc_schedule_sha256 c) r"
  shows "candidate_exact k vp plans options (c\<lparr>sc_aliases := sc_aliases c @ [r]\<rparr>)"
  using assms by (simp add: candidate_exact_def recipes_of_def distance_exact_def)

lemma try_recipe_exact:
  assumes "grid_exact k vp plans options tried st" "try_recipe k vp plans options st r = Inr st'"
  shows "grid_exact k vp plans options (add_mset r tried) st'"
proof -
  obtain excluded cs where st: "st = (excluded, cs)" by (cases st)
  from assms(2) obtain ts where ts: "recipe_timings k vp plans r = Inr ts" by (auto simp: try_recipe_def st result_simps)
  have still: "list_ex (\<lambda>t. tm_moved_count t = 0) ts \<longleftrightarrow> list_ex (\<lambda>t. list_all (\<lambda>a. advance_of a \<le> 0) (tm_arrivals t)) ts"
    unfolding list_ex_iff using recipe_timing_fields(1) [OF ts] moved_none by metis
  show ?thesis
  proof (cases "list_ex (\<lambda>t. tm_moved_count t = 0) ts")
    case True
    with ts still have "recipe_excluded k vp plans r" by (auto simp: recipe_excluded_def)
    with True assms ts show ?thesis by (auto simp: try_recipe_def st grid_exact_def)
  next
    case False
    then have moving: "list_all (\<lambda>t. list_ex (\<lambda>a. 0 < advance_of a) (tm_arrivals t)) ts"
      unfolding still by (auto simp: list_all_iff list_ex_iff not_le)
    from assms(2) False ts obtain sha where sha: "schedule_sha256 k plans ts = Inr sha"
      by (auto simp: try_recipe_def st result_simps)
    with ts moving have scheduled: "recipe_scheduled k vp plans sha r" by (auto simp: recipe_scheduled_def)
    show ?thesis
    proof (cases "sha \<in> set (map sc_schedule_sha256 cs)")
      case True
      then have st': "st' = (excluded, add_alias sha r cs)"
        using assms(2) False ts sha by (auto simp: try_recipe_def st)
      have "list_all (candidate_exact k vp plans options) (add_alias sha r cs)"
        using assms(1) aliased_exact scheduled by (auto simp: grid_exact_def st add_alias_def list_all_iff)
      with assms(1) add_alias_recipes [OF _ True] show ?thesis
        by (simp add: grid_exact_def st st' add_alias_fields)
    next
      case fresh: False
      with assms(2) False ts sha obtain p applied where p: "make_protocol k vp plans (candidate_options r options) = Inr p"
        "max_of (map tm_max_applied_advance_ns ts) = Inr applied"
        "st' = (excluded, cs @ [new_candidate r ts sha applied p])"
        by (auto simp: try_recipe_def st result_simps)
      have "candidate_exact k vp plans options (new_candidate r ts sha applied p)"
        using ts p(1) scheduled new_candidate_exact [OF ts p(2)]
        by (simp add: candidate_exact_def recipes_of_def new_candidate_def)
      with assms(1) fresh show ?thesis
        by (simp add: grid_exact_def st p(3) recipes_of_def new_candidate_def)
    qed
  qed
qed

lemma grid_fold_exact:
  assumes "grid_exact k vp plans options tried st" "res_fold (try_recipe k vp plans options) st rs = Inr st'"
  shows "grid_exact k vp plans options (tried + mset rs) st'"
  using assms
proof (induction rs arbitrary: st tried)
  case (Cons r rs)
  from Cons.prems(2) obtain st1 where st1: "try_recipe k vp plans options st r = Inr st1"
    "res_fold (try_recipe k vp plans options) st1 rs = Inr st'" by (auto simp: result_simps)
  from Cons.IH [OF try_recipe_exact [OF Cons.prems(1) st1(1)] st1(2)] show ?case by simp
qed simp

section \<open>What a search plan says\<close>

lemma axis_ok:
  assumes "axis v low high label = Inr xs"
  shows "xs \<noteq> []" "distinct xs" "sorted xs" "list_all (\<lambda>x. low \<le> x \<and> x \<le> high) xs" "length xs \<le> 16"
proof -
  from assms obtain js ys where js: "v = JArr js" "js \<noteq> []" "length js \<le> 16"
    "res_map (\<lambda>j. exact_integer j low high label) js = Inr ys" "distinct ys" "xs = sort ys"
    by (auto simp: axis_def result_simps split: json.splits if_splits)
  have "list_all (\<lambda>x. low \<le> x \<and> x \<le> high) ys"
    using js(4) by (auto simp: res_map_eq_Inr exact_integer_ok list_all2_conv_all_nth list_all_length)
  moreover have len: "length xs = length js" using js(6) res_map_length [OF js(4)] by simp
  moreover from len js(2) show "xs \<noteq> []" by force
  ultimately show "distinct xs" "sorted xs"
    "list_all (\<lambda>x. low \<le> x \<and> x \<le> high) xs" "length xs \<le> 16"
    using js by (auto simp: list_all_iff)
qed

lemma grid_distinct: "distinct gs \<Longrightarrow> distinct ss \<Longrightarrow> distinct as \<Longrightarrow> distinct (grid gs ss as)"
  by (auto simp: grid_def distinct_map distinct_product inj_on_def)

lemma length_grid: "length (grid gs ss as) = length gs * length ss * length as"
  by (simp add: grid_def mult.assoc)

lemma make_search_plan_parts:
  assumes "make_search_plan k vp plans options gs ss as mc ms = Inr sp"
  obtains excluded cs bounds where
    "comparison_options options = Inr (sp_options sp)" "mc = JInt (sp_max_candidates sp)" "ms = JInt (sp_max_trial_slots sp)"
    "1 \<le> sp_max_candidates sp" "sp_max_candidates sp \<le> 128" "1 \<le> sp_max_trial_slots sp" "sp_max_trial_slots sp \<le> 16384"
    "res_map plan_bounds plans = Inr bounds"
    "axis gs 1 1024 ''group_sizes'' = Inr (sp_groups sp)" "axis ss 0 10000 ''retained_spacing_bps'' = Inr (sp_spacings sp)"
    "axis as 0 (Min (set (map snd bounds))) ''max_advances_ns'' = Inr (sp_advances sp)"
    "length (sp_groups sp) * length (sp_spacings sp) * length (sp_advances sp) \<le> max_grid_recipes"
    "int (length (sp_groups sp) * length (sp_spacings sp) * length (sp_advances sp)) * sum_list (map fst bounds)
       \<le> max_grid_offer_work"
    "4 \<le> length plans" "length plans \<le> 32" "length plans mod 4 = 0"
    "res_fold (try_recipe k vp plans (sp_options sp)) ([], [])
       (grid (sp_groups sp) (sp_spacings sp) (sp_advances sp)) = Inr (excluded, cs)"
    "cs \<noteq> []" "sp_candidates sp = sort_key rank_key cs" "sp_excluded sp = excluded" "sp_slots sp = 4 * int (length plans)"
    "res_map (\<lambda>plan. need (plan_members plan) ''plan_sha256'') plans = Inr (sp_base_plan_sha256s sp)"
proof -
  from assms obtain opts c n bounds groups spacings limits where parts: "comparison_options options = Inr opts"
    "mc = JInt c" "1 \<le> c" "c \<le> 128" "ms = JInt n" "1 \<le> n" "n \<le> 16384" "res_map plan_bounds plans = Inr bounds"
    "axis gs 1 1024 ''group_sizes'' = Inr groups" "axis ss 0 10000 ''retained_spacing_bps'' = Inr spacings"
    "axis as 0 (Min (set (map snd bounds))) ''max_advances_ns'' = Inr limits"
    "length groups * length spacings * length limits \<le> max_grid_recipes"
    "int (length groups * length spacings * length limits) * sum_list (map fst bounds) \<le> max_grid_offer_work"
    "4 \<le> length plans" "length plans \<le> 32" "length plans mod 4 = 0"
    "build_search_plan k vp plans opts groups spacings limits c n = Inr sp"
    unfolding make_search_plan_def Let_def by (elim rbind_okE) (auto simp: exact_integer_ok not_less)
  from parts(17) obtain excluded cs where grid: "res_fold (try_recipe k vp plans opts) ([], [])
       (grid groups spacings limits) = Inr (excluded, cs)"
    "cs \<noteq> []" "sp_candidates sp = sort_key rank_key cs" "sp_excluded sp = excluded" "sp_slots sp = 4 * int (length plans)"
    and built: "sp_options sp = opts" "sp_groups sp = groups" "sp_spacings sp = spacings" "sp_advances sp = limits"
      "sp_max_candidates sp = c" "sp_max_trial_slots sp = n"
      "res_map (\<lambda>plan. need (plan_members plan) ''plan_sha256'') plans = Inr (sp_base_plan_sha256s sp)"
    by (auto simp: build_search_plan_def run_grid_def Let_def result_simps)
  show thesis
    by (rule that [of bounds excluded cs]) (use parts grid built in simp_all)
qed

text \<open>The candidates of a plan, before and after ranking.\<close>

lemma grid_candidates:
  assumes "make_search_plan k vp plans options gs ss as mc ms = Inr sp"
  shows "mset (sp_excluded sp @ concat (map recipes_of (sp_candidates sp)))
       = mset (grid (sp_groups sp) (sp_spacings sp) (sp_advances sp))"
    "distinct (grid (sp_groups sp) (sp_spacings sp) (sp_advances sp))"
    "length (grid (sp_groups sp) (sp_spacings sp) (sp_advances sp)) \<le> max_grid_recipes"
    "list_all (recipe_excluded k vp plans) (sp_excluded sp)"
    "list_all (candidate_exact k vp plans (sp_options sp)) (sp_candidates sp)"
    "distinct (map sc_schedule_sha256 (sp_candidates sp))" "sorted (map rank_key (sp_candidates sp))"
proof -
  from assms obtain excluded cs and bounds :: "(int \<times> int) list" where parts:
    "axis gs 1 1024 ''group_sizes'' = Inr (sp_groups sp)" "axis ss 0 10000 ''retained_spacing_bps'' = Inr (sp_spacings sp)"
    "axis as 0 (Min (set (map snd bounds))) ''max_advances_ns'' = Inr (sp_advances sp)"
    "length (sp_groups sp) * length (sp_spacings sp) * length (sp_advances sp) \<le> max_grid_recipes"
    "res_fold (try_recipe k vp plans (sp_options sp)) ([], [])
       (grid (sp_groups sp) (sp_spacings sp) (sp_advances sp)) = Inr (excluded, cs)"
    "sp_candidates sp = sort_key rank_key cs" "sp_excluded sp = excluded"
    by (rule make_search_plan_parts) (rule that; assumption)
  have "grid_exact k vp plans (sp_options sp) {#} ([], [])" by (simp add: grid_exact_def)
  from grid_fold_exact [OF this parts(5)] have exact:
    "mset (excluded @ concat (map recipes_of cs)) = mset (grid (sp_groups sp) (sp_spacings sp) (sp_advances sp))"
    "distinct (map sc_schedule_sha256 cs)" "list_all (recipe_excluded k vp plans) excluded"
    "list_all (candidate_exact k vp plans (sp_options sp)) cs" by (simp_all add: grid_exact_def)
  have perm: "mset (sp_candidates sp) = mset cs" by (simp add: parts(6))
  show "mset (sp_excluded sp @ concat (map recipes_of (sp_candidates sp)))
       = mset (grid (sp_groups sp) (sp_spacings sp) (sp_advances sp))"
    using exact(1) mset_concat_perm [OF perm, of recipes_of] by (simp add: parts(7))
  show "distinct (grid (sp_groups sp) (sp_spacings sp) (sp_advances sp))"
    by (intro grid_distinct axis_ok(2) [OF parts(1)] axis_ok(2) [OF parts(2)] axis_ok(2) [OF parts(3)])
  show "length (grid (sp_groups sp) (sp_spacings sp) (sp_advances sp)) \<le> max_grid_recipes"
    using parts(4) by (simp add: length_grid)
  show "list_all (recipe_excluded k vp plans) (sp_excluded sp)" using exact(3) by (simp add: parts(7))
  show "list_all (candidate_exact k vp plans (sp_options sp)) (sp_candidates sp)"
    using exact(4) list_all_perm [OF perm] by blast
  show "distinct (map sc_schedule_sha256 (sp_candidates sp))"
    using exact(2) mset_map_perm [OF perm, of sc_schedule_sha256] by (metis mset_eq_imp_distinct_iff)
  show "sorted (map rank_key (sp_candidates sp))" by (simp add: parts(6))
qed

lemma ranked_strictly:
  assumes "make_search_plan k vp plans options gs ss as mc ms = Inr sp"
  shows "sorted_wrt (<) (map rank_key (sp_candidates sp))"
proof -
  have "distinct (map (snd \<circ> snd \<circ> snd) (map rank_key (sp_candidates sp)))"
    using grid_candidates(6) [OF assms] by (simp add: rank_key_def comp_def)
  then have "distinct (map rank_key (sp_candidates sp))" by (rule distinct_map [THEN iffD1, THEN conjunct1])
  with grid_candidates(7) [OF assms] show ?thesis by (simp add: strict_sorted_iff)
qed

text \<open>The part of the ranking that fits the budget.\<close>

lemma scheduled_bounds:
  assumes "make_search_plan k vp plans options gs ss as mc ms = Inr sp"
  shows "0 \<le> scheduled_count sp" "scheduled_count sp \<le> int (length (sp_candidates sp))"
    "scheduled_count sp \<le> sp_max_candidates sp" "scheduled_count sp * sp_slots sp \<le> sp_max_trial_slots sp"
    "sp_candidates sp \<noteq> []"
proof -
  from assms obtain excluded cs where parts: "1 \<le> sp_max_candidates sp" "1 \<le> sp_max_trial_slots sp" "4 \<le> length plans"
    "cs \<noteq> []" "sp_candidates sp = sort_key rank_key cs" "sp_slots sp = 4 * int (length plans)"
    by (rule make_search_plan_parts)
  have slots: "0 < sp_slots sp" using parts(3) unfolding parts(6) by linarith
  then have quotient: "0 \<le> sp_max_trial_slots sp div sp_slots sp" using parts(2) by (simp add: pos_imp_zdiv_nonneg_iff)
  have "scheduled_count sp * sp_slots sp \<le> sp_max_trial_slots sp div sp_slots sp * sp_slots sp"
    by (intro mult_right_mono) (use slots in \<open>simp_all add: scheduled_count_def\<close>)
  also have "\<dots> \<le> sp_max_trial_slots sp" using div_mult_mod_eq [of "sp_max_trial_slots sp" "sp_slots sp"] slots
    by (smt (verit) pos_mod_sign)
  finally show "scheduled_count sp * sp_slots sp \<le> sp_max_trial_slots sp" .
  show "0 \<le> scheduled_count sp" "scheduled_count sp \<le> int (length (sp_candidates sp))"
    "scheduled_count sp \<le> sp_max_candidates sp" using quotient parts(1) by (auto simp: scheduled_count_def)
  have "mset (sp_candidates sp) = mset cs" by (simp add: parts(5))
  with parts(4) show "sp_candidates sp \<noteq> []" by (metis mset_zero_iff)
qed

text \<open>
  C9: what a search plan stands for. Every recipe of the grid is either excluded, because it leaves a block
  as it was, or belongs to exactly one candidate, whose schedule it produces; a candidate's distance is the
  one of its first recipe over all arrivals; candidates are ranked strictly by distance; and the candidates
  that are scheduled fit the budget of comparisons and of trials.
\<close>

theorem search_plan_ranked:
  assumes "make_search_plan k vp plans options gs ss as mc ms = Inr sp"
  shows "mset (sp_excluded sp @ concat (map recipes_of (sp_candidates sp)))
       = mset (grid (sp_groups sp) (sp_spacings sp) (sp_advances sp))
     \<and> distinct (sp_excluded sp @ concat (map recipes_of (sp_candidates sp)))
     \<and> length (grid (sp_groups sp) (sp_spacings sp) (sp_advances sp)) \<le> max_grid_recipes
     \<and> list_all (recipe_excluded k vp plans) (sp_excluded sp)
     \<and> list_all (candidate_exact k vp plans (sp_options sp)) (sp_candidates sp)
     \<and> sp_candidates sp \<noteq> [] \<and> sorted_wrt (<) (map rank_key (sp_candidates sp))
     \<and> distinct (map sc_schedule_sha256 (sp_candidates sp))
     \<and> 0 \<le> scheduled_count sp \<and> scheduled_count sp \<le> int (length (sp_candidates sp))
     \<and> scheduled_count sp \<le> sp_max_candidates sp \<and> scheduled_count sp * sp_slots sp \<le> sp_max_trial_slots sp"
proof -
  note made = grid_candidates [OF assms] and budget = scheduled_bounds [OF assms]
  have "distinct (sp_excluded sp @ concat (map recipes_of (sp_candidates sp)))"
    using made(1,2) by (metis mset_eq_imp_distinct_iff)
  moreover note ranked_strictly [OF assms]
  ultimately show ?thesis using made budget by blast
qed

section \<open>A search plan regenerates itself\<close>

lemma comparison_options_ok:
  assumes "comparison_options v = Inr ms"
  shows "v = JObj ms" "plain_value (JObj ms)"
proof -
  from assms obtain xs where xs: "v = JObj xs" by (cases v) (auto simp: comparison_options_def)
  with assms have "xs = ms" "artifact_types False [] v = Inr ()"
    unfolding comparison_options_def xs json.case by (auto elim!: rbind_okE)
  with xs show "v = JObj ms" "plain_value (JObj ms)" by (simp_all add: plain_value_def)
qed

lemma axis_again:
  assumes "axis v low high label = Inr xs"
  shows "axis (JArr (map JInt xs)) low high label = Inr xs"
proof -
  note ok = axis_ok [OF assms]
  have "list_all2 (\<lambda>j y. exact_integer j low high label = Inr y) (map JInt xs) xs"
    using ok(4) by (auto simp: list_all2_conv_all_nth list_all_length exact_integer_ok)
  then have "res_map (\<lambda>j. exact_integer j low high label) (map JInt xs) = Inr xs" by (simp add: res_map_eq_Inr)
  moreover have "sort xs = xs" using ok(3) by (rule sorted_sort_id)
  ultimately show ?thesis using ok by (simp add: axis_def not_less)
qed

lemma make_search_plan_again:
  assumes "make_search_plan k vp plans options gs ss as mc ms = Inr sp"
  shows "make_search_plan k vp plans (JObj (sp_options sp)) (JArr (map JInt (sp_groups sp)))
    (JArr (map JInt (sp_spacings sp))) (JArr (map JInt (sp_advances sp))) (JInt (sp_max_candidates sp))
    (JInt (sp_max_trial_slots sp)) = Inr sp"
  using assms
proof (rule make_search_plan_parts, goal_cases)
  case (1 excluded cs bounds)
  show ?case
    using assms
    unfolding make_search_plan_def comparison_options_ok(1) [OF 1(1)] 1(2,3,8) rbind.simps 1(9-11)
      axis_again [OF 1(9)] axis_again [OF 1(10)] axis_again [OF 1(11)] .
qed

lemma plan_bounds_ok: "plan_bounds plan = Inr b \<Longrightarrow> 3 \<le> snd b \<and> snd b \<le> max_exact_integer"
  by (auto simp: plan_bounds_def result_simps exact_integer_ok split: json.splits)

lemma plan_bounds_durations:
  assumes "res_map plan_bounds plans = Inr bounds" "plans \<noteq> []"
  shows "Min (set (map snd bounds)) \<le> max_exact_integer"
proof -
  have "list_all (\<lambda>b. snd b \<le> max_exact_integer) bounds"
    unfolding list_all_iff
  proof
    fix b assume "b \<in> set bounds"
    from list_all2_right [OF assms(1) [unfolded res_map_eq_Inr] this] plan_bounds_ok show "snd b \<le> max_exact_integer" by blast
  qed
  moreover obtain b where "b \<in> set bounds" using res_map_length [OF assms(1)] assms(2) by (cases bounds) auto
  ultimately show ?thesis by (auto simp: list_all_iff intro!: order_trans [OF Min_le])
qed

text \<open>Ranges of what an artifact of a search plan holds.\<close>

definition recipe_plain :: "recipe \<Rightarrow> bool" where
  "recipe_plain r \<longleftrightarrow> plain_value (recipe_json r)"

lemma grid_plain:
  assumes "list_all (\<lambda>x. 0 \<le> x \<and> x \<le> max_exact_integer) gs" "list_all (\<lambda>x. 0 \<le> x \<and> x \<le> max_exact_integer) ss"
    and "list_all (\<lambda>x. 0 \<le> x \<and> x \<le> max_exact_integer) as"
  shows "list_all recipe_plain (grid gs ss as)"
  using assms by (auto simp: grid_def recipe_plain_def recipe_json_def list_all_iff max_exact_integer_def)

lemma candidate_distance_bounds:
  assumes "candidate_exact k vp plans options c" "plans \<noteq> []"
  shows "0 \<le> sc_max_advance_ns c" "sc_max_advance_ns c \<le> max_exact_integer" "0 \<le> sc_moved_offers c"
    "plan \<in> set plans \<Longrightarrow> \<exists>os. source_offers k vp plan = Inr os"
proof -
  from assms(1) obtain ts where ts: "recipe_timings k vp plans (sc_parameters c) = Inr ts" "distance_exact ts c"
    by (auto simp: candidate_exact_def)
  then have made: "list_all2 (\<lambda>plan t. make_timing k vp plan (JInt (rc_group_size (sc_parameters c)))
      (JInt (rc_spacing_bps (sc_parameters c))) (JInt (rc_max_advance_ns (sc_parameters c))) = Inr t) plans ts"
    by (simp add: recipe_timings_ok)
  then obtain t where t: "t \<in> set ts" using assms(2) by (cases ts) auto
  have bound: "0 \<le> advance_of a \<and> advance_of a \<le> max_exact_integer" if u: "u \<in> set ts" and a: "a \<in> set (tm_arrivals u)" for u a
  proof -
    obtain plan where "make_timing k vp plan (JInt (rc_group_size (sc_parameters c)))
      (JInt (rc_spacing_bps (sc_parameters c))) (JInt (rc_max_advance_ns (sc_parameters c))) = Inr u"
      using list_all2_right [OF made u] by blast
    then obtain os d m where adv: "m \<le> d" "d \<le> max_exact_integer" "list_all2 (advances d m) os (tm_arrivals u)"
      by (rule made_advances)
    from list_all2_right [OF adv(3) a] adv(1,2) show ?thesis by (auto simp: advances_def advance_of_def)
  qed
  let ?moves = "map advance_of (concat (map tm_arrivals ts))"
  have "?moves \<noteq> []" using t recipe_timing_fields(2) [OF ts(1) t] by auto
  moreover have "\<forall>m \<in> set ?moves. 0 \<le> m \<and> m \<le> max_exact_integer" using bound by auto
  ultimately have "0 \<le> Max (set ?moves)" "Max (set ?moves) \<le> max_exact_integer"
    using Max_in [of "set ?moves"] by (auto simp del: set_map)
  then show "0 \<le> sc_max_advance_ns c" "sc_max_advance_ns c \<le> max_exact_integer" "0 \<le> sc_moved_offers c"
    using ts(2) by (simp_all add: distance_exact_def Let_def)
  assume "plan \<in> set plans"
  with made obtain u where "make_timing k vp plan (JInt (rc_group_size (sc_parameters c)))
      (JInt (rc_spacing_bps (sc_parameters c))) (JInt (rc_max_advance_ns (sc_parameters c))) = Inr u"
    by (auto simp: list_all2_conv_all_nth in_set_conv_nth)
  then show "\<exists>os. source_offers k vp plan = Inr os" by (rule made_advances) blast
qed

lemma axis_plain:
  assumes "axis v 0 high label = Inr xs \<or> axis v 1 high label = Inr xs" "high \<le> max_exact_integer"
  shows "list_all (\<lambda>x. 0 \<le> x \<and> x \<le> max_exact_integer) xs"
  using assms axis_ok(4) by (fastforce simp: list_all_iff)

lemma recipes_in_grid:
  assumes "mset (excluded @ concat (map recipes_of cs)) = mset rs" "list_all recipe_plain rs"
  shows "list_all recipe_plain excluded" "c \<in> set cs \<Longrightarrow> list_all recipe_plain (recipes_of c)"
proof -
  have "set (excluded @ concat (map recipes_of cs)) = set rs" using assms(1) by (metis set_mset_mset)
  then have "r \<in> set rs" if "r \<in> set excluded \<or> (\<exists>c \<in> set cs. r \<in> set (recipes_of c))" for r using that by auto
  with assms(2) show "list_all recipe_plain excluded" "c \<in> set cs \<Longrightarrow> list_all recipe_plain (recipes_of c)"
    unfolding list_all_iff by blast+
qed

lemma candidate_plain:
  assumes "candidate_exact k vp plans options c" "plans \<noteq> []" "list_all recipe_plain (recipes_of c)"
    and "sc_moved_offers c \<le> max_exact_integer" "int rank \<le> max_exact_integer"
  shows "plain_value (candidate_json (rank, c))"
proof -
  note bounds = candidate_distance_bounds [OF assms(1,2)]
  have "plain_value (distance_json c)"
    using bounds(1-3) assms(4) by (simp add: distance_json_def max_exact_integer_def)
  moreover have "plain_value (recipe_json (sc_parameters c))" "list_all plain_value (map recipe_json (sc_aliases c))"
    using assms(3) by (simp_all add: recipes_of_def recipe_plain_def list_all_iff)
  ultimately show ?thesis using assms(5)
    by (simp add: candidate_json_def list_all_iff max_exact_integer_def)
qed

lemma length_recipes: "length cs \<le> length (concat (map recipes_of cs))"
  by (induction cs) (simp_all add: recipes_of_def)

lemma search_plan_members:
  "search_plan_json sp = JObj (plan_members (search_plan_json sp))"
  "get_null (plan_members (search_plan_json sp)) ''axes'' = JObj (plan_members (jobj [(''group_sizes'', JArr (map JInt (sp_groups sp))),
     (''retained_spacing_bps'', JArr (map JInt (sp_spacings sp))), (''max_advances_ns'', JArr (map JInt (sp_advances sp)))]))"
  "need (plan_members (search_plan_json sp)) ''comparison_options'' = Inr (JObj (sp_options sp))"
  "need (plan_members (search_plan_json sp)) ''max_candidates'' = Inr (JInt (sp_max_candidates sp))"
  "need (plan_members (search_plan_json sp)) ''max_trial_slots'' = Inr (JInt (sp_max_trial_slots sp))"
  by (simp_all add: search_plan_json_def search_plan_fields_def jobj_def plan_members_def need_def)

lemma search_plan_plain:
  assumes "make_search_plan k vp plans options gs ss as mc ms = Inr sp"
    and "list_all (\<lambda>c. sc_moved_offers c \<le> max_exact_integer) (sp_candidates sp)"
  shows "plain_value (search_plan_json sp)"
  using assms(1)
proof (rule make_search_plan_parts, goal_cases)
  case (1 excluded cs bounds)
  note made = grid_candidates [OF assms(1)] and budget = scheduled_bounds [OF assms(1)]
  have plans: "plans \<noteq> []" using 1(14) by auto
  have big: "1024 \<le> max_exact_integer" "10000 \<le> max_exact_integer" "16384 \<le> max_exact_integer"
    by (simp_all add: max_exact_integer_def)
  have axes: "list_all (\<lambda>x. 0 \<le> x \<and> x \<le> max_exact_integer) (sp_groups sp)"
    "list_all (\<lambda>x. 0 \<le> x \<and> x \<le> max_exact_integer) (sp_spacings sp)"
    "list_all (\<lambda>x. 0 \<le> x \<and> x \<le> max_exact_integer) (sp_advances sp)"
    using axis_plain 1(9-11) big plan_bounds_durations [OF 1(8) plans] by blast+
  then have ints: "list_all plain_value (map JInt (sp_groups sp))" "list_all plain_value (map JInt (sp_spacings sp))"
    "list_all plain_value (map JInt (sp_advances sp))"
    by (auto simp: list_all_iff max_exact_integer_def)
  note recipes = recipes_in_grid [OF made(1) grid_plain [OF axes]]
  have "length (sp_candidates sp) \<le> length (concat (map recipes_of (sp_candidates sp)))" by (rule length_recipes)
  also have "\<dots> \<le> 128" using arg_cong [OF made(1), of size] made(3) by (simp add: max_grid_recipes_def)
  finally have count: "length (sp_candidates sp) \<le> 128" .
  have "plain_value (candidate_json x)" if "x \<in> set (enumerate 1 (sp_candidates sp))" for x
  proof -
    obtain rank c where x: "x = (rank, c)" by (cases x)
    with that have c: "c \<in> set (sp_candidates sp)" "rank \<le> length (sp_candidates sp)"
      by (auto dest!: in_set_enumerate_eq [THEN iffD1])
    have "int rank \<le> max_exact_integer" using c(2) count by (simp add: max_exact_integer_def)
    with c made(5) assms(2) recipes(2) plans show ?thesis
      unfolding x by (intro candidate_plain) (auto simp: list_all_iff)
  qed
  moreover have "list_all plain_value (sp_base_plan_sha256s sp)"
    unfolding list_all_iff
  proof
    fix v assume "v \<in> set (sp_base_plan_sha256s sp)"
    from list_all2_right [OF 1(22) [unfolded res_map_eq_Inr] this] obtain plan where plan: "plan \<in> set plans"
      "need (plan_members plan) ''plan_sha256'' = Inr v" by blast
    from budget(5) obtain c where "candidate_exact k vp plans (sp_options sp) c"
      using made(5) by (cases "sp_candidates sp") auto
    from candidate_distance_bounds(4) [OF this plans plan(1)] obtain os where "source_offers k vp plan = Inr os" by blast
    from source_member_plain [OF this plan(2)] show "plain_value v" by simp
  qed
  moreover have "length (sp_groups sp) * length (sp_spacings sp) * length (sp_advances sp) \<le> 128"
    using 1(12) by (simp add: max_grid_recipes_def)
  then have "int (length (sp_groups sp) * length (sp_spacings sp) * length (sp_advances sp)) \<le> 128" by linarith
  ultimately show ?case
    using comparison_options_ok(2) [OF 1(1)] ints recipes(1) count budget(1-3) 1(4-7,15,21)
    by (simp add: search_plan_json_def search_plan_fields_def list_all_iff recipe_plain_def max_exact_integer_def del: of_nat_mult)
qed

lemma plain_search_plan_accepted:
  assumes "make_search_plan k vp plans options gs ss as mc ms = Inr sp"
    and "plain_value (search_plan_json sp)" and "cd_canonical k (search_plan_json sp) \<noteq> None"
  shows "validate_search_plan k vp plans (search_plan_json sp) = Inr sp"
proof -
  define axes where "axes = plan_members (jobj [(''group_sizes'', JArr (map JInt (sp_groups sp))),
     (''retained_spacing_bps'', JArr (map JInt (sp_spacings sp))), (''max_advances_ns'', JArr (map JInt (sp_advances sp)))])"
  have axis: "same_fields axes axis_names" "get_null axes ''group_sizes'' = JArr (map JInt (sp_groups sp))"
    "get_null axes ''retained_spacing_bps'' = JArr (map JInt (sp_spacings sp))"
    "get_null axes ''max_advances_ns'' = JArr (map JInt (sp_advances sp))"
    by (simp_all add: axes_def plan_members_def jobj_def same_fields_def axis_names_def)
  obtain ms where ms: "search_plan_json sp = JObj ms" "get_null ms ''axes'' = JObj axes"
    "need ms ''comparison_options'' = Inr (JObj (sp_options sp))"
    "need ms ''max_candidates'' = Inr (JInt (sp_max_candidates sp))"
    "need ms ''max_trial_slots'' = Inr (JInt (sp_max_trial_slots sp))"
    using search_plan_members [of sp, folded axes_def] by blast
  have types: "artifact_types False [] (JObj ms) = Inr ()"
    using assms(2) unfolding plain_value_def ms(1) .
  have same: "require_same k (JObj ms) (JObj ms) e = Inr ()" for e
    using assms(3) unfolding ms(1) by (rule regenerated_same)
  show ?thesis
    unfolding validate_search_plan_def ms(1) json.case ms(2-5) types axis(2-4) rbind.simps
      make_search_plan_again [OF assms(1)] same
    using axis(1) by simp
qed

text \<open>
  C29: a search plan round-trips: its artifact, checked against the same plans, regenerates the same grid,
  candidates, ranking and budget. The counts of moved offers must be exact integers and the artifact must
  have canonical bytes.
\<close>

theorem search_plan_roundtrip:
  assumes "make_search_plan k vp plans options gs ss as mc ms = Inr sp"
    and "list_all (\<lambda>c. sc_moved_offers c \<le> max_exact_integer) (sp_candidates sp)"
    and "cd_canonical k (search_plan_json sp) \<noteq> None"
  shows "validate_search_plan k vp plans (search_plan_json sp) = Inr sp"
  by (rule plain_search_plan_accepted [OF assms(1) search_plan_plain [OF assms(1,2)] assms(3)])

section \<open>A concrete search\<close>

definition demo_search_options :: members where
  "demo_search_options = plan_members (jobj [(''policy_a'', jstr ''round_robin''), (''policy_b'', jstr ''least_busy''),
     (''order_seed'', JInt 7), (''minimum_effect_microrps'', JInt 0),
     (''max_scheduling_lag_p95_ns'', JInt 100), (''max_client_queue_p95_ns'', JInt 100), (''model'', jstr ''m''),
     (''source_revision'', demo_hex 40), (''environment_sha256'', demo_digest_text),
     (''reset_procedure_sha256'', demo_digest_text)])"

lemma demo_search_checked: "comparison_options (JObj demo_search_options) = Inr demo_search_options"
proof -
  have options: "JObj demo_search_options = jobj [(''policy_a'', jstr ''round_robin''), (''policy_b'', jstr ''least_busy''),
     (''order_seed'', JInt 7), (''minimum_effect_microrps'', JInt 0),
     (''max_scheduling_lag_p95_ns'', JInt 100), (''max_client_queue_p95_ns'', JInt 100), (''model'', jstr ''m''),
     (''source_revision'', demo_hex 40), (''environment_sha256'', demo_digest_text),
     (''reset_procedure_sha256'', demo_digest_text)]"
    by (simp add: demo_search_options_def plan_members_def jobj_def)
  have "plain_value (JObj demo_search_options)"
    unfolding options by (simp add: demo_hex_def demo_digest_text_def max_exact_integer_def)
  then have types: "artifact_types False [] (JObj demo_search_options) = Inr ()" by (simp add: plain_value_def)
  have same: "same_fields demo_search_options comparison_option_names"
    by (simp add: same_fields_def demo_search_options_def plan_members_def jobj_def comparison_option_names_def)
  show ?thesis
    unfolding comparison_options_def json.case types
    by (simp add: same demo_policies demo_texts)
      (simp add: demo_search_options_def demo_fields demo_policies demo_texts exact_integer_def max_minimum_effect_def
        max_exact_integer_def)
qed

definition demo_recipe :: "int \<Rightarrow> recipe" where
  "demo_recipe m = \<lparr>rc_group_size = 2, rc_spacing_bps = 5000, rc_max_advance_ns = m\<rparr>"

lemma demo_sources:
  "res_fold (check_source demo_codec demo_reader) (None, []) (map demo_block [1, 2, 3, 4, 5, 6, 7, 8])
     = Inr (Some demo_contract, map JInt [8, 7, 6, 5, 4, 3, 2, 1])"
proof -
  have "check_source demo_codec demo_reader (common, seeds) (demo_block seed) = Inr (Some demo_contract, JInt seed # seeds)"
    if ok: "0 \<le> seed" "seed < 2 ^ 32" "JInt seed \<notin> set seeds" "common = None \<or> common = Some demo_contract"
    for common seeds seed
  proof -
    obtain t where "make_timing demo_codec demo_reader (demo_block seed) (JInt 1) (JInt 10000) (JInt 0) = Inr t"
      using demo_baseline_made [OF ok(1,2)] by blast
    with ok(3,4) show ?thesis by (auto simp: check_source_def demo_common demo_needed)
  qed
  then show ?thesis by simp
qed

text \<open>With no advance the compression moves nothing.\<close>

lemma demo_still_made:
  assumes "0 \<le> seed" "seed < 2 ^ 32"
  shows "\<exists>t. make_timing demo_codec demo_reader (demo_block seed) (JInt 2) (JInt 5000) (JInt 0) = Inr t \<and> tm_moved_count t = 0"
proof -
  obtain rows where rows: "population_rows demo_codec (plan_members (demo_block seed)) demo_os = Inr rows"
    using demo_population by blast
  have still: "max_of (map advance_of (compress 2 5000 0 0 0 (-1) demo_os)) = Inr 0"
    "moved (compress 2 5000 0 0 0 (-1) demo_os) = 0"
    by (simp_all add: demo_os_def demo_offer_def advance_of_def max_of_def moved_def Let_def)
  show ?thesis
    by (simp add: make_timing_def demo_offers_seed [OF assms] exact_integer_def demo_needed build_timing_def
        Let_def rows demo_digest still)
qed

lemma demo_recipe_timings:
  "recipe_timings demo_codec demo_reader (map demo_block [1, 2, 3, 4, 5, 6, 7, 8]) (demo_recipe 100) = Inr (map demo_timing [1, 2, 3, 4, 5, 6, 7, 8])"
  "\<exists>ts. recipe_timings demo_codec demo_reader (map demo_block [1, 2, 3, 4, 5, 6, 7, 8]) (demo_recipe 0) = Inr ts
     \<and> list_ex (\<lambda>t. tm_moved_count t = 0) ts"
proof -
  show "recipe_timings demo_codec demo_reader (map demo_block [1, 2, 3, 4, 5, 6, 7, 8]) (demo_recipe 100) = Inr (map demo_timing [1, 2, 3, 4, 5, 6, 7, 8])"
    by (simp add: recipe_timings_def demo_recipe_def demo_made_seed eval_nat_numeral)
  show "\<exists>ts. recipe_timings demo_codec demo_reader (map demo_block [1, 2, 3, 4, 5, 6, 7, 8]) (demo_recipe 0) = Inr ts
     \<and> list_ex (\<lambda>t. tm_moved_count t = 0) ts"
    using demo_still_made [of 1] demo_still_made [of 2] demo_still_made [of 3] demo_still_made [of 4]
      demo_still_made [of 5] demo_still_made [of 6] demo_still_made [of 7] demo_still_made [of 8]
    by (auto simp: recipe_timings_def demo_recipe_def)
qed

lemma demo_candidate_options:
  "same_fields (candidate_options (demo_recipe 100) demo_search_options) option_names"
  "key \<in> set option_names \<Longrightarrow> get_null (candidate_options (demo_recipe 100) demo_search_options) key = get_null demo_options key"
  by (simp_all add: candidate_options_def demo_search_options_def demo_options_def plan_members_def jobj_def same_fields_def
      option_names_def insert_commute recipe_json_def demo_recipe_def demo_parameters_def) auto

lemma demo_candidate_protocol:
  "\<exists>p. make_protocol demo_codec demo_reader (map demo_block [1, 2, 3, 4, 5, 6, 7, 8])
     (candidate_options (demo_recipe 100) demo_search_options) = Inr p \<and> pc_options p = demo_opts"
proof -
  obtain p where "make_protocol demo_codec demo_reader (map demo_block [1, 2, 3, 4, 5, 6, 7, 8]) demo_options = Inr p" "pc_options p = demo_opts"
    using demo_protocol [of "[1, 2, 3, 4, 5, 6, 7, 8]"] by (auto simp: demo_seeds_def)
  with make_protocol_cong [OF this(1) demo_candidate_options] show ?thesis by blast
qed

lemma demo_moves:
  "max_of (map tm_max_applied_advance_ns (map demo_timing [1, 2, 3, 4, 5, 6, 7, 8])) = Inr 20"
  "sum_list (map tm_moved_count (map demo_timing [1, 2, 3, 4, 5, 6, 7, 8])) = 8"
  "\<not> list_ex (\<lambda>t. tm_moved_count t = 0) (map demo_timing [1, 2, 3, 4, 5, 6, 7, 8])"
proof -
  have timing: "tm_moved_count (demo_timing seed) = 1" "tm_max_applied_advance_ns (demo_timing seed) = 20" for seed
    by (simp_all add: demo_timing_def)
  show "max_of (map tm_max_applied_advance_ns (map demo_timing [1, 2, 3, 4, 5, 6, 7, 8])) = Inr 20"
    "sum_list (map tm_moved_count (map demo_timing [1, 2, 3, 4, 5, 6, 7, 8])) = 8"
    by (simp_all add: max_of_def sum_list_replicate timing)
  show "\<not> list_ex (\<lambda>t. tm_moved_count t = 0) (map demo_timing [1, 2, 3, 4, 5, 6, 7, 8])"
    by (simp add: timing)
qed

lemma demo_schedule:
  "\<exists>sha. schedule_sha256 demo_codec (map demo_block [1, 2, 3, 4, 5, 6, 7, 8]) (map demo_timing [1, 2, 3, 4, 5, 6, 7, 8]) = Inr sha"
  by (simp add: schedule_sha256_def demo_needed demo_digest eval_nat_numeral)

lemma demo_grid:
  assumes "plans = map demo_block [1, 2, 3, 4, 5, 6, 7, 8]"
  shows "\<exists>c. run_grid demo_codec demo_reader plans demo_search_options (grid [2] [5000] [0, 100])
     = Inr ([demo_recipe 0], [c]) \<and> sc_moved_offers c = 8 \<and> sc_parameters c = demo_recipe 100"
proof -
  have recipes: "grid [2] [5000] [0, 100] = [demo_recipe 0, demo_recipe 100]"
    by (simp add: grid_def demo_recipe_def)
  obtain still where still: "recipe_timings demo_codec demo_reader plans (demo_recipe 0) = Inr still"
    "list_ex (\<lambda>t. tm_moved_count t = 0) still" using demo_recipe_timings(2) assms by blast
  obtain p where p: "make_protocol demo_codec demo_reader plans
      (candidate_options (demo_recipe 100) demo_search_options) = Inr p" using demo_candidate_protocol assms by blast
  obtain sha where sha: "schedule_sha256 demo_codec plans (map demo_timing [1, 2, 3, 4, 5, 6, 7, 8]) = Inr sha"
    using demo_schedule assms by blast
  have idle: "try_recipe demo_codec demo_reader plans demo_search_options ([], []) (demo_recipe 0) = Inr ([demo_recipe 0], [])"
    by (simp add: try_recipe_def still)
  define c where "c = new_candidate (demo_recipe 100) (map demo_timing [1, 2, 3, 4, 5, 6, 7, 8]) sha 20 p"
  have move: "try_recipe demo_codec demo_reader plans demo_search_options ([demo_recipe 0], []) (demo_recipe 100)
      = Inr ([demo_recipe 0], [c])"
    unfolding try_recipe_def prod.case demo_recipe_timings(1) [folded assms] rbind.simps sha p demo_moves
    using demo_moves(3) by (simp add: c_def)
  have "sc_moved_offers c = 8" unfolding c_def new_candidate_def by (simp only: demo_moves(2) search_candidate.simps)
  moreover have "run_grid demo_codec demo_reader plans demo_search_options (grid [2] [5000] [0, 100]) = Inr ([demo_recipe 0], [c])"
    unfolding run_grid_def assms demo_sources rbind.simps
    unfolding recipes res_fold.simps assms [symmetric] idle move rbind.simps by simp
  moreover have "sc_parameters c = demo_recipe 100" by (simp add: c_def new_candidate_def)
  ultimately show ?thesis by blast
qed

lemma demo_plan_bounds: "plan_bounds (demo_block seed) = Inr (4, 300)"
proof -
  have plan: "demo_block seed = JObj (plan_members (demo_block seed))"
    by (simp add: demo_block_def plan_members_def jobj_def)
  have "get_null (plan_members (demo_block seed)) ''offered_count'' = JInt 4"
    "get_null (plan_members (demo_block seed)) ''duration_ns'' = JInt 300"
    by (simp_all add: demo_block_def demo_fields)
  then show ?thesis
    unfolding plan_bounds_def by (subst plan) (simp add: exact_integer_def max_exact_integer_def)
qed

lemma search_plan_not_timed: "\<not> marked_document (jobj (search_plan_fields sp))"
  by (simp add: search_plan_fields_def)

lemma demo_axes:
  "axis (JArr [JInt 2]) 1 1024 l = Inr [2]"
  "axis (JArr [JInt 5000]) 0 10000 l = Inr [5000]"
  "axis (JArr [JInt 100, JInt 0]) 0 300 l = Inr [0, 100]"
  by (simp_all add: axis_def exact_integer_def)

lemma demo_build_search:
  assumes "plans = map demo_block [1, 2, 3, 4, 5, 6, 7, 8]"
  shows "\<exists>sp c. build_search_plan demo_codec demo_reader plans demo_search_options [2] [5000] [0, 100] 4 64 = Inr sp
    \<and> sp_candidates sp = [c] \<and> sc_moved_offers c = 8 \<and> sc_parameters c = demo_recipe 100
    \<and> sp_options sp = demo_search_options \<and> scheduled_count sp = 1"
proof -
  obtain c where c: "run_grid demo_codec demo_reader plans demo_search_options (grid [2] [5000] [0, 100])
     = Inr ([demo_recipe 0], [c])" "sc_moved_offers c = 8" "sc_parameters c = demo_recipe 100" using demo_grid [OF assms] by blast
  have shas: "res_map (\<lambda>plan. need (plan_members plan) ''plan_sha256'') plans = Inr (map (\<lambda>seed. jstr (demo_plan_sha seed)) [1, 2, 3, 4, 5, 6, 7, 8])"
    unfolding assms by (simp add: demo_needed eval_nat_numeral)
  have phase: "need (plan_members (hd plans)) ''phase'' = Inr (jstr ''fixture'')"
    unfolding assms by (simp add: demo_needed)
  show ?thesis
    unfolding build_search_plan_def c(1) rbind.simps prod.case phase shas
    by (simp add: Let_def demo_digest search_plan_not_timed c(2,3) scheduled_count_def assms)
qed

lemma demo_search:
  "\<exists>sp c. make_search_plan demo_codec demo_reader (map demo_block [1, 2, 3, 4, 5, 6, 7, 8]) (JObj demo_search_options)
       (JArr [JInt 2]) (JArr [JInt 5000]) (JArr [JInt 100, JInt 0]) (JInt 4) (JInt 64) = Inr sp
     \<and> sp_candidates sp = [c] \<and> sc_moved_offers c = 8 \<and> sc_parameters c = demo_recipe 100
     \<and> sp_options sp = demo_search_options \<and> scheduled_count sp = 1"
proof -
  define plans where "plans = map demo_block [1, 2, 3, 4, 5, 6, 7, 8]"
  obtain sp c where sp: "build_search_plan demo_codec demo_reader plans demo_search_options [2] [5000] [0, 100] 4 64 = Inr sp"
    "sp_candidates sp = [c]" "sc_moved_offers c = 8" "sc_parameters c = demo_recipe 100"
    "sp_options sp = demo_search_options" "scheduled_count sp = 1" using demo_build_search [OF plans_def] by blast
  have eight: "length plans = 8" by (simp add: plans_def)
  have bounds: "res_map plan_bounds plans = Inr (replicate 8 (4, 300))"
    unfolding plans_def by (simp add: demo_plan_bounds eval_nat_numeral)
  have least: "Min (set (map snd (replicate 8 (4 :: int, 300 :: int)))) = 300"
    "sum_list (map fst (replicate 8 (4 :: int, 300 :: int))) = 32"
    by (simp_all add: eval_nat_numeral)
  have counts: "exact_integer (JInt 4) 1 128 l = Inr 4" "exact_integer (JInt 64) 1 16384 l = Inr 64" for l
    by (simp_all add: exact_integer_def)
  have "make_search_plan demo_codec demo_reader plans (JObj demo_search_options)
       (JArr [JInt 2]) (JArr [JInt 5000]) (JArr [JInt 100, JInt 0]) (JInt 4) (JInt 64) = Inr sp"
    unfolding make_search_plan_def eight demo_search_checked rbind.simps counts bounds least demo_axes Let_def
    by (simp add: sp(1) max_grid_recipes_def max_grid_offer_work_def)
  then show ?thesis unfolding plans_def using sp(2-6) by blast
qed

lemma search_plan_ranked_witness:
  "\<exists>sp. make_search_plan demo_codec demo_reader (map demo_block [1, 2, 3, 4, 5, 6, 7, 8]) (JObj demo_search_options)
       (JArr [JInt 2]) (JArr [JInt 5000]) (JArr [JInt 100, JInt 0]) (JInt 4) (JInt 64) = Inr sp
     \<and> distinct (sp_excluded sp @ concat (map recipes_of (sp_candidates sp)))
     \<and> sorted_wrt (<) (map rank_key (sp_candidates sp)) \<and> scheduled_count sp \<le> sp_max_candidates sp"
proof -
  obtain sp where "make_search_plan demo_codec demo_reader (map demo_block [1, 2, 3, 4, 5, 6, 7, 8]) (JObj demo_search_options)
       (JArr [JInt 2]) (JArr [JInt 5000]) (JArr [JInt 100, JInt 0]) (JInt 4) (JInt 64) = Inr sp"
    using demo_search by blast
  with search_plan_ranked [OF this] show ?thesis by blast
qed

lemma search_plan_roundtrip_witness:
  "\<exists>sp. make_search_plan demo_codec demo_reader (map demo_block [1, 2, 3, 4, 5, 6, 7, 8]) (JObj demo_search_options)
       (JArr [JInt 2]) (JArr [JInt 5000]) (JArr [JInt 100, JInt 0]) (JInt 4) (JInt 64) = Inr sp
     \<and> validate_search_plan demo_codec demo_reader (map demo_block [1, 2, 3, 4, 5, 6, 7, 8]) (search_plan_json sp) = Inr sp"
proof -
  obtain sp c where sp: "make_search_plan demo_codec demo_reader (map demo_block [1, 2, 3, 4, 5, 6, 7, 8]) (JObj demo_search_options)
       (JArr [JInt 2]) (JArr [JInt 5000]) (JArr [JInt 100, JInt 0]) (JInt 4) (JInt 64) = Inr sp"
    "sp_candidates sp = [c]" "sc_moved_offers c = 8" using demo_search by blast
  have "list_all (\<lambda>c. sc_moved_offers c \<le> max_exact_integer) (sp_candidates sp)"
    using sp(2,3) by (simp add: max_exact_integer_def)
  then have "validate_search_plan demo_codec demo_reader (map demo_block [1, 2, 3, 4, 5, 6, 7, 8]) (search_plan_json sp) = Inr sp"
    by (rule search_plan_roundtrip [OF sp(1)]) (simp add: demo_canonical)
  with sp(1) show ?thesis by blast
qed

end
