(* ===== verification/Evaluating.thy ===== *)
theory Evaluating
  imports Searching Comparing
begin

text \<open>
  The bounded search of \<open>vllm_bounded_search.py\<close>: the evidence of a prefix of the ranked candidates is
  compared anew, results and request identities are used once over all candidates, and the first reversal
  stops the search. A snapshot of a shorter prefix may be supplied; it is regenerated before it is
  continued. Lemmas: what an evaluation reports of every submitted candidate, when it selects one and that
  the selected one is the nearest, and that every snapshot can be resumed.
\<close>

section \<open>The evidence of one candidate\<close>

record search_result =
  sv_rank :: nat
  sv_candidate :: search_candidate
  sv_protocol_sha256 :: string
  sv_comparison :: comparison_report
  sv_overlaps :: bool

text \<open>\<open>"INELIGIBLE" if search_reasons else comparison["status"]\<close>\<close>

definition result_status :: "search_result \<Rightarrow> comparison_status" where
  "result_status x = (if sv_overlaps x then INELIGIBLE else cp_status (sv_comparison x))"

text \<open>The local variables of \<open>_evaluate\<close>.\<close>

record searching =
  sg_results :: "search_result list"
  sg_seen_requests :: "json list"
  sg_seen_results :: "json list"
  sg_end :: int
  sg_selected :: "search_result option"

definition searching_start :: searching where
  "searching_start = \<lparr>sg_results = [], sg_seen_requests = [], sg_seen_results = [], sg_end = 0, sg_selected = None\<rparr>"

text \<open>The items of a list that has been checked to be one.\<close>

definition json_items :: "json \<Rightarrow> json list" where
  "json_items v = (case v of JArr items \<Rightarrow> items | _ \<Rightarrow> [])"

text \<open>
  Start and end of the reported window of one trial. \<open>compare\<close> has checked the trial before, so its start
  is a positive decimal.
\<close>

definition item_window :: "protocol \<Rightarrow> json list \<Rightarrow> json \<Rightarrow> (int \<times> int) linked" where
  "item_window p plans item =
     rbind (item_of item ''result'') (\<lambda>result.
     rbind (item_of result ''measurement'') (\<lambda>measurement.
     rbind (item_of measurement ''started_unix_ns'') (\<lambda>started.
     rbind (started_ns started) (\<lambda>start.
     rbind (item_of item ''trial_id'') (\<lambda>name.
     case find_trial p name of
       None \<Rightarrow> Inl (Encoding Python_Error)
     | Some t \<Rightarrow>
         rbind (item_of measurement ''rows'') (\<lambda>rows.
         rbind (trial_end (plans ! (tr_block t - 1)) (json_items rows) start) (\<lambda>finish.
         Inr (start, finish))))))))"

text \<open>What has been used so far, and the windows of the candidate.\<close>

record tracked =
  tk_requests :: "json list"
  tk_results :: "json list"
  tk_windows :: "(int \<times> int) list"

definition track_item :: "protocol \<Rightarrow> json list \<Rightarrow> tracked \<Rightarrow> json \<Rightarrow> tracked linked" where
  "track_item p plans s item =
     rbind (item_of item ''result'') (\<lambda>result.
     rbind (item_of result ''result_sha256'') (\<lambda>sha.
     rbind (refuse_if (sha \<in> set (tk_results s)) ''result reused across search candidates'') (\<lambda>_.
     rbind (refuse_if (set (tk_requests s) \<inter> set (request_ids result) \<noteq> {})
         ''request identity reused across search candidates'') (\<lambda>_.
     rbind (item_window p plans item) (\<lambda>window.
     Inr \<lparr>tk_requests = tk_requests s @ request_ids result, tk_results = tk_results s @ [sha],
          tk_windows = tk_windows s @ [window]\<rparr>)))))"

text \<open>\<open>candidate_starts and min(candidate_starts) < previous_end\<close>\<close>

definition overlapping :: "int \<Rightarrow> (int \<times> int) list \<Rightarrow> bool" where
  "overlapping previous_end windows \<longleftrightarrow> windows \<noteq> [] \<and> Min (set (map fst windows)) < previous_end"

definition observation_fields :: "string list" where
  "observation_fields = [''candidate_id'', ''inputs'']"

text \<open>One turn of the loop of \<open>_evaluate\<close>: a candidate with its rank, and its observation.\<close>

definition judge_candidate ::
  "study \<Rightarrow> json list \<Rightarrow> search_plan \<Rightarrow> searching \<Rightarrow> (nat \<times> search_candidate) \<times> json \<Rightarrow> searching linked" where
  "judge_candidate st plans sp s submitted =
     (case submitted of ((rank, c), observation) \<Rightarrow>
        rbind (refuse_if (sg_selected s \<noteq> None) ''evidence supplied after the first screened-in candidate'') (\<lambda>_.
        rbind (fields_of observation observation_fields ''candidate observation'') (\<lambda>ob.
        rbind (refuse_if (get_null ob ''candidate_id'' \<noteq> jstr (candidate_id rank))
            ''candidate observations must follow the exact search prefix'') (\<lambda>_.
        rbind (lift_artifact (protocol_of_candidate (st_codec st) (st_plan_reader st) plans sp c)) (\<lambda>p.
        rbind (compare st (protocol_json p) plans (get_null ob ''inputs'')) (\<lambda>comparison.
        rbind (res_fold (track_item p plans)
            \<lparr>tk_requests = sg_seen_requests s, tk_results = sg_seen_results s, tk_windows = []\<rparr>
            (json_items (get_null ob ''inputs''))) (\<lambda>t.
        let x = \<lparr>sv_rank = rank, sv_candidate = c, sv_protocol_sha256 = pc_sha256 p, sv_comparison = comparison,
                 sv_overlaps = overlapping (sg_end s) (tk_windows t)\<rparr>
        in Inr \<lparr>sg_results = sg_results s @ [x], sg_seen_requests = tk_requests t, sg_seen_results = tk_results t,
                sg_end = fold max (map snd (tk_windows t)) (sg_end s),
                sg_selected = (if result_status x = REVERSAL_CANDIDATE then Some x else sg_selected s)\<rparr>)))))))"

section \<open>The report\<close>

datatype search_status = CANDIDATE_FOUND | NEXT_CANDIDATE | GRID_EXHAUSTED | SEARCH_BUDGET_EXHAUSTED

record search_report =
  sq_plan :: search_plan
  sq_status :: search_status
  sq_previous :: json
  sq_results :: "search_result list"
  sq_selected :: "search_result option"
  sq_next :: "(nat \<times> search_candidate \<times> protocol) option"
  sq_artifacts :: nat
  sq_sha256 :: string

definition search_status_name :: "search_status \<Rightarrow> string" where
  "search_status_name s =
     (case s of CANDIDATE_FOUND \<Rightarrow> ''CANDIDATE_FOUND'' | NEXT_CANDIDATE \<Rightarrow> ''AWAITING_EVIDENCE''
      | GRID_EXHAUSTED \<Rightarrow> ''GRID_EXHAUSTED'' | SEARCH_BUDGET_EXHAUSTED \<Rightarrow> ''BUDGET_EXHAUSTED'')"

definition search_stop_reason :: "search_status \<Rightarrow> string" where
  "search_stop_reason s =
     (case s of CANDIDATE_FOUND \<Rightarrow> ''FIRST_SCREENED_IN_CANDIDATE''
      | NEXT_CANDIDATE \<Rightarrow> ''NEXT_CANDIDATE_REQUIRES_RAW_EVIDENCE''
      | GRID_EXHAUSTED \<Rightarrow> ''NO_SCREENED_IN_CANDIDATE_IN_SUBMITTED_GRID''
      | SEARCH_BUDGET_EXHAUSTED \<Rightarrow> ''NO_FURTHER_COMPLETE_CANDIDATE_FITS_DECLARED_BUDGET'')"

text \<open>The comparison as it is returned, with its own digest.\<close>

definition comparison_artifact :: "study \<Rightarrow> comparison_report \<Rightarrow> json" where
  "comparison_artifact st r =
     JObj (object_members (comparison_json st r) @ [(ascii_text ''result_sha256'', jstr (cp_result_sha256 r))])"

definition search_summary :: "search_result \<Rightarrow> (string \<times> json) list" where
  "search_summary x =
     [(''candidate_id'', jstr (candidate_id (sv_rank x))), (''rank'', JInt (int (sv_rank x))),
      (''parameters'', recipe_json (sc_parameters (sv_candidate x))), (''distance'', distance_json (sv_candidate x)),
      (''schedule_sha256'', jstr (sc_schedule_sha256 (sv_candidate x))),
      (''protocol_sha256'', jstr (sv_protocol_sha256 x)),
      (''comparison_sha256'', jstr (cp_result_sha256 (sv_comparison x))),
      (''comparison_status'', jstr (status_name (cp_status (sv_comparison x)))),
      (''search_status'', jstr (status_name (result_status x))),
      (''search_ineligibility_reasons'',
        JArr (if sv_overlaps x then [jstr ''CROSS_CANDIDATE_REPORTED_WINDOWS_OVERLAP''] else []))]"

definition search_result_json :: "study \<Rightarrow> search_result \<Rightarrow> json" where
  "search_result_json st x = jobj (search_summary x @ [(''comparison'', comparison_artifact st (sv_comparison x))])"

definition next_action_json :: "(nat \<times> search_candidate \<times> protocol) option \<Rightarrow> json" where
  "next_action_json action =
     (case action of
        None \<Rightarrow> JNull
      | Some (rank, c, p) \<Rightarrow> jobj [(''type'', jstr ''COLLECT_CANDIDATE''), (''candidate_id'', jstr (candidate_id rank)),
          (''protocol'', protocol_json p)])"

definition status_count :: "comparison_status \<Rightarrow> search_result list \<Rightarrow> int" where
  "status_count s xs = int (length (filter (\<lambda>x. result_status x = s) xs))"

definition search_limitations :: "string list" where
  "search_limitations =
     [''Nearest refers to the frozen lexicographic planned-arrival distance, not a universal workload distance.'',
      ''Inconclusive comparisons do not exclude smaller real reversals; ineligible comparisons leave evidence gaps.'',
      ''Exhausting the grid or budget does not prove that no reversal exists.'',
      ''Trial slots are reserved accounting units, not observed execution or GPU cost.'',
      ''This controller reads supplied artifacts; it does not launch trials or enforce an external runner budget.'',
      ''Hashes and reported clocks do not authenticate execution, independence, provenance, resets or preregistration.'',
      ''Search multiplicity is uncontrolled; a candidate is not a confirmed or globally minimal counterexample.'',
      ''Resume checks the immediate prior snapshot against supplied raw evidence; ancestors are not traversed.'']"

definition budget_json :: "search_report \<Rightarrow> json" where
  "budget_json r =
     (let sp = sq_plan r; count = int (length (sq_results r))
      in jobj [(''max_candidates'', JInt (sp_max_candidates sp)), (''max_trial_slots'', JInt (sp_max_trial_slots sp)),
        (''trial_slots_per_candidate'', JInt (sp_slots sp)), (''trial_slots_reserved'', JInt (count * sp_slots sp)),
        (''remaining_candidate_slots'', JInt (sp_max_candidates sp - count)),
        (''remaining_trial_slots'', JInt (sp_max_trial_slots sp - count * sp_slots sp))])"

definition coverage_json :: "search_report \<Rightarrow> json" where
  "coverage_json r =
     (let sp = sq_plan r; count = int (length (sq_results r)); unique = int (length (sp_candidates sp))
      in jobj
       [(''grid_recipes'', JInt (int (length (sp_groups sp) * length (sp_spacings sp) * length (sp_advances sp)))),
        (''unique_candidates'', JInt unique), (''scheduled_candidates'', JInt (scheduled_count sp)),
        (''unsubmitted_scheduled_candidates'', JInt (scheduled_count sp - count)),
        (''unselected_grid_candidates'', JInt (unique - scheduled_count sp)),
        (''ineligible_candidates'', JInt (status_count INELIGIBLE (sq_results r))),
        (''inconclusive_candidates'', JInt (status_count INCONCLUSIVE (sq_results r))),
        (''screened_in_candidates'', JInt (status_count REVERSAL_CANDIDATE (sq_results r))),
        (''earlier_unresolved_candidates'', JArr (map (\<lambda>x. jstr (candidate_id (sv_rank x)))
           (filter (\<lambda>x. result_status x \<noteq> REVERSAL_CANDIDATE) (sq_results r)))),
        (''all_grid_candidates_evaluated'', JBool (count = unique))])"

definition search_report_fields :: "study \<Rightarrow> search_report \<Rightarrow> (string \<times> json) list" where
  "search_report_fields st r =
     [(''schema'', jstr ''inferdrome.vllm-router-bounded-search.v1''), (''scope'', jstr ''EXPLORATORY_SEARCH_ONLY''),
      (''status'', jstr (search_status_name (sq_status r))), (''stop_reason'', jstr (search_stop_reason (sq_status r))),
      (''evidence_class'', jstr (if sp_synthetic (sq_plan r) then ''SYNTHETIC_ONLY'' else ''LOCAL_MEASUREMENT_ONLY'')),
      (''evidence_eligible'', JBool False), (''search_plan_sha256'', jstr (sp_sha256 (sq_plan r))),
      (''previous_report_sha256'', sq_previous r),
      (''resume_scope'', jstr (if sq_previous r \<noteq> JNull
         then ''IMMEDIATE_PREVIOUS_PREFIX_REGENERATED_ANCESTORS_NOT_TRAVERSED'' else ''NO_PREVIOUS_SNAPSHOT_SUPPLIED'')),
      (''evaluated_candidates'', JInt (int (length (sq_results r)))),
      (''trial_artifacts_supplied'', JInt (int (sq_artifacts r))), (''budget'', budget_json r),
      (''coverage'', coverage_json r), (''candidate_results'', JArr (map (search_result_json st) (sq_results r))),
      (''selected_candidate'', case sq_selected r of None \<Rightarrow> JNull | Some x \<Rightarrow> jobj (search_summary x)),
      (''selection_scope'', jstr ''NEAREST_SCREENED_IN_AMONG_EVALUATED_SCHEDULES_UNDER_DECLARED_ORDER''),
      (''next_action'', next_action_json (sq_next r)), (''independent_execution'', jstr ''UNVERIFIED''),
      (''held_out_confirmation'', jstr ''NOT_IMPLEMENTED''), (''search_multiplicity'', jstr ''UNCONTROLLED''),
      (''chronology_scope'', jstr ''REPORTED_CLIENT_CLOCKS_NOT_TRUSTED_CHRONOLOGY''),
      (''limitations'', JArr (map jstr search_limitations))]"

definition search_report_json :: "study \<Rightarrow> search_report \<Rightarrow> json" where
  "search_report_json st r = jobj (search_report_fields st r @ [(''result_sha256'', jstr (sq_sha256 r))])"

text \<open>Why the evaluation of a prefix stops, and what it asks for next.\<close>

definition search_stop ::
  "study \<Rightarrow> json list \<Rightarrow> search_plan \<Rightarrow> nat \<Rightarrow> searching
     \<Rightarrow> (search_status \<times> (nat \<times> search_candidate \<times> protocol) option) linked" where
  "search_stop st plans sp n s =
     (if sg_selected s \<noteq> None then Inr (CANDIDATE_FOUND, None)
      else if int n < scheduled_count sp
      then (let c = sp_candidates sp ! n
            in rbind (lift_artifact (protocol_of_candidate (st_codec st) (st_plan_reader st) plans sp c)) (\<lambda>p.
               Inr (NEXT_CANDIDATE, Some (n + 1, c, p))))
      else if scheduled_count sp = int (length (sp_candidates sp)) then Inr (GRID_EXHAUSTED, None)
      else Inr (SEARCH_BUDGET_EXHAUSTED, None))"

text \<open>\<open>_evaluate\<close>\<close>

definition observed_inputs :: "json \<Rightarrow> json list" where
  "observed_inputs observation = json_items (get_null (object_members observation) ''inputs'')"

definition evaluate_prefix ::
  "study \<Rightarrow> json list \<Rightarrow> search_plan \<Rightarrow> json list \<Rightarrow> json \<Rightarrow> search_report linked" where
  "evaluate_prefix st plans sp observations previous =
     rbind (refuse_if (scheduled_count sp < int (length observations))
         ''submitted candidates exceed the frozen search budget'') (\<lambda>_.
     rbind (res_fold (judge_candidate st plans sp) searching_start
         (zip (enumerate 1 (sp_candidates sp)) observations)) (\<lambda>s.
     rbind (search_stop st plans sp (length observations) s) (\<lambda>(status, action).
     let r = \<lparr>sq_plan = sp, sq_status = status, sq_previous = previous, sq_results = sg_results s,
           sq_selected = sg_selected s, sq_next = action,
           sq_artifacts = sum_list (map (\<lambda>ob. length (observed_inputs ob)) observations), sq_sha256 = []\<rparr>
     in rbind (link_digest (st_codec st) (jobj (search_report_fields st r))) (\<lambda>d. Inr (r\<lparr>sq_sha256 := d\<rparr>)))))"

section \<open>Resuming\<close>

text \<open>\<open>_prior_digest\<close>; a missing digest is null.\<close>

definition prior_digest :: "json \<Rightarrow> unit linked" where
  "prior_digest v =
     (case v of
        JNull \<Rightarrow> Inr ()
      | JStr t \<Rightarrow> refuse_if (\<not> digest_text t) ''prior snapshot digest is invalid''
      | _ \<Rightarrow> Inl (Encoding (Refused ''prior snapshot digest is invalid'')))"

text \<open>The snapshot a search continues: null, or a report of a shorter prefix, which is regenerated.\<close>

definition resume_from :: "study \<Rightarrow> json list \<Rightarrow> search_plan \<Rightarrow> json list \<Rightarrow> json \<Rightarrow> json linked" where
  "resume_from st plans sp observations previous =
     (case previous of
        JNull \<Rightarrow> Inr JNull
      | JObj ms \<Rightarrow>
          (case get_null ms ''evaluated_candidates'' of
             JInt n \<Rightarrow>
               rbind (refuse_if (\<not> (0 \<le> n \<and> n < int (length observations)))
                 ''resume must append candidates to the previous prefix'') (\<lambda>_.
               rbind (lift_artifact (need ms ''previous_report_sha256'')) (\<lambda>parent.
               rbind (prior_digest parent) (\<lambda>_.
               rbind (evaluate_prefix st plans sp (take (nat n) observations) parent) (\<lambda>regenerated.
               rbind (lift_artifact (require_same (st_codec st) previous (search_report_json st regenerated)
                 (Refused ''previous snapshot differs from regenerated evidence prefix''))) (\<lambda>_.
               lift_artifact (need ms ''result_sha256''))))))
           | _ \<Rightarrow> Inl (Encoding (Refused ''resume must append candidates to the previous prefix'')))
      | _ \<Rightarrow> Inl (Encoding (Refused ''previous report must be an object'')))"

text \<open>\<open>evaluate\<close>\<close>

definition evaluate_search :: "study \<Rightarrow> json \<Rightarrow> json list \<Rightarrow> json \<Rightarrow> json \<Rightarrow> search_report linked" where
  "evaluate_search st artifact plans observations previous =
     guarded_link ''bounded search input''
       (rbind (lift_artifact (validate_search_plan (st_codec st) (st_plan_reader st) plans artifact)) (\<lambda>sp.
        case observations of
          JArr obs \<Rightarrow>
            rbind (resume_from st plans sp obs previous) (\<lambda>previous_sha256.
            evaluate_prefix st plans sp obs previous_sha256)
        | _ \<Rightarrow> Inl (Encoding (Refused ''search observations must be a list''))))"

section \<open>What one submitted trial uses\<close>

definition item_result :: "json \<Rightarrow> json" where
  "item_result item = get_null (object_members item) ''result''"

definition item_requests :: "json \<Rightarrow> json list" where
  "item_requests item = request_ids (item_result item)"

definition item_sha256 :: "json \<Rightarrow> json" where
  "item_sha256 item = get_null (object_members (item_result item)) ''result_sha256''"

definition observed_requests :: "json \<Rightarrow> json list" where
  "observed_requests ob = concat (map item_requests (observed_inputs ob))"

definition observed_results :: "json \<Rightarrow> json list" where
  "observed_results ob = map item_sha256 (observed_inputs ob)"

lemma res_fold_member:
  "res_fold f s xs = Inr s' \<Longrightarrow> x \<in> set xs \<Longrightarrow> \<exists>t t'. f t x = Inr t'"
  by (induction xs arbitrary: s) (auto simp: result_simps)

lemma less_fold_max: "(x :: int) < fold max ys e \<longleftrightarrow> x < e \<or> (\<exists>y \<in> set ys. x < y)"
  by (induction ys arbitrary: e) (auto simp: less_max_iff_disj)

lemma track_item_ok:
  assumes "track_item p plans s item = Inr t"
  obtains w where "item_window p plans item = Inr w" "tk_requests t = tk_requests s @ item_requests item"
    "tk_results t = tk_results s @ [item_sha256 item]" "tk_windows t = tk_windows s @ [w]"
    "item_sha256 item \<notin> set (tk_results s)" "set (tk_requests s) \<inter> set (item_requests item) = {}"
  using assms unfolding track_item_def refuse_if_def
  by (auto elim!: rbind_okE dest!: item_of_ok simp: item_requests_def item_sha256_def item_result_def)

lemma track_fold_ok:
  assumes "res_fold (track_item p plans) s items = Inr t"
  shows "tk_requests t = tk_requests s @ concat (map item_requests items)"
    "tk_results t = tk_results s @ map item_sha256 items"
    "\<exists>ws. tk_windows t = tk_windows s @ ws \<and> list_all2 (\<lambda>i w. item_window p plans i = Inr w) items ws"
    "distinct (tk_results s) \<Longrightarrow> distinct (tk_results t)"
    "list_all (\<lambda>i. distinct (item_requests i)) items \<Longrightarrow> distinct (tk_requests s) \<Longrightarrow> distinct (tk_requests t)"
  using assms
proof (induction items arbitrary: s)
  case (Cons item items)
  {
    case 1
    then show ?case using Cons.IH(1) by (auto elim!: rbind_okE track_item_ok)
  next
    case 2
    then show ?case using Cons.IH(2) by (auto elim!: rbind_okE track_item_ok)
  next
    case 3
    then obtain u where u: "track_item p plans s item = Inr u" "res_fold (track_item p plans) u items = Inr t"
      by (auto elim: rbind_okE)
    from u(1) obtain w where w: "item_window p plans item = Inr w" "tk_windows u = tk_windows s @ [w]" by (rule track_item_ok)
    from Cons.IH(3) [OF u(2)] obtain ws where "tk_windows t = tk_windows u @ ws"
      "list_all2 (\<lambda>i w. item_window p plans i = Inr w) items ws" by blast
    with w show ?case by (intro exI [of _ "w # ws"]) simp
  next
    case 4
    then obtain u where u: "track_item p plans s item = Inr u" "res_fold (track_item p plans) u items = Inr t"
      by (auto elim: rbind_okE)
    from u(1) 4(1) have "distinct (tk_results u)" by (auto elim: track_item_ok)
    with u(2) Cons.IH(4) show ?case by blast
  next
    case 5
    then obtain u where u: "track_item p plans s item = Inr u" "res_fold (track_item p plans) u items = Inr t"
      by (auto elim: rbind_okE)
    from u(1) 5(1,2) have "distinct (tk_requests u)" by (auto elim: track_item_ok)
    with u(2) 5(1) Cons.IH(5) show ?case by simp
  }
qed auto

text \<open>Windows start after time 0.\<close>

lemma started_ns_pos: "started_ns v = Inr n \<Longrightarrow> 0 < n"
proof -
  have nonneg: "0 \<le> v \<Longrightarrow> list_all (\<lambda>c. 48 \<le> c) t \<Longrightarrow> v \<le> foldl (\<lambda>v c. 10 * v + (int c - 48)) v t" for v t
  proof (induction t arbitrary: v)
    case (Cons c t)
    then have "v \<le> 10 * v + (int c - 48)" "0 \<le> 10 * v + (int c - 48)" "list_all (\<lambda>c. 48 \<le> c) t" by auto
    with Cons.IH [of "10 * v + (int c - 48)"] show ?case by simp
  qed simp
  assume "started_ns v = Inr n"
  then obtain t where t: "start_text t" "n = decimal_value t" by (auto simp: started_ns_def split: json.splits if_splits)
  then obtain c cs where c: "t = c # cs" "48 < c" "list_all (\<lambda>c. 48 \<le> c) cs"
    by (cases t) (auto simp: start_text_def list_all_iff)
  have "0 < int c - 48" using c(2) by simp
  also have "\<dots> \<le> decimal_value t" unfolding decimal_value_def c(1) using nonneg [of "int c - 48" cs] c(2,3) by simp
  finally show ?thesis by (simp add: t(2))
qed

lemma item_window_pos: "item_window p plans item = Inr w \<Longrightarrow> 0 < fst w"
  unfolding item_window_def by (elim rbind_okE, drule started_ns_pos) (auto elim!: rbind_okE split: option.splits)

text \<open>A comparison has read the request identities of every trial it accepted.\<close>

lemma compared_requests:
  assumes "compare st artifact plans inputs = Inr r"
  shows "inputs = JArr (json_items inputs)" "list_all (\<lambda>i. distinct (item_requests i)) (json_items inputs)"
proof -
  from assms obtain p items s where items: "inputs = JArr items" and run: "res_fold (compare_trial st p plans) comparing_start items = Inr s"
    unfolding compare_def compare_inputs_def by (cases inputs) (auto simp: result_simps)
  then show "inputs = JArr (json_items inputs)" by (simp add: json_items_def)
  have "distinct (item_requests v)" if v: "v \<in> set items" for v
  proof -
    from res_fold_member [OF run v] obtain u c where c: "check_trial st p plans u v = Inr c"
      by (auto simp: compare_trial_def result_simps)
    then have "kt_request_ids c = item_requests v"
      unfolding check_trial_def
      by (auto elim!: rbind_okE split: json.splits if_splits dest!: check_evidence_ok(5)
          simp: item_requests_def item_result_def fields_of_def object_members_def)
    with request_ids_distinct [OF check_trial_ok(6) [OF c]] show ?thesis by simp
  qed
  then show "list_all (\<lambda>i. distinct (item_requests i)) (json_items inputs)" by (simp add: items json_items_def list_all_iff)
qed

section \<open>The invariant of the evaluation\<close>

text \<open>The result of a submitted candidate is the comparison of its own protocol.\<close>

definition judged :: "study \<Rightarrow> json list \<Rightarrow> search_plan \<Rightarrow> (nat \<times> search_candidate) \<times> json \<Rightarrow> search_result \<Rightarrow> bool" where
  "judged st plans sp submitted x \<longleftrightarrow>
     (case submitted of ((rank, c), ob) \<Rightarrow>
        sv_rank x = rank \<and> sv_candidate x = c \<and> get_null (object_members ob) ''candidate_id'' = jstr (candidate_id rank)
        \<and> (\<exists>p. protocol_of_candidate (st_codec st) (st_plan_reader st) plans sp c = Inr p
             \<and> sv_protocol_sha256 x = pc_sha256 p
             \<and> compare st (protocol_json p) plans (JArr (observed_inputs ob)) = Inr (sv_comparison x)))"

text \<open>The reported windows of its trials.\<close>

definition windows_of :: "study \<Rightarrow> json list \<Rightarrow> search_plan \<Rightarrow> (nat \<times> search_candidate) \<times> json \<Rightarrow> (int \<times> int) list \<Rightarrow> bool" where
  "windows_of st plans sp submitted ws \<longleftrightarrow>
     (case submitted of ((rank, c), ob) \<Rightarrow>
        \<exists>p. protocol_of_candidate (st_codec st) (st_plan_reader st) plans sp c = Inr p
          \<and> list_all2 (\<lambda>i w. item_window p plans i = Inr w) (observed_inputs ob) ws)"

text \<open>A trial of the later candidate starts before one of the earlier ones ended.\<close>

definition windows_overlap :: "(int \<times> int) list list \<Rightarrow> (int \<times> int) list \<Rightarrow> bool" where
  "windows_overlap earlier ws \<longleftrightarrow> list_ex (\<lambda>w. list_ex (\<lambda>v. fst w < snd v) (concat earlier)) ws"

definition overlaps_reported :: "(int \<times> int) list list \<Rightarrow> search_result list \<Rightarrow> bool" where
  "overlaps_reported wss xs \<longleftrightarrow>
     length xs = length wss \<and> list_all (\<lambda>i. sv_overlaps (xs ! i) \<longleftrightarrow> windows_overlap (take i wss) (wss ! i)) [0..<length wss]"

definition evaluated :: "study \<Rightarrow> json list \<Rightarrow> search_plan \<Rightarrow> ((nat \<times> search_candidate) \<times> json) list \<Rightarrow> searching \<Rightarrow> bool" where
  "evaluated st plans sp past s \<longleftrightarrow>
     list_all2 (judged st plans sp) past (sg_results s)
     \<and> sg_seen_requests s = concat (map (observed_requests \<circ> snd) past) \<and> distinct (sg_seen_requests s)
     \<and> sg_seen_results s = concat (map (observed_results \<circ> snd) past) \<and> distinct (sg_seen_results s)
     \<and> (\<exists>wss. list_all2 (windows_of st plans sp) past wss \<and> overlaps_reported wss (sg_results s)
          \<and> sg_end s = fold max (map snd (concat wss)) 0)
     \<and> list_all (\<lambda>x. result_status x \<noteq> REVERSAL_CANDIDATE)
         (if sg_selected s = None then sg_results s else butlast (sg_results s))
     \<and> (\<forall>x. sg_selected s = Some x \<longrightarrow> sg_results s \<noteq> [] \<and> last (sg_results s) = x \<and> result_status x = REVERSAL_CANDIDATE)"

lemma evaluated_start: "evaluated st plans sp [] searching_start"
  by (simp add: evaluated_def searching_start_def overlaps_reported_def)

lemma overlaps_reported_snoc:
  assumes "overlaps_reported wss xs" "sv_overlaps x \<longleftrightarrow> windows_overlap wss ws"
  shows "overlaps_reported (wss @ [ws]) (xs @ [x])"
  using assms by (auto simp: overlaps_reported_def list_all_iff nth_append)

lemma judge_candidate_ok:
  assumes "judge_candidate st plans sp s ((rank, c), ob) = Inr s'"
  obtains p comparison t x where
    "sg_selected s = None" "get_null (object_members ob) ''candidate_id'' = jstr (candidate_id rank)"
    "protocol_of_candidate (st_codec st) (st_plan_reader st) plans sp c = Inr p"
    "compare st (protocol_json p) plans (JArr (observed_inputs ob)) = Inr comparison"
    "list_all (\<lambda>i. distinct (item_requests i)) (observed_inputs ob)"
    "res_fold (track_item p plans)
       \<lparr>tk_requests = sg_seen_requests s, tk_results = sg_seen_results s, tk_windows = []\<rparr> (observed_inputs ob) = Inr t"
    "x = \<lparr>sv_rank = rank, sv_candidate = c, sv_protocol_sha256 = pc_sha256 p, sv_comparison = comparison,
        sv_overlaps = overlapping (sg_end s) (tk_windows t)\<rparr>"
    "s' = \<lparr>sg_results = sg_results s @ [x], sg_seen_requests = tk_requests t, sg_seen_results = tk_results t,
        sg_end = fold max (map snd (tk_windows t)) (sg_end s),
        sg_selected = (if result_status x = REVERSAL_CANDIDATE then Some x else sg_selected s)\<rparr>"
proof -
  from assms obtain ms p comparison t where parts: "sg_selected s = None" "fields_of ob observation_fields ''candidate observation'' = Inr ms"
    "get_null ms ''candidate_id'' = jstr (candidate_id rank)"
    "lift_artifact (protocol_of_candidate (st_codec st) (st_plan_reader st) plans sp c) = Inr p"
    "compare st (protocol_json p) plans (get_null ms ''inputs'') = Inr comparison"
    "res_fold (track_item p plans)
       \<lparr>tk_requests = sg_seen_requests s, tk_results = sg_seen_results s, tk_windows = []\<rparr>
       (json_items (get_null ms ''inputs'')) = Inr t"
    and s': "s' = (let x = \<lparr>sv_rank = rank, sv_candidate = c, sv_protocol_sha256 = pc_sha256 p, sv_comparison = comparison,
                 sv_overlaps = overlapping (sg_end s) (tk_windows t)\<rparr>
        in \<lparr>sg_results = sg_results s @ [x], sg_seen_requests = tk_requests t, sg_seen_results = tk_results t,
                sg_end = fold max (map snd (tk_windows t)) (sg_end s),
                sg_selected = (if result_status x = REVERSAL_CANDIDATE then Some x else sg_selected s)\<rparr>)"
    unfolding judge_candidate_def refuse_if_def by (auto elim!: rbind_okE simp: Let_def)
  from parts(2) have "ob = JObj ms" by (auto simp: fields_of_def split: json.splits if_splits)
  then have ob: "object_members ob = ms" "observed_inputs ob = json_items (get_null ms ''inputs'')"
    by (simp_all add: object_members_def observed_inputs_def)
  note compared = compared_requests [OF parts(5)]
  show thesis
    by (rule that [OF parts(1) _ _ _ _ _ refl])
      (use parts(3-6) compared s' in \<open>simp_all add: ob Let_def lift_artifact_def split: sum.splits\<close>)
qed

lemma overlapping_iff: "overlapping e ws \<longleftrightarrow> list_ex (\<lambda>w. fst w < e) ws"
  by (cases "ws = []") (auto simp: overlapping_def list_ex_iff Min_less_iff)

lemma evaluated_step:
  assumes "evaluated st plans sp past s" "judge_candidate st plans sp s ((rank, c), ob) = Inr s'"
  shows "evaluated st plans sp (past @ [((rank, c), ob)]) s'"
  using assms(2)
proof (rule judge_candidate_ok)
  fix p comparison t x
  assume none: "sg_selected s = None" and named: "get_null (object_members ob) ''candidate_id'' = jstr (candidate_id rank)"
    and p: "protocol_of_candidate (st_codec st) (st_plan_reader st) plans sp c = Inr p"
    and compared: "compare st (protocol_json p) plans (JArr (observed_inputs ob)) = Inr comparison"
    and once: "list_all (\<lambda>i. distinct (item_requests i)) (observed_inputs ob)"
    and run: "res_fold (track_item p plans)
       \<lparr>tk_requests = sg_seen_requests s, tk_results = sg_seen_results s, tk_windows = []\<rparr> (observed_inputs ob) = Inr t"
    and x: "x = \<lparr>sv_rank = rank, sv_candidate = c, sv_protocol_sha256 = pc_sha256 p, sv_comparison = comparison,
        sv_overlaps = overlapping (sg_end s) (tk_windows t)\<rparr>"
    and s': "s' = \<lparr>sg_results = sg_results s @ [x], sg_seen_requests = tk_requests t, sg_seen_results = tk_results t,
        sg_end = fold max (map snd (tk_windows t)) (sg_end s),
        sg_selected = (if result_status x = REVERSAL_CANDIDATE then Some x else sg_selected s)\<rparr>"
  note ev = assms(1) [unfolded evaluated_def]
  note track = track_fold_ok [OF run, simplified]
  let ?sub = "((rank, c), ob)"
  have judged: "judged st plans sp ?sub x" using p compared named by (simp add: judged_def x)
  from ev obtain wss where wss: "list_all2 (windows_of st plans sp) past wss" "overlaps_reported wss (sg_results s)"
    "sg_end s = fold max (map snd (concat wss)) 0" by blast
  have windows: "windows_of st plans sp ?sub (tk_windows t)" using p track(3) by (simp add: windows_of_def)
  have pos: "0 < fst w" if "w \<in> set (tk_windows t)" for w
    using list_all2_right [OF track(3) that] item_window_pos by blast
  have "sv_overlaps x \<longleftrightarrow> windows_overlap wss (tk_windows t)"
    using pos by (auto simp: x overlapping_iff windows_overlap_def list_ex_iff wss(3) less_fold_max dest: less_asym)
  then have "overlaps_reported (wss @ [tk_windows t]) (sg_results s')"
    using overlaps_reported_snoc [OF wss(2)] by (simp add: s')
  moreover have "sg_end s' = fold max (map snd (concat (wss @ [tk_windows t]))) 0" by (simp add: s' wss(3))
  moreover have "list_all2 (windows_of st plans sp) (past @ [?sub]) (wss @ [tk_windows t])"
    using wss(1) windows by (simp add: list_all2_appendI)
  ultimately have overlaps: "\<exists>wss. list_all2 (windows_of st plans sp) (past @ [?sub]) wss \<and> overlaps_reported wss (sg_results s')
      \<and> sg_end s' = fold max (map snd (concat wss)) 0" by blast
  have "distinct (sg_seen_requests s)" "distinct (sg_seen_results s)" using ev by blast+
  then have once': "distinct (sg_seen_requests s')" "distinct (sg_seen_results s')"
    using track_fold_ok(5) [OF run once] track_fold_ok(4) [OF run] by (simp_all add: s')
  have seen: "sg_seen_requests s' = concat (map (observed_requests \<circ> snd) (past @ [?sub]))"
    "sg_seen_results s' = concat (map (observed_results \<circ> snd) (past @ [?sub]))"
    using ev track(1,2) by (simp_all add: s' observed_requests_def observed_results_def)
  have results: "list_all2 (judged st plans sp) (past @ [?sub]) (sg_results s')"
    using ev judged by (simp add: s' list_all2_appendI)
  have earlier: "list_all (\<lambda>x. result_status x \<noteq> REVERSAL_CANDIDATE) (sg_results s)" using ev none by simp
  show ?thesis
    unfolding evaluated_def using results seen once' overlaps earlier none by (auto simp: s')
qed

lemma evaluated_fold:
  assumes "evaluated st plans sp past s" "res_fold (judge_candidate st plans sp) s subs = Inr s'"
  shows "evaluated st plans sp (past @ subs) s'"
  using assms
proof (induction subs arbitrary: past s)
  case (Cons sub subs)
  then obtain u where u: "judge_candidate st plans sp s sub = Inr u" "res_fold (judge_candidate st plans sp) u subs = Inr s'"
    by (auto elim: rbind_okE)
  obtain rank c ob where sub: "sub = ((rank, c), ob)" by (metis prod.exhaust)
  from Cons.IH [OF evaluated_step [OF Cons.prems(1) u(1) [unfolded sub]] u(2)] show ?case by (simp add: sub)
qed simp

section \<open>What an evaluation says\<close>

definition submissions :: "search_plan \<Rightarrow> json list \<Rightarrow> ((nat \<times> search_candidate) \<times> json) list" where
  "submissions sp observations = zip (enumerate 1 (sp_candidates sp)) observations"

lemma length_submissions:
  assumes "int (length obs) \<le> scheduled_count sp"
  shows "length (submissions sp obs) = length obs" "map snd (submissions sp obs) = obs" "length obs \<le> length (sp_candidates sp)"
  using assms by (simp_all add: submissions_def scheduled_count_def map_snd_zip_take)

lemma evaluated_judged: "evaluated st plans sp past s \<Longrightarrow> list_all2 (judged st plans sp) past (sg_results s)"
  by (simp add: evaluated_def)

lemma search_stop_ok:
  assumes "search_stop st plans sp n s = Inr (status, action)" "int n \<le> scheduled_count sp"
  shows "status = CANDIDATE_FOUND \<longleftrightarrow> sg_selected s \<noteq> None"
    "status = NEXT_CANDIDATE \<longleftrightarrow> sg_selected s = None \<and> int n < scheduled_count sp"
    "status = GRID_EXHAUSTED \<longleftrightarrow> sg_selected s = None \<and> n = length (sp_candidates sp)"
    "case action of None \<Rightarrow> status \<noteq> NEXT_CANDIDATE
     | Some (rank, c, p) \<Rightarrow> status = NEXT_CANDIDATE \<and> rank = n + 1 \<and> c = sp_candidates sp ! n
         \<and> protocol_of_candidate (st_codec st) (st_plan_reader st) plans sp c = Inr p"
proof -
  have "scheduled_count sp \<le> int (length (sp_candidates sp))" by (simp add: scheduled_count_def)
  with assms show "status = CANDIDATE_FOUND \<longleftrightarrow> sg_selected s \<noteq> None"
    "status = NEXT_CANDIDATE \<longleftrightarrow> sg_selected s = None \<and> int n < scheduled_count sp"
    "status = GRID_EXHAUSTED \<longleftrightarrow> sg_selected s = None \<and> n = length (sp_candidates sp)"
    "case action of None \<Rightarrow> status \<noteq> NEXT_CANDIDATE
     | Some (rank, c, p) \<Rightarrow> status = NEXT_CANDIDATE \<and> rank = n + 1 \<and> c = sp_candidates sp ! n
         \<and> protocol_of_candidate (st_codec st) (st_plan_reader st) plans sp c = Inr p"
    by (auto simp: search_stop_def Let_def lift_artifact_def elim!: rbind_okE split: if_splits sum.splits)
qed

lemma evaluate_prefix_parts:
  assumes "evaluate_prefix st plans sp obs previous = Inr r"
  obtains s where "int (length obs) \<le> scheduled_count sp"
    "res_fold (judge_candidate st plans sp) searching_start (submissions sp obs) = Inr s"
    "evaluated st plans sp (submissions sp obs) s"
    "search_stop st plans sp (length obs) s = Inr (sq_status r, sq_next r)"
    "sq_plan r = sp" "sq_previous r = previous" "sq_results r = sg_results s" "sq_selected r = sg_selected s"
    "length (sq_results r) = length obs"
proof -
  from assms obtain s where s: "int (length obs) \<le> scheduled_count sp"
    "res_fold (judge_candidate st plans sp) searching_start (submissions sp obs) = Inr s"
    "search_stop st plans sp (length obs) s = Inr (sq_status r, sq_next r)"
    "sq_plan r = sp" "sq_previous r = previous" "sq_results r = sg_results s" "sq_selected r = sg_selected s"
    unfolding evaluate_prefix_def submissions_def refuse_if_def by (auto elim!: rbind_okE simp: Let_def not_less)
  from evaluated_fold [OF evaluated_start s(2)] have ev: "evaluated st plans sp (submissions sp obs) s" by simp
  from list_all2_lengthD [OF evaluated_judged [OF this]]
  have "length (sg_results s) = length (submissions sp obs)" by simp
  then have "length (sq_results r) = length obs" using length_submissions(1) [OF s(1)] s(6) by simp
  with that s ev show thesis by blast
qed

lemma evaluate_search_parts:
  assumes "evaluate_search st artifact plans observations previous = Inr r"
  obtains obs previous_sha256 where "observations = JArr obs" "json_items observations = obs"
    "validate_search_plan (st_codec st) (st_plan_reader st) plans artifact = Inr (sq_plan r)"
    "resume_from st plans (sq_plan r) obs previous = Inr previous_sha256"
    "evaluate_prefix st plans (sq_plan r) obs previous_sha256 = Inr r"
proof -
  from assms obtain sp obs previous_sha256 where parts: "observations = JArr obs"
    "validate_search_plan (st_codec st) (st_plan_reader st) plans artifact = Inr sp"
    "resume_from st plans sp obs previous = Inr previous_sha256"
    "evaluate_prefix st plans sp obs previous_sha256 = Inr r"
    unfolding evaluate_search_def
    by (auto elim!: rbind_okE simp: lift_artifact_def split: json.splits sum.splits)
  moreover from parts(4) have "sq_plan r = sp" by (rule evaluate_prefix_parts)
  ultimately show thesis using that by (simp add: json_items_def)
qed

lemma searched_plan:
  assumes "validate_search_plan k vp plans artifact = Inr sp"
  obtains options gs ss as mc ms where "make_search_plan k vp plans options gs ss as mc ms = Inr sp"
  using assms unfolding validate_search_plan_def
  by (auto elim!: rbind_okE simp: guarded_def split: json.splits sum.splits artifact_fault.splits)

text \<open>
  C14: what a search report accounts for. The plan was regenerated; the submitted evidence is a prefix of the
  scheduled candidates, each named by its identity and compared anew under its own protocol; no result and
  no request identity is used twice, within a candidate or across candidates; and a candidate is marked as
  overlapping exactly if one of its trials reports to have started before a trial of an earlier candidate
  ended.
\<close>

theorem search_accounts_evidence:
  assumes "evaluate_search st artifact plans observations previous = Inr r"
  shows "validate_search_plan (st_codec st) (st_plan_reader st) plans artifact = Inr (sq_plan r)
     \<and> length (sq_results r) = length (json_items observations)
     \<and> int (length (sq_results r)) \<le> scheduled_count (sq_plan r)
     \<and> list_all2 (judged st plans (sq_plan r)) (submissions (sq_plan r) (json_items observations)) (sq_results r)
     \<and> distinct (concat (map observed_results (json_items observations)))
     \<and> distinct (concat (map observed_requests (json_items observations)))
     \<and> (\<exists>wss. list_all2 (windows_of st plans (sq_plan r)) (submissions (sq_plan r) (json_items observations)) wss
          \<and> overlaps_reported wss (sq_results r))"
proof (rule evaluate_search_parts [OF assms])
  fix obs previous_sha256
  assume parts: "json_items observations = obs"
    "validate_search_plan (st_codec st) (st_plan_reader st) plans artifact = Inr (sq_plan r)"
    "evaluate_prefix st plans (sq_plan r) obs previous_sha256 = Inr r"
  from parts(3) obtain s where s: "int (length obs) \<le> scheduled_count (sq_plan r)"
    "evaluated st plans (sq_plan r) (submissions (sq_plan r) obs) s" "sq_results r = sg_results s"
    "length (sq_results r) = length obs" by (rule evaluate_prefix_parts)
  have seen: "map (f \<circ> snd) (submissions (sq_plan r) obs) = map f obs" for f :: "json \<Rightarrow> json list"
    using length_submissions(2) [OF s(1)] by (metis map_map)
  have "distinct (concat (map observed_results obs))" "distinct (concat (map observed_requests obs))"
    using s(2) unfolding evaluated_def seen by metis+
  with s parts(1,2) show ?thesis unfolding evaluated_def by auto
qed

text \<open>Where the candidates of the plan stand relative to the evaluated ones.\<close>

lemma judged_candidates:
  assumes "list_all2 (judged st plans sp) (submissions sp obs) xs" "int (length obs) \<le> scheduled_count sp"
  shows "map sv_candidate xs = take (length obs) (sp_candidates sp)"
proof (rule nth_equalityI)
  note len = length_submissions [OF assms(2)] and lens = list_all2_lengthD [OF assms(1)]
  then show "length (map sv_candidate xs) = length (take (length obs) (sp_candidates sp))" by simp
  fix i assume "i < length (map sv_candidate xs)"
  then have i: "i < length (submissions sp obs)" "i < length xs" using lens by simp_all
  from list_all2_nthD [OF assms(1) i(1)] i len show "map sv_candidate xs ! i = take (length obs) (sp_candidates sp) ! i"
    by (auto simp: judged_def submissions_def nth_enumerate_eq split: prod.splits)
qed

text \<open>
  C10: when a search stops and what it has found. Only the last submitted candidate can be a reversal, and
  exactly then it is selected; every other candidate of the grid was evaluated before without showing a
  reversal, or is strictly farther from the source schedule. The status is the one its definition says:
  found; evidence awaited for the next scheduled candidate, whose protocol is named; the whole grid
  evaluated; or the budget used up before the grid.
\<close>

theorem search_selects_nearest:
  assumes "evaluate_search st artifact plans observations previous = Inr r"
  shows "list_all (\<lambda>x. result_status x \<noteq> REVERSAL_CANDIDATE) (butlast (sq_results r))
     \<and> sq_selected r = (if sq_results r \<noteq> [] \<and> result_status (last (sq_results r)) = REVERSAL_CANDIDATE
          then Some (last (sq_results r)) else None)
     \<and> (\<forall>x. sq_selected r = Some x \<longrightarrow>
          cp_status (sv_comparison x) = REVERSAL_CANDIDATE \<and> \<not> sv_overlaps x
          \<and> list_all (\<lambda>c. c = sv_candidate x \<or> c \<in> set (map sv_candidate (butlast (sq_results r)))
               \<or> rank_key (sv_candidate x) < rank_key c) (sp_candidates (sq_plan r)))
     \<and> (sq_status r = CANDIDATE_FOUND \<longleftrightarrow> sq_selected r \<noteq> None)
     \<and> (sq_status r = NEXT_CANDIDATE \<longleftrightarrow>
          sq_selected r = None \<and> int (length (sq_results r)) < scheduled_count (sq_plan r))
     \<and> (sq_status r = GRID_EXHAUSTED \<longleftrightarrow>
          sq_selected r = None \<and> length (sq_results r) = length (sp_candidates (sq_plan r)))
     \<and> (case sq_next r of
          None \<Rightarrow> sq_status r \<noteq> NEXT_CANDIDATE
        | Some (rank, c, p) \<Rightarrow> sq_status r = NEXT_CANDIDATE \<and> rank = length (sq_results r) + 1
            \<and> c = sp_candidates (sq_plan r) ! length (sq_results r)
            \<and> protocol_of_candidate (st_codec st) (st_plan_reader st) plans (sq_plan r) c = Inr p)"
proof (rule evaluate_search_parts [OF assms])
  fix obs previous_sha256
  assume parts: "json_items observations = obs"
    "validate_search_plan (st_codec st) (st_plan_reader st) plans artifact = Inr (sq_plan r)"
    "evaluate_prefix st plans (sq_plan r) obs previous_sha256 = Inr r"
  let ?sp = "sq_plan r"
  from parts(3) obtain s where s: "int (length obs) \<le> scheduled_count ?sp"
    "evaluated st plans ?sp (submissions ?sp obs) s"
    "search_stop st plans ?sp (length obs) s = Inr (sq_status r, sq_next r)"
    "sq_results r = sg_results s" "sq_selected r = sg_selected s" "length (sq_results r) = length obs"
    by (rule evaluate_prefix_parts)
  from s(2) have ev: "list_all2 (judged st plans ?sp) (submissions ?sp obs) (sq_results r)"
    "list_all (\<lambda>x. result_status x \<noteq> REVERSAL_CANDIDATE)
       (if sq_selected r = None then sq_results r else butlast (sq_results r))"
    "\<forall>x. sq_selected r = Some x \<longrightarrow> sq_results r \<noteq> [] \<and> last (sq_results r) = x \<and> result_status x = REVERSAL_CANDIDATE"
    unfolding evaluated_def s(4,5) by blast+
  have earlier: "list_all (\<lambda>x. result_status x \<noteq> REVERSAL_CANDIDATE) (butlast (sq_results r))"
    using ev(2) by (auto simp: list_all_iff dest: in_set_butlastD split: if_splits)
  have selected: "sq_selected r = (if sq_results r \<noteq> [] \<and> result_status (last (sq_results r)) = REVERSAL_CANDIDATE
      then Some (last (sq_results r)) else None)"
    using ev(2,3) by (cases "sq_selected r") (auto simp: list_all_iff)
  obtain options gs ss as mc ms where made: "make_search_plan (st_codec st) (st_plan_reader st) plans options gs ss as mc ms = Inr ?sp"
    using searched_plan [OF parts(2)] by blast
  have nearest: "cp_status (sv_comparison x) = REVERSAL_CANDIDATE \<and> \<not> sv_overlaps x
      \<and> list_all (\<lambda>c. c = sv_candidate x \<or> c \<in> set (map sv_candidate (butlast (sq_results r)))
           \<or> rank_key (sv_candidate x) < rank_key c) (sp_candidates ?sp)" if x: "sq_selected r = Some x" for x
  proof -
    from ev(3) x have last: "sq_results r = butlast (sq_results r) @ [x]" "result_status x = REVERSAL_CANDIDATE"
      by (metis append_butlast_last_id)+
    have cands: "sp_candidates ?sp = map sv_candidate (butlast (sq_results r)) @ sv_candidate x # drop (length obs) (sp_candidates ?sp)"
      using judged_candidates [OF ev(1) s(1)] arg_cong [OF last(1), of "map sv_candidate"]
      by (metis (no_types) append.assoc append_Cons append_Nil append_take_drop_id list.simps(8,9) map_append)
    have "sorted_wrt (<) (map rank_key (sp_candidates ?sp))" by (rule ranked_strictly [OF made])
    then have far: "\<forall>c \<in> set (drop (length obs) (sp_candidates ?sp)). rank_key (sv_candidate x) < rank_key c"
      by (subst (asm) cands) (simp add: sorted_wrt_append)
    show ?thesis
      using last(2) far by (subst cands) (auto simp: result_status_def list_all_iff split: if_splits)
  qed
  show ?thesis
    using earlier selected nearest search_stop_ok [OF s(3,1)] unfolding s(6) s(5) [symmetric] by blast
qed

section \<open>Snapshots\<close>

lemma judge_extends:
  assumes "res_fold (judge_candidate st plans sp) s subs = Inr s'"
  shows "\<exists>xs. sg_results s' = sg_results s @ xs" "subs \<noteq> [] \<Longrightarrow> sg_selected s = None"
  using assms
proof (induction subs arbitrary: s)
  case (Cons sub subs)
  obtain rank c ob where sub: "sub = ((rank, c), ob)" by (metis prod.exhaust)
  {
    case 1
    then obtain u where u: "judge_candidate st plans sp s ((rank, c), ob) = Inr u" "res_fold (judge_candidate st plans sp) u subs = Inr s'"
      by (auto simp: sub elim: rbind_okE)
    from u(1) have "\<exists>x. sg_results u = sg_results s @ [x]" by (rule judge_candidate_ok) simp
    with Cons.IH(1) [OF u(2)] show ?case by force
  next
    case 2
    then obtain u where "judge_candidate st plans sp s ((rank, c), ob) = Inr u" by (auto simp: sub elim: rbind_okE)
    then show ?case by (rule judge_candidate_ok)
  }
qed auto

lemma submissions_append:
  "submissions sp (obs @ rest) = submissions sp obs @ zip (drop (length obs) (enumerate 1 (sp_candidates sp))) rest"
  using zip_append2 [of "enumerate 1 (sp_candidates sp)" obs rest] zip_append2 [of "enumerate 1 (sp_candidates sp)" obs "[]"]
  by (simp add: submissions_def)

text \<open>A longer prefix repeats what the shorter one said, and the shorter one was waiting for it.\<close>

lemma prefix_extends:
  assumes "evaluate_prefix st plans sp obs previous = Inr r" "evaluate_prefix st plans sp (obs @ rest) previous' = Inr r'"
    and "rest \<noteq> []"
  shows "take (length obs) (sq_results r') = sq_results r" "sq_status r = NEXT_CANDIDATE"
proof -
  from assms(1) obtain s where s: "int (length obs) \<le> scheduled_count sp"
    "res_fold (judge_candidate st plans sp) searching_start (submissions sp obs) = Inr s"
    "search_stop st plans sp (length obs) s = Inr (sq_status r, sq_next r)"
    "sq_results r = sg_results s" "length (sq_results r) = length obs" by (rule evaluate_prefix_parts)
  from assms(2) obtain s' where s': "int (length (obs @ rest)) \<le> scheduled_count sp"
    "res_fold (judge_candidate st plans sp) searching_start (submissions sp (obs @ rest)) = Inr s'"
    "sq_results r' = sg_results s'" by (rule evaluate_prefix_parts)
  note len = length_submissions(3) [OF s(1)] length_submissions(3) [OF s'(1)]
  let ?tail = "zip (drop (length obs) (enumerate 1 (sp_candidates sp))) rest"
  have tail: "res_fold (judge_candidate st plans sp) s ?tail = Inr s'"
    using s'(2) s(2) by (simp add: submissions_append res_fold_append)
  have "?tail \<noteq> []" using assms(3) len(2) by (cases rest) auto
  from judge_extends(2) [OF tail this] have "sg_selected s = None" .
  moreover have "int (length obs) < scheduled_count sp" using s'(1) assms(3) by (cases rest) auto
  ultimately show "sq_status r = NEXT_CANDIDATE" using search_stop_ok(2) [OF s(3,1)] by blast
  show "take (length obs) (sq_results r') = sq_results r"
    using judge_extends(1) [OF tail] s(4,5) s'(3) by auto
qed

lemma report_members:
  "search_report_json st r = JObj (plan_members (search_report_json st r))"
  "get_null (plan_members (search_report_json st r)) ''evaluated_candidates'' = JInt (int (length (sq_results r)))"
  "need (plan_members (search_report_json st r)) ''previous_report_sha256'' = Inr (sq_previous r)"
  "need (plan_members (search_report_json st r)) ''result_sha256'' = Inr (jstr (sq_sha256 r))"
proof -
  show "search_report_json st r = JObj (plan_members (search_report_json st r))"
    by (simp add: search_report_json_def jobj_def plan_members_def)
  show "get_null (plan_members (search_report_json st r)) ''evaluated_candidates'' = JInt (int (length (sq_results r)))"
    "need (plan_members (search_report_json st r)) ''previous_report_sha256'' = Inr (sq_previous r)"
    "need (plan_members (search_report_json st r)) ''result_sha256'' = Inr (jstr (sq_sha256 r))"
    unfolding search_report_json_def demo_fields by (simp_all add: search_report_fields_def)
qed

text \<open>
  C30: every report can be resumed. Given as the previous snapshot of a search with further observations, a
  report is accepted, and the search goes on from the same plan with the report's digest on record.
\<close>

theorem search_resumes:
  assumes "evaluate_search st artifact plans (JArr obs) previous = Inr r" and "prior_digest (sq_previous r) = Inr ()"
    and "cd_canonical (st_codec st) (search_report_json st r) \<noteq> None" and "rest \<noteq> []"
  shows "evaluate_search st artifact plans (JArr (obs @ rest)) (search_report_json st r)
    = guarded_link ''bounded search input'' (evaluate_prefix st plans (sq_plan r) (obs @ rest) (jstr (sq_sha256 r)))"
  using assms(1)
proof (rule evaluate_search_parts)
  fix obs' previous_sha256
  assume "JArr obs = JArr obs'" and plan: "validate_search_plan (st_codec st) (st_plan_reader st) plans artifact = Inr (sq_plan r)"
    and run: "evaluate_prefix st plans (sq_plan r) obs' previous_sha256 = Inr r"
  then have obs: "obs' = obs" by simp
  from run have "previous_sha256 = sq_previous r" "length (sq_results r) = length obs"
    unfolding obs by (auto elim!: evaluate_prefix_parts)
  with run have again: "evaluate_prefix st plans (sq_plan r) obs (sq_previous r) = Inr r" "length (sq_results r) = length obs"
    unfolding obs by simp_all
  obtain ms where ms: "search_report_json st r = JObj ms" "get_null ms ''evaluated_candidates'' = JInt (int (length (sq_results r)))"
    "need ms ''previous_report_sha256'' = Inr (sq_previous r)" "need ms ''result_sha256'' = Inr (jstr (sq_sha256 r))"
    using report_members by blast
  have same: "require_same (st_codec st) (JObj ms) (JObj ms) e = Inr ()" for e
    using assms(3) unfolding ms(1) by (rule regenerated_same)
  have "resume_from st plans (sq_plan r) (obs @ rest) (JObj ms) = Inr (jstr (sq_sha256 r))"
    unfolding resume_from_def json.case ms(2-4)
    using assms(2,4) again by (simp add: lift_artifact_def refuse_if_def ms(1) same)
  then show ?thesis by (simp add: evaluate_search_def plan lift_artifact_def ms(1))
qed

text \<open>
  C26: a snapshot cannot rewrite what was submitted. A search that accepts a previous snapshot has regenerated
  it from a shorter prefix of its own evidence, up to spelling; that prefix was waiting for evidence, and its
  results are the first results of the longer search, unchanged.
\<close>

theorem search_keeps_history:
  assumes "codec_faithful (st_codec st)" and "evaluate_search st artifact plans observations (JObj previous) = Inr r"
  shows "\<exists>n earlier. n < length (json_items observations)
     \<and> evaluate_prefix st plans (sq_plan r) (take n (json_items observations)) (get_null previous ''previous_report_sha256'')
         = Inr earlier
     \<and> same_document (JObj previous) (search_report_json st earlier)
     \<and> sq_status earlier = NEXT_CANDIDATE \<and> sq_results earlier = take n (sq_results r)
     \<and> sq_previous r = get_null previous ''result_sha256''"
proof (rule evaluate_search_parts [OF assms(2)])
  fix obs sha
  assume obs: "json_items observations = obs" and resume: "resume_from st plans (sq_plan r) obs (JObj previous) = Inr sha"
    and run: "evaluate_prefix st plans (sq_plan r) obs sha = Inr r"
  from resume obtain n parent earlier where parts: "0 \<le> n" "n < int (length obs)"
    "need previous ''previous_report_sha256'' = Inr parent"
    "evaluate_prefix st plans (sq_plan r) (take (nat n) obs) parent = Inr earlier"
    "require_same (st_codec st) (JObj previous) (search_report_json st earlier)
       (Refused ''previous snapshot differs from regenerated evidence prefix'') = Inr ()"
    "need previous ''result_sha256'' = Inr sha"
    unfolding resume_from_def json.case
    by (auto elim!: rbind_okE simp: lift_artifact_def refuse_if_def split: json.splits sum.splits)
  have need: "need ms key = Inr v \<Longrightarrow> get_null ms key = v" for ms key v
    by (auto simp: need_def get_null_def split: option.splits)
  have n: "nat n < length obs" using parts(1,2) by linarith
  then have tail: "drop (nat n) obs \<noteq> []" "take (nat n) obs @ drop (nat n) obs = obs" "length (take (nat n) obs) = nat n"
    by simp_all
  note extends = prefix_extends [OF parts(4), of "drop (nat n) obs" sha r, unfolded tail(2,3), OF run tail(1)]
  have "sq_previous r = sha" using run by (rule evaluate_prefix_parts)
  then show ?thesis
    using n parts(4) need [OF parts(3)] need [OF parts(6)] require_same_documents [OF assms(1) parts(5)] extends
    unfolding obs by (intro exI [of _ "nat n"] exI [of _ earlier]) simp
qed

section \<open>A concrete evaluation\<close>

lemma demo_searched:
  "\<exists>sp c p r. validate_search_plan demo_codec demo_reader demo_plans (search_plan_json sp) = Inr sp
     \<and> sp_candidates sp = [c] \<and> scheduled_count sp = 1
     \<and> protocol_of_candidate demo_codec demo_reader demo_plans sp c = Inr p
     \<and> make_protocol demo_codec demo_reader demo_plans demo_options = Inr p \<and> pc_options p = demo_opts
     \<and> compare demo_study (protocol_json p) demo_plans (JArr (demo_inputs p)) = Inr r \<and> cp_status r = REVERSAL_CANDIDATE
     \<and> sc_parameters c = demo_recipe 100 \<and> sp_options sp = demo_search_options"
proof -
  obtain p r where p: "make_protocol demo_codec demo_reader demo_plans demo_options = Inr p" "pc_options p = demo_opts"
    "compare demo_study (protocol_json p) demo_plans (JArr (demo_inputs p)) = Inr r" "cp_status r = REVERSAL_CANDIDATE"
    using demo_compared by blast
  obtain sp c where sp: "make_search_plan demo_codec demo_reader demo_plans (JObj demo_search_options)
       (JArr [JInt 2]) (JArr [JInt 5000]) (JArr [JInt 100, JInt 0]) (JInt 4) (JInt 64) = Inr sp"
    "sp_candidates sp = [c]" "sc_moved_offers c = 8" "sc_parameters c = demo_recipe 100"
    "sp_options sp = demo_search_options" "scheduled_count sp = 1" using demo_search by blast
  have "list_all (\<lambda>c. sc_moved_offers c \<le> max_exact_integer) (sp_candidates sp)"
    using sp(2,3) by (simp add: max_exact_integer_def)
  from plain_search_plan_accepted [OF sp(1) search_plan_plain [OF sp(1) this]]
  have valid: "validate_search_plan demo_codec demo_reader demo_plans (search_plan_json sp) = Inr sp"
    by (simp add: demo_canonical)
  have made: "make_protocol demo_codec demo_reader demo_plans (candidate_options (demo_recipe 100) demo_search_options) = Inr p"
    by (rule make_protocol_cong [OF p(1) demo_candidate_options])
  have "candidate_exact demo_codec demo_reader demo_plans demo_search_options c"
    using grid_candidates [OF sp(1)] sp(2,5) by simp
  then have "sc_protocol_sha256 c = pc_sha256 p" using made by (auto simp: candidate_exact_def sp(4))
  then have "protocol_of_candidate demo_codec demo_reader demo_plans sp c = Inr p"
    unfolding protocol_of_candidate_def sp(4,5) made by simp
  with valid sp p show ?thesis by blast
qed

text \<open>A comparison that has seen just what was tracked so far.\<close>

definition seen_trials :: "trial list \<Rightarrow> comparing" where
  "seen_trials ts = comparing_start\<lparr>cg_seen := map tr_trial_id ts, cg_results := map (\<lambda>t. jstr (trial_sha t)) ts,
     cg_requests := concat (map (\<lambda>t. map (trial_identity (tr_sequence t)) ''abcd'') ts), cg_sequence := length ts,
     cg_counts := (\<lambda>k. if k \<in> trial_key ` set ts then Some (key_count k) else None)\<rparr>"

lemma seen_trials_accepted: "accepted ts (seen_trials ts)"
  by (simp add: accepted_def seen_trials_def comparing_start_def)

lemma demo_window:
  assumes "next_trial p ts t"
  shows "\<exists>w. item_window p demo_plans (jobj (trial_members t)) = Inr w \<and> 0 \<le> fst w"
proof -
  note fields = next_trial_fields [OF assms]
  have items: "item_of (jobj (trial_members t)) ''result'' = Inr (timed_result (int (tr_block t)) (tr_policy t) (tr_sequence t) (good_trial t))"
    "item_of (jobj (trial_members t)) ''trial_id'' = Inr (jstr (tr_trial_id t))"
    by (simp_all add: trial_members_def item_jobj)
  have found: "find_trial p (jstr (tr_trial_id t)) = Some t" using assms by (simp add: next_trial_def)
  show ?thesis
    unfolding item_window_def items rbind.simps result_items demo_started [OF fields(2)] found option.case fields(3)
    by (simp add: json_items_def demo_finish)
qed

lemma demo_tracked:
  assumes "make_protocol demo_codec demo_reader demo_plans demo_options = Inr p" "pc_options p = demo_opts" "m \<le> 32"
  shows "\<exists>s. res_fold (track_item p demo_plans) \<lparr>tk_requests = [], tk_results = [], tk_windows = []\<rparr>
      (take m (demo_inputs p)) = Inr s
    \<and> tk_results s = cg_results (seen_trials (take m (pc_trials p)))
    \<and> tk_requests s = cg_requests (seen_trials (take m (pc_trials p))) \<and> list_all (\<lambda>w. 0 \<le> fst w) (tk_windows s)"
  using assms(3)
proof (induction m)
  case (Suc m)
  then obtain s where s: "res_fold (track_item p demo_plans) \<lparr>tk_requests = [], tk_results = [], tk_windows = []\<rparr>
      (take m (demo_inputs p)) = Inr s"
    "tk_results s = cg_results (seen_trials (take m (pc_trials p)))"
    "tk_requests s = cg_requests (seen_trials (take m (pc_trials p)))" "list_all (\<lambda>w. 0 \<le> fst w) (tk_windows s)" by auto
  from Suc.prems have m: "m < 32" by simp
  define t where "t = pc_trials p ! m"
  note len = demo_next(1) [OF assms(1,2) m] and nxt = demo_next(2) [OF assms(1,2) m, folded t_def]
  obtain w where w: "item_window p demo_plans (jobj (trial_members t)) = Inr w" "0 \<le> fst w" using demo_window [OF nxt] by blast
  have items: "item_of (jobj (trial_members t)) ''result'' = Inr (timed_result (int (tr_block t)) (tr_policy t) (tr_sequence t) (good_trial t))"
    by (simp add: trial_members_def item_jobj)
  note fresh = fresh_result [OF seen_trials_accepted nxt] fresh_requests [OF seen_trials_accepted nxt]
  have "track_item p demo_plans s (jobj (trial_members t))
      = Inr \<lparr>tk_requests = tk_requests s @ map (trial_identity (tr_sequence t)) ''abcd'',
             tk_results = tk_results s @ [jstr (trial_sha t)], tk_windows = tk_windows s @ [w]\<rparr>"
    unfolding track_item_def items rbind.simps result_items w(1) s(2,3) refuse_if_def
    using fresh by (simp add: trial_sha_def [symmetric] del: jstr_eq)
  moreover have "take (Suc m) (pc_trials p) = take m (pc_trials p) @ [t]" "take (Suc m) (demo_inputs p) = take m (demo_inputs p) @ [jobj (trial_members t)]"
    using m len by (simp_all add: take_Suc_conv_app_nth t_def demo_inputs_def)
  ultimately show ?case using s w(2) by (simp add: res_fold_append seen_trials_def)
qed (simp add: seen_trials_def comparing_start_def)

definition demo_observation :: "protocol \<Rightarrow> json" where
  "demo_observation p = jobj [(''candidate_id'', jstr (candidate_id 1)), (''inputs'', JArr (demo_inputs p))]"

lemma demo_judged:
  assumes "protocol_of_candidate demo_codec demo_reader demo_plans sp c = Inr p"
    and "make_protocol demo_codec demo_reader demo_plans demo_options = Inr p" "pc_options p = demo_opts"
    and "compare demo_study (protocol_json p) demo_plans (JArr (demo_inputs p)) = Inr r" "cp_status r = REVERSAL_CANDIDATE"
  shows "\<exists>s x. judge_candidate demo_study demo_plans sp searching_start ((1, c), demo_observation p) = Inr s
    \<and> sg_selected s = Some x \<and> sv_candidate x = c \<and> sv_comparison x = r \<and> sv_protocol_sha256 x = pc_sha256 p"
proof -
  define ms where "ms = plan_members (demo_observation p)"
  have ob: "demo_observation p = JObj ms" "same_fields ms observation_fields"
    "get_null ms ''candidate_id'' = jstr (candidate_id 1)" "get_null ms ''inputs'' = JArr (demo_inputs p)"
    by (simp_all add: ms_def demo_observation_def jobj_def plan_members_def same_fields_def observation_fields_def)
  have "take 32 (demo_inputs p) = demo_inputs p" using demo_next(1) [OF assms(2,3), of 0] by (simp add: demo_inputs_def)
  then obtain s where s: "res_fold (track_item p demo_plans) \<lparr>tk_requests = [], tk_results = [], tk_windows = []\<rparr> (demo_inputs p) = Inr s"
    "list_all (\<lambda>w. 0 \<le> fst w) (tk_windows s)"
    using demo_tracked [OF assms(2,3), of 32] by auto
  have windows: "\<not> overlapping 0 (tk_windows s)"
    using s(2) by (cases "tk_windows s = []") (simp_all add: overlapping_def list_all_iff not_less Min_ge_iff)
  have study: "st_codec demo_study = demo_codec" "st_plan_reader demo_study = demo_reader" by (simp_all add: demo_study_def)
  have fields: "fields_of (JObj ms) observation_fields l = Inr ms" for l by (simp add: fields_of_def ob(2))
  have start: "sg_selected searching_start = None" "sg_seen_requests searching_start = []" "sg_seen_results searching_start = []"
    "sg_end searching_start = 0"
    by (simp_all add: searching_start_def)
  show ?thesis
    unfolding judge_candidate_def prod.case ob(1) fields rbind.simps ob(3,4) study assms(1,4) start json_items_def json.case
    by (simp add: refuse_if_def lift_artifact_def s(1) windows result_status_def Let_def assms(4,5) del: list.map)
qed

lemma demo_report: "\<exists>d. link_digest (st_codec demo_study) (jobj (search_report_fields demo_study r)) = Inr d"
proof -
  have "\<not> marked_document (jobj (search_report_fields demo_study r))" by (simp add: search_report_fields_def)
  then show ?thesis by (simp add: link_digest_def demo_study_def demo_digest)
qed

text \<open>The search before and after its only candidate was submitted.\<close>

definition demo_found :: "search_plan \<Rightarrow> protocol \<Rightarrow> search_report \<Rightarrow> bool" where
  "demo_found sp p r \<longleftrightarrow> sq_plan r = sp \<and> sq_status r = CANDIDATE_FOUND
     \<and> (\<exists>c x. sp_candidates sp = [c] \<and> sq_selected r = Some x \<and> sv_candidate x = c \<and> sv_protocol_sha256 x = pc_sha256 p)"

lemma demo_prefixes:
  "\<exists>sp p. validate_search_plan demo_codec demo_reader demo_plans (search_plan_json sp) = Inr sp
     \<and> (\<forall>previous. \<exists>r. evaluate_prefix demo_study demo_plans sp [] previous = Inr r)
     \<and> (\<forall>previous. \<exists>r. evaluate_prefix demo_study demo_plans sp [demo_observation p] previous = Inr r \<and> demo_found sp p r)
     \<and> make_protocol demo_codec demo_reader demo_plans demo_options = Inr p \<and> pc_options p = demo_opts
     \<and> (\<exists>c. sp_candidates sp = [c] \<and> sc_parameters c = demo_recipe 100
          \<and> protocol_of_candidate demo_codec demo_reader demo_plans sp c = Inr p)
     \<and> sp_options sp = demo_search_options"
proof -
  obtain sp c p r where sp: "validate_search_plan demo_codec demo_reader demo_plans (search_plan_json sp) = Inr sp"
    "sp_candidates sp = [c]" "scheduled_count sp = 1"
    "protocol_of_candidate demo_codec demo_reader demo_plans sp c = Inr p"
    "make_protocol demo_codec demo_reader demo_plans demo_options = Inr p" "pc_options p = demo_opts"
    "compare demo_study (protocol_json p) demo_plans (JArr (demo_inputs p)) = Inr r" "cp_status r = REVERSAL_CANDIDATE"
    "sc_parameters c = demo_recipe 100" "sp_options sp = demo_search_options" using demo_searched by blast
  have study: "st_codec demo_study = demo_codec" "st_plan_reader demo_study = demo_reader" by (simp_all add: demo_study_def)
  obtain s x where s: "judge_candidate demo_study demo_plans sp searching_start ((1, c), demo_observation p) = Inr s"
    "sg_selected s = Some x" "sv_candidate x = c" "sv_protocol_sha256 x = pc_sha256 p"
    using demo_judged [OF sp(4-8)] by blast
  have start: "search_stop demo_study demo_plans sp 0 searching_start = Inr (NEXT_CANDIDATE, Some (1, c, p))"
    unfolding search_stop_def sp(2,3) nth_Cons_0 Let_def study sp(4) by (simp add: searching_start_def lift_artifact_def)
  have finish: "search_stop demo_study demo_plans sp (Suc 0) s = Inr (CANDIDATE_FOUND, None)"
    by (simp add: search_stop_def s(2))
  have digest: "is_ok (link_digest demo_codec (jobj (search_report_fields demo_study r)))" for r
    using demo_report [of r] by (auto simp: study)
  have "\<exists>r. evaluate_prefix demo_study demo_plans sp [] previous = Inr r" for previous
    unfolding evaluate_prefix_def
    using digest by (simp add: refuse_if_def sp(3) start Let_def study is_ok_iff result_simps del: list.map)
  moreover have "\<exists>r. evaluate_prefix demo_study demo_plans sp [demo_observation p] previous = Inr r \<and> demo_found sp p r" for previous
    unfolding evaluate_prefix_def demo_found_def
    using digest finish s by (fastforce simp: refuse_if_def sp(2,3) Let_def study is_ok_iff result_simps simp del: list.map)
  ultimately show ?thesis using sp by blast
qed

lemma demo_evaluations:
  "\<exists>sp p r r'. evaluate_search demo_study (search_plan_json sp) demo_plans (JArr []) JNull = Inr r
     \<and> sq_plan r = sp \<and> sq_previous r = JNull
     \<and> (\<forall>previous. \<exists>r'. evaluate_prefix demo_study demo_plans sp [demo_observation p] previous = Inr r')
     \<and> evaluate_search demo_study (search_plan_json sp) demo_plans (JArr [demo_observation p]) JNull = Inr r'
     \<and> demo_found sp p r'"
proof -
  obtain sp p where sp: "validate_search_plan demo_codec demo_reader demo_plans (search_plan_json sp) = Inr sp"
    "\<forall>previous. \<exists>r. evaluate_prefix demo_study demo_plans sp [] previous = Inr r"
    "\<forall>previous. \<exists>r. evaluate_prefix demo_study demo_plans sp [demo_observation p] previous = Inr r \<and> demo_found sp p r"
    using demo_prefixes by blast
  have study: "st_codec demo_study = demo_codec" "st_plan_reader demo_study = demo_reader" by (simp_all add: demo_study_def)
  have run: "evaluate_search demo_study (search_plan_json sp) demo_plans (JArr obs) JNull = Inr r"
    if "evaluate_prefix demo_study demo_plans sp obs JNull = Inr r" for obs r
    unfolding evaluate_search_def study sp(1) by (simp add: lift_artifact_def resume_from_def that del: list.map)
  obtain r r' where r: "evaluate_prefix demo_study demo_plans sp [] JNull = Inr r"
    "evaluate_prefix demo_study demo_plans sp [demo_observation p] JNull = Inr r'" "demo_found sp p r'" using sp(2,3) by blast
  have "sq_plan r = sp" "sq_previous r = JNull" using r(1) by (auto elim: evaluate_prefix_parts)
  with run [OF r(1)] run [OF r(2)] r(3) sp(3) show ?thesis by blast
qed

lemma search_accounts_evidence_witness:
  "\<exists>sp p r. evaluate_search demo_study (search_plan_json sp) demo_plans (JArr [demo_observation p]) JNull = Inr r
     \<and> length (sq_results r) = 1
     \<and> list_all2 (judged demo_study demo_plans (sq_plan r)) (submissions (sq_plan r) [demo_observation p]) (sq_results r)
     \<and> distinct (observed_results (demo_observation p))"
proof -
  obtain sp p r where r: "evaluate_search demo_study (search_plan_json sp) demo_plans (JArr [demo_observation p]) JNull = Inr r"
    using demo_evaluations by blast
  with search_accounts_evidence [OF r] show ?thesis by (intro exI [of _ sp] exI [of _ p] exI [of _ r]) (simp add: json_items_def)
qed

lemma search_selects_nearest_witness:
  "\<exists>sp p r. evaluate_search demo_study (search_plan_json sp) demo_plans (JArr [demo_observation p]) JNull = Inr r
     \<and> sq_status r = CANDIDATE_FOUND \<and> sq_selected r = Some (last (sq_results r))
     \<and> result_status (last (sq_results r)) = REVERSAL_CANDIDATE"
proof -
  obtain sp p r where r: "evaluate_search demo_study (search_plan_json sp) demo_plans (JArr [demo_observation p]) JNull = Inr r"
    "demo_found sp p r" using demo_evaluations by blast
  have found: "sq_status r = CANDIDATE_FOUND" using r(2) by (auto simp: demo_found_def)
  with search_selects_nearest [OF r(1)] have "sq_selected r = Some (last (sq_results r))"
    "result_status (last (sq_results r)) = REVERSAL_CANDIDATE" by (meson option.distinct(1))+
  with found r(1) show ?thesis by blast
qed

lemma search_resumes_witness:
  "\<exists>sp p r r'. evaluate_search demo_study (search_plan_json sp) demo_plans (JArr []) JNull = Inr r
     \<and> evaluate_search demo_study (search_plan_json sp) demo_plans (JArr [demo_observation p])
         (search_report_json demo_study r) = Inr r'"
proof -
  obtain sp p r where r: "evaluate_search demo_study (search_plan_json sp) demo_plans (JArr []) JNull = Inr r"
    "sq_plan r = sp" "sq_previous r = JNull"
    "\<forall>previous. \<exists>r'. evaluate_prefix demo_study demo_plans sp [demo_observation p] previous = Inr r'"
    using demo_evaluations by blast
  have canonical: "cd_canonical (st_codec demo_study) (search_report_json demo_study r) \<noteq> None"
    by (simp add: demo_study_def demo_canonical)
  obtain r' where "evaluate_prefix demo_study demo_plans sp [demo_observation p] (jstr (sq_sha256 r)) = Inr r'"
    using r(4) by blast
  then have "evaluate_search demo_study (search_plan_json sp) demo_plans (JArr [demo_observation p])
      (search_report_json demo_study r) = Inr r'"
    using search_resumes [OF r(1) _ canonical, of "[demo_observation p]"] r(2,3)
    by (simp add: prior_digest_def del: list.map)
  with r(1) show ?thesis by blast
qed

text \<open>A search continued from the report before its first candidate.\<close>

lemma demo_continued:
  "\<exists>sp p previous r. evaluate_search demo_study (search_plan_json sp) demo_plans (JArr [demo_observation p])
     (JObj previous) = Inr r"
proof -
  obtain sp p where sp: "validate_search_plan demo_codec demo_reader demo_plans (search_plan_json sp) = Inr sp"
    "\<forall>previous. \<exists>r. evaluate_prefix demo_study demo_plans sp [] previous = Inr r"
    "\<forall>previous. \<exists>r. evaluate_prefix demo_study demo_plans sp [demo_observation p] previous = Inr r \<and> demo_found sp p r"
    using demo_prefixes by blast
  have study: "st_codec demo_study = demo_codec" "st_plan_reader demo_study = demo_reader" by (simp_all add: demo_study_def)
  obtain r where r: "evaluate_prefix demo_study demo_plans sp [] JNull = Inr r" using sp(2) by blast
  then have first: "sq_previous r = JNull" "sq_results r = []" by (auto elim!: evaluate_prefix_parts)
  obtain ms where ms: "search_report_json demo_study r = JObj ms" "get_null ms ''evaluated_candidates'' = JInt (int (length (sq_results r)))"
    "need ms ''previous_report_sha256'' = Inr (sq_previous r)" "need ms ''result_sha256'' = Inr (jstr (sq_sha256 r))"
    using report_members by blast
  have same: "require_same demo_codec (JObj ms) (JObj ms) e = Inr ()" for e
    by (rule regenerated_same) (simp add: demo_canonical)
  have "resume_from demo_study demo_plans sp [demo_observation p] (JObj ms) = Inr (jstr (sq_sha256 r))"
    unfolding resume_from_def json.case ms(2-4) study
    by (simp add: lift_artifact_def refuse_if_def ms(1) first same prior_digest_def r del: list.map)
  moreover obtain r' where "evaluate_prefix demo_study demo_plans sp [demo_observation p] (jstr (sq_sha256 r)) = Inr r'"
    using sp(3) by blast
  ultimately have "evaluate_search demo_study (search_plan_json sp) demo_plans (JArr [demo_observation p]) (JObj ms) = Inr r'"
    unfolding evaluate_search_def study sp(1) by (simp add: lift_artifact_def del: list.map)
  then show ?thesis by blast
qed

lemma search_keeps_history_witness:
  "\<exists>sp p previous r earlier. evaluate_search demo_study (search_plan_json sp) demo_plans (JArr [demo_observation p])
       (JObj previous) = Inr r
     \<and> same_document (JObj previous) (search_report_json demo_study earlier) \<and> sq_status earlier = NEXT_CANDIDATE
     \<and> sq_results earlier = take 0 (sq_results r)"
proof -
  have faithful: "codec_faithful (st_codec demo_study)" by (simp add: demo_study_def demo_faithful)
  obtain sp p previous r where r: "evaluate_search demo_study (search_plan_json sp) demo_plans (JArr [demo_observation p])
     (JObj previous) = Inr r" using demo_continued by blast
  from search_keeps_history [OF faithful r] obtain n earlier where
    "n < length (json_items (JArr [demo_observation p]))" "same_document (JObj previous) (search_report_json demo_study earlier)"
    "sq_status earlier = NEXT_CANDIDATE" "sq_results earlier = take n (sq_results r)" by blast
  moreover from this(1) have "n = 0" by (simp add: json_items_def)
  ultimately show ?thesis using r by blast
qed

end
