(* ===== verification/Spec2Isabelle.thy ===== *)
theory Spec2Isabelle
  imports Router Affinity Parsing Stream Reducer Workspace Observations Lifecycle Links Reduction Pairing TimedResults Comparing Searching Evaluating
begin

text \<open>
  Verification library of the inferdrome measurement core (\<open>src/src/inferdrome\<close>).

  The program. Inferdrome runs LLM-serving experiments and reports measurements that can be recomputed.
  A run is reserved as a workspace directory and moves through a graph of run states. Requests go
  through a streaming router that picks one of two replicas by a policy; each response is a stream of
  server-sent events that is parsed as it arrives. The records of a run are reduced to exact metrics.
  On top of this a search looks for arrival timings under which the better of two policies changes: a
  plan is compressed in time, two policies are compared in paired blocks, and a found reversal is
  reduced to as few groups of moved arrivals as the evidence supports. Every artifact in that chain is
  checked by regenerating it.

  Theories, in order of dependence, with the code they model:

  \<^item> \<open>Prelude\<close>: results of computations that may raise (\<open>res\<close>, \<open>rbind\<close>, \<open>res_fold\<close>, \<open>res_map\<close>), decimal
    rendering; the collections \<open>result_simps\<close> and \<open>inv_intros\<close>.
  \<^item> \<open>Quantiles\<close>, \<open>Metrics\<close>, \<open>Records\<close>, \<open>Reducer\<close>: \<open>metrics/quantiles.py\<close>, \<open>domain/metrics.py\<close>,
    \<open>domain/request_record.py\<close>, \<open>domain/execution.py\<close>, \<open>metrics/reducer.py\<close>. Exact percentiles and decimal
    ratios; the rows a valid population reduces to.
  \<^item> \<open>RunStates\<close>, \<open>Workspace\<close>: \<open>domain/states.py\<close>, \<open>workspace/run_workspace.py\<close>. The abstract history of a
    workspace, what directory represents it, and crash safety of transitions.
  \<^item> \<open>Policies\<close>, \<open>Observations\<close>: \<open>evaluation/policies.py\<close>, \<open>evaluation/contracts.py\<close>,
    \<open>evaluation/observations.py\<close>. Routing decisions, and the published snapshots they are made on.
  \<^item> \<open>Text\<close>, \<open>Affinity\<close>, \<open>Parsing\<close>, \<open>Stream\<close>: strict UTF-8 and JSON values; \<open>vllm_affinity.py\<close>, \<open>parsing.py\<close>,
    \<open>evaluation/stream.py\<close>. Code points are naturals, bytes are characters.
  \<^item> \<open>Router\<close>: \<open>vllm_router.py\<close>. Requests as frames that suspend at every await; a step relation
    interleaves them, with cancellation, disconnection and failing writes at every suspension.
  \<^item> \<open>Lifecycle\<close>: \<open>deployment/lifecycle.py\<close> and \<open>execution/cancellation.py\<close>. Adapters are functions of a
    world that may raise; cleanup runs whatever they do.
  \<^item> \<open>Artifacts\<close>, \<open>Timing\<close>: \<open>vllm_arrival_timing.py\<close>, \<open>vllm_reduced_timing.py\<close>, the masks of
    \<open>vllm_reduced_protocol.py\<close>. Reading JSON artifacts, compression of arrivals, restoring groups.
  \<^item> \<open>Links\<close>: \<open>vllm_request_identity.py\<close>. The join of client results with the router ledger.
  \<^item> \<open>Pairing\<close>: \<open>vllm_paired_protocol.py\<close> and the protocols of \<open>vllm_reduced_protocol.py\<close>. The balanced design
    of paired blocks and the exact directional test.
  \<^item> \<open>TimedResults\<close>: \<open>vllm_timed_result.py\<close>, and of \<open>vllm_router_study.py\<close> the reduction \<open>summarize\<close> and the
    validation of token certificates. The client rows of one timed trial, checked against its plan and
    recomputed into a summary.
  \<^item> \<open>Comparing\<close>: \<open>vllm_paired_comparison.py\<close>. All trials of a protocol checked, accounted for and tested;
    the report with its reasons, blocks and verdict. It rests on \<open>Pairing\<close>, \<open>TimedResults\<close> and \<open>Links\<close>.
  \<^item> \<open>Searching\<close>: \<open>vllm_search_plan.py\<close>. The grid of timing recipes, the candidates it stands for, their
    ranking and budget, and the protocol of a candidate.
  \<^item> \<open>Evaluating\<close>: \<open>vllm_bounded_search.py\<close>. The evidence of a prefix of candidates is compared anew; where the
    search stops, what it selects, and how a later search continues a snapshot. It rests on \<open>Searching\<close> and
    \<open>Comparing\<close>.
  \<^item> \<open>Reduction\<close>: \<open>vllm_witness_reducer.py\<close>. The reduction of a found reversal, as a loop over evidence.

  Conventions. A class or a dictionary with fixed keys is a record, an enumeration a datatype, a raised
  exception the left of a sum; Python integers are \<open>int\<close>, counts that only index are \<open>nat\<close>, exact
  fractions are \<open>rat\<close>; times are nanoseconds. JSON that is only checked stays a value of \<open>json\<close>. Dynamic
  type tests that a HOL type makes true are left out. Loops are structural recursion or folds; the
  reduction loop is a partial function whose termination is a theorem, and no fuel is used anywhere.

  Parameters. Code that is not under \<open>src/\<close> is an argument: RFC 8785 encoding and SHA-256 (the record
  \<open>codec\<close>), JSON and YAML decoding, the file system's failures, the event loop's choice of the next
  task, adapters and callbacks. The trace recipe \<open>validate_plan\<close> draws from \<open>random.Random\<close> with floats and
  is an argument too; the offers it returns are checked by the code itself, and by the model. The record
  \<open>study\<close> adds the compact \<open>json.dumps\<close> of a ledger, the literal of the double nearest to a fraction and
  the integer a float literal denotes. What is read from equal bytes needs the hypothesis \<open>codec_faithful\<close>:
  documents with the same canonical bytes differ at most in member order and number spelling (RFC 8785).

  Interfaces. Where one component relies on laws of another the laws are a locale, proved from inside
  and interpreted on the code's definitions in the theory of the provider.

  Not modelled: command lines, the dashboard and its front end, cloud transports and supervisors,
  Kubernetes manifests, GPU capture, container and process control, schema generation - input and output
  of external tools; file locking and work budgets of the workspace; a second cancellation while the
  router is already cleaning up; the order in which a semaphore wakes its waiters is left open rather
  than fixed. The held-out confirmation is the next part of the
  chain.
\<close>

end
